(* ===== verification/Prelude.thy ===== *)
theory Prelude
  imports Main "HOL-Library.AList" "HOL-Library.Sublist"
begin

text \<open>
  Shared vocabulary of the development: the Rust \<open>Vec\<close> operations the modelled code uses
  (\<open>position\<close>, \<open>remove\<close>, \<open>insert\<close>, \<open>drain(..n)\<close>), the hash map as an association list
  (its order stands for the unspecified iteration order of \<open>HashMap\<close>), saturating
  arithmetic, and the generic lemmas about them.  \<open>vec_simps\<close> collects the facts about the
  vector operations, \<open>store_simps\<close> those about the association-list store.
\<close>

named_theorems vec_simps
named_theorems store_simps

section \<open>Vectors\<close>

text \<open>\<open>iter().position(p)\<close>: the index of the first match.\<close>

fun position :: "('a \<Rightarrow> bool) \<Rightarrow> 'a list \<Rightarrow> nat option" where
  "position p [] = None"
| "position p (x # xs) = (if p x then Some 0 else map_option Suc (position p xs))"

text \<open>\<open>iter().rposition(p)\<close>: the index of the last match.\<close>

fun rposition :: "('a \<Rightarrow> bool) \<Rightarrow> 'a list \<Rightarrow> nat option" where
  "rposition p [] = None"
| "rposition p (x # xs) =
     (case rposition p xs of Some i \<Rightarrow> Some (Suc i) | None \<Rightarrow> if p x then Some 0 else None)"

definition vec_remove :: "nat \<Rightarrow> 'a list \<Rightarrow> 'a list" where
  "vec_remove i xs = take i xs @ drop (Suc i) xs"

definition vec_insert :: "nat \<Rightarrow> 'a \<Rightarrow> 'a list \<Rightarrow> 'a list" where
  "vec_insert i x xs = take i xs @ x # drop i xs"

definition keep_last :: "nat \<Rightarrow> 'a list \<Rightarrow> 'a list" where
  "keep_last n xs = drop (length xs - n) xs"

lemma position_None [vec_simps]: "position p xs = None \<longleftrightarrow> (\<forall>x\<in>set xs. \<not> p x)"
  by (induction xs) auto

lemma position_SomeD:
  "position p xs = Some i \<Longrightarrow> i < length xs \<and> p (xs ! i) \<and> (\<forall>j<i. \<not> p (xs ! j))"
proof (induction xs arbitrary: i)
  case Nil
  then show ?case by simp
next
  case (Cons x xs)
  show ?case
  proof (cases "p x")
    case True
    with Cons.prems show ?thesis by auto
  next
    case False
    with Cons.prems obtain k where k: "position p xs = Some k" "i = Suc k" by auto
    from Cons.IH [OF k(1)] False k(2) show ?thesis
      by (auto simp: nth_Cons split: nat.splits)
  qed
qed

lemma position_ex: "x \<in> set xs \<Longrightarrow> p x \<Longrightarrow> \<exists>i. position p xs = Some i"
  by (metis not_None_eq position_None)

lemma rposition_None [vec_simps]: "rposition p xs = None \<longleftrightarrow> (\<forall>x\<in>set xs. \<not> p x)"
  by (induction xs) (auto split: option.splits)

lemma rposition_SomeD:
  "rposition p xs = Some i \<Longrightarrow>
     i < length xs \<and> p (xs ! i) \<and> (\<forall>j. i < j \<longrightarrow> j < length xs \<longrightarrow> \<not> p (xs ! j))"
proof (induction xs arbitrary: i)
  case Nil
  then show ?case by simp
next
  case (Cons x xs)
  show ?case
  proof (cases "rposition p xs")
    case None
    then have none: "\<forall>y\<in>set xs. \<not> p y" by (simp add: vec_simps)
    from None Cons.prems have "i = 0" "p x" by (auto split: if_splits)
    with none show ?thesis by (auto simp: nth_Cons split: nat.splits)
  next
    case (Some k)
    with Cons.prems have "i = Suc k" by simp
    with Cons.IH [OF Some] show ?thesis by (auto simp: nth_Cons split: nat.splits)
  qed
qed

lemma vec_remove_split:
  "i < length xs \<Longrightarrow> xs = take i xs @ xs ! i # drop (Suc i) xs"
  by (simp add: id_take_nth_drop)

lemma set_vec_remove_subset [vec_simps]: "set (vec_remove i xs) \<subseteq> set xs"
  unfolding vec_remove_def using set_take_subset set_drop_subset by (metis Un_least set_append)

lemma subseq_vec_remove [vec_simps]: "subseq (vec_remove i xs) xs"
proof -
  have "subseq (drop (Suc i) xs) (drop i xs)"
    by (metis drop_Suc drop_tl list_emb.intros(2) list.exhaust_sel list.sel(2) subseq_order.refl)
  then have "subseq (take i xs @ drop (Suc i) xs) (take i xs @ drop i xs)"
    by (intro list_emb_append_mono) simp_all
  then show ?thesis by (simp add: vec_remove_def)
qed

lemma vec_remove_distinct:
  assumes "distinct (map f xs)" and "i < length xs"
  shows "vec_remove i xs = filter (\<lambda>x. f x \<noteq> f (xs ! i)) xs"
proof -
  have split: "xs = take i xs @ xs ! i # drop (Suc i) xs"
    using assms(2) by (rule vec_remove_split)
  have d: "distinct (map f (take i xs @ xs ! i # drop (Suc i) xs))"
    using assms(1) split by simp
  have a: "filter (\<lambda>x. f x \<noteq> f (xs ! i)) (take i xs) = take i xs"
    by (rule filter_True) (use d in \<open>auto simp: image_iff\<close>)
  have b: "filter (\<lambda>x. f x \<noteq> f (xs ! i)) (drop (Suc i) xs) = drop (Suc i) xs"
    by (rule filter_True) (use d in \<open>force simp: image_iff\<close>)
  have "filter (\<lambda>x. f x \<noteq> f (xs ! i)) xs
        = filter (\<lambda>x. f x \<noteq> f (xs ! i)) (take i xs @ xs ! i # drop (Suc i) xs)"
    using split by simp
  also have "\<dots> = take i xs @ drop (Suc i) xs"
    using a b by simp
  finally show ?thesis by (simp add: vec_remove_def)
qed

lemma set_vec_insert [vec_simps]: "set (vec_insert i x xs) = insert x (set xs)"
proof -
  have "set xs = set (take i xs) \<union> set (drop i xs)"
    by (metis append_take_drop_id set_append)
  then show ?thesis by (auto simp: vec_insert_def)
qed

lemma map_vec_insert [vec_simps]: "map f (vec_insert i x xs) = vec_insert i (f x) (map f xs)"
  by (simp add: vec_insert_def take_map drop_map)

lemma distinct_vec_insert [vec_simps]:
  "distinct (vec_insert i x xs) \<longleftrightarrow> x \<notin> set xs \<and> distinct xs"
proof -
  have "distinct (vec_insert i x xs) \<longleftrightarrow> distinct (x # (take i xs @ drop i xs))"
    unfolding vec_insert_def by (auto simp del: append_take_drop_id)
  then show ?thesis by simp
qed

lemma filter_vec_insert [vec_simps]:
  "\<not> p x \<Longrightarrow> filter p (vec_insert i x xs) = filter p xs"
  unfolding vec_insert_def by (metis append_take_drop_id filter.simps(2) filter_append)

lemma length_keep_last [vec_simps]: "length (keep_last n xs) = min n (length xs)"
  by (simp add: keep_last_def)

lemma set_keep_last [vec_simps]: "set (keep_last n xs) \<subseteq> set xs"
  by (simp add: keep_last_def set_drop_subset)

lemma keep_last_short [vec_simps]: "length xs \<le> n \<Longrightarrow> keep_last n xs = xs"
  by (simp add: keep_last_def)

lemma keep_last_snoc_mem [vec_simps]: "0 < n \<Longrightarrow> x \<in> set (keep_last n (xs @ [x]))"
  by (cases "n \<le> length xs") (auto simp: keep_last_def Suc_diff_le)

lemma keep_last_append: "keep_last n (keep_last n xs @ ys) = keep_last n (xs @ ys)"
proof (cases "length xs \<le> n")
  case True
  then show ?thesis by (simp add: vec_simps)
next
  case False
  then have len: "length (keep_last n xs) = n" by (simp add: vec_simps)
  have tail: "drop (length xs - n) (xs @ ys) = keep_last n xs @ ys"
    using False by (simp add: keep_last_def)
  have "length xs + length ys - n = length ys + (length xs - n)"
    using False by simp
  then have "keep_last n (xs @ ys) = drop (length ys) (drop (length xs - n) (xs @ ys))"
    by (simp add: keep_last_def del: drop_append)
  also have "\<dots> = keep_last n (keep_last n xs @ ys)"
    unfolding tail using len by (simp add: keep_last_def [of n "keep_last n xs @ ys"] del: drop_append)
  finally show ?thesis by simp
qed

lemma find_SomeD: "List.find p xs = Some x \<Longrightarrow> x \<in> set xs \<and> p x"
  by (induction xs) (auto split: if_splits)

text \<open>\<open>filter_map\<close> is \<^const>\<open>List.map_filter\<close>.\<close>

lemma map_filter_mem [vec_simps]: "y \<in> set (List.map_filter f xs) \<longleftrightarrow> (\<exists>x\<in>set xs. f x = Some y)"
  by (induction xs) (auto simp: List.map_filter_simps split: option.splits)

lemma map_filter_map: "(\<And>x. x \<in> set xs \<Longrightarrow> f (h x) = Some (g x)) \<Longrightarrow> List.map_filter f (map h xs) = map g xs"
  by (induction xs) (simp_all add: List.map_filter_simps)

section \<open>Hash maps as association lists\<close>

text \<open>
  \<open>insert\<close> is \<^const>\<open>AList.update\<close>, \<open>remove\<close> is \<^const>\<open>AList.delete\<close> and \<open>get\<close> is
  \<^const>\<open>map_of\<close>.  \<open>store_ok\<close> says that no key occurs twice, as in a \<open>HashMap\<close>.
\<close>

definition store_ok :: "('k \<times> 'v) list \<Rightarrow> bool" where
  "store_ok m \<longleftrightarrow> distinct (map fst m)"

definition store_adjust :: "'k \<Rightarrow> ('v \<Rightarrow> 'v) \<Rightarrow> ('k \<times> 'v) list \<Rightarrow> ('k \<times> 'v) list" where
  "store_adjust k f m = map (\<lambda>(k', v). (k', if k' = k then f v else v)) m"

definition store_retain :: "('k \<Rightarrow> 'v \<Rightarrow> bool) \<Rightarrow> ('k \<times> 'v) list \<Rightarrow> ('k \<times> 'v) list" where
  "store_retain p m = filter (\<lambda>(k, v). p k v) m"

lemma store_ok_Nil [store_simps]: "store_ok []"
  by (simp add: store_ok_def)

lemma store_ok_update [store_simps]: "store_ok m \<Longrightarrow> store_ok (AList.update k v m)"
  by (simp add: store_ok_def distinct_update)

lemma store_ok_delete [store_simps]: "store_ok m \<Longrightarrow> store_ok (AList.delete k m)"
  by (simp add: store_ok_def distinct_delete)

lemma store_ok_adjust [store_simps]: "store_ok (store_adjust k f m) = store_ok m"
  by (simp add: store_ok_def store_adjust_def comp_def case_prod_beta)

lemma store_ok_retain [store_simps]: "store_ok m \<Longrightarrow> store_ok (store_retain p m)"
  by (simp add: store_ok_def store_retain_def distinct_map_filter)

lemma map_of_adjust [store_simps]:
  "map_of (store_adjust k f m) x = (if x = k then map_option f (map_of m k) else map_of m x)"
  by (induction m) (auto simp: store_adjust_def)

lemma map_of_retain [store_simps]:
  "store_ok m \<Longrightarrow>
     map_of (store_retain p m) x
       = (case map_of m x of None \<Rightarrow> None | Some v \<Rightarrow> if p x v then Some v else None)"
proof (induction m)
  case Nil
  then show ?case by (simp add: store_retain_def)
next
  case (Cons a m)
  obtain k v where a: "a = (k, v)" by (cases a)
  from Cons.prems have ok: "store_ok m" and notin: "k \<notin> fst ` set m"
    by (auto simp: store_ok_def a)
  from notin have none: "map_of m k = None" by (simp add: map_of_eq_None_iff)
  from Cons.IH [OF ok] none show ?case
    by (auto simp: store_retain_def a split: option.splits)
qed

lemma store_ok_mem: "store_ok m \<Longrightarrow> (k, v) \<in> set m \<longleftrightarrow> map_of m k = Some v"
  by (simp add: store_ok_def)

lemma fst_set_adjust [store_simps]: "fst ` set (store_adjust k f m) = fst ` set m"
  by (force simp: store_adjust_def image_iff)

lemma fst_set_update [store_simps]: "fst ` set (AList.update k v m) = insert k (fst ` set m)"
  by (simp add: dom_update)

section \<open>Saturating arithmetic and bounds\<close>

definition sat_add :: "nat \<Rightarrow> nat \<Rightarrow> nat \<Rightarrow> nat" where
  "sat_add limit a b = min limit (a + b)"

definition clamp :: "'a::linorder \<Rightarrow> 'a \<Rightarrow> 'a \<Rightarrow> 'a" where
  "clamp x lo hi = (if x < lo then lo else if hi < x then hi else x)"

definition usize_max :: nat where "usize_max = 2 ^ 64 - 1"

lemma clamp_bounds: "lo \<le> hi \<Longrightarrow> lo \<le> clamp x lo hi \<and> clamp x lo hi \<le> hi"
  by (auto simp: clamp_def)

lemma sat_add_le [simp]: "sat_add limit a b \<le> limit"
  by (simp add: sat_add_def)

lemma usize_max_pos [simp]: "1 \<le> usize_max"
  by (simp add: usize_max_def)

end
