(* ===== verification/Interfaces.thy ===== *)
theory Interfaces
  imports Prelude
begin

text \<open>
  The contracts that several components share, each a locale: a transition system with an
  inductive invariant (\<open>guarded_system\<close>), a keyed store (\<open>keyed_store\<close>), and a bounded ring
  that keeps the newest elements (\<open>bounded_ring\<close>).  Every one is interpreted on the
  definitions of the component that provides it, in that component's theory.
\<close>

section \<open>A transition system with an invariant\<close>

locale guarded_system =
  fixes init :: 's
    and step :: "'s \<Rightarrow> 's \<Rightarrow> bool"
    and inv :: "'s \<Rightarrow> bool"
  assumes inv_init: "inv init"
    and inv_step: "inv s \<Longrightarrow> step s t \<Longrightarrow> inv t"
begin

lemma reachable_inv: "step\<^sup>*\<^sup>* init s \<Longrightarrow> inv s"
  by (induction rule: rtranclp_induct) (auto intro: inv_init inv_step)

lemma run_inv: "inv s \<Longrightarrow> step\<^sup>*\<^sup>* s t \<Longrightarrow> inv t"
  by (rotate_tac 1, induction rule: rtranclp_induct) (auto intro: inv_step)

end

section \<open>A store with unique keys\<close>

locale keyed_store =
  fixes empty :: 'm
    and lookup :: "'m \<Rightarrow> 'k \<Rightarrow> 'v option"
    and update :: "'k \<Rightarrow> 'v \<Rightarrow> 'm \<Rightarrow> 'm"
    and delete :: "'k \<Rightarrow> 'm \<Rightarrow> 'm"
    and ok :: "'m \<Rightarrow> bool"
  assumes ok_empty: "ok empty"
    and ok_update: "ok m \<Longrightarrow> ok (update k v m)"
    and ok_delete: "ok m \<Longrightarrow> ok (delete k m)"
    and lookup_empty: "lookup empty k = None"
    and lookup_update: "ok m \<Longrightarrow> lookup (update k v m) k' = (if k' = k then Some v else lookup m k')"
    and lookup_delete: "ok m \<Longrightarrow> lookup (delete k m) k' = (if k' = k then None else lookup m k')"
begin

lemma lookup_update_delete:
  "ok m \<Longrightarrow> lookup (delete k (update k v m)) k' = lookup (delete k m) k'"
  by (simp add: lookup_update lookup_delete ok_update)

lemma ok_fold_update: "ok m \<Longrightarrow> ok (fold (\<lambda>(k, v). update k v) kvs m)"
  by (induction kvs arbitrary: m) (auto simp: ok_update)

lemma lookup_fold_delete:
  "ok m \<Longrightarrow> ok (fold delete ks m) \<and>
     lookup (fold delete ks m) k = (if k \<in> set ks then None else lookup m k)"
  by (induction ks arbitrary: m) (auto simp: ok_delete lookup_delete)

end

interpretation alist: keyed_store "[]" map_of AList.update AList.delete store_ok
  by unfold_locales (auto simp: store_simps update_conv' delete_conv')

section \<open>A bounded ring keeping the newest elements\<close>

locale bounded_ring =
  fixes push :: "'a \<Rightarrow> 'r \<Rightarrow> 'r"
    and content :: "'r \<Rightarrow> 'a list"
    and cap :: "'r \<Rightarrow> nat"
  assumes cap_push: "cap (push x r) = cap r"
    and content_push:
      "0 < cap r \<Longrightarrow> length (content r) \<le> cap r \<Longrightarrow> content (push x r) = keep_last (cap r) (content r @ [x])"
begin

lemma length_push: "0 < cap r \<Longrightarrow> length (content r) \<le> cap r \<Longrightarrow> length (content (push x r)) \<le> cap (push x r)"
  by (simp add: content_push cap_push length_keep_last)

lemma cap_pushes: "cap (fold push xs r) = cap r"
  by (induction xs arbitrary: r) (simp_all add: cap_push)

lemma content_pushes:
  "0 < cap r \<Longrightarrow> length (content r) \<le> cap r \<Longrightarrow> content (fold push xs r) = keep_last (cap r) (content r @ xs)"
proof (induction xs arbitrary: r)
  case Nil
  then show ?case by (simp add: keep_last_short)
next
  case (Cons x xs)
  have "content (fold push (x # xs) r) = keep_last (cap r) (content (push x r) @ xs)"
    using Cons.IH [of "push x r"] length_push [OF Cons.prems] Cons.prems(1) by (simp add: cap_push)
  also have "\<dots> = keep_last (cap r) ((content r @ [x]) @ xs)"
    unfolding content_push [OF Cons.prems] by (rule keep_last_append)
  finally show ?case by simp
qed

lemma length_pushes: "0 < cap r \<Longrightarrow> length (content r) \<le> cap r \<Longrightarrow> length (content (fold push xs r)) \<le> cap r"
  by (simp add: content_pushes length_keep_last)

end

end
