(* ===== verification/Inference_Queue.thy ===== *)
theory Inference_Queue
  imports Interfaces
begin

text \<open>
  \<open>src-tauri/src/inference_queue.rs\<close>: admission control for inference turns.  The queue state
  \<open>Inner\<close> is the record \<open>inner\<close>; every method of \<open>InferenceQueue\<close> is a function from the
  state to the new state (and its answer), with the clock and the sender half of the new
  channel as arguments.  What the code does with the channel senders (\<open>send\<close> or drop) is
  kept in the field \<open>sender_log\<close>, which no operation reads.  A consumer descriptor is opaque JSON: the
  type variable \<open>'v\<close>.  Times are milliseconds as natural numbers.
\<close>

section \<open>Data\<close>

definition LEASE_TTL_MS :: nat where "LEASE_TTL_MS = 5 * 60 * 1000"

definition EARLY_CANCEL_CAP :: nat where "EARLY_CANCEL_CAP = 64"

datatype ticket_state = Waiting | Running

fun ticket_state_as_str :: "ticket_state \<Rightarrow> string" where
  "ticket_state_as_str Waiting = ''waiting''"
| "ticket_state_as_str Running = ''running''"

datatype priority = Foreground | Background

definition priority_parse :: "string option \<Rightarrow> priority" where
  "priority_parse s = (if s = Some ''background'' then Background else Foreground)"

fun priority_as_str :: "priority \<Rightarrow> string" where
  "priority_as_str Foreground = ''foreground''"
| "priority_as_str Background = ''background''"

record admission =
  a_front :: bool
  a_priority :: priority
  a_replaces :: "string option"

definition admission_default :: admission where
  "admission_default = \<lparr>a_front = False, a_priority = Foreground, a_replaces = None\<rparr>"

record reservation =
  r_id :: string
  r_lane :: string
  r_owner_window :: string
  r_lease_expires_at :: nat

record 'v ticket =
  t_id :: string
  t_consumer :: 'v
  t_lane :: string
  t_state :: ticket_state
  t_front :: bool
  t_priority :: priority
  t_owner_window :: string
  t_enqueued_at :: nat
  t_lease_expires_at :: nat

record 'v ticket_dto =
  d_id :: string
  d_consumer :: 'v
  d_state :: string
  d_priority :: string
  d_enqueued_at :: nat

definition ticket_dto_of :: "'v ticket \<Rightarrow> 'v ticket_dto" where
  "ticket_dto_of t = \<lparr>d_id = t_id t, d_consumer = t_consumer t,
     d_state = ticket_state_as_str (t_state t), d_priority = priority_as_str (t_priority t),
     d_enqueued_at = t_enqueued_at t\<rparr>"

text \<open>What happened to a channel sender: \<open>tx.send(())\<close>, or dropped unsent.\<close>

datatype sender_event = Sent nat | Dropped nat

record 'v inner =
  tickets :: "'v ticket list"
  senders :: "string \<rightharpoonup> nat"
  lane_capacity :: "string \<rightharpoonup> nat"
  cancelled_early :: "string list"
  reservations :: "reservation list"
  sender_log :: "sender_event list"

definition inner_default :: "'v inner" where
  "inner_default = \<lparr>tickets = [], senders = Map.empty, lane_capacity = Map.empty,
     cancelled_early = [], reservations = [], sender_log = []\<rparr>"

datatype queue_error = DuplicateRequestId | RequestCancelled | TicketVanished

section \<open>Admission\<close>

definition capacity :: "'v inner \<Rightarrow> string \<Rightarrow> nat" where
  "capacity q lane = (case lane_capacity q lane of Some c \<Rightarrow> c | None \<Rightarrow> 1)"

definition unwrap_or_0 :: "nat option \<Rightarrow> nat" where
  "unwrap_or_0 x = (case x of Some n \<Rightarrow> n | None \<Rightarrow> 0)"

definition running_by_lane :: "'v inner \<Rightarrow> (string \<rightharpoonup> nat)" where
  "running_by_lane q = fold (\<lambda>t counts.
       if t_state t = Running
       then counts(t_lane t \<mapsto> unwrap_or_0 (counts (t_lane t)) + 1)
       else counts) (tickets q) Map.empty"

definition lane_busy_for_background :: "'v inner \<Rightarrow> string \<Rightarrow> bool" where
  "lane_busy_for_background q lane \<longleftrightarrow>
     list_ex (\<lambda>t. t_lane t = lane \<and> t_priority t = Foreground) (tickets q) \<or>
     list_ex (\<lambda>r. r_lane r = lane) (reservations q)"

text \<open>\<open>senders.remove(id)\<close>, the sender sent to, or dropped; and \<open>senders.insert\<close>.\<close>

definition send_and_remove :: "string \<Rightarrow> 'v inner \<Rightarrow> 'v inner" where
  "send_and_remove i q = (case senders q i of
     Some tx \<Rightarrow> q\<lparr>senders := (senders q)(i := None), sender_log := sender_log q @ [Sent tx]\<rparr>
   | None \<Rightarrow> q)"

definition drop_sender :: "string \<Rightarrow> 'v inner \<Rightarrow> 'v inner" where
  "drop_sender i q = (case senders q i of
     Some tx \<Rightarrow> q\<lparr>senders := (senders q)(i := None), sender_log := sender_log q @ [Dropped tx]\<rparr>
   | None \<Rightarrow> q)"

definition insert_sender :: "string \<Rightarrow> nat \<Rightarrow> 'v inner \<Rightarrow> 'v inner" where
  "insert_sender i tx q = (drop_sender i q)\<lparr>senders := (senders q)(i \<mapsto> tx)\<rparr>"

definition pump_step ::
  "nat \<Rightarrow> (string \<rightharpoonup> nat) \<times> 'v inner \<Rightarrow> (string \<rightharpoonup> nat) \<times> 'v inner" where
  "pump_step i s = (case s of (running, q) \<Rightarrow>
     let t = tickets q ! i; lane = t_lane t; cap = capacity q lane in
     if t_state t \<noteq> Waiting then (running, q)
     else if cap \<le> unwrap_or_0 (running lane) then (running, q)
     else if t_priority t = Background \<and> lane_busy_for_background q lane then (running, q)
     else (running(lane \<mapsto> unwrap_or_0 (running lane) + 1),
           send_and_remove (t_id t) (q\<lparr>tickets := (tickets q)[i := t\<lparr>t_state := Running\<rparr>]\<rparr>)))"

definition pump :: "'v inner \<Rightarrow> 'v inner" where
  "pump q = snd (fold pump_step [0..<length (tickets q)] (running_by_lane q, q))"

definition snapshot :: "'v inner \<Rightarrow> 'v ticket_dto list" where
  "snapshot q = map ticket_dto_of (tickets q)"

section \<open>Operations\<close>

text \<open>The tail of \<open>enqueue_with\<close> up to its \<open>pump\<close>: a fresh ticket joins its lane.\<close>

definition join_lane ::
  "string \<Rightarrow> 'v \<Rightarrow> string \<Rightarrow> nat option \<Rightarrow> string \<Rightarrow> admission \<Rightarrow> nat \<Rightarrow> nat \<Rightarrow> 'v inner \<Rightarrow> 'v inner" where
  "join_lane req_id consumer lane max_parallel window_label adm now tx q =
    (let q = q\<lparr>lane_capacity := (lane_capacity q)(lane \<mapsto>
                 (case max_parallel of None \<Rightarrow> usize_max | Some n \<Rightarrow> max n 1))\<rparr>;
         q = (case a_replaces adm of
                Some old \<Rightarrow> q\<lparr>reservations := filter (\<lambda>r. r_id r \<noteq> old) (reservations q)\<rparr>
              | None \<Rightarrow> q);
         q = insert_sender req_id tx q;
         at = (if a_front adm
               then position (\<lambda>t. t_lane t = lane \<and> t_state t = Waiting \<and> \<not> t_front t) (tickets q)
               else None);
         ticket = \<lparr>t_id = req_id, t_consumer = consumer, t_lane = lane, t_state = Waiting,
                   t_front = a_front adm, t_priority = a_priority adm,
                   t_owner_window = window_label, t_enqueued_at = now,
                   t_lease_expires_at = now + LEASE_TTL_MS\<rparr>
     in (case at of
           Some i \<Rightarrow> q\<lparr>tickets := vec_insert i ticket (tickets q)\<rparr>
         | None \<Rightarrow> q\<lparr>tickets := tickets q @ [ticket]\<rparr>))"

definition enqueue_with ::
  "string \<Rightarrow> 'v \<Rightarrow> string \<Rightarrow> nat option \<Rightarrow> string \<Rightarrow> admission \<Rightarrow> nat \<Rightarrow> nat \<Rightarrow> 'v inner
     \<Rightarrow> (queue_error + nat) \<times> 'v inner" where
  "enqueue_with req_id consumer lane max_parallel window_label adm now tx q =
    (if list_ex (\<lambda>t. t_id t = req_id) (tickets q) then (Inl DuplicateRequestId, q)
     else case position (\<lambda>i. i = req_id) (cancelled_early q) of
       Some pos \<Rightarrow>
         (Inl RequestCancelled, q\<lparr>cancelled_early := vec_remove pos (cancelled_early q)\<rparr>)
     | None \<Rightarrow>
         (Inr tx, pump (join_lane req_id consumer lane max_parallel window_label adm now tx q)))"

definition remove_ticket_where :: "('v ticket \<Rightarrow> bool) \<Rightarrow> 'v inner \<Rightarrow> bool \<times> 'v inner" where
  "remove_ticket_where p q = (case position p (tickets q) of
     Some pos \<Rightarrow>
       (let removed = tickets q ! pos;
            q = q\<lparr>tickets := vec_remove pos (tickets q)\<rparr>;
            q = drop_sender (t_id removed) q
        in (True, pump q))
   | None \<Rightarrow> (False, q))"

definition remember_early :: "string \<Rightarrow> 'v inner \<Rightarrow> 'v inner" where
  "remember_early req_id q =
     (let early = cancelled_early q @ [req_id];
          excess = length early - EARLY_CANCEL_CAP
      in q\<lparr>cancelled_early := drop excess early\<rparr>)"

definition cancel :: "string \<Rightarrow> 'v inner \<Rightarrow> bool \<times> 'v inner" where
  "cancel req_id q =
     (if \<not> list_ex (\<lambda>t. t_id t = req_id) (tickets q) then (False, remember_early req_id q)
      else remove_ticket_where (\<lambda>t. t_id t = req_id \<and> t_state t = Waiting) q)"

definition release_with :: "string \<Rightarrow> bool \<Rightarrow> nat \<Rightarrow> 'v inner \<Rightarrow> bool \<times> 'v inner" where
  "release_with req_id reserve now q =
     (let had_reservation = list_ex (\<lambda>r. r_id r = req_id) (reservations q);
          q = q\<lparr>reservations := filter (\<lambda>r. r_id r \<noteq> req_id) (reservations q)\<rparr>;
          (removed, q) = (case position (\<lambda>t. t_id t = req_id) (tickets q) of
             Some pos \<Rightarrow>
               (let t = tickets q ! pos;
                    q = q\<lparr>tickets := vec_remove pos (tickets q)\<rparr>;
                    q = drop_sender (t_id t) q;
                    q = (if reserve
                         then q\<lparr>reservations := reservations q @
                                  [\<lparr>r_id = t_id t, r_lane = t_lane t,
                                    r_owner_window = t_owner_window t,
                                    r_lease_expires_at = now + LEASE_TTL_MS\<rparr>]\<rparr>
                         else q)
                in (True, q))
           | None \<Rightarrow> (False, q))
      in (removed \<or> had_reservation, if removed \<or> had_reservation then pump q else q))"

fun update_first :: "('a \<Rightarrow> bool) \<Rightarrow> ('a \<Rightarrow> 'a) \<Rightarrow> 'a list \<Rightarrow> 'a list" where
  "update_first p f [] = []"
| "update_first p f (x # xs) = (if p x then f x # xs else x # update_first p f xs)"

definition heartbeat :: "string \<Rightarrow> nat \<Rightarrow> 'v inner \<Rightarrow> 'v inner" where
  "heartbeat req_id now q = q\<lparr>
     tickets := update_first (\<lambda>t. t_id t = req_id)
                  (\<lambda>t. t\<lparr>t_lease_expires_at := now + LEASE_TTL_MS\<rparr>) (tickets q),
     reservations := update_first (\<lambda>r. r_id r = req_id)
                  (\<lambda>r. r\<lparr>r_lease_expires_at := now + LEASE_TTL_MS\<rparr>) (reservations q)\<rparr>"

definition reclaim :: "(string \<Rightarrow> nat \<Rightarrow> bool) \<Rightarrow> 'v inner \<Rightarrow> bool \<times> 'v inner" where
  "reclaim p q =
     (let reservations_before = length (reservations q);
          q = q\<lparr>reservations :=
                 filter (\<lambda>r. \<not> p (r_owner_window r) (r_lease_expires_at r)) (reservations q)\<rparr>;
          freed_reservation = (length (reservations q) \<noteq> reservations_before);
          victims = map t_id
            (filter (\<lambda>t. p (t_owner_window t) (t_lease_expires_at t)) (tickets q))
      in if victims = [] then
           (freed_reservation, if freed_reservation then pump q else q)
         else
           (let q = q\<lparr>tickets :=
                  filter (\<lambda>t. \<not> p (t_owner_window t) (t_lease_expires_at t)) (tickets q)\<rparr>;
                q = fold drop_sender victims q
            in (True, pump q)))"

definition release_window :: "string \<Rightarrow> 'v inner \<Rightarrow> bool \<times> 'v inner" where
  "release_window label = reclaim (\<lambda>owner _. owner = label)"

definition sweep_expired_at :: "nat \<Rightarrow> 'v inner \<Rightarrow> bool \<times> 'v inner" where
  "sweep_expired_at now = reclaim (\<lambda>_ lease. lease < now)"

definition ticket_dto :: "string \<Rightarrow> 'v inner \<Rightarrow> 'v ticket_dto option" where
  "ticket_dto req_id q = map_option ticket_dto_of (find (\<lambda>t. t_id t = req_id) (tickets q))"

text \<open>
  The \<open>inference_acquire\<close> command runs \<open>enqueue_with\<close>, then awaits the receiver; its second
  half takes what the receiver resolved to (\<open>True\<close>: the sender was used, \<open>False\<close>: dropped)
  and the queue at that moment.
\<close>

definition inference_acquire_start ::
  "string \<Rightarrow> 'v \<Rightarrow> string \<Rightarrow> nat option \<Rightarrow> string \<Rightarrow> bool option \<Rightarrow> string option \<Rightarrow> string option
     \<Rightarrow> nat \<Rightarrow> nat \<Rightarrow> 'v inner \<Rightarrow> (queue_error + nat) \<times> 'v inner" where
  "inference_acquire_start req_id consumer lane max_parallel window_label front prio replaces now tx q =
     enqueue_with req_id consumer lane max_parallel window_label
       \<lparr>a_front = (case front of Some b \<Rightarrow> b | None \<Rightarrow> False),
        a_priority = priority_parse prio, a_replaces = replaces\<rparr> now tx q"

definition inference_acquire_finish ::
  "string \<Rightarrow> bool \<Rightarrow> 'v inner \<Rightarrow> queue_error + 'v ticket_dto" where
  "inference_acquire_finish req_id received q =
     (if received
      then (case ticket_dto req_id q of Some d \<Rightarrow> Inr d | None \<Rightarrow> Inl TicketVanished)
      else Inl RequestCancelled)"

text \<open>The remaining commands: each answers whether it emits a snapshot to every window.\<close>

definition inference_release :: "string \<Rightarrow> bool option \<Rightarrow> nat \<Rightarrow> 'v inner \<Rightarrow> bool \<times> 'v inner" where
  "inference_release req_id reserve now q =
     release_with req_id (case reserve of Some b \<Rightarrow> b | None \<Rightarrow> False) now q"

section \<open>Steps\<close>

text \<open>Every way the shared queue changes, at any time and in any order.\<close>

inductive queue_step :: "'v inner \<Rightarrow> 'v inner \<Rightarrow> bool" where
  acquire: "queue_step q (snd (inference_acquire_start i c l mp w f p r now tx q))"
| cancel: "queue_step q (snd (cancel i q))"
| release: "queue_step q (snd (inference_release i res now q))"
| heartbeat: "queue_step q (heartbeat i now q)"
| window_gone: "queue_step q (snd (release_window w q))"
| sweep: "queue_step q (snd (sweep_expired_at now q))"

inductive_cases queue_stepE: "queue_step q q'"

end
