(* ===== verification/Inference_Queue_Props.thy ===== *)
theory Inference_Queue_Props
  imports Inference_Queue
begin

text \<open>
  Correctness of the admission queue: what one \<open>pump\<close> does (admission in order, capacity,
  priority), the invariant \<open>queue_ok\<close> that every operation keeps, and what follows from it
  for every reachable queue.
\<close>

section \<open>What a pump may not change\<close>

definition strip :: "'v ticket \<Rightarrow> 'v ticket" where
  "strip t = t\<lparr>t_state := Waiting\<rparr>"

definition running_count :: "'v inner \<Rightarrow> string \<Rightarrow> nat" where
  "running_count q L = length (filter (\<lambda>t. t_lane t = L \<and> t_state t = Running) (tickets q))"

definition blocked :: "'v inner \<Rightarrow> 'v ticket \<Rightarrow> bool" where
  "blocked q t \<longleftrightarrow> capacity q (t_lane t) \<le> running_count q (t_lane t) \<or>
     (t_priority t = Background \<and> lane_busy_for_background q (t_lane t))"

definition settled :: "'v inner \<Rightarrow> bool" where
  "settled q \<longleftrightarrow> (\<forall>t\<in>set (tickets q). t_state t = Waiting \<longrightarrow> blocked q t)"

definition waiting_ids :: "'v inner \<Rightarrow> string set" where
  "waiting_ids q = t_id ` {t \<in> set (tickets q). t_state t = Waiting}"

lemma strip_fields [simp]:
  "t_id (strip t) = t_id t" "t_lane (strip t) = t_lane t" "t_front (strip t) = t_front t"
  "t_priority (strip t) = t_priority t" "t_owner_window (strip t) = t_owner_window t"
  "t_lease_expires_at (strip t) = t_lease_expires_at t" "t_consumer (strip t) = t_consumer t"
  "t_enqueued_at (strip t) = t_enqueued_at t" "t_state (strip t) = Waiting"
  by (simp_all add: strip_def)

lemma strip_running [simp]: "strip (t\<lparr>t_state := s\<rparr>) = strip t"
  by (simp add: strip_def)

lemma map_strip_eq:
  assumes "map strip ts = map strip ts'" and "\<And>t. f (strip t) = f t"
  shows "map f ts = map f ts'"
proof -
  have "map f ts = map f (map strip ts)" using assms(2) by simp
  also have "\<dots> = map f ts'" using assms by simp
  finally show ?thesis .
qed

lemma send_and_remove_fields [simp]:
  "tickets (send_and_remove i q) = tickets q"
  "lane_capacity (send_and_remove i q) = lane_capacity q"
  "cancelled_early (send_and_remove i q) = cancelled_early q"
  "reservations (send_and_remove i q) = reservations q"
  "senders (send_and_remove i q) = (senders q)(i := None)"
  by (auto simp: send_and_remove_def split: option.splits)

lemma drop_sender_fields [simp]:
  "tickets (drop_sender i q) = tickets q"
  "lane_capacity (drop_sender i q) = lane_capacity q"
  "cancelled_early (drop_sender i q) = cancelled_early q"
  "reservations (drop_sender i q) = reservations q"
  "senders (drop_sender i q) = (senders q)(i := None)"
  by (auto simp: drop_sender_def split: option.splits)

lemma insert_sender_fields [simp]:
  "tickets (insert_sender i tx q) = tickets q"
  "lane_capacity (insert_sender i tx q) = lane_capacity q"
  "cancelled_early (insert_sender i tx q) = cancelled_early q"
  "reservations (insert_sender i tx q) = reservations q"
  "senders (insert_sender i tx q) = (senders q)(i \<mapsto> tx)"
  by (auto simp: insert_sender_def)

lemma fold_drop_sender_fields [simp]:
  "tickets (fold drop_sender is q) = tickets q"
  "lane_capacity (fold drop_sender is q) = lane_capacity q"
  "cancelled_early (fold drop_sender is q) = cancelled_early q"
  "reservations (fold drop_sender is q) = reservations q"
  "senders (fold drop_sender is q) = (\<lambda>i. if i \<in> set is then None else senders q i)"
  by (induction "is" arbitrary: q) (auto simp: fun_eq_iff)

lemma capacity_cong: "lane_capacity q = lane_capacity q' \<Longrightarrow> capacity q = capacity q'"
  by (simp add: capacity_def fun_eq_iff)

lemma busy_cong:
  assumes "map strip (tickets q) = map strip (tickets q')" and "reservations q = reservations q'"
  shows "lane_busy_for_background q L = lane_busy_for_background q' L"
proof -
  have "list_ex (\<lambda>x. fst x = L \<and> snd x = Foreground)
          (map (\<lambda>t. (t_lane t, t_priority t)) (tickets q))
      = list_ex (\<lambda>x. fst x = L \<and> snd x = Foreground)
          (map (\<lambda>t. (t_lane t, t_priority t)) (tickets q'))"
    by (simp only: map_strip_eq [OF assms(1), of "\<lambda>t. (t_lane t, t_priority t)"] strip_fields)
  then show ?thesis
    using assms(2) by (simp add: lane_busy_for_background_def list_ex_iff)
qed

lemma length_filter_update:
  assumes "i < length xs"
  shows "length (filter p (xs[i := y])) + (if p (xs ! i) then 1 else 0)
       = length (filter p xs) + (if p y then 1 else 0)"
proof -
  have "filter p xs = filter p (take i xs @ xs ! i # drop (Suc i) xs)"
    using assms by (simp add: id_take_nth_drop [symmetric])
  moreover have "filter p (xs[i := y]) = filter p (take i xs @ y # drop (Suc i) xs)"
    using assms by (simp add: upd_conv_take_nth_drop)
  ultimately show ?thesis by simp
qed

lemma running_by_lane_count: "unwrap_or_0 (running_by_lane q L) = running_count q L"
proof -
  have "unwrap_or_0 (fold (\<lambda>t counts. if t_state t = Running
            then counts(t_lane t \<mapsto> unwrap_or_0 (counts (t_lane t)) + 1) else counts) ts m L)
        = unwrap_or_0 (m L) + length (filter (\<lambda>t. t_lane t = L \<and> t_state t = Running) ts)"
    for ts :: "'a ticket list" and m
    by (induction ts arbitrary: m) (auto simp: unwrap_or_0_def split: option.splits)
  from this [of "tickets q" Map.empty] show ?thesis
    by (simp add: running_by_lane_def running_count_def unwrap_or_0_def)
qed

section \<open>The pump, position by position\<close>

text \<open>\<open>pump_upto k q\<close> is the loop state after the first \<open>k\<close> positions.\<close>

definition pump_upto :: "nat \<Rightarrow> 'v inner \<Rightarrow> (string \<rightharpoonup> nat) \<times> 'v inner" where
  "pump_upto k q = fold pump_step [0..<k] (running_by_lane q, q)"

lemma pump_upto_0 [simp]: "pump_upto 0 q = (running_by_lane q, q)"
  by (simp add: pump_upto_def)

lemma pump_upto_Suc: "pump_upto (Suc k) q = pump_step k (pump_upto k q)"
  by (simp add: pump_upto_def)

lemma pump_upto_pump: "pump q = snd (pump_upto (length (tickets q)) q)"
  by (simp add: pump_def pump_upto_def)

text \<open>
  The loop invariant: nothing but states and senders changes, positions from \<open>k\<close> on are
  untouched, the counts are right, and every position below \<open>k\<close> is settled.
\<close>

definition pump_inv :: "nat \<Rightarrow> 'v inner \<Rightarrow> (string \<rightharpoonup> nat) \<Rightarrow> 'v inner \<Rightarrow> bool" where
  "pump_inv k q run q' \<longleftrightarrow>
     map strip (tickets q') = map strip (tickets q) \<and>
     lane_capacity q' = lane_capacity q \<and> reservations q' = reservations q \<and>
     cancelled_early q' = cancelled_early q \<and>
     (\<forall>j. k \<le> j \<longrightarrow> j < length (tickets q) \<longrightarrow> tickets q' ! j = tickets q ! j) \<and>
     (\<forall>j<length (tickets q). t_state (tickets q ! j) = Running \<longrightarrow> tickets q' ! j = tickets q ! j) \<and>
     (\<forall>L. unwrap_or_0 (run L) = running_count q' L) \<and>
     (\<forall>L. running_count q L \<le> running_count q' L) \<and>
     (\<forall>L. running_count q' L \<le> max (running_count q L) (capacity q L)) \<and>
     (\<forall>j<k. j < length (tickets q) \<longrightarrow> t_state (tickets q' ! j) = Waiting \<longrightarrow> blocked q' (tickets q' ! j)) \<and>
     (\<forall>j<length (tickets q). t_state (tickets q ! j) = Waiting \<longrightarrow> t_state (tickets q' ! j) = Running \<longrightarrow>
        t_priority (tickets q ! j) = Background \<longrightarrow> \<not> lane_busy_for_background q (t_lane (tickets q ! j)))"

lemma blocked_mono:
  assumes "blocked q t" and "lane_capacity q' = lane_capacity q"
    and "running_count q (t_lane t) \<le> running_count q' (t_lane t)"
    and "lane_busy_for_background q' (t_lane t) = lane_busy_for_background q (t_lane t)"
  shows "blocked q' t"
  using assms capacity_cong [OF assms(2)] by (auto simp: blocked_def)

lemma running_count_admit:
  assumes "k < length (tickets q)" and "t_state (tickets q ! k) = Waiting"
    and "tickets q' = (tickets q)[k := (tickets q ! k)\<lparr>t_state := Running\<rparr>]"
  shows "running_count q' L = running_count q L + (if L = t_lane (tickets q ! k) then 1 else 0)"
  using length_filter_update [OF assms(1), of "\<lambda>t. t_lane t = L \<and> t_state t = Running"
      "(tickets q ! k)\<lparr>t_state := Running\<rparr>"] assms(2,3)
  by (auto simp: running_count_def)

lemma pump_step_inv:
  assumes inv: "pump_inv k q run q'" and k: "k < length (tickets q)"
  shows "pump_inv (Suc k) q (fst (pump_step k (run, q'))) (snd (pump_step k (run, q')))"
proof -
  let ?t = "tickets q' ! k"
  have len: "length (tickets q') = length (tickets q)"
    using inv unfolding pump_inv_def by (metis length_map)
  have same: "?t = tickets q ! k" using inv k by (simp add: pump_inv_def)
  have runs: "unwrap_or_0 (run L) = running_count q' L" for L
    using inv by (simp add: pump_inv_def)
  have cap: "capacity q' = capacity q" using inv by (intro capacity_cong) (simp add: pump_inv_def)
  have busy: "lane_busy_for_background q' L = lane_busy_for_background q L" for L
    using inv by (intro busy_cong) (simp_all add: pump_inv_def)
  show ?thesis
  proof (cases "t_state ?t = Waiting \<and> \<not> blocked q' ?t")
    case False
    then have "pump_step k (run, q') = (run, q')"
      by (auto simp: pump_step_def Let_def blocked_def runs)
    moreover have "pump_inv (Suc k) q run q'"
      using inv False by (auto simp: pump_inv_def less_Suc_eq)
    ultimately show ?thesis by simp
  next
    case True
    define qn where "qn = send_and_remove (t_id ?t)
      (q'\<lparr>tickets := (tickets q')[k := ?t\<lparr>t_state := Running\<rparr>]\<rparr>)"
    define runn where "runn = run(t_lane ?t \<mapsto> unwrap_or_0 (run (t_lane ?t)) + 1)"
    have step: "pump_step k (run, q') = (runn, qn)"
      using True by (auto simp: pump_step_def Let_def blocked_def runs qn_def runn_def)
    have fields: "tickets qn = (tickets q')[k := ?t\<lparr>t_state := Running\<rparr>]"
      "lane_capacity qn = lane_capacity q'" "reservations qn = reservations q'"
      "cancelled_early qn = cancelled_early q'"
      by (simp_all add: qn_def)
    have count: "running_count qn L = running_count q' L + (if L = t_lane ?t then 1 else 0)" for L
      using running_count_admit [OF _ _ fields(1)] True k len by simp
    have strips: "map strip (tickets qn) = map strip (tickets q')"
      using k len by (simp add: fields map_update list_update_same_conv)
    have busy': "lane_busy_for_background qn L = lane_busy_for_background q' L" for L
      by (intro busy_cong strips) (simp add: fields)
    have mono: "blocked q' t \<Longrightarrow> blocked qn t" for t
      by (erule blocked_mono) (simp_all add: count busy' fields)
    have "capacity q' (t_lane ?t) > running_count q' (t_lane ?t)"
      using True by (simp add: blocked_def)
    then have bound: "running_count qn L \<le> max (running_count q L) (capacity q L)" for L
      using inv cap by (auto simp: count pump_inv_def)
    have bg: "t_priority ?t = Background \<Longrightarrow> \<not> lane_busy_for_background q (t_lane ?t)"
      using True by (simp add: blocked_def busy)
    have runs': "unwrap_or_0 (runn L) = running_count qn L" for L
      using runs by (simp add: count runn_def) (simp add: unwrap_or_0_def)
    have grows: "running_count q L \<le> running_count qn L" for L
      using inv by (simp add: count pump_inv_def trans_le_add1)
    have "pump_inv (Suc k) q runn qn"
      using inv True k len same strips mono bound bg
      by (simp add: pump_inv_def nth_list_update less_Suc_eq fields runs' grows)
    then show ?thesis by (simp add: step)
  qed
qed

lemma pump_upto_inv:
  "k \<le> length (tickets q) \<Longrightarrow> pump_inv k q (fst (pump_upto k q)) (snd (pump_upto k q))"
proof (induction k)
  case 0
  show ?case by (simp add: pump_inv_def running_by_lane_count)
next
  case (Suc k)
  then have "pump_inv k q (fst (pump_upto k q)) (snd (pump_upto k q))" by simp
  from pump_step_inv [OF this] Suc.prems show ?case by (simp add: pump_upto_Suc)
qed

lemma pump_inv_pump: "\<exists>run. pump_inv (length (tickets q)) q run (pump q)"
  using pump_upto_inv [of "length (tickets q)" q] by (auto simp: pump_upto_pump)

lemma pump_frame:
  "map strip (tickets (pump q)) = map strip (tickets q)"
  "lane_capacity (pump q) = lane_capacity q"
  "reservations (pump q) = reservations q"
  "cancelled_early (pump q) = cancelled_early q"
  using pump_inv_pump [of q] by (auto simp: pump_inv_def)

lemma pump_length [simp]: "length (tickets (pump q)) = length (tickets q)"
  by (metis length_map pump_frame(1))

lemma pump_ids [simp]: "map t_id (tickets (pump q)) = map t_id (tickets q)"
  by (rule map_strip_eq [OF pump_frame(1)]) simp

lemma pump_nth_strip:
  "j < length (tickets q) \<Longrightarrow> strip (tickets (pump q) ! j) = strip (tickets q ! j)"
  by (metis nth_map pump_frame(1) pump_length)

lemma pump_keeps_running:
  "j < length (tickets q) \<Longrightarrow> t_state (tickets q ! j) = Running \<Longrightarrow>
     tickets (pump q) ! j = tickets q ! j"
  using pump_inv_pump [of q] by (auto simp: pump_inv_def)

lemma pump_settled: "settled (pump q)"
proof -
  obtain run where inv: "pump_inv (length (tickets q)) q run (pump q)"
    using pump_inv_pump by blast
  then show ?thesis
    unfolding settled_def pump_inv_def by (metis in_set_conv_nth pump_length)
qed

lemma pump_capacity_bound:
  "running_count (pump q) L \<le> max (running_count q L) (capacity q L)"
  using pump_inv_pump [of q] by (auto simp: pump_inv_def)

lemma pump_background:
  assumes "j < length (tickets q)" and "t_state (tickets q ! j) = Waiting"
    and "t_state (tickets (pump q) ! j) = Running" and "t_priority (tickets q ! j) = Background"
  shows "\<not> lane_busy_for_background q (t_lane (tickets q ! j))"
  using pump_inv_pump [of q] assms by (auto simp: pump_inv_def)


text \<open>Position \<open>j\<close> is decided in step \<open>j\<close> and not touched again.\<close>

lemma pump_step_other: "j \<noteq> k \<Longrightarrow> tickets (snd (pump_step k s)) ! j = tickets (snd s) ! j"
  by (cases s) (simp add: pump_step_def Let_def)

lemma pump_upto_decided:
  "j < k \<Longrightarrow> tickets (snd (pump_upto k q)) ! j = tickets (snd (pump_upto (Suc j) q)) ! j"
proof (induction k)
  case 0
  then show ?case by simp
next
  case (Suc k)
  show ?case
  proof (cases "j = k")
    case False
    with Suc have "j < k" by simp
    with Suc.IH show ?thesis by (simp add: pump_upto_Suc [of k] pump_step_other)
  qed simp
qed

lemma pump_upto_len [simp]:
  "k \<le> length (tickets q) \<Longrightarrow> length (tickets (snd (pump_upto k q))) = length (tickets q)"
  using pump_upto_inv [of k q] unfolding pump_inv_def by (metis length_map)

lemma pump_fifo:
  assumes ij: "i < j" "j < length (tickets q)"
    and lane: "t_lane (tickets q ! i) = t_lane (tickets q ! j)"
    and waiting: "t_state (tickets q ! j) = Waiting"
    and fg: "t_priority (tickets q ! i) = Foreground"
    and admitted: "t_state (tickets (pump q) ! j) = Running"
  shows "t_state (tickets (pump q) ! i) = Running"
proof (rule ccontr)
  assume "t_state (tickets (pump q) ! i) \<noteq> Running"
  then have waits: "t_state (tickets (pump q) ! i) = Waiting" by (cases "t_state (tickets (pump q) ! i)") auto
  obtain run q' where s: "pump_upto j q = (run, q')" by (cases "pump_upto j q")
  have inv: "pump_inv j q run q'" using pump_upto_inv [of j q] ij s by simp
  have i_now: "tickets q' ! i = tickets (pump q) ! i"
    using pump_upto_decided [of i j q] pump_upto_decided [of i "length (tickets q)" q] ij s
    by (simp add: pump_upto_pump)
  have strips: "map strip (tickets q') = map strip (tickets q)" using inv by (simp add: pump_inv_def)
  then have len: "length (tickets q') = length (tickets q)" by (metis length_map)
  have si: "strip (tickets q' ! i) = strip (tickets q ! i)"
    using strips ij len by (metis nth_map order.strict_trans)
  have pri: "t_priority (tickets q' ! i) = Foreground" "t_lane (tickets q' ! i) = t_lane (tickets q ! j)"
    using si fg lane by (metis strip_fields(4)) (metis si lane strip_fields(2))
  have "blocked q' (tickets q' ! i)"
    using inv ij waits i_now unfolding pump_inv_def by (metis order.strict_trans)
  then have full: "capacity q' (t_lane (tickets q ! j)) \<le> running_count q' (t_lane (tickets q ! j))"
    using pri by (simp add: blocked_def)
  have j_now: "tickets q' ! j = tickets q ! j" using inv ij by (simp add: pump_inv_def)
  have "unwrap_or_0 (run L) = running_count q' L" for L using inv by (simp add: pump_inv_def)
  then have "pump_step j (run, q') = (run, q')"
    using full by (simp add: pump_step_def Let_def j_now)
  then have "tickets (snd (pump_upto (Suc j) q)) ! j = tickets q ! j"
    by (simp add: pump_upto_Suc s j_now)
  moreover have "tickets (pump q) ! j = tickets (snd (pump_upto (Suc j) q)) ! j"
    using pump_upto_decided [of j "length (tickets q)" q] ij by (simp add: pump_upto_pump)
  ultimately show False using admitted waiting by simp
qed

section \<open>Senders belong to the waiting tickets\<close>

definition ids_ok :: "'v inner \<Rightarrow> bool" where
  "ids_ok q \<longleftrightarrow> distinct (map t_id (tickets q)) \<and> dom (senders q) = waiting_ids q"

lemma waiting_ids_admit:
  assumes "distinct (map t_id ts)" and "k < length ts"
  shows "t_id ` {t \<in> set (ts[k := (ts ! k)\<lparr>t_state := Running\<rparr>]). t_state t = Waiting}
       = t_id ` {t \<in> set ts. t_state t = Waiting} - {t_id (ts ! k)}"
proof -
  have split: "ts = take k ts @ ts ! k # drop (Suc k) ts"
    using assms(2) by (rule vec_remove_split)
  have d: "distinct (map t_id (take k ts @ ts ! k # drop (Suc k) ts))"
    using assms(1) split by simp
  then have "\<forall>x \<in> set (take k ts) \<union> set (drop (Suc k) ts). t_id x \<noteq> t_id (ts ! k)"
    by (auto simp: image_iff)
  moreover have "set (ts[k := (ts ! k)\<lparr>t_state := Running\<rparr>])
      = insert ((ts ! k)\<lparr>t_state := Running\<rparr>) (set (take k ts) \<union> set (drop (Suc k) ts))"
    using assms(2) by (simp add: upd_conv_take_nth_drop)
  moreover have "set ts = insert (ts ! k) (set (take k ts) \<union> set (drop (Suc k) ts))"
    using split by (metis Un_insert_right list.simps(15) set_append)
  ultimately show ?thesis by auto
qed

lemma pump_step_ids:
  assumes "ids_ok (snd s)" and "k < length (tickets (snd s))"
  shows "ids_ok (snd (pump_step k s))"
proof -
  obtain run q where s: "s = (run, q)" by (cases s)
  show ?thesis
  proof (cases "snd (pump_step k s) = q")
    case False
    then have step: "snd (pump_step k s) = send_and_remove (t_id (tickets q ! k))
        (q\<lparr>tickets := (tickets q)[k := (tickets q ! k)\<lparr>t_state := Running\<rparr>]\<rparr>)"
      by (auto simp: pump_step_def Let_def s split: if_splits)
    have "map t_id ((tickets q)[k := (tickets q ! k)\<lparr>t_state := Running\<rparr>]) = map t_id (tickets q)"
      using assms(2) by (simp add: s map_update list_update_same_conv)
    then show ?thesis
      using assms waiting_ids_admit [of "tickets q" k]
      unfolding step by (simp add: ids_ok_def waiting_ids_def s)
  qed (use assms s in simp)
qed

lemma pump_ids_ok:
  assumes "ids_ok q"
  shows "ids_ok (pump q)"
proof -
  have "k \<le> length (tickets q) \<Longrightarrow> ids_ok (snd (pump_upto k q))" for k
  proof (induction k)
    case 0
    show ?case using assms by simp
  next
    case (Suc k)
    then show ?case by (simp add: pump_upto_Suc pump_step_ids)
  qed
  then show ?thesis by (simp add: pump_upto_pump)
qed

section \<open>The invariant of the queue\<close>

text \<open>\<open>base_ok\<close> is what holds before a pump, \<open>queue_ok\<close> what holds between operations.\<close>

text \<open>Among the waiters of a lane, the returning (\<open>front\<close>) ones come first.\<close>

definition front_before :: "'v ticket \<Rightarrow> 'v ticket \<Rightarrow> bool" where
  "front_before a b \<longleftrightarrow> t_lane a = t_lane b \<longrightarrow> t_state a = Waiting \<longrightarrow> t_state b = Waiting \<longrightarrow>
     t_front b \<longrightarrow> t_front a"

definition front_first :: "'v ticket list \<Rightarrow> bool" where
  "front_first = sorted_wrt front_before"

lemma front_first_pump:
  assumes "front_first (tickets q)"
  shows "front_first (tickets (pump q))"
  unfolding front_first_def sorted_wrt_iff_nth_less
proof (intro allI impI)
  fix i j assume ij: "i < j" "j < length (tickets (pump q))"
  then have old: "front_before (tickets q ! i) (tickets q ! j)"
    using assms by (simp add: front_first_def sorted_wrt_iff_nth_less)
  have w: "t_state (tickets (pump q) ! k) = Waiting \<Longrightarrow> t_state (tickets q ! k) = Waiting"
    if "k < length (tickets q)" for k
    using pump_keeps_running [OF that] by (cases "t_state (tickets q ! k)") auto
  have f: "t_front (tickets (pump q) ! k) = t_front (tickets q ! k)"
    "t_lane (tickets (pump q) ! k) = t_lane (tickets q ! k)" if "k < length (tickets q)" for k
    using pump_nth_strip [OF that] by (metis strip_fields(3)) (metis pump_nth_strip [OF that] strip_fields(2))
  show "front_before (tickets (pump q) ! i) (tickets (pump q) ! j)"
    using old w [of i] w [of j] f [of i] f [of j] ij by (simp add: front_before_def)
qed

definition base_ok :: "'v inner \<Rightarrow> bool" where
  "base_ok q \<longleftrightarrow> ids_ok q \<and> front_first (tickets q) \<and> length (cancelled_early q) \<le> EARLY_CANCEL_CAP \<and>
     (\<forall>L c. lane_capacity q L = Some c \<longrightarrow> 1 \<le> c)"

definition queue_ok :: "'v inner \<Rightarrow> bool" where
  "queue_ok q \<longleftrightarrow> base_ok q \<and> settled q"

lemma queue_okI: "base_ok q \<Longrightarrow> queue_ok (pump q)"
  by (simp add: queue_ok_def base_ok_def pump_ids_ok pump_settled pump_frame front_first_pump)

lemma queue_ok_base [dest]: "queue_ok q \<Longrightarrow> base_ok q"
  by (simp add: queue_ok_def)

lemma queue_ok_default: "queue_ok inner_default"
  by (simp add: queue_ok_def base_ok_def ids_ok_def settled_def waiting_ids_def inner_default_def
      front_first_def)

lemma front_first_filter: "front_first ts \<Longrightarrow> front_first (filter p ts)"
  by (simp add: front_first_def sorted_wrt_filter)

lemma front_first_remove:
  assumes "front_first ts"
  shows "front_first (vec_remove i ts)"
proof (cases "i < length ts")
  case True
  then have "front_first (take i ts @ ts ! i # drop (Suc i) ts)"
    using assms by (simp add: id_take_nth_drop [symmetric])
  then show ?thesis by (auto simp: front_first_def vec_remove_def sorted_wrt_append)
qed (use assms in \<open>simp add: vec_remove_def\<close>)

lemma ids_ok_remove:
  assumes "ids_ok q" and "i < length (tickets q)"
    and "tickets q' = vec_remove i (tickets q)" and "senders q' = (senders q)(t_id (tickets q ! i) := None)"
  shows "ids_ok q'"
proof -
  have ts: "tickets q' = filter (\<lambda>t. t_id t \<noteq> t_id (tickets q ! i)) (tickets q)"
    using vec_remove_distinct [of t_id "tickets q" i] assms by (simp add: ids_ok_def)
  show ?thesis
    using assms(1,4) by (auto simp: ids_ok_def ts waiting_ids_def distinct_map_filter)
qed

lemma ids_ok_filter:
  assumes "ids_ok q" and "tickets q' = filter (\<lambda>t. \<not> p t) (tickets q)"
    and "senders q' = (\<lambda>i. if i \<in> t_id ` {t \<in> set (tickets q). p t} then None else senders q i)"
  shows "ids_ok q'"
proof -
  have inj: "inj_on t_id (set (tickets q))"
    using assms(1) by (simp add: ids_ok_def distinct_map)
  have "dom (senders q') = waiting_ids q - t_id ` {t \<in> set (tickets q). p t}"
    using assms(1,3) by (auto simp: ids_ok_def dom_def split: if_splits)
  also have "\<dots> = waiting_ids q'"
    using inj by (auto simp: waiting_ids_def assms(2) inj_on_def)
  finally show ?thesis
    using assms(1,2) by (simp add: ids_ok_def distinct_map_filter)
qed

lemma remove_ticket_where_ok:
  assumes "queue_ok q"
  shows "queue_ok (snd (remove_ticket_where p q))"
proof (cases "position p (tickets q)")
  case (Some i)
  let ?q = "drop_sender (t_id (tickets q ! i)) (q\<lparr>tickets := vec_remove i (tickets q)\<rparr>)"
  have "ids_ok ?q"
    by (rule ids_ok_remove [of q i]) (use assms position_SomeD [OF Some] in \<open>auto simp: base_ok_def\<close>)
  then have "base_ok ?q" using assms by (auto simp: base_ok_def front_first_remove dest: queue_ok_base)
  then show ?thesis by (simp add: remove_ticket_where_def Some Let_def queue_okI)
qed (use assms in \<open>simp add: remove_ticket_where_def\<close>)

text \<open>Where a new ticket lands: before the first ordinary waiter of its lane, or at the end.\<close>

definition new_ticket ::
  "string \<Rightarrow> 'v \<Rightarrow> string \<Rightarrow> string \<Rightarrow> admission \<Rightarrow> nat \<Rightarrow> 'v ticket" where
  "new_ticket i c lane w adm now = \<lparr>t_id = i, t_consumer = c, t_lane = lane, t_state = Waiting,
     t_front = a_front adm, t_priority = a_priority adm, t_owner_window = w,
     t_enqueued_at = now, t_lease_expires_at = now + LEASE_TTL_MS\<rparr>"

definition landing :: "string \<Rightarrow> admission \<Rightarrow> 'v inner \<Rightarrow> nat" where
  "landing lane adm q =
     (case (if a_front adm
            then position (\<lambda>t. t_lane t = lane \<and> t_state t = Waiting \<and> \<not> t_front t) (tickets q)
            else None)
      of Some k \<Rightarrow> k | None \<Rightarrow> length (tickets q))"

lemma join_lane_fields:
  "tickets (join_lane i c lane mp w adm now tx q)
     = vec_insert (landing lane adm q) (new_ticket i c lane w adm now) (tickets q)"
  "senders (join_lane i c lane mp w adm now tx q) = (senders q)(i \<mapsto> tx)"
  "cancelled_early (join_lane i c lane mp w adm now tx q) = cancelled_early q"
  "lane_capacity (join_lane i c lane mp w adm now tx q)
     = (lane_capacity q)(lane \<mapsto> (case mp of None \<Rightarrow> usize_max | Some n \<Rightarrow> max n 1))"
  "reservations (join_lane i c lane mp w adm now tx q)
     = filter (\<lambda>r. a_replaces adm \<noteq> Some (r_id r)) (reservations q)"
  by (auto simp: join_lane_def Let_def new_ticket_def landing_def vec_insert_def split: option.splits
      intro!: arg_cong2 [where f = filter])

lemma new_ticket_fields [simp]:
  "t_id (new_ticket i c lane w adm now) = i" "t_lane (new_ticket i c lane w adm now) = lane"
  "t_state (new_ticket i c lane w adm now) = Waiting"
  "t_front (new_ticket i c lane w adm now) = a_front adm"
  "t_priority (new_ticket i c lane w adm now) = a_priority adm"
  "t_owner_window (new_ticket i c lane w adm now) = w"
  by (simp_all add: new_ticket_def)

lemma front_first_join:
  assumes "front_first (tickets q)"
  shows "front_first (tickets (join_lane i c lane mp w adm now tx q))"
proof -
  let ?n = "new_ticket i c lane w adm now" and ?k = "landing lane adm q" and ?ts = "tickets q"
  let ?ord = "\<lambda>t. t_lane t = lane \<and> t_state t = Waiting \<and> \<not> t_front t"
  have parts: "sorted_wrt front_before (take ?k ?ts)" "sorted_wrt front_before (drop ?k ?ts)"
    "\<forall>a\<in>set (take ?k ?ts). \<forall>b\<in>set (drop ?k ?ts). front_before a b"
    using assms unfolding front_first_def by (metis append_take_drop_id sorted_wrt_append)+
  have before: "front_before a ?n" if "a \<in> set (take ?k ?ts)" for a
  proof (cases "a_front adm")
    case True
    have "\<not> ?ord a"
    proof (cases "position ?ord ?ts")
      case None
      with that show ?thesis by (auto simp: vec_simps dest: in_set_takeD)
    next
      case (Some k)
      from that obtain j where "j < k" "a = ?ts ! j"
        using Some True position_SomeD [OF Some] by (auto simp: landing_def in_set_conv_nth)
      with position_SomeD [OF Some] show ?thesis by simp
    qed
    then show ?thesis by (auto simp: front_before_def)
  qed (simp add: front_before_def)
  have after: "front_before ?n b" if b: "b \<in> set (drop ?k ?ts)" for b
  proof (cases "a_front adm")
    case False
    then have "?k = length ?ts" by (simp add: landing_def)
    with b show ?thesis by simp
  qed (simp add: front_before_def)
  show ?thesis
    using parts before after
    by (auto simp: join_lane_fields vec_insert_def front_first_def sorted_wrt_append)
qed

lemma join_lane_base:
  assumes "base_ok q" and "\<not> list_ex (\<lambda>t. t_id t = i) (tickets q)"
  shows "base_ok (join_lane i c lane mp w adm now tx q)"
proof -
  have "waiting_ids (join_lane i c lane mp w adm now tx q) = insert i (waiting_ids q)"
    by (force simp: waiting_ids_def join_lane_fields vec_simps)
  then show ?thesis
    using assms
    by (auto simp: base_ok_def ids_ok_def front_first_join)
      (auto simp: join_lane_fields vec_simps list_ex_iff usize_max_def
        split: option.splits if_splits)
qed

text \<open>Removing an early cancellation changes nothing the invariant reads.\<close>

lemma queue_ok_early:
  assumes "queue_ok q" and "length cs \<le> EARLY_CANCEL_CAP"
  shows "queue_ok (q\<lparr>cancelled_early := cs\<rparr>)"
  using assms
  by (auto simp: queue_ok_def base_ok_def ids_ok_def settled_def waiting_ids_def
      blocked_def running_count_def lane_busy_for_background_def capacity_def)

lemma enqueue_with_ok:
  assumes "queue_ok q"
  shows "queue_ok (snd (enqueue_with i c lane mp w adm now tx q))"
proof (cases "position (\<lambda>x. x = i) (cancelled_early q)")
  case (Some pos)
  then have "pos < length (cancelled_early q)" by (rule position_SomeD [THEN conjunct1])
  then have "length (vec_remove pos (cancelled_early q)) \<le> EARLY_CANCEL_CAP"
    using assms by (auto simp: vec_remove_def queue_ok_def base_ok_def)
  with assms Some show ?thesis by (simp add: enqueue_with_def queue_ok_early)
next
  case None
  with assms show ?thesis
    by (auto simp: enqueue_with_def intro: queue_okI join_lane_base)
qed

lemma cancel_ok:
  assumes "queue_ok q"
  shows "queue_ok (snd (cancel i q))"
  using assms
  by (auto simp: cancel_def remember_early_def Let_def intro: queue_ok_early remove_ticket_where_ok)

text \<open>Dropping reservations before a pump keeps the base invariant.\<close>

lemma base_ok_reservations [simp]: "base_ok (q\<lparr>reservations := rs\<rparr>) = base_ok q"
  by (simp add: base_ok_def ids_ok_def waiting_ids_def)

lemma release_with_ok:
  assumes "queue_ok q"
  shows "queue_ok (snd (release_with i res now q))"
proof (cases "position (\<lambda>t. t_id t = i) (tickets q)")
  case None
  have "\<not> list_ex (\<lambda>r. r_id r = i) (reservations q) \<Longrightarrow>
      filter (\<lambda>r. r_id r \<noteq> i) (reservations q) = reservations q"
    by (auto simp: list_ex_iff filter_id_conv)
  then show ?thesis
    using assms None by (auto simp: release_with_def Let_def intro!: queue_okI)
next
  case (Some k)
  let ?q = "drop_sender (t_id (tickets q ! k)) (q\<lparr>tickets := vec_remove k (tickets q)\<rparr>)"
  have "ids_ok ?q"
    by (rule ids_ok_remove [of q k]) (use assms position_SomeD [OF Some] in \<open>auto simp: base_ok_def\<close>)
  then have base: "base_ok ?q"
    using assms by (auto simp: base_ok_def front_first_remove dest: queue_ok_base)
  have swap: "drop_sender j (q\<lparr>reservations := rs, tickets := ts\<rparr>)
      = (drop_sender j (q\<lparr>tickets := ts\<rparr>))\<lparr>reservations := rs\<rparr>" for j rs ts
    by (simp add: drop_sender_def split: option.splits)
  show ?thesis
    using base by (auto simp: release_with_def Let_def Some swap intro!: queue_okI)
qed

lemma map_update_first: "(\<And>x. f (g x) = f x) \<Longrightarrow> map f (update_first p g xs) = map f xs"
  by (induction xs) auto

text \<open>The invariant reads only these fields of the tickets and the reservations.\<close>

definition core :: "'v ticket \<Rightarrow> string \<times> string \<times> ticket_state \<times> bool \<times> priority" where
  "core t = (t_id t, t_lane t, t_state t, t_front t, t_priority t)"

lemma length_filter_core:
  "length (filter (\<lambda>t. P (core t)) ts) = length (filter P (map core ts))"
  by (induction ts) auto

lemma list_ex_core: "list_ex (\<lambda>t. P (core t)) ts = list_ex P (map core ts)"
  by (induction ts) auto

lemma waiting_ids_core:
  "waiting_ids p = fst ` {c \<in> set (map core (tickets p)). fst (snd (snd c)) = Waiting}"
  by (force simp: waiting_ids_def core_def image_iff)

lemma queue_ok_cong:
  fixes q q' :: "'v inner"
  assumes c: "map core (tickets q') = map core (tickets q)"
    and rest: "senders q' = senders q" "lane_capacity q' = lane_capacity q"
      "cancelled_early q' = cancelled_early q" "map r_lane (reservations q') = map r_lane (reservations q)"
    and ok: "queue_ok q"
  shows "queue_ok q'"
proof -
  have len: "length (tickets q') = length (tickets q)" using c by (metis length_map)
  have pt: "core (tickets q' ! j) = core (tickets q ! j)" if "j < length (tickets q)" for j
    using c that len by (metis nth_map)
  have "map t_id (tickets q') = map fst (map core (tickets q'))" by (simp add: core_def comp_def)
  also have "\<dots> = map t_id (tickets q)" using c by (simp add: core_def comp_def)
  finally have ids: "map t_id (tickets q') = map t_id (tickets q)" .
  have filt: "length (filter (\<lambda>t. P (core t)) (tickets q')) = length (filter (\<lambda>t. P (core t)) (tickets q))" for P
    by (simp only: length_filter_core c)
  have count: "running_count q' L = running_count q L" for L
    using filt [of "\<lambda>c. fst (snd c) = L \<and> fst (snd (snd c)) = Running"]
    by (simp add: running_count_def core_def)
  have "list_ex (\<lambda>t. P (core t)) (tickets q') = list_ex (\<lambda>t. P (core t)) (tickets q)" for P
    by (simp only: list_ex_core c)
  from this [of "\<lambda>c. fst (snd c) = L \<and> snd (snd (snd (snd c))) = Foreground" for L]
  have fg: "list_ex (\<lambda>t. t_lane t = L \<and> t_priority t = Foreground) (tickets q')
      = list_ex (\<lambda>t. t_lane t = L \<and> t_priority t = Foreground) (tickets q)" for L
    by (simp add: core_def)
  have lanes: "list_ex (\<lambda>r. r_lane r = L) rs = (L \<in> set (map r_lane rs))" for L rs
    by (auto simp: list_ex_iff)
  have busy: "lane_busy_for_background q' L = lane_busy_for_background q L" for L
    by (simp only: lane_busy_for_background_def fg lanes rest(4))
  have blk: "blocked q' (tickets q' ! j) = blocked q (tickets q ! j)" if "j < length (tickets q)" for j
    using pt [OF that] capacity_cong [OF rest(2)] by (simp add: blocked_def core_def count busy)
  have st: "t_state (tickets q' ! j) = t_state (tickets q ! j)" if "j < length (tickets q)" for j
    using pt [OF that] by (simp add: core_def)
  have "settled q'"
    using ok len blk st unfolding queue_ok_def settled_def all_set_conv_all_nth by simp
  moreover have "front_first (tickets q')"
    using ok pt len
    by (simp add: queue_ok_def base_ok_def front_first_def sorted_wrt_iff_nth_less front_before_def core_def)
  moreover have "waiting_ids q' = waiting_ids q"
    unfolding waiting_ids_core c ..
  ultimately show ?thesis
    using ok unfolding queue_ok_def base_ok_def ids_ok_def rest ids 
    by (elim conjE) (intro conjI; simp)
qed

lemma heartbeat_ok: "queue_ok q \<Longrightarrow> queue_ok (heartbeat i now q)"
  by (erule queue_ok_cong [rotated -1])
    (auto simp: heartbeat_def core_def intro!: map_update_first)

lemma reclaim_ok:
  assumes "queue_ok q"
  shows "queue_ok (snd (reclaim p q))"
proof -
  let ?dead = "\<lambda>t. p (t_owner_window t) (t_lease_expires_at t)"
  let ?rs = "filter (\<lambda>r. \<not> p (r_owner_window r) (r_lease_expires_at r)) (reservations q)"
  have base: "base_ok (fold drop_sender (map t_id (filter ?dead (tickets q)))
      (q\<lparr>reservations := ?rs, tickets := filter (\<lambda>t. \<not> ?dead t) (tickets q)\<rparr>))" (is "base_ok ?q")
  proof -
    have "ids_ok ?q"
      by (rule ids_ok_filter [of q]) (use assms in \<open>auto simp: base_ok_def\<close>)
    then show ?thesis using assms by (auto simp: base_ok_def front_first_filter dest: queue_ok_base)
  qed
  have same: "length ?rs = length (reservations q) \<Longrightarrow> ?rs = reservations q"
    by (metis filter_id_conv length_filter_less less_irrefl)
  show ?thesis
    using assms base same by (auto simp: reclaim_def Let_def intro!: queue_okI)
qed

lemma queue_step_ok: "queue_ok q \<Longrightarrow> queue_step q q' \<Longrightarrow> queue_ok q'"
  by (erule queue_stepE)
    (simp_all add: inference_acquire_start_def inference_release_def release_window_def
      sweep_expired_at_def enqueue_with_ok cancel_ok release_with_ok heartbeat_ok reclaim_ok)

interpretation queue_sys: guarded_system inner_default queue_step queue_ok
  by unfold_locales (auto intro: queue_ok_default queue_step_ok)

text \<open>The ids cancelled before they arrived form a bounded ring of the newest 64.\<close>

interpretation early_ring: bounded_ring remember_early cancelled_early "\<lambda>_. EARLY_CANCEL_CAP"
  by unfold_locales (auto simp: remember_early_def Let_def keep_last_def)

section \<open>How one step changes who runs\<close>

definition running_ids :: "'v inner \<Rightarrow> string set" where
  "running_ids q = t_id ` {t \<in> set (tickets q). t_state t = Running}"

definition no_new_runner :: "'v inner \<Rightarrow> 'v inner \<Rightarrow> bool" where
  "no_new_runner q q' \<longleftrightarrow> running_ids q' \<subseteq> running_ids q \<and>
     (\<forall>L. running_count q' L \<le> running_count q L)"

lemma no_new_runner_refl [simp]: "no_new_runner q q"
  by (simp add: no_new_runner_def)

lemma no_new_runner_subseq:
  assumes "subseq (tickets q') (tickets q)"
  shows "no_new_runner q q'"
proof -
  have "set (tickets q') \<subseteq> set (tickets q)"
    using assms by (auto elim: list_emb_set)
  moreover have "length (filter p (tickets q')) \<le> length (filter p (tickets q))" for p
    by (rule list_emb_length [OF subseq_filter [OF assms]])
  ultimately show ?thesis by (auto simp: no_new_runner_def running_ids_def running_count_def)
qed

lemma no_new_runner_filter: "tickets q' = filter p (tickets q) \<Longrightarrow> no_new_runner q q'"
  by (rule no_new_runner_subseq) (simp add: subseq_filter_left)

lemma no_new_runner_remove: "tickets q' = vec_remove i (tickets q) \<Longrightarrow> no_new_runner q q'"
  by (rule no_new_runner_subseq) (simp add: subseq_vec_remove)

lemma no_new_runner_same: "tickets q' = tickets q \<Longrightarrow> no_new_runner q q'"
  by (simp add: no_new_runner_def running_ids_def running_count_def)

lemma no_new_runner_join: "no_new_runner q (join_lane i c lane mp w adm now tx q)"
proof -
  have "filter p (vec_insert k x xs) = filter p xs" if "\<not> p x" for p x k and xs :: "'a ticket list"
    using that by (simp add: vec_simps)
  then show ?thesis
    by (auto simp: no_new_runner_def running_ids_def running_count_def join_lane_fields vec_simps)
qed

lemma running_ids_core:
  "running_ids p = fst ` {c \<in> set (map core (tickets p)). fst (snd (snd c)) = Running}"
  by (force simp: running_ids_def core_def image_iff)

lemma no_new_runner_update:
  fixes q q' :: "'v inner"
  assumes "map core (tickets q') = map core (tickets q)"
  shows "no_new_runner q q'"
proof -
  have "running_count q' L = running_count q L" for L
    using length_filter_core [of "\<lambda>c. fst (snd c) = L \<and> fst (snd (snd c)) = Running" "tickets q'"]
      length_filter_core [of "\<lambda>c. fst (snd c) = L \<and> fst (snd (snd c)) = Running" "tickets q"] assms
    by (simp add: running_count_def core_def)
  moreover have "running_ids q' = running_ids q" by (simp only: running_ids_core assms)
  ultimately show ?thesis by (simp add: no_new_runner_def)
qed

text \<open>Every step is a change that starts nobody, followed or not by a pump.\<close>

lemma release_with_shape:
  "\<exists>qb. no_new_runner q qb \<and> snd (release_with i res now q) \<in> {qb, pump qb}"
proof (cases "position (\<lambda>t. t_id t = i) (tickets q)")
  case None
  then show ?thesis
    by (intro exI [of _ "q\<lparr>reservations := filter (\<lambda>r. r_id r \<noteq> i) (reservations q)\<rparr>"])
      (simp add: release_with_def Let_def no_new_runner_same)
next
  case (Some k)
  let ?rs = "filter (\<lambda>r. r_id r \<noteq> i) (reservations q)" and ?t = "tickets q ! k"
  let ?qa = "drop_sender (t_id ?t) (q\<lparr>reservations := ?rs, tickets := vec_remove k (tickets q)\<rparr>)"
  let ?qb = "if res then ?qa\<lparr>reservations := ?rs @ [\<lparr>r_id = t_id ?t, r_lane = t_lane ?t,
      r_owner_window = t_owner_window ?t, r_lease_expires_at = now + LEASE_TTL_MS\<rparr>]\<rparr> else ?qa"
  have "no_new_runner q ?qb" by (rule no_new_runner_remove) simp
  then show ?thesis
    by (intro exI [of _ ?qb]) (simp add: release_with_def Let_def Some)
qed

lemma reclaim_shape: "\<exists>qb. no_new_runner q qb \<and> snd (reclaim p q) \<in> {qb, pump qb}"
proof -
  let ?dead = "\<lambda>t. p (t_owner_window t) (t_lease_expires_at t)"
  let ?qa = "q\<lparr>reservations :=
    filter (\<lambda>r. \<not> p (r_owner_window r) (r_lease_expires_at r)) (reservations q)\<rparr>"
  let ?qb = "fold drop_sender (map t_id (filter ?dead (tickets q)))
      (?qa\<lparr>tickets := filter (\<lambda>t. \<not> ?dead t) (tickets q)\<rparr>)"
  have a: "no_new_runner q ?qa" by (rule no_new_runner_same) simp
  have b: "no_new_runner q ?qb" by (rule no_new_runner_filter [of _ "\<lambda>t. \<not> ?dead t"]) simp
  have "snd (reclaim p q) \<in> {?qa, pump ?qa, ?qb, pump ?qb}"
    by (simp add: reclaim_def Let_def)
  then show ?thesis using a b by blast
qed

lemma remove_ticket_where_shape:
  "\<exists>qb. no_new_runner q qb \<and> snd (remove_ticket_where p q) \<in> {qb, pump qb}"
proof (cases "position p (tickets q)")
  case (Some k)
  let ?qb = "drop_sender (t_id (tickets q ! k)) (q\<lparr>tickets := vec_remove k (tickets q)\<rparr>)"
  have "no_new_runner q ?qb" by (rule no_new_runner_remove) simp
  then show ?thesis by (intro exI [of _ ?qb]) (simp add: remove_ticket_where_def Let_def Some)
qed (auto simp: remove_ticket_where_def intro: no_new_runner_refl)

lemma enqueue_with_shape:
  "\<exists>qb. no_new_runner q qb \<and> snd (enqueue_with i c lane mp w adm now tx q) \<in> {qb, pump qb}"
proof -
  let ?e = "snd (enqueue_with i c lane mp w adm now tx q)"
  have "?e = q \<or> (\<exists>cs. ?e = q\<lparr>cancelled_early := cs\<rparr>) \<or> ?e = pump (join_lane i c lane mp w adm now tx q)"
    by (cases "position (\<lambda>x. x = i) (cancelled_early q)") (auto simp: enqueue_with_def)
  moreover have "no_new_runner q (q\<lparr>cancelled_early := cs\<rparr>)" for cs by (rule no_new_runner_same) simp
  ultimately show ?thesis
    using no_new_runner_join [of q i c lane mp w adm now tx] no_new_runner_refl [of q] by blast
qed

lemma queue_step_shape:
  assumes "queue_step q q'"
  shows "\<exists>qb. no_new_runner q qb \<and> q' \<in> {qb, pump qb}"
  using assms
proof cases
  case (acquire i c l mp w f p r now tx)
  show ?thesis
    unfolding acquire inference_acquire_start_def by (rule enqueue_with_shape)
next
  case (cancel i)
  have "no_new_runner q (remember_early i q)"
    by (rule no_new_runner_same) (simp add: remember_early_def Let_def)
  then show ?thesis
    unfolding cancel cancel_def
    using remove_ticket_where_shape [of q "\<lambda>t. t_id t = i \<and> t_state t = Waiting"] by auto
next
  case (heartbeat i now)
  have "no_new_runner q (Inference_Queue.heartbeat i now q)"
    by (rule no_new_runner_update) (simp add: heartbeat_def core_def map_update_first)
  then show ?thesis using heartbeat by blast
next
  case (release i res now)
  show ?thesis unfolding release inference_release_def by (rule release_with_shape)
next
  case (window_gone w)
  show ?thesis unfolding window_gone release_window_def by (rule reclaim_shape)
next
  case (sweep now)
  show ?thesis unfolding sweep sweep_expired_at_def by (rule reclaim_shape)
qed

lemma pump_starts_background:
  assumes "t \<in> set (tickets (pump q))" "t_state t = Running" "t_priority t = Background"
    and "t_id t \<notin> running_ids q"
  shows "\<not> lane_busy_for_background (pump q) (t_lane t)"
proof -
  obtain j where j: "j < length (tickets q)" "t = tickets (pump q) ! j"
    using assms(1) by (metis in_set_conv_nth pump_length)
  have s: "strip t = strip (tickets q ! j)" using j pump_nth_strip by simp
  then have f: "t_id t = t_id (tickets q ! j)" "t_lane t = t_lane (tickets q ! j)"
    "t_priority t = t_priority (tickets q ! j)"
    by (metis strip_fields(1)) (metis s strip_fields(2), metis s strip_fields(4))
  have "t_state (tickets q ! j) \<noteq> Running"
    using assms(4) f(1) j(1) nth_mem by (fastforce simp: running_ids_def)
  then have "t_state (tickets q ! j) = Waiting" by (cases "t_state (tickets q ! j)") auto
  then have "\<not> lane_busy_for_background q (t_lane t)"
    using pump_background [OF j(1)] assms(2,3) f j(2) by simp
  then show ?thesis by (simp add: busy_cong [OF pump_frame(1,3)])
qed


section \<open>Properties\<close>

text \<open>C2. In every reachable queue no id occurs twice, exactly the waiting tickets have a sender
  to wake them, every waiting ticket has a reason to wait (its lane is full, or it is a
  background ticket and the lane is in use), every ticket's lane admits at least one turn and
  at most 64 early cancellations are remembered.\<close>

theorem reachable_queue_sound:
  assumes "queue_step\<^sup>*\<^sup>* inner_default q"
  shows "distinct (map t_id (tickets q)) \<and>
     dom (senders q) = t_id ` {t \<in> set (tickets q). t_state t = Waiting} \<and>
     (\<forall>t\<in>set (tickets q). t_state t = Waiting \<longrightarrow>
        capacity q (t_lane t) \<le> running_count q (t_lane t) \<or>
        (t_priority t = Background \<and> lane_busy_for_background q (t_lane t))) \<and>
     (\<forall>L. 1 \<le> capacity q L) \<and> length (cancelled_early q) \<le> 64"
proof -
  have ok: "queue_ok q" using assms by (rule queue_sys.reachable_inv)
  have "1 \<le> capacity q L" for L
    using ok by (cases "lane_capacity q L") (auto simp: queue_ok_def base_ok_def capacity_def)
  then show ?thesis
    using ok by (simp add: queue_ok_def base_ok_def ids_ok_def waiting_ids_def settled_def
        blocked_def EARLY_CANCEL_CAP_def)
qed

text \<open>Two windows ask for the single local slot: the second waits, with a sender.\<close>

definition example_queue :: "unit inner" where
  "example_queue =
     snd (inference_acquire_start ''b'' () ''local'' (Some 1) ''w2'' None None None 5 1
       (snd (inference_acquire_start ''a'' () ''local'' (Some 1) ''w1'' None None None 0 0
         inner_default)))"

lemmas run_queue = inference_acquire_start_def enqueue_with_def join_lane_def insert_sender_def
  drop_sender_def pump_def pump_step_def send_and_remove_def capacity_def running_by_lane_def
  unwrap_or_0_def lane_busy_for_background_def Let_def inner_default_def vec_insert_def
  priority_parse_def

lemma example_queue_tickets:
  "map (\<lambda>t. (t_id t, t_state t)) (tickets example_queue) = [(''a'', Running), (''b'', Waiting)]"
  by (simp add: example_queue_def run_queue)

lemma example_queue_reachable: "queue_step\<^sup>*\<^sup>* inner_default example_queue"
  unfolding example_queue_def
  by (rule rtranclp.rtrancl_into_rtrancl [OF r_into_rtranclp]) (rule queue_step.acquire)+

theorem reachable_queue_sound_witness:
  "distinct (map t_id (tickets example_queue)) \<and>
   dom (senders example_queue) = t_id ` {t \<in> set (tickets example_queue). t_state t = Waiting}"
  using reachable_queue_sound [OF example_queue_reachable] by blast

text \<open>C3. A lane never stalls: in every reachable queue, a lane with a ticket and without a
  reservation has a running ticket.\<close>

theorem lane_never_stalls:
  assumes "queue_step\<^sup>*\<^sup>* inner_default q" and "t \<in> set (tickets q)"
    and "\<forall>r\<in>set (reservations q). r_lane r \<noteq> t_lane t"
  shows "\<exists>t'\<in>set (tickets q). t_lane t' = t_lane t \<and> t_state t' = Running"
proof (rule ccontr)
  assume none: "\<not> ?thesis"
  have ok: "queue_ok q" using assms(1) by (rule queue_sys.reachable_inv)
  have "running_count q (t_lane t) = 0"
    using none by (auto simp: running_count_def filter_empty_conv)
  moreover have "1 \<le> capacity q (t_lane t)"
    using ok by (cases "lane_capacity q (t_lane t)") (auto simp: queue_ok_def base_ok_def capacity_def)
  ultimately have blocked: "t_priority s = Background \<and> lane_busy_for_background q (t_lane t)"
    if "s \<in> set (tickets q)" "t_lane s = t_lane t" for s
    using ok none that by (cases "t_state s") (auto simp: queue_ok_def settled_def blocked_def)
  have "lane_busy_for_background q (t_lane t)" using blocked [OF assms(2)] by simp
  then obtain s where "s \<in> set (tickets q)" "t_lane s = t_lane t" "t_priority s = Foreground"
    using assms(3) by (auto simp: lane_busy_for_background_def list_ex_iff)
  with blocked [of s] show False by simp
qed

theorem lane_never_stalls_witness:
  "\<exists>t'\<in>set (tickets example_queue). t_lane t' = ''local'' \<and> t_state t' = Running"
proof -
  have b: "tickets example_queue ! 1 \<in> set (tickets example_queue)"
    "t_lane (tickets example_queue ! 1) = ''local''" "reservations example_queue = []"
    by (simp_all add: example_queue_def run_queue)
  show ?thesis
    using lane_never_stalls [OF example_queue_reachable b(1)] b(2,3) by simp
qed

text \<open>Admission is first come, first served: when a pump starts the ticket at position \<open>j\<close>,
  every earlier foreground ticket of its lane is running too.\<close>

theorem pump_admits_in_order:
  assumes "i < j" "j < length (tickets q)" and "t_lane (tickets q ! i) = t_lane (tickets q ! j)"
    and "t_state (tickets q ! j) = Waiting" and "t_priority (tickets q ! i) = Foreground"
    and "t_state (tickets (pump q) ! j) = Running"
  shows "t_state (tickets (pump q) ! i) = Running"
  using assms by (rule pump_fifo)

definition two_waiters :: "unit inner" where
  "two_waiters = inner_default\<lparr>
     tickets := [new_ticket ''a'' () ''r'' ''w1'' admission_default 0,
                 new_ticket ''b'' () ''r'' ''w2'' admission_default 1],
     lane_capacity := [''r'' \<mapsto> 2]\<rparr>"

theorem pump_admits_in_order_witness:
  "t_state (tickets (pump two_waiters) ! 1) = Running \<and>
   t_state (tickets (pump two_waiters) ! 0) = Running"
proof -
  have run: "t_state (tickets (pump two_waiters) ! 1) = Running"
    by (simp add: two_waiters_def new_ticket_def admission_default_def run_queue)
  have "t_state (tickets (pump two_waiters) ! 0) = Running"
    by (rule pump_admits_in_order [OF _ _ _ _ _ run])
      (simp_all add: two_waiters_def admission_default_def)
  with run show ?thesis by simp
qed

text \<open>A turn coming back for its slot waits only behind other returning turns: in every
  reachable queue no ordinary waiter of a lane stands before a returning one.\<close>

theorem returning_turns_first:
  assumes "queue_step\<^sup>*\<^sup>* inner_default q" and "i < j" "j < length (tickets q)"
    and "t_lane (tickets q ! i) = t_lane (tickets q ! j)"
    and "t_state (tickets q ! i) = Waiting" "t_state (tickets q ! j) = Waiting"
    and "t_front (tickets q ! j)"
  shows "t_front (tickets q ! i)"
proof -
  have "front_first (tickets q)"
    using queue_sys.reachable_inv [OF assms(1)] by (simp add: queue_ok_def base_ok_def)
  then show ?thesis
    using assms by (simp add: front_first_def sorted_wrt_iff_nth_less front_before_def)
qed

text \<open>Two returning turns queue behind a running one and ahead of an ordinary waiter.\<close>

definition returning_queue :: "unit inner" where
  "returning_queue =
     snd (inference_acquire_start ''d'' () ''local'' (Some 1) ''w4'' (Some True) None None 7 3
       (snd (inference_acquire_start ''c'' () ''local'' (Some 1) ''w3'' (Some True) None None 6 2
         example_queue)))"

theorem returning_turns_first_witness:
  "map t_id (tickets returning_queue) = [''a'', ''c'', ''d'', ''b''] \<and>
   t_front (tickets returning_queue ! 1)"
proof -
  have r: "queue_step\<^sup>*\<^sup>* inner_default returning_queue"
    unfolding returning_queue_def
    by (rule rtranclp.rtrancl_into_rtrancl [OF rtranclp.rtrancl_into_rtrancl [OF example_queue_reachable]])
      (rule queue_step.acquire)+
  have q: "map (\<lambda>t. (t_id t, t_lane t, t_state t, t_front t)) (tickets returning_queue)
     = [(''a'', ''local'', Running, False), (''c'', ''local'', Waiting, True),
        (''d'', ''local'', Waiting, True), (''b'', ''local'', Waiting, False)]"
    by (simp add: returning_queue_def example_queue_def run_queue)
  have "length (map (\<lambda>t. (t_id t, t_lane t, t_state t, t_front t)) (tickets returning_queue)) = 4"
    unfolding q by simp
  then have n: "length (tickets returning_queue) = 4" by (simp only: length_map)
  show ?thesis
    using returning_turns_first [OF r, of 1 2] q n
    by (simp add: returning_queue_def example_queue_def run_queue)
qed

text \<open>C8. No operation starts more turns on a lane than its capacity allows: after any step a lane
  runs at most as many turns as its current capacity, or no more than it ran before.\<close>

theorem capacity_respected:
  assumes "queue_step q q'"
  shows "running_count q' L \<le> max (running_count q L) (capacity q' L)"
proof -
  obtain qb where qb: "no_new_runner q qb" "q' = qb \<or> q' = pump qb"
    using queue_step_shape [OF assms] by blast
  have "capacity (pump qb) L = capacity qb L"
    using capacity_cong [OF pump_frame(2)] by metis
  then have "running_count q' L \<le> max (running_count qb L) (capacity q' L)"
    using qb(2) pump_capacity_bound [of qb L] by auto
  moreover have "running_count qb L \<le> running_count q L"
    using qb(1) by (simp add: no_new_runner_def)
  ultimately show ?thesis by linarith
qed

theorem capacity_respected_witness:
  "running_count example_queue ''local'' \<le> 1"
proof -
  let ?q = "snd (inference_acquire_start ''a'' () ''local'' (Some 1) ''w1'' None None None 0 0 inner_default)"
  have "queue_step ?q example_queue" unfolding example_queue_def by (rule queue_step.acquire)
  from capacity_respected [OF this, of "''local''"] show ?thesis
    by (simp add: running_count_def example_queue_def run_queue)
qed

text \<open>C9. A background ticket starts only on a lane that is otherwise idle: if a step starts one,
  the lane then has no foreground ticket, running or waiting, and no reservation.\<close>

theorem background_gives_way:
  assumes "queue_step q q'" and "t \<in> set (tickets q')" and "t_state t = Running"
    and "t_priority t = Background" and "\<not> (\<exists>s\<in>set (tickets q). t_id s = t_id t \<and> t_state s = Running)"
  shows "(\<forall>s\<in>set (tickets q'). t_lane s = t_lane t \<longrightarrow> t_priority s = Background) \<and>
     (\<forall>r\<in>set (reservations q'). r_lane r \<noteq> t_lane t)"
proof -
  obtain qb where qb: "no_new_runner q qb" "q' = qb \<or> q' = pump qb"
    using queue_step_shape [OF assms(1)] by blast
  have "t_id t \<notin> running_ids q" using assms(5) by (auto simp: running_ids_def)
  then have new: "t_id t \<notin> running_ids qb" using qb(1) by (auto simp: no_new_runner_def)
  then have "q' \<noteq> qb" using assms(2,3) by (auto simp: running_ids_def)
  with qb(2) have "\<not> lane_busy_for_background q' (t_lane t)"
    using pump_starts_background [OF _ assms(3,4) new] assms(2) by simp
  then show ?thesis
    by (auto simp: lane_busy_for_background_def list_ex_iff)
      (metis priority.exhaust)
qed

definition home_card_queue :: "unit inner" where
  "home_card_queue =
     snd (inference_acquire_start ''j'' () ''local'' (Some 1) ''main'' None (Some ''background'') None 0 0
       inner_default)"

theorem background_gives_way_witness:
  "map (\<lambda>t. (t_id t, t_state t)) (tickets home_card_queue) = [(''j'', Running)] \<and>
   list_all (\<lambda>s. t_lane s = ''local'' \<longrightarrow> t_priority s = Background) (tickets home_card_queue)"
proof -
  have step: "queue_step inner_default home_card_queue"
    unfolding home_card_queue_def by (rule queue_step.acquire)
  have t: "tickets home_card_queue ! 0 \<in> set (tickets home_card_queue)"
    "t_state (tickets home_card_queue ! 0) = Running"
    "t_priority (tickets home_card_queue ! 0) = Background"
    "t_lane (tickets home_card_queue ! 0) = ''local''"
    "map (\<lambda>t. (t_id t, t_state t)) (tickets home_card_queue) = [(''j'', Running)]"
    by (simp_all add: home_card_queue_def run_queue)
  have "\<not> (\<exists>s\<in>set (tickets (inner_default :: unit inner)). t_id s = i \<and> t_state s = Running)" for i
    by (simp add: inner_default_def)
  from background_gives_way [OF step t(1,2,3) this] t(4,5) show ?thesis by (simp add: list_all_iff)
qed

text \<open>An abort that overtakes its own acquire still wins: cancelling an id no ticket has, then
  acquiring with that id, is refused as cancelled and leaves the tickets as they were, and the
  cancellation is used up.\<close>

theorem cancel_before_acquire:
  assumes "\<forall>t\<in>set (tickets q). t_id t \<noteq> i" and "i \<notin> set (cancelled_early q)"
    and "length (cancelled_early q) \<le> 64"
  shows "fst (enqueue_with i c lane mp w adm now tx (snd (cancel i q))) = Inl RequestCancelled \<and>
     tickets (snd (enqueue_with i c lane mp w adm now tx (snd (cancel i q)))) = tickets q \<and>
     i \<notin> set (cancelled_early (snd (enqueue_with i c lane mp w adm now tx (snd (cancel i q)))))"
proof -
  let ?q = "snd (cancel i q)"
  have fresh: "\<not> list_ex (\<lambda>t. t_id t = i) (tickets q)" using assms(1) by (simp add: list_ex_iff)
  then have q: "?q = remember_early i q" by (simp add: cancel_def)
  have ring: "cancelled_early ?q = keep_last 64 (cancelled_early q @ [i])"
    using early_ring.content_push [of q i] assms(3) by (simp add: q EARLY_CANCEL_CAP_def)
  then obtain cs where cs: "cancelled_early ?q = cs @ [i]" "set cs \<subseteq> set (cancelled_early q)"
    by (simp add: keep_last_def) (metis set_drop_subset)
  have "position (\<lambda>x. x = i) (cs @ [i]) = Some (length cs)"
    using cs(2) assms(2) by (induction cs) auto
  moreover have "tickets ?q = tickets q" by (simp add: q remember_early_def Let_def)
  ultimately show ?thesis
    using cs assms(2) fresh by (auto simp: enqueue_with_def vec_remove_def)
qed

theorem cancel_before_acquire_witness:
  "fst (enqueue_with ''x'' () ''local'' (Some 1) ''main'' admission_default 3 9
          (snd (cancel ''x'' example_queue))) = Inl RequestCancelled"
proof -
  have "\<forall>t\<in>set (tickets example_queue). t_id t \<noteq> ''x''" "''x'' \<notin> set (cancelled_early example_queue)"
    "length (cancelled_early example_queue) \<le> 64"
    by (simp_all add: example_queue_def run_queue)
  from cancel_before_acquire [OF this] show ?thesis by blast
qed

lemma reclaim_ids:
  "map t_id (tickets (snd (reclaim p q)))
     = map t_id (filter (\<lambda>t. \<not> p (t_owner_window t) (t_lease_expires_at t)) (tickets q))"
proof (cases "filter (\<lambda>t. p (t_owner_window t) (t_lease_expires_at t)) (tickets q) = []")
  case True
  then have "filter (\<lambda>t. \<not> p (t_owner_window t) (t_lease_expires_at t)) (tickets q) = tickets q"
    by (simp add: filter_empty_conv filter_id_conv)
  with True show ?thesis by (simp add: reclaim_def Let_def)
next
  case False
  then show ?thesis by (simp add: reclaim_def Let_def)
qed

lemma reclaim_reservations:
  "reservations (snd (reclaim p q))
     = filter (\<lambda>r. \<not> p (r_owner_window r) (r_lease_expires_at r)) (reservations q)"
  by (simp add: reclaim_def Let_def pump_frame)

lemma reclaim_changed:
  "fst (reclaim p q) =
     ((\<exists>t\<in>set (tickets q). p (t_owner_window t) (t_lease_expires_at t)) \<or>
      (\<exists>r\<in>set (reservations q). p (r_owner_window r) (r_lease_expires_at r)))"
proof -
  have "length (filter P rs) = length rs \<longleftrightarrow> (\<forall>r\<in>set rs. P r)" for P and rs :: "reservation list"
    by (metis filter_id_conv length_filter_less less_irrefl)
  then show ?thesis by (auto simp: reclaim_def Let_def filter_empty_conv)
qed

text \<open>When a window is destroyed, exactly its tickets and reservations go: the ids left, in
  order, are those of the other windows, and no reservation of the window stays.\<close>

theorem window_gone_frees:
  "map t_id (tickets (snd (release_window w q)))
     = map t_id (filter (\<lambda>t. t_owner_window t \<noteq> w) (tickets q)) \<and>
   reservations (snd (release_window w q)) = filter (\<lambda>r. r_owner_window r \<noteq> w) (reservations q) \<and>
   fst (release_window w q) =
     ((\<exists>t\<in>set (tickets q). t_owner_window t = w) \<or> (\<exists>r\<in>set (reservations q). r_owner_window r = w))"
  by (simp add: release_window_def reclaim_ids reclaim_reservations reclaim_changed)

lemma update_first_mem:
  "\<exists>x\<in>set xs. p x \<Longrightarrow> \<exists>x\<in>set xs. p x \<and> f x \<in> set (update_first p f xs)"
  by (induction xs) auto

text \<open>A turn that heartbeats keeps its ticket: after a heartbeat at \<open>now\<close> for a ticket of the
  queue, a sweep at any time up to five minutes later leaves a ticket with that id.\<close>

theorem heartbeat_outlives_sweep:
  assumes "i \<in> t_id ` set (tickets q)" and "s \<le> now + 5 * 60 * 1000"
  shows "i \<in> t_id ` set (tickets (snd (sweep_expired_at s (heartbeat i now q))))"
proof -
  let ?f = "\<lambda>t. t\<lparr>t_lease_expires_at := now + LEASE_TTL_MS\<rparr>"
  obtain t where t: "t_id t = i" "?f t \<in> set (tickets (heartbeat i now q))"
    using update_first_mem [of "tickets q" "\<lambda>t. t_id t = i" ?f] assms(1)
    by (auto simp: heartbeat_def)
  let ?q = "heartbeat i now q"
  have "?f t \<in> set (filter (\<lambda>t. \<not> t_lease_expires_at t < s) (tickets ?q))"
    using t(2) assms(2) by (simp add: LEASE_TTL_MS_def)
  then have "t_id (?f t) \<in> set (map t_id (filter (\<lambda>t. \<not> t_lease_expires_at t < s) (tickets ?q)))"
    by (simp only: list.set_map imageI)
  then have "t_id (?f t) \<in> set (map t_id (tickets (snd (sweep_expired_at s ?q))))"
    by (simp only: sweep_expired_at_def reclaim_ids)
  moreover have "t_id (?f t) = i" using t(1) by simp
  ultimately show ?thesis by (simp only: list.set_map)
qed

theorem heartbeat_outlives_sweep_witness:
  "''b'' \<in> t_id ` set (tickets (snd (sweep_expired_at 400000 (heartbeat ''b'' 200000 example_queue))))"
  by (rule heartbeat_outlives_sweep) (simp_all add: example_queue_def run_queue)

end
