(* ===== verification/Background_Tasks.thy ===== *)
theory Background_Tasks
  imports Interfaces Complex_Main "HOL-Library.List_Lexorder" "HOL-Library.Char_ord"
begin

text \<open>
  \<open>src-tauri/src/tasks/mod.rs\<close> and its table, \<open>src-tauri/src/db/tasks.rs\<close>: the registry of
  background tasks.  The shared state is the record \<open>registry\<close>: the tasks in memory (a hash map
  as an association list), the rows of the table (\<open>None\<close>: no database), whether SQL statements
  fail, and what went out so far: the \<open>task://changed\<close> events, the \<open>task://cancel\<close> requests
  and the stop channels that were sent to.  A JSON value is opaque (\<open>'j\<close>); its printer, parser
  and null come from \<open>serde_json\<close> and are the parameter \<open>'j json_lib\<close>.  Progress numbers
  (\<open>f64\<close>) are only stored and reset, never computed with: reals.
\<close>

section \<open>Data\<close>

definition KEEP_ENDED_MS :: nat where "KEEP_ENDED_MS = 30 * 24 * 60 * 60 * 1000"

definition PROGRESS_EVERY :: nat where "PROGRESS_EVERY = 500"

definition ENDED_WITH_APP :: string where "ENDED_WITH_APP = ''Ended when the app closed.''"

datatype task_kind = VideoRender | YoutubeUpload | Image | Music | Video

datatype task_state = Pending | TaskRunning | Done | Failed | Cancelled

fun task_ended :: "task_state \<Rightarrow> bool" where
  "task_ended Done = True"
| "task_ended Failed = True"
| "task_ended Cancelled = True"
| "task_ended _ = False"

datatype task_follower = Rust | Frontend

record 'j background_task =
  k_id :: string
  k_kind :: task_kind
  k_owner :: string
  k_label :: string
  k_state :: task_state
  k_follower :: task_follower
  k_percent :: "real option"
  k_eta_secs :: "real option"
  k_phase :: "string option"
  k_queue_position :: "nat option"
  k_spec :: 'j
  k_handle :: "'j option"
  k_result :: "'j option"
  k_error :: "string option"
  k_log_tail :: "string option"
  k_started_ms :: nat
  k_ended_ms :: "nat option"
  k_notice_delivered :: bool

record 'j task_patch =
  p_state :: "task_state option"
  p_percent :: "real option"
  p_eta_secs :: "real option"
  p_phase :: "string option"
  p_queue_position :: "nat option"
  p_handle :: "'j option"
  p_result :: "'j option"
  p_error :: "string option"
  p_log_tail :: "string option"

definition empty_patch :: "'j task_patch" where
  "empty_patch = \<lparr>p_state = None, p_percent = None, p_eta_secs = None, p_phase = None,
     p_queue_position = None, p_handle = None, p_result = None, p_error = None, p_log_tail = None\<rparr>"

definition progress_only :: "'j task_patch \<Rightarrow> bool" where
  "progress_only p \<longleftrightarrow> p_state p = None \<and> p_handle p = None \<and> p_result p = None \<and>
     p_error p = None \<and> p_log_tail p = None"

definition set_if_some :: "'a option \<Rightarrow> ('a \<Rightarrow> 't \<Rightarrow> 't) \<Rightarrow> 't \<Rightarrow> 't" where
  "set_if_some x f t = (case x of Some v \<Rightarrow> f v t | None \<Rightarrow> t)"

definition patch_apply :: "'j task_patch \<Rightarrow> 'j background_task \<Rightarrow> nat \<Rightarrow> 'j background_task" where
  "patch_apply p t now_ms =
     (let t = set_if_some (p_percent p) (\<lambda>v t. t\<lparr>k_percent := Some v\<rparr>) t;
          t = set_if_some (p_eta_secs p) (\<lambda>v t. t\<lparr>k_eta_secs := Some v\<rparr>) t;
          t = set_if_some (p_phase p) (\<lambda>v t. t\<lparr>k_phase := Some v\<rparr>) t;
          t = set_if_some (p_queue_position p) (\<lambda>v t. t\<lparr>k_queue_position := Some v\<rparr>) t;
          t = set_if_some (p_handle p) (\<lambda>v t. t\<lparr>k_handle := Some v\<rparr>) t;
          t = set_if_some (p_result p) (\<lambda>v t. t\<lparr>k_result := Some v\<rparr>) t;
          t = set_if_some (p_error p) (\<lambda>v t. t\<lparr>k_error := Some v\<rparr>) t;
          t = set_if_some (p_log_tail p) (\<lambda>v t. t\<lparr>k_log_tail := Some v\<rparr>) t
      in set_if_some (p_state p) (\<lambda>s t.
           let t = t\<lparr>k_state := s\<rparr> in
           if task_ended s then
             (let t = t\<lparr>k_ended_ms := Some (case k_ended_ms t of Some e \<Rightarrow> e | None \<Rightarrow> now_ms),
                        k_eta_secs := None, k_queue_position := None\<rparr>
              in if s = Done then t\<lparr>k_percent := Some 100\<rparr> else t)
           else t) t)"

text \<open>One entry of the map; a stop channel is named by the number of its sender.\<close>

record 'j entry =
  e_task :: "'j background_task"
  e_cancel :: "nat option"
  e_last_progress :: "nat option"

section \<open>The table\<close>

fun task_kind_name :: "task_kind \<Rightarrow> string" where
  "task_kind_name VideoRender = ''video_render''"
| "task_kind_name YoutubeUpload = ''youtube_upload''"
| "task_kind_name Image = ''image''"
| "task_kind_name Music = ''music''"
| "task_kind_name Video = ''video''"

fun task_state_name :: "task_state \<Rightarrow> string" where
  "task_state_name Pending = ''pending''"
| "task_state_name TaskRunning = ''running''"
| "task_state_name Done = ''done''"
| "task_state_name Failed = ''failed''"
| "task_state_name Cancelled = ''cancelled''"

fun task_follower_name :: "task_follower \<Rightarrow> string" where
  "task_follower_name Rust = ''rust''"
| "task_follower_name Frontend = ''frontend''"

definition parse_name :: "('e \<Rightarrow> string) \<Rightarrow> 'e list \<Rightarrow> string \<Rightarrow> 'e option" where
  "parse_name name_of values s = find (\<lambda>v. name_of v = s) values"

definition task_kind_parse :: "string \<Rightarrow> task_kind option" where
  "task_kind_parse = parse_name task_kind_name [VideoRender, YoutubeUpload, Image, Music, Video]"

definition task_state_parse :: "string \<Rightarrow> task_state option" where
  "task_state_parse = parse_name task_state_name [Pending, TaskRunning, Done, Failed, Cancelled]"

definition task_follower_parse :: "string \<Rightarrow> task_follower option" where
  "task_follower_parse = parse_name task_follower_name [Rust, Frontend]"

record 'j json_lib =
  json_show :: "'j \<Rightarrow> string"
  json_parse :: "string \<Rightarrow> 'j option"
  json_null :: 'j

definition json_text :: "'j json_lib \<Rightarrow> 'j option \<Rightarrow> string option" where
  "json_text js v = map_option (json_show js) v"

definition json_value :: "'j json_lib \<Rightarrow> string option \<Rightarrow> 'j option" where
  "json_value js s = Option.bind s (json_parse js)"

record task_row =
  row_id :: string
  row_kind :: string
  row_owner :: string
  row_label :: string
  row_state :: string
  row_follower :: string
  row_spec :: string
  row_handle :: "string option"
  row_result :: "string option"
  row_error :: "string option"
  row_log_tail :: "string option"
  row_started_ms :: int
  row_ended_ms :: "int option"
  row_notice_delivered :: int

text \<open>\<open>n as i64\<close> on a \<open>u64\<close>, and back through \<open>max(0) as u64\<close>.\<close>

definition as_i64 :: "nat \<Rightarrow> int" where
  "as_i64 n = (if n mod 2 ^ 64 < 2 ^ 63 then int (n mod 2 ^ 64) else int (n mod 2 ^ 64) - 2 ^ 64)"

definition task_params :: "'j json_lib \<Rightarrow> 'j background_task \<Rightarrow> task_row" where
  "task_params js t = \<lparr>row_id = k_id t, row_kind = task_kind_name (k_kind t), row_owner = k_owner t,
     row_label = k_label t, row_state = task_state_name (k_state t),
     row_follower = task_follower_name (k_follower t), row_spec = json_show js (k_spec t),
     row_handle = json_text js (k_handle t), row_result = json_text js (k_result t),
     row_error = k_error t, row_log_tail = k_log_tail t, row_started_ms = as_i64 (k_started_ms t),
     row_ended_ms = map_option as_i64 (k_ended_ms t),
     row_notice_delivered = (if k_notice_delivered t then 1 else 0)\<rparr>"

definition save_task :: "'j json_lib \<Rightarrow> 'j background_task \<Rightarrow> task_row list \<Rightarrow> task_row list" where
  "save_task js t rows = filter (\<lambda>r. row_id r \<noteq> k_id t) rows @ [task_params js t]"

definition task_of_row :: "'j json_lib \<Rightarrow> task_row \<Rightarrow> 'j background_task option" where
  "task_of_row js r =
     (case (task_kind_parse (row_kind r), task_state_parse (row_state r),
            task_follower_parse (row_follower r)) of
        (Some kind, Some state, Some follower) \<Rightarrow>
          Some \<lparr>k_id = row_id r, k_kind = kind, k_owner = row_owner r, k_label = row_label r,
            k_state = state, k_follower = follower, k_percent = None, k_eta_secs = None,
            k_phase = None, k_queue_position = None,
            k_spec = (case json_parse js (row_spec r) of Some v \<Rightarrow> v | None \<Rightarrow> json_null js),
            k_handle = json_value js (row_handle r), k_result = json_value js (row_result r),
            k_error = row_error r, k_log_tail = row_log_tail r,
            k_started_ms = nat (max (row_started_ms r) 0),
            k_ended_ms = map_option (\<lambda>m. nat (max m 0)) (row_ended_ms r),
            k_notice_delivered = (row_notice_delivered r \<noteq> 0)\<rparr>
      | _ \<Rightarrow> None)"

definition load_tasks :: "'j json_lib \<Rightarrow> task_row list \<Rightarrow> 'j background_task list" where
  "load_tasks js rows = List.map_filter (task_of_row js) (sort_key row_started_ms rows)"

definition delete_task :: "string \<Rightarrow> task_row list \<Rightarrow> task_row list" where
  "delete_task i rows = filter (\<lambda>r. row_id r \<noteq> i) rows"

definition delete_tasks_for_owner :: "string \<Rightarrow> task_row list \<Rightarrow> task_row list" where
  "delete_tasks_for_owner owner rows = filter (\<lambda>r. row_owner r \<noteq> owner) rows"

section \<open>The registry\<close>

record 'j registry =
  g_tasks :: "(string \<times> 'j entry) list"
  g_db :: "task_row list option"
  g_db_fails :: bool
  g_emitted :: "'j background_task list"
  g_cancel_asked :: "string list"
  g_stopped :: "nat list"

definition with_db :: "(task_row list \<Rightarrow> task_row list) \<Rightarrow> 'j registry \<Rightarrow> 'j registry" where
  "with_db f g = (if g_db_fails g then g else g\<lparr>g_db := map_option f (g_db g)\<rparr>)"

definition save :: "'j json_lib \<Rightarrow> 'j background_task \<Rightarrow> 'j registry \<Rightarrow> 'j registry" where
  "save js t = with_db (save_task js t)"

definition emit :: "'j background_task \<Rightarrow> 'j registry \<Rightarrow> 'j registry" where
  "emit t g = g\<lparr>g_emitted := g_emitted g @ [t]\<rparr>"

definition restore_task ::
  "'j json_lib \<Rightarrow> nat \<Rightarrow> 'j background_task \<Rightarrow> 'j registry \<Rightarrow> 'j registry" where
  "restore_task js now task g =
     (if task_ended (k_state task) \<and>
         (case k_ended_ms task of Some e \<Rightarrow> e | None \<Rightarrow> k_started_ms task) < now - KEEP_ENDED_MS
      then with_db (delete_task (k_id task)) g
      else
        (let died = (k_follower task = Rust \<and> \<not> task_ended (k_state task));
             task = (if died
                     then task\<lparr>k_state := Failed, k_error := Some ENDED_WITH_APP,
                               k_ended_ms := Some now, k_notice_delivered := False\<rparr>
                     else task);
             g = (if died then with_db (save_task js task) g else g)
         in g\<lparr>g_tasks := AList.update (k_id task)
               \<lparr>e_task = task, e_cancel = None, e_last_progress = None\<rparr> (g_tasks g)\<rparr>))"

definition registry_new :: "'j json_lib \<Rightarrow> task_row list option \<Rightarrow> bool \<Rightarrow> nat \<Rightarrow> 'j registry" where
  "registry_new js db fails now =
     (let saved = (if fails then [] else case db of Some rows \<Rightarrow> load_tasks js rows | None \<Rightarrow> [])
      in fold (restore_task js now) saved
           \<lparr>g_tasks = [], g_db = db, g_db_fails = fails, g_emitted = [],
            g_cancel_asked = [], g_stopped = []\<rparr>)"

fun id_prefix :: "task_kind \<Rightarrow> string" where
  "id_prefix VideoRender = ''render''"
| "id_prefix YoutubeUpload = ''upload''"
| "id_prefix Image = ''image''"
| "id_prefix Music = ''music''"
| "id_prefix Video = ''video''"

definition create ::
  "'j json_lib \<Rightarrow> task_kind \<Rightarrow> string \<Rightarrow> string \<Rightarrow> task_follower \<Rightarrow> 'j \<Rightarrow> string \<Rightarrow> nat
     \<Rightarrow> 'j registry \<Rightarrow> 'j background_task \<times> 'j registry" where
  "create js kind owner label follower spec uuid now g =
     (let task = \<lparr>k_id = id_prefix kind @ ''-'' @ uuid, k_kind = kind, k_owner = owner,
            k_label = label,
            k_state = (case follower of Rust \<Rightarrow> TaskRunning | Frontend \<Rightarrow> Pending),
            k_follower = follower, k_percent = None, k_eta_secs = None, k_phase = None,
            k_queue_position = None, k_spec = spec, k_handle = None, k_result = None,
            k_error = None, k_log_tail = None, k_started_ms = now, k_ended_ms = None,
            k_notice_delivered = False\<rparr>;
          g = save js task g;
          g = g\<lparr>g_tasks := AList.update (k_id task)
                \<lparr>e_task = task, e_cancel = None, e_last_progress = None\<rparr> (g_tasks g)\<rparr>
      in (task, emit task g))"

definition attach_cancel :: "string \<Rightarrow> nat \<Rightarrow> 'j registry \<Rightarrow> 'j registry" where
  "attach_cancel i tx g =
     g\<lparr>g_tasks := store_adjust i (\<lambda>e. e\<lparr>e_cancel := Some tx\<rparr>) (g_tasks g)\<rparr>"

datatype task_error = TaskGone | FollowedByApp

definition update ::
  "'j json_lib \<Rightarrow> string \<Rightarrow> 'j task_patch \<Rightarrow> nat \<Rightarrow> nat \<Rightarrow> 'j registry
     \<Rightarrow> (task_error + 'j background_task) \<times> 'j registry" where
  "update js i patch inst now_ms g =
     (let po = progress_only patch in
      case map_of (g_tasks g) i of
        None \<Rightarrow> (Inl TaskGone, g)
      | Some e \<Rightarrow>
          if task_ended (k_state (e_task e)) \<and> \<not> po then (Inr (e_task e), g)
          else
            (let task = patch_apply patch (e_task e) now_ms;
                 e = e\<lparr>e_task := task\<rparr>;
                 e = (if task_ended (k_state task) then e\<lparr>e_cancel := None\<rparr> else e);
                 send = (\<not> po \<or> (case e_last_progress e of
                            None \<Rightarrow> True | Some t \<Rightarrow> PROGRESS_EVERY \<le> inst - t));
                 e = (if send then e\<lparr>e_last_progress := Some inst\<rparr> else e);
                 g = g\<lparr>g_tasks := AList.update i e (g_tasks g)\<rparr>;
                 g = (if \<not> po then save js task g else g);
                 g = (if send then emit task g else g)
             in (Inr task, g)))"

definition get :: "string \<Rightarrow> 'j registry \<Rightarrow> 'j background_task option" where
  "get i g = map_option e_task (map_of (g_tasks g) i)"

definition list_tasks :: "string option \<Rightarrow> 'j registry \<Rightarrow> 'j background_task list" where
  "list_tasks owner g =
     sort_key k_started_ms
       (map (e_task \<circ> snd)
         (filter (\<lambda>(_, e). case owner of None \<Rightarrow> True | Some o' \<Rightarrow> k_owner (e_task e) = o')
           (g_tasks g)))"

definition running :: "task_kind \<Rightarrow> 'j registry \<Rightarrow> string option" where
  "running kind g =
     map_option (k_id \<circ> e_task \<circ> snd)
       (find (\<lambda>(_, e). k_kind (e_task e) = kind \<and> \<not> task_ended (k_state (e_task e))) (g_tasks g))"

text \<open>\<open>alive h\<close>: the receiver of stop channel \<open>h\<close> still exists, so that the send succeeds.\<close>

definition cancel :: "(nat \<Rightarrow> bool) \<Rightarrow> string \<Rightarrow> 'j registry \<Rightarrow> bool \<times> 'j registry" where
  "cancel alive i g =
     (case map_of (g_tasks g) i of
        None \<Rightarrow> (False, g)
      | Some e \<Rightarrow>
          if task_ended (k_state (e_task e)) then (False, g)
          else
            (let g = g\<lparr>g_tasks := AList.update i (e\<lparr>e_cancel := None\<rparr>) (g_tasks g)\<rparr>
             in case k_follower (e_task e) of
                  Rust \<Rightarrow> (case e_cancel e of
                      None \<Rightarrow> (False, g)
                    | Some h \<Rightarrow> (alive h, g\<lparr>g_stopped := g_stopped g @ [h]\<rparr>))
                | Frontend \<Rightarrow> (True, g\<lparr>g_cancel_asked := g_cancel_asked g @ [i]\<rparr>)))"

definition cancel_all :: "'j registry \<Rightarrow> 'j registry" where
  "cancel_all g = g\<lparr>
     g_stopped := g_stopped g @ List.map_filter (e_cancel \<circ> snd) (g_tasks g),
     g_tasks := map (\<lambda>(i, e). (i, e\<lparr>e_cancel := None\<rparr>)) (g_tasks g)\<rparr>"

definition due_notice :: "string \<Rightarrow> 'j entry \<Rightarrow> bool" where
  "due_notice owner e \<longleftrightarrow> k_owner (e_task e) = owner \<and> task_ended (k_state (e_task e)) \<and>
     \<not> k_notice_delivered (e_task e)"

definition mark_heard :: "'j entry \<Rightarrow> 'j entry" where
  "mark_heard e = e\<lparr>e_task := (e_task e)\<lparr>k_notice_delivered := True\<rparr>\<rparr>"

definition take_notices ::
  "'j json_lib \<Rightarrow> string \<Rightarrow> 'j registry \<Rightarrow> 'j background_task list \<times> 'j registry" where
  "take_notices js owner g =
     (let taken = sort_key (\<lambda>t. case k_ended_ms t of Some m \<Rightarrow> m | None \<Rightarrow> k_started_ms t)
            (map (\<lambda>(_, e). e_task (mark_heard e)) (filter (\<lambda>(_, e). due_notice owner e) (g_tasks g)));
          g = g\<lparr>g_tasks :=
                map (\<lambda>(i, e). (i, if due_notice owner e then mark_heard e else e)) (g_tasks g)\<rparr>
      in (taken, fold (\<lambda>t g. emit t (save js t g)) taken g))"

definition remove_owner :: "(nat \<Rightarrow> bool) \<Rightarrow> string \<Rightarrow> 'j registry \<Rightarrow> 'j registry" where
  "remove_owner alive owner g =
     (let ids = map (k_id \<circ> e_task \<circ> snd) (filter (\<lambda>(_, e). k_owner (e_task e) = owner) (g_tasks g));
          g = fold (\<lambda>i g. snd (cancel alive i g)) ids g;
          g = g\<lparr>g_tasks := store_retain (\<lambda>_ e. k_owner (e_task e) \<noteq> owner) (g_tasks g)\<rparr>
      in with_db (delete_tasks_for_owner owner) g)"

definition remove_owners_with_prefix :: "(nat \<Rightarrow> bool) \<Rightarrow> string \<Rightarrow> 'j registry \<Rightarrow> 'j registry" where
  "remove_owners_with_prefix alive pre g =
     (let owners = map (k_owner \<circ> e_task \<circ> snd)
            (filter (\<lambda>(_, e). prefix pre (k_owner (e_task e))) (g_tasks g))
      in fold (remove_owner alive) (remdups_adj (sort owners)) g)"

text \<open>The frontend's \<open>task_update\<close>: a task Rust follows is not the frontend's to change.\<close>

definition task_update ::
  "'j json_lib \<Rightarrow> string \<Rightarrow> 'j task_patch \<Rightarrow> nat \<Rightarrow> nat \<Rightarrow> 'j registry
     \<Rightarrow> (task_error + 'j background_task) \<times> 'j registry" where
  "task_update js i patch inst now_ms g =
     (case get i g of
        Some t \<Rightarrow> if k_follower t = Rust then (Inl FollowedByApp, g)
                  else update js i patch inst now_ms g
      | None \<Rightarrow> update js i patch inst now_ms g)"

section \<open>Steps\<close>

inductive task_step :: "'j json_lib \<Rightarrow> 'j registry \<Rightarrow> 'j registry \<Rightarrow> bool" for js where
  create: "id_prefix kind @ ''-'' @ uuid \<notin> fst ` set (g_tasks g) \<Longrightarrow>
     task_step js g (snd (create js kind owner label follower spec uuid now g))"
| attach: "task_step js g (attach_cancel i tx g)"
| update: "task_step js g (snd (update js i patch inst now g))"
| cancel: "task_step js g (snd (cancel alive i g))"
| cancel_all: "task_step js g (cancel_all g)"
| take: "task_step js g (snd (take_notices js owner g))"
| remove: "task_step js g (remove_owner alive owner g)"

inductive_cases task_stepE: "task_step js g g'"

end
