(* ===== verification/Background_Tasks_Props.thy ===== *)
theory Background_Tasks_Props
  imports Background_Tasks
begin

text \<open>
  Correctness of the task registry: the table mirrors the memory after every operation
  (\<open>registry_ok\<close>), an ended task stays as it ended, each notice is taken once, and a task that
  died with the app is reported to its owner after the restart.
\<close>

section \<open>Rows\<close>

definition row_lookup :: "task_row list \<Rightarrow> string \<Rightarrow> task_row option" where
  "row_lookup rows i = map_of (map (\<lambda>r. (row_id r, r)) rows) i"

definition rows_ok :: "task_row list \<Rightarrow> bool" where
  "rows_ok rows \<longleftrightarrow> distinct (map row_id rows)"

lemma row_lookup_filter:
  assumes "rows_ok rows"
  shows "row_lookup (filter p rows) i
       = (case row_lookup rows i of Some r \<Rightarrow> if p r then Some r else None | None \<Rightarrow> None)"
  using assms
proof (induction rows)
  case Nil
  then show ?case by (simp add: row_lookup_def)
next
  case (Cons r rows)
  have fresh: "row_lookup rows (row_id r) = None"
    using Cons.prems by (auto simp: row_lookup_def rows_ok_def map_of_eq_None_iff)
  with Cons show ?case
    by (auto simp: row_lookup_def rows_ok_def split: option.splits)
qed

lemma row_lookup_mem: "rows_ok rows \<Longrightarrow> r \<in> set rows \<Longrightarrow> row_lookup rows (row_id r) = Some r"
  by (simp add: row_lookup_def rows_ok_def map_of_eq_Some_iff comp_def)

lemma row_lookupD: "row_lookup rows i = Some r \<Longrightarrow> r \<in> set rows \<and> row_id r = i"
  by (auto simp: row_lookup_def dest: map_of_SomeD)

lemma task_params_id [simp]: "row_id (task_params js t) = k_id t"
  "row_owner (task_params js t) = k_owner t"
  by (simp_all add: task_params_def)

lemma rows_ok_save: "rows_ok rows \<Longrightarrow> rows_ok (save_task js t rows)"
  by (auto simp: rows_ok_def save_task_def distinct_map_filter)

lemma row_lookup_save:
  assumes "rows_ok rows"
  shows "row_lookup (save_task js t rows) i
       = (if i = k_id t then Some (task_params js t) else row_lookup rows i)"
proof -
  have "row_lookup (xs @ [r]) i = (case row_lookup xs i of
      Some r' \<Rightarrow> Some r' | None \<Rightarrow> if i = row_id r then Some r else None)" for xs r
    by (simp add: row_lookup_def map_add_def split: option.splits)
  then show ?thesis
    using assms by (auto simp: save_task_def row_lookup_filter dest: row_lookupD split: option.splits)
qed

lemma rows_ok_filter: "rows_ok rows \<Longrightarrow> rows_ok (filter p rows)"
  by (simp add: rows_ok_def distinct_map_filter)

lemma fold_save_task:
  assumes "rows_ok rows" and "\<forall>t\<in>set ts. m (k_id t) = Some (task_params js t)"
  shows "rows_ok (fold (save_task js) ts rows) \<and>
     row_lookup (fold (save_task js) ts rows) i
       = (if i \<in> k_id ` set ts then m i else row_lookup rows i)"
  using assms
  by (induction ts arbitrary: rows) (auto simp: rows_ok_save row_lookup_save)

section \<open>The table mirrors the memory\<close>

definition mirrored :: "'j json_lib \<Rightarrow> 'j registry \<Rightarrow> bool" where
  "mirrored js g \<longleftrightarrow> (case g_db g of None \<Rightarrow> False | Some rows \<Rightarrow>
     rows_ok rows \<and>
     (\<forall>i. row_lookup rows i = map_option (\<lambda>e. task_params js (e_task e)) (map_of (g_tasks g) i)))"

definition keyed_by_id :: "'j registry \<Rightarrow> bool" where
  "keyed_by_id g \<longleftrightarrow> (\<forall>i e. map_of (g_tasks g) i = Some e \<longrightarrow> k_id (e_task e) = i)"

definition registry_ok :: "'j json_lib \<Rightarrow> 'j registry \<Rightarrow> bool" where
  "registry_ok js g \<longleftrightarrow> store_ok (g_tasks g) \<and> keyed_by_id g \<and> \<not> g_db_fails g \<and> mirrored js g"

lemma registry_okI:
  assumes "store_ok (g_tasks g)" "keyed_by_id g" "\<not> g_db_fails g" "g_db g = Some rows" "rows_ok rows"
    and "\<forall>i. row_lookup rows i = map_option (\<lambda>e. task_params js (e_task e)) (map_of (g_tasks g) i)"
  shows "registry_ok js g"
  using assms by (simp add: registry_ok_def mirrored_def)

lemma registry_okE:
  assumes "registry_ok js g"
  obtains rows where "store_ok (g_tasks g)" "keyed_by_id g" "\<not> g_db_fails g" "g_db g = Some rows"
    "rows_ok rows"
    "\<forall>i. row_lookup rows i = map_option (\<lambda>e. task_params js (e_task e)) (map_of (g_tasks g) i)"
  using assms by (auto simp: registry_ok_def mirrored_def split: option.splits)

lemma registry_ok_cong:
  assumes ok: "registry_ok js g" and "store_ok (g_tasks g')"
    and same: "\<And>i. map_option e_task (map_of (g_tasks g') i) = map_option e_task (map_of (g_tasks g) i)"
    and db: "g_db g' = g_db g" "g_db_fails g' = g_db_fails g"
  shows "registry_ok js g'"
proof -
  obtain rows where r: "keyed_by_id g" "\<not> g_db_fails g" "g_db g = Some rows" "rows_ok rows"
    "\<forall>i. row_lookup rows i = map_option (\<lambda>e. task_params js (e_task e)) (map_of (g_tasks g) i)"
    using registry_okE [OF ok] by blast
  have params: "map_option (\<lambda>e. task_params js (e_task e)) x = map_option (task_params js) (map_option e_task x)" for x
    by (simp add: option.map_comp comp_def)
  have "keyed_by_id g'"
    using r(1) same unfolding keyed_by_id_def by (metis option.map_sel option.distinct(1) option.map_disc_iff option.sel option.exhaust_sel)
  with r db assms(2) same show ?thesis
    by (intro registry_okI [of _ rows]) (simp_all add: params)
qed

lemma emit_fields [simp]:
  "g_tasks (emit t g) = g_tasks g" "g_db (emit t g) = g_db g" "g_db_fails (emit t g) = g_db_fails g"
  by (simp_all add: emit_def)

lemma with_db_fields [simp]:
  "g_tasks (with_db f g) = g_tasks g" "g_db_fails (with_db f g) = g_db_fails g"
  "g_db (with_db f g) = (if g_db_fails g then g_db g else map_option f (g_db g))"
  by (simp_all add: with_db_def)

lemma save_fields [simp]:
  "g_tasks (save js t g) = g_tasks g" "g_db_fails (save js t g) = g_db_fails g"
  "g_db (save js t g) = (if g_db_fails g then g_db g else map_option (save_task js t) (g_db g))"
  by (simp_all add: save_def)

lemma registry_ok_emit [simp]: "registry_ok js (emit t g) = registry_ok js g"
  by (cases "g_db g") (simp_all add: registry_ok_def mirrored_def keyed_by_id_def)

text \<open>Writing one entry and saving its task keeps the mirror.\<close>

lemma registry_ok_put:
  assumes "registry_ok js g" and "k_id (e_task e) = i"
  shows "registry_ok js ((save js (e_task e) g)\<lparr>g_tasks := AList.update i e (g_tasks g)\<rparr>)"
proof -
  obtain rows where r: "store_ok (g_tasks g)" "keyed_by_id g" "\<not> g_db_fails g" "g_db g = Some rows"
    "rows_ok rows"
    "\<forall>i. row_lookup rows i = map_option (\<lambda>e. task_params js (e_task e)) (map_of (g_tasks g) i)"
    using registry_okE [OF assms(1)] by blast
  show ?thesis
    by (rule registry_okI [of _ "save_task js (e_task e) rows"])
      (use r assms(2) in \<open>auto simp: store_simps keyed_by_id_def update_conv' rows_ok_save row_lookup_save\<close>)
qed

lemma create_ok:
  assumes "registry_ok js g"
  shows "registry_ok js (snd (create js kind owner label follower spec uuid now g))"
proof -
  let ?t = "fst (create js kind owner label follower spec uuid now g)"
  have "snd (create js kind owner label follower spec uuid now g)
      = emit ?t ((save js ?t g)\<lparr>g_tasks :=
          AList.update (k_id ?t) \<lparr>e_task = ?t, e_cancel = None, e_last_progress = None\<rparr> (g_tasks g)\<rparr>)"
    by (simp add: create_def Let_def)
  then show ?thesis
    using registry_ok_put [OF assms, of "\<lparr>e_task = ?t, e_cancel = None, e_last_progress = None\<rparr>" "k_id ?t"]
    by simp
qed

lemma attach_cancel_ok: "registry_ok js g \<Longrightarrow> registry_ok js (attach_cancel i tx g)"
  by (rule registry_ok_cong)
    (auto simp: attach_cancel_def store_simps registry_ok_def option.map_comp comp_def)

text \<open>A progress patch leaves the row alone.\<close>

lemma set_if_some_simps [simp]: "set_if_some None f t = t" "set_if_some (Some v) f t = f v t"
  by (simp_all add: set_if_some_def)

lemma patch_apply_id [simp]: "k_id (patch_apply p t now) = k_id t"
  by (simp add: patch_apply_def Let_def set_if_some_def split: option.splits)

lemma patch_apply_progress:
  "progress_only p \<Longrightarrow> task_params js (patch_apply p t now) = task_params js t"
  by (simp add: patch_apply_def Let_def progress_only_def task_params_def)
    (simp add: set_if_some_def split: option.splits)

lemma update_ok:
  assumes "registry_ok js g"
  shows "registry_ok js (snd (update js i p inst now g))"
proof (cases "map_of (g_tasks g) i")
  case None
  then show ?thesis using assms by (simp add: update_def)
next
  case (Some e)
  have id: "k_id (e_task e) = i"
    using assms Some by (auto simp: registry_ok_def keyed_by_id_def)
  let ?t = "patch_apply p (e_task e) now"
  show ?thesis
  proof (cases "task_ended (k_state (e_task e)) \<and> \<not> progress_only p")
    case True
    then show ?thesis using assms Some by (simp add: update_def)
  next
    case False
    obtain e' b where e': "e_task e' = ?t"
      and res: "snd (update js i p inst now g)
        = (if b then emit ?t else (\<lambda>g. g))
            ((if progress_only p then g else save js ?t g)\<lparr>g_tasks := AList.update i e' (g_tasks g)\<rparr>)"
    proof -
      have swap: "(save js t (g\<lparr>g_tasks := ts\<rparr>)) = (save js t g)\<lparr>g_tasks := ts\<rparr>" for t ts
        by (simp add: save_def with_db_def)
      show ?thesis
        by (rule that [of "(let e = e\<lparr>e_task := ?t\<rparr>;
              e = (if task_ended (k_state ?t) then e\<lparr>e_cancel := None\<rparr> else e)
            in if \<not> progress_only p \<or> (case e_last_progress e of None \<Rightarrow> True
                  | Some t \<Rightarrow> PROGRESS_EVERY \<le> inst - t)
               then e\<lparr>e_last_progress := Some inst\<rparr> else e)"
            "\<not> progress_only p \<or> (case e_last_progress e of None \<Rightarrow> True
                  | Some t \<Rightarrow> PROGRESS_EVERY \<le> inst - t)"])
          (use Some False in \<open>auto simp: update_def Let_def swap\<close>)
    qed
    have "registry_ok js ((if progress_only p then g else save js ?t g)\<lparr>g_tasks := AList.update i e' (g_tasks g)\<rparr>)"
    proof (cases "progress_only p")
      case True
      obtain rows where r: "store_ok (g_tasks g)" "keyed_by_id g" "\<not> g_db_fails g" "g_db g = Some rows"
        "rows_ok rows"
        "\<forall>i. row_lookup rows i = map_option (\<lambda>e. task_params js (e_task e)) (map_of (g_tasks g) i)"
        using registry_okE [OF assms] by blast
      show ?thesis
        by (rule registry_okI [of _ rows])
          (use r True e' id Some in
            \<open>auto simp: store_simps keyed_by_id_def update_conv' patch_apply_progress\<close>)
    next
      case False
      then show ?thesis using registry_ok_put [OF assms, of e' i] e' id by simp
    qed
    then show ?thesis unfolding res by auto
  qed
qed

lemma cancel_task_ok:
  assumes "registry_ok js g"
  shows "registry_ok js (snd (cancel alive i g))"
  by (rule registry_ok_cong [OF assms])
    (use assms in \<open>auto simp: cancel_def Let_def registry_ok_def store_simps update_conv'
      split: option.splits task_follower.splits\<close>)

lemma cancel_all_ok:
  assumes "registry_ok js g"
  shows "registry_ok js (cancel_all g)"
  by (rule registry_ok_cong [OF assms])
    (use assms in \<open>auto simp: cancel_all_def registry_ok_def store_ok_def comp_def
      case_prod_beta option.map_comp map_of_map\<close>)


text \<open>Taking notices: every entry keeps its key, the due ones are marked and saved.\<close>

lemma mark_heard_id [simp]: "k_id (e_task (mark_heard e)) = k_id (e_task e)"
  by (simp add: mark_heard_def)

lemma map_of_mark:
  "map_of (map (\<lambda>(i, e). (i, if p e then f e else e)) m) i = map_option (\<lambda>e. if p e then f e else e) (map_of m i)"
  by (induction m) auto

lemma fold_save_emit:
  assumes "\<not> g_db_fails g" "g_db g = Some rows"
  shows "g_tasks (fold (\<lambda>t g. emit t (save js t g)) ts g) = g_tasks g \<and>
     \<not> g_db_fails (fold (\<lambda>t g. emit t (save js t g)) ts g) \<and>
     g_db (fold (\<lambda>t g. emit t (save js t g)) ts g) = Some (fold (save_task js) ts rows)"
  using assms by (induction ts arbitrary: g rows) auto

lemma take_notices_tasks:
  "g_tasks (snd (take_notices js owner g))
     = map (\<lambda>(i, e). (i, if due_notice owner e then mark_heard e else e)) (g_tasks g)"
proof -
  have "g_tasks (fold (\<lambda>t g. emit t (save js t g)) ts g) = g_tasks g" for ts g
    by (induction ts arbitrary: g) auto
  then show ?thesis by (simp add: take_notices_def Let_def)
qed

lemma take_notices_set:
  "set (fst (take_notices js owner g))
     = (\<lambda>(i, e). e_task (mark_heard e)) ` {(i, e) \<in> set (g_tasks g). due_notice owner e}"
  by (auto simp: take_notices_def Let_def case_prod_beta image_iff)

lemma take_notices_ok:
  assumes "registry_ok js g"
  shows "registry_ok js (snd (take_notices js owner g))"
proof -
  obtain rows where r: "store_ok (g_tasks g)" "keyed_by_id g" "\<not> g_db_fails g" "g_db g = Some rows"
    "rows_ok rows"
    "\<forall>i. row_lookup rows i = map_option (\<lambda>e. task_params js (e_task e)) (map_of (g_tasks g) i)"
    using registry_okE [OF assms] by blast
  let ?ts = "fst (take_notices js owner g)"
  let ?m = "map (\<lambda>(i, e). (i, if due_notice owner e then mark_heard e else e)) (g_tasks g)"
  have tasks: "map_of ?m i = map_option (\<lambda>e. if due_notice owner e then mark_heard e else e) (map_of (g_tasks g) i)" for i
    by (rule map_of_mark)
  have mem: "t \<in> set ?ts \<longleftrightarrow> (\<exists>e. map_of (g_tasks g) (k_id t) = Some e \<and> due_notice owner e \<and> t = e_task (mark_heard e))" for t
    using r(1,2) by (auto simp: take_notices_set store_ok_mem keyed_by_id_def image_iff)
  define mm where "mm i = map_option (\<lambda>e. task_params js (e_task e)) (map_of ?m i)" for i
  have "\<forall>t\<in>set ?ts. mm (k_id t) = Some (task_params js t)"
  proof
    fix t assume "t \<in> set ?ts"
    then obtain e where "map_of (g_tasks g) (k_id t) = Some e" "due_notice owner e" "t = e_task (mark_heard e)"
      unfolding mem by blast
    then show "mm (k_id t) = Some (task_params js t)" by (simp add: mm_def tasks)
  qed
  note fold_save_task [OF r(5) this]
  moreover have "(if i \<in> k_id ` set ?ts then mm i else row_lookup rows i) = mm i" for i
  proof (cases "i \<in> k_id ` set ?ts")
    case False
    then have "\<not> (\<exists>e. map_of (g_tasks g) i = Some e \<and> due_notice owner e)"
      using r(2) mem unfolding keyed_by_id_def by (metis image_eqI mark_heard_id)
    then show ?thesis using False r(6)
      by (cases "map_of (g_tasks g) i") (auto simp: mm_def tasks)
  qed simp
  ultimately have rows': "rows_ok (fold (save_task js) ?ts rows)"
    "row_lookup (fold (save_task js) ?ts rows) i = mm i" for i
    by simp_all
  have res: "snd (take_notices js owner g)
      = fold (\<lambda>t g. emit t (save js t g)) ?ts (g\<lparr>g_tasks := ?m\<rparr>)"
    by (simp add: take_notices_def Let_def)
  have f: "g_tasks (snd (take_notices js owner g)) = ?m" "\<not> g_db_fails (snd (take_notices js owner g))"
    "g_db (snd (take_notices js owner g)) = Some (fold (save_task js) ?ts rows)"
    unfolding res using fold_save_emit [of "g\<lparr>g_tasks := ?m\<rparr>" rows js ?ts] r by auto
  show ?thesis
  proof (rule registry_okI [OF _ _ f(2,3) rows'(1)])
    show "store_ok (g_tasks (snd (take_notices js owner g)))"
      using r(1) by (simp add: f(1) store_ok_def comp_def case_prod_beta)
    show "keyed_by_id (snd (take_notices js owner g))"
      using r(2) by (auto simp: keyed_by_id_def f(1) tasks)
    show "\<forall>i. row_lookup (fold (save_task js) ?ts rows) i
        = map_option (\<lambda>e. task_params js (e_task e)) (map_of (g_tasks (snd (take_notices js owner g))) i)"
      by (simp add: rows'(2) mm_def f(1))
  qed
qed

lemma fold_cancel_ok:
  "registry_ok js g \<Longrightarrow> registry_ok js (fold (\<lambda>i g. snd (cancel alive i g)) ids g)"
  by (induction ids arbitrary: g) (auto intro: cancel_task_ok)

lemma remove_owner_ok:
  assumes "registry_ok js g"
  shows "registry_ok js (remove_owner alive owner g)"
proof -
  obtain ids where ids: "remove_owner alive owner g
      = (let g = fold (\<lambda>i g. snd (cancel alive i g)) ids g;
             g = g\<lparr>g_tasks := store_retain (\<lambda>_ e. k_owner (e_task e) \<noteq> owner) (g_tasks g)\<rparr>
         in with_db (delete_tasks_for_owner owner) g)"
    by (simp add: remove_owner_def Let_def)
  let ?g = "fold (\<lambda>i g. snd (cancel alive i g)) ids g"
  obtain rows where r: "store_ok (g_tasks ?g)" "keyed_by_id ?g" "\<not> g_db_fails ?g" "g_db ?g = Some rows"
    "rows_ok rows"
    "\<forall>i. row_lookup rows i = map_option (\<lambda>e. task_params js (e_task e)) (map_of (g_tasks ?g) i)"
    using registry_okE [OF fold_cancel_ok [OF assms]] by blast
  show ?thesis
    unfolding ids Let_def
  proof (rule registry_okI [of _ "delete_tasks_for_owner owner rows"])
    show "rows_ok (delete_tasks_for_owner owner rows)"
      using r(5) by (simp add: delete_tasks_for_owner_def rows_ok_filter)
  qed (use r in \<open>auto simp: store_simps keyed_by_id_def delete_tasks_for_owner_def
      row_lookup_filter split: option.splits\<close>)
qed

lemma task_step_ok: "registry_ok js g \<Longrightarrow> task_step js g g' \<Longrightarrow> registry_ok js g'"
  by (erule task_stepE)
    (simp_all add: create_ok attach_cancel_ok update_ok cancel_task_ok cancel_all_ok take_notices_ok
      remove_owner_ok)

definition empty_registry :: "'j registry" where
  "empty_registry = \<lparr>g_tasks = [], g_db = Some [], g_db_fails = False, g_emitted = [],
     g_cancel_asked = [], g_stopped = []\<rparr>"

lemma empty_registry_new: "registry_new js (Some []) False now = empty_registry"
  by (simp add: registry_new_def load_tasks_def empty_registry_def map_filter_simps)

lemma empty_registry_ok: "registry_ok js empty_registry"
  by (simp add: registry_ok_def mirrored_def keyed_by_id_def empty_registry_def store_simps
      rows_ok_def row_lookup_def)

interpretation registry_sys: guarded_system empty_registry "task_step js" "registry_ok js" for js
  by unfold_locales (auto intro: empty_registry_ok task_step_ok)


section \<open>Properties\<close>


text \<open>JSON as its own text, and one render that was started.\<close>

definition text_json :: "string json_lib" where
  "text_json = \<lparr>json_show = (\<lambda>v. v), json_parse = Some, json_null = ''null''\<rparr>"

definition render_registry :: "string registry" where
  "render_registry =
     snd (create text_json VideoRender ''chat:1'' ''Rendering'' Rust ''spec'' ''u1'' 1000 empty_registry)"

lemma render_registry_reachable: "(task_step text_json)\<^sup>*\<^sup>* empty_registry render_registry"
  unfolding render_registry_def
  by (rule r_into_rtranclp, rule task_step.create) (simp add: empty_registry_def)


lemma kind_parse_name [simp]: "task_kind_parse (task_kind_name k) = Some k"
  by (cases k) (simp_all add: task_kind_parse_def parse_name_def)

lemma state_parse_name [simp]: "task_state_parse (task_state_name s) = Some s"
  by (cases s) (simp_all add: task_state_parse_def parse_name_def)

lemma follower_parse_name [simp]: "task_follower_parse (task_follower_name f) = Some f"
  by (cases f) (simp_all add: task_follower_parse_def parse_name_def)

lemma as_i64_small: "n < 2 ^ 63 \<Longrightarrow> as_i64 n = int n"
  by (simp add: as_i64_def)

text \<open>Saving a task and loading its row gives the task back, without its memory-only
  progress, when its times fit an \<open>i64\<close>; it rests on \<open>serde_json\<close> reading what it printed.\<close>

theorem task_row_roundtrip:
  assumes "\<And>v. json_parse js (json_show js v) = Some v"
    and "k_started_ms t < 2 ^ 63" and "\<forall>m\<in>set_option (k_ended_ms t). m < 2 ^ 63"
  shows "task_of_row js (task_params js t)
       = Some (t\<lparr>k_percent := None, k_eta_secs := None, k_phase := None, k_queue_position := None\<rparr>)"
proof -
  have "json_value js (json_text js x) = x" for x
    using assms(1) by (cases x) (simp_all add: json_value_def json_text_def)
  moreover have "map_option (\<lambda>m. nat (max m 0)) (map_option as_i64 (k_ended_ms t)) = k_ended_ms t"
    using assms(3) by (cases "k_ended_ms t") (simp_all add: as_i64_small)
  ultimately show ?thesis
    using assms(1,2) by (simp add: task_of_row_def task_params_def as_i64_small)
qed

definition example_task :: "string background_task" where
  "example_task = fst (create text_json VideoRender ''chat:1'' ''Rendering'' Rust ''spec'' ''u1'' 1000
     empty_registry)"

theorem task_row_roundtrip_witness:
  "map_option k_label (task_of_row text_json (task_params text_json (example_task\<lparr>k_percent := Some 40\<rparr>)))
     = Some ''Rendering''"
proof -
  have "task_of_row text_json (task_params text_json (example_task\<lparr>k_percent := Some 40\<rparr>))
    = Some ((example_task\<lparr>k_percent := Some 40\<rparr>)
        \<lparr>k_percent := None, k_eta_secs := None, k_phase := None, k_queue_position := None\<rparr>)"
    by (rule task_row_roundtrip)
      (simp_all add: text_json_def example_task_def create_def Let_def)
  then show ?thesis by (simp add: example_task_def create_def Let_def)
qed

lemma update_entry:
  assumes "map_of (g_tasks g) i = Some e" and "\<not> (task_ended (k_state (e_task e)) \<and> \<not> progress_only p)"
  shows "get i (snd (update js i p inst now g)) = Some (patch_apply p (e_task e) now)"
  using assms by (auto simp: get_def update_def Let_def update_conv')

lemma patch_apply_progress_fields:
  assumes "progress_only p"
  shows "k_state (patch_apply p t now) = k_state t" "k_result (patch_apply p t now) = k_result t"
    "k_error (patch_apply p t now) = k_error t" "k_handle (patch_apply p t now) = k_handle t"
    "k_log_tail (patch_apply p t now) = k_log_tail t" "k_ended_ms (patch_apply p t now) = k_ended_ms t"
    "k_notice_delivered (patch_apply p t now) = k_notice_delivered t"
  using assms
  by (simp_all add: patch_apply_def Let_def progress_only_def)
    (simp_all add: set_if_some_def split: option.splits)

text \<open>A task that has ended stays as it ended: whatever patch arrives, its state, result,
  error, handle, log, end time and notice flag do not change, and a patch of more than progress
  changes nothing at all.\<close>

theorem ended_task_stays:
  assumes "map_of (g_tasks g) i = Some e" and "task_ended (k_state (e_task e))"
  shows "(\<exists>t. get i (snd (update js i p inst now g)) = Some t \<and> k_state t = k_state (e_task e) \<and>
       k_result t = k_result (e_task e) \<and> k_error t = k_error (e_task e) \<and>
       k_handle t = k_handle (e_task e) \<and> k_log_tail t = k_log_tail (e_task e) \<and>
       k_ended_ms t = k_ended_ms (e_task e) \<and>
       k_notice_delivered t = k_notice_delivered (e_task e)) \<and>
     (\<not> progress_only p \<longrightarrow> update js i p inst now g = (Inr (e_task e), g))"
proof (cases "progress_only p")
  case False
  then show ?thesis using assms by (simp add: update_def get_def)
next
  case True
  from update_entry [OF assms(1), of p js inst now] True show ?thesis
    by (simp add: patch_apply_progress_fields)
qed

definition done_registry :: "string registry" where
  "done_registry = snd (update text_json ''render-u1'' (empty_patch\<lparr>p_state := Some Done\<rparr>) 0 2000
     render_registry)"

lemmas run_registry = done_registry_def render_registry_def create_def update_def Let_def
  empty_registry_def empty_patch_def progress_only_def patch_apply_def set_if_some_def save_def
  with_db_def emit_def

theorem ended_task_stays_witness:
  "map_option k_state (get ''render-u1''
     (snd (update text_json ''render-u1'' (empty_patch\<lparr>p_state := Some TaskRunning\<rparr>) 9 3000 done_registry)))
   = Some Done"
proof -
  have e: "\<exists>e. map_of (g_tasks done_registry) ''render-u1'' = Some e \<and> k_state (e_task e) = Done"
    by (simp add: run_registry)
  then obtain e where e: "map_of (g_tasks done_registry) ''render-u1'' = Some e" "k_state (e_task e) = Done"
    by blast
  from ended_task_stays [OF e(1), of text_json "empty_patch\<lparr>p_state := Some TaskRunning\<rparr>" 9 3000] e(2)
  show ?thesis by auto
qed

text \<open>Progress that arrives after the end still lands: a patch of progress alone overwrites
  the percent of an ended task, so a finished render can go back below 100.\<close>

theorem late_progress_lands:
  assumes "map_of (g_tasks g) i = Some e" and "task_ended (k_state (e_task e))"
  shows "map_option k_percent (get i (snd (update js i (empty_patch\<lparr>p_percent := Some v\<rparr>) inst now g)))
       = Some (Some v)"
  using update_entry [OF assms(1), of "empty_patch\<lparr>p_percent := Some v\<rparr>" js inst now]
  by (simp add: empty_patch_def progress_only_def patch_apply_def)

theorem late_progress_lands_witness:
  "map_option k_percent (get ''render-u1'' done_registry) = Some (Some 100) \<and>
   map_option k_percent (get ''render-u1''
     (snd (update text_json ''render-u1'' (empty_patch\<lparr>p_percent := Some 40\<rparr>) 9 3000 done_registry)))
   = Some (Some 40)"
proof -
  have e: "\<exists>e. map_of (g_tasks done_registry) ''render-u1'' = Some e \<and> k_state (e_task e) = Done"
    and hundred: "map_option k_percent (get ''render-u1'' done_registry) = Some (Some 100)"
    by (simp_all add: run_registry get_def)
  then obtain e where e: "map_of (g_tasks done_registry) ''render-u1'' = Some e" "k_state (e_task e) = Done"
    by blast
  from late_progress_lands [OF e(1), of text_json 40 9 3000] e(2) hundred show ?thesis by simp
qed

text \<open>A notice is delivered once: the first take returns exactly the owner's ended tasks it
  had not heard about, in the order they ended, and a second take returns none.\<close>

theorem notices_taken_once:
  "fst (take_notices js owner (snd (take_notices js owner g))) = [] \<and>
   k_id ` set (fst (take_notices js owner g))
     = k_id ` e_task ` snd ` {(i, e) \<in> set (g_tasks g). k_owner (e_task e) = owner \<and>
         task_ended (k_state (e_task e)) \<and> \<not> k_notice_delivered (e_task e)} \<and>
   sorted (map (\<lambda>t. case k_ended_ms t of Some m \<Rightarrow> m | None \<Rightarrow> k_started_ms t)
     (fst (take_notices js owner g)))"
proof (intro conjI)
  have "filter (\<lambda>(_, e). due_notice owner e)
      (map (\<lambda>(i, e). (i, if due_notice owner e then mark_heard e else e)) m) = []" for m :: "(string \<times> 'a entry) list"
    by (induction m) (auto simp: due_notice_def mark_heard_def split: if_splits)
  then show "fst (take_notices js owner (snd (take_notices js owner g))) = []"
    by (simp add: take_notices_def [of js owner "snd (take_notices js owner g)"] take_notices_tasks Let_def)
  show "k_id ` set (fst (take_notices js owner g))
     = k_id ` e_task ` snd ` {(i, e) \<in> set (g_tasks g). k_owner (e_task e) = owner \<and>
         task_ended (k_state (e_task e)) \<and> \<not> k_notice_delivered (e_task e)}"
    unfolding take_notices_set by (force simp: due_notice_def image_iff)
qed (simp add: take_notices_def Let_def)

text \<open>What a launch makes of one saved task: \<open>None\<close> when it is pruned.\<close>

definition restored :: "nat \<Rightarrow> 'j background_task \<Rightarrow> 'j background_task option" where
  "restored now t =
     (if task_ended (k_state t) \<and>
         (case k_ended_ms t of Some e \<Rightarrow> e | None \<Rightarrow> k_started_ms t) < now - KEEP_ENDED_MS
      then None
      else if k_follower t = Rust \<and> \<not> task_ended (k_state t)
      then Some (t\<lparr>k_state := Failed, k_error := Some ENDED_WITH_APP, k_ended_ms := Some now,
                   k_notice_delivered := False\<rparr>)
      else Some t)"

lemma restore_task_get:
  "get i (restore_task js now t g)
     = (if i = k_id t \<and> restored now t \<noteq> None then restored now t else get i g)"
  by (auto simp: restore_task_def restored_def get_def Let_def update_conv')

lemma restored_id: "restored now t = Some t' \<Longrightarrow> k_id t' = k_id t"
  by (auto simp: restored_def split: if_splits)

lemma fold_restore_get:
  assumes "distinct (map k_id ts)" and "t \<in> set ts" and "restored now t = Some t'"
  shows "get (k_id t) (fold (restore_task js now) ts g) = Some t'"
  using assms
proof (induction ts arbitrary: g)
  case Nil
  then show ?case by simp
next
  case (Cons s ts)
  have other: "get i (fold (restore_task js now) us g) = get i g" if "i \<notin> k_id ` set us" for i us g
    using that by (induction us arbitrary: g) (auto simp: restore_task_get)
  show ?case
  proof (cases "t = s")
    case True
    then have "k_id t \<notin> k_id ` set ts" using Cons.prems(1) by auto
    then show ?thesis
      using True Cons.prems(3) by (simp add: other) (simp add: restore_task_get)
  next
    case False
    then show ?thesis using Cons by simp
  qed
qed

lemma load_tasks_mem:
  "t \<in> set (load_tasks js rows) \<longleftrightarrow> (\<exists>r\<in>set rows. task_of_row js r = Some t)"
  by (auto simp: load_tasks_def List.map_filter_def image_iff)

lemma task_of_row_id: "task_of_row js r = Some t \<Longrightarrow> k_id t = row_id r"
  by (auto simp: task_of_row_def split: option.splits)

lemma load_tasks_distinct:
  assumes "rows_ok rows"
  shows "distinct (map k_id (load_tasks js rows))"
proof -
  have "distinct (map row_id rs) \<Longrightarrow> distinct (map k_id (List.map_filter (task_of_row js) rs))" for rs
    by (induction rs) (auto simp: map_filter_simps List.map_filter_def task_of_row_id split: option.splits)
  moreover have "distinct (map row_id (sort_key row_started_ms rows))"
    using assms by (simp add: rows_ok_def distinct_map)
  ultimately show ?thesis by (simp add: load_tasks_def)
qed

lemma task_of_params:
  "\<exists>s. task_of_row js (task_params js t) = Some s \<and> k_id s = k_id t \<and> k_owner s = k_owner t \<and>
     k_follower s = k_follower t \<and> k_state s = k_state t"
  by (simp add: task_of_row_def task_params_def)

text \<open>No task is lost silently by a crash: a Rust task that was still running when the app
  went away is, after the restart from the table, failed with "Ended when the app closed.", and
  is among the notices its owner takes.\<close>

theorem restart_tells_owner:
  assumes "(task_step js)\<^sup>*\<^sup>* empty_registry g" and "get i g = Some t"
    and "k_follower t = Rust" "\<not> task_ended (k_state t)"
  shows "\<exists>t'\<in>set (fst (take_notices js (k_owner t) (registry_new js (g_db g) False now))).
     k_id t' = i \<and> k_state t' = Failed \<and> k_error t' = Some ''Ended when the app closed.''"
proof -
  obtain rows where r: "keyed_by_id g" "g_db g = Some rows" "rows_ok rows"
    "\<forall>i. row_lookup rows i = map_option (\<lambda>e. task_params js (e_task e)) (map_of (g_tasks g) i)"
    using registry_okE [OF registry_sys.reachable_inv [OF assms(1)]] by blast
  have id: "k_id t = i" using assms(2) r(1) by (auto simp: get_def keyed_by_id_def)
  have "row_lookup rows i = Some (task_params js t)"
    using r(4) assms(2) by (auto simp: get_def)
  then have row: "task_params js t \<in> set rows" by (simp add: row_lookupD)
  obtain s where s: "task_of_row js (task_params js t) = Some s" "k_id s = i" "k_owner s = k_owner t"
    "k_follower s = Rust" "k_state s = k_state t"
    using task_of_params [of js t] assms(3) id by auto
  then have mem: "s \<in> set (load_tasks js rows)" using row load_tasks_mem by blast
  let ?f = "s\<lparr>k_state := Failed, k_error := Some ENDED_WITH_APP, k_ended_ms := Some now,
       k_notice_delivered := False\<rparr>"
  let ?n = "registry_new js (g_db g) False now"
  have "restored now s = Some ?f" using s assms(4) by (simp add: restored_def)
  then have "get i ?n = Some ?f"
    using fold_restore_get [OF load_tasks_distinct [OF r(3)] mem] s(2) r(2)
    by (simp add: registry_new_def)
  then obtain e where e: "(i, e) \<in> set (g_tasks ?n)" "e_task e = ?f"
    by (auto simp: get_def dest: map_of_SomeD)
  then have "due_notice (k_owner t) e" using s(3) by (simp add: due_notice_def)
  then have "e_task (mark_heard e) \<in> set (fst (take_notices js (k_owner t) ?n))"
    using e(1) by (force simp: take_notices_set)
  then show ?thesis using e(2) s(2)
    by (intro bexI [of _ "e_task (mark_heard e)"]) (simp_all add: mark_heard_def ENDED_WITH_APP_def)
qed

theorem restart_tells_owner_witness:
  "\<exists>t'\<in>set (fst (take_notices text_json ''chat:1''
      (registry_new text_json (g_db render_registry) False 99))).
     k_id t' = ''render-u1'' \<and> k_state t' = Failed"
proof -
  obtain t where t: "get ''render-u1'' render_registry = Some t" "k_follower t = Rust"
    "k_state t = TaskRunning" "k_owner t = ''chat:1''"
    by (simp add: run_registry get_def)
  from restart_tells_owner [OF render_registry_reachable t(1,2)] t(3,4)
  show ?thesis by fastforce
qed

end
