(* ===== verification/Rust_Text.thy ===== *)
theory Rust_Text
  imports Prelude
begin

text \<open>
  The part of Rust's \<open>str\<close> the modelled code uses.  A string is the list of its Unicode scalar
  values (\<open>rstr\<close>), so an index is a character index; where the code counts bytes, \<open>utf8_len\<close>
  gives the length of the UTF-8 encoding.  Searching is leftmost and non-overlapping, as
  \<open>str::find\<close>, \<open>matches\<close> and \<open>replace\<close> are.
\<close>

type_synonym rchar = nat
type_synonym rstr = "rchar list"

definition lit :: "string \<Rightarrow> rstr" where
  "lit s = map of_char s"

abbreviation NL :: rchar where "NL \<equiv> 10"
abbreviation CR :: rchar where "CR \<equiv> 13"
abbreviation BOM :: rchar where "BOM \<equiv> 0xFEFF"

definition utf8_len_char :: "rchar \<Rightarrow> nat" where
  "utf8_len_char c = (if c < 0x80 then 1 else if c < 0x800 then 2 else if c < 0x10000 then 3 else 4)"

definition utf8_len :: "rstr \<Rightarrow> nat" where
  "utf8_len s = sum_list (map utf8_len_char s)"

definition utf8_encode_char :: "rchar \<Rightarrow> nat list" where
  "utf8_encode_char c =
    (if c < 0x80 then [c]
     else if c < 0x800 then [0xC0 + c div 64, 0x80 + c mod 64]
     else if c < 0x10000 then [0xE0 + c div 4096, 0x80 + c div 64 mod 64, 0x80 + c mod 64]
     else [0xF0 + c div 262144, 0x80 + c div 4096 mod 64, 0x80 + c div 64 mod 64, 0x80 + c mod 64])"

definition utf8_encode :: "rstr \<Rightarrow> nat list" where
  "utf8_encode s = concat (map utf8_encode_char s)"

lemma length_utf8_encode: "length (utf8_encode s) = utf8_len s"
  by (induction s) (simp_all add: utf8_encode_def utf8_len_def utf8_encode_char_def utf8_len_char_def)

lemma utf8_len_append [simp]: "utf8_len (s @ t) = utf8_len s + utf8_len t"
  by (simp add: utf8_len_def)

lemma length_le_utf8_len: "length s \<le> utf8_len s"
  by (induction s) (auto simp: utf8_len_def utf8_len_char_def)

section \<open>Characters\<close>

text \<open>\<open>char::is_whitespace\<close> (Unicode \<open>White_Space\<close>) and \<open>char::is_control\<close> (category \<open>Cc\<close>).\<close>

definition is_whitespace :: "rchar \<Rightarrow> bool" where
  "is_whitespace c \<longleftrightarrow> (9 \<le> c \<and> c \<le> 13) \<or> c = 32 \<or> c = 0x85 \<or> c = 0xA0 \<or> c = 0x1680 \<or>
     (0x2000 \<le> c \<and> c \<le> 0x200A) \<or> c = 0x2028 \<or> c = 0x2029 \<or> c = 0x202F \<or> c = 0x205F \<or> c = 0x3000"

definition is_control :: "rchar \<Rightarrow> bool" where
  "is_control c \<longleftrightarrow> c < 32 \<or> (127 \<le> c \<and> c \<le> 159)"

definition is_ascii_digit :: "rchar \<Rightarrow> bool" where
  "is_ascii_digit c \<longleftrightarrow> 48 \<le> c \<and> c \<le> 57"

definition is_ascii_alphabetic :: "rchar \<Rightarrow> bool" where
  "is_ascii_alphabetic c \<longleftrightarrow> (65 \<le> c \<and> c \<le> 90) \<or> (97 \<le> c \<and> c \<le> 122)"

definition to_ascii_lowercase_char :: "rchar \<Rightarrow> rchar" where
  "to_ascii_lowercase_char c = (if 65 \<le> c \<and> c \<le> 90 then c + 32 else c)"

definition to_ascii_lowercase :: "rstr \<Rightarrow> rstr" where
  "to_ascii_lowercase s = map to_ascii_lowercase_char s"

definition eq_ignore_ascii_case :: "rstr \<Rightarrow> rstr \<Rightarrow> bool" where
  "eq_ignore_ascii_case a b \<longleftrightarrow> to_ascii_lowercase a = to_ascii_lowercase b"

section \<open>Trimming\<close>

definition trim_start_matches :: "(rchar \<Rightarrow> bool) \<Rightarrow> rstr \<Rightarrow> rstr" where
  "trim_start_matches p s = dropWhile p s"

definition trim_end_matches :: "(rchar \<Rightarrow> bool) \<Rightarrow> rstr \<Rightarrow> rstr" where
  "trim_end_matches p s = rev (dropWhile p (rev s))"

definition trim_matches :: "(rchar \<Rightarrow> bool) \<Rightarrow> rstr \<Rightarrow> rstr" where
  "trim_matches p s = trim_end_matches p (trim_start_matches p s)"

definition trim_end :: "rstr \<Rightarrow> rstr" where
  "trim_end s = trim_end_matches is_whitespace s"

definition trim :: "rstr \<Rightarrow> rstr" where
  "trim s = trim_matches is_whitespace s"

section \<open>Searching and replacing\<close>

definition strip_prefix :: "rstr \<Rightarrow> rstr \<Rightarrow> rstr option" where
  "strip_prefix p s = (if prefix p s then Some (drop (length p) s) else None)"

fun str_find :: "rstr \<Rightarrow> rstr \<Rightarrow> nat option" where
  "str_find pat [] = (if pat = [] then Some 0 else None)"
| "str_find pat (c # s) = (if prefix pat (c # s) then Some 0 else map_option Suc (str_find pat s))"

definition contains :: "rstr \<Rightarrow> rstr \<Rightarrow> bool" where
  "contains pat s \<longleftrightarrow> str_find pat s \<noteq> None"

text \<open>For a non-empty pattern; the code never searches for an empty one.\<close>

function match_count :: "rstr \<Rightarrow> rstr \<Rightarrow> nat" where
  "match_count pat s =
     (if pat = [] \<or> s = [] then 0
      else if prefix pat s then Suc (match_count pat (drop (length pat) s))
      else match_count pat (tl s))"
  by pat_completeness auto
termination
  by (relation "measure (\<lambda>(pat, s). length s)") (auto simp: length_greater_0_conv [symmetric] simp del: length_greater_0_conv)

function replace :: "rstr \<Rightarrow> rstr \<Rightarrow> rstr \<Rightarrow> rstr" where
  "replace pat new s =
     (if pat = [] \<or> s = [] then s
      else if prefix pat s then new @ replace pat new (drop (length pat) s)
      else hd s # replace pat new (tl s))"
  by pat_completeness auto
termination
  by (relation "measure (\<lambda>(pat, new, s). length s)") (auto simp: length_greater_0_conv [symmetric] simp del: length_greater_0_conv)

declare match_count.simps [simp del] replace.simps [simp del]

text \<open>The same equations by constructor, for evaluation.\<close>

lemma match_count_eval:
  "match_count pat [] = 0"
  "match_count (p # pat) (c # s) =
     (if p = c \<and> prefix pat s then Suc (match_count (p # pat) (drop (length pat) s))
      else match_count (p # pat) s)"
  by (subst match_count.simps, simp)+

lemma replace_eval:
  "replace pat new [] = []"
  "replace (p # pat) new (c # s) =
     (if p = c \<and> prefix pat s then new @ replace (p # pat) new (drop (length pat) s)
      else c # replace (p # pat) new s)"
  by (subst replace.simps, simp)+

definition replace_first :: "rstr \<Rightarrow> rstr \<Rightarrow> rstr \<Rightarrow> rstr" where
  "replace_first pat new s = (case str_find pat s of
     None \<Rightarrow> s | Some i \<Rightarrow> take i s @ new @ drop (i + length pat) s)"

definition replace_char :: "rchar \<Rightarrow> rstr \<Rightarrow> rstr \<Rightarrow> rstr" where
  "replace_char c new s = concat (map (\<lambda>x. if x = c then new else [x]) s)"

lemma str_find_SomeD:
  "str_find pat s = Some i \<Longrightarrow> i \<le> length s \<and> s = take i s @ pat @ drop (i + length pat) s"
proof (induction s arbitrary: i)
  case Nil
  then show ?case by (auto split: if_splits)
next
  case (Cons c s)
  show ?case
  proof (cases "prefix pat (c # s)")
    case True
    with Cons.prems have "i = 0" by simp
    with True show ?thesis by (auto simp: prefix_def)
  next
    case False
    with Cons.prems obtain k where "str_find pat s = Some k" "i = Suc k"
      by (auto simp del: str_find.simps(1))
    with Cons.IH show ?thesis by fastforce
  qed
qed

lemma str_find_ex:
  "s = a @ pat @ b \<Longrightarrow> str_find pat s \<noteq> None"
proof (induction a arbitrary: s)
  case Nil
  then have "prefix pat s" by simp
  then show ?case by (cases s) auto
next
  case (Cons x a)
  then show ?case by auto
qed

lemma match_count_pos:
  assumes "pat \<noteq> []"
  shows "0 < match_count pat s \<longleftrightarrow> str_find pat s \<noteq> None"
proof (induction s)
  case Nil
  then show ?case using assms by (simp add: match_count.simps)
next
  case (Cons c s)
  then show ?case using assms by (subst match_count.simps) auto
qed

section \<open>Splitting and joining\<close>

fun split_char :: "rchar \<Rightarrow> rstr \<Rightarrow> rstr list" where
  "split_char c [] = [[]]"
| "split_char c (x # s) =
     (if x = c then [] # split_char c s
      else (case split_char c s of [] \<Rightarrow> [[x]] | l # ls \<Rightarrow> (x # l) # ls))"

fun join :: "rstr \<Rightarrow> rstr list \<Rightarrow> rstr" where
  "join sep [] = []"
| "join sep [l] = l"
| "join sep (l # m # ls) = l @ sep @ join sep (m # ls)"

lemma split_char_not_Nil [simp]: "split_char c s \<noteq> []"
  by (induction s) (auto split: list.splits)

lemma join_Cons: "ls \<noteq> [] \<Longrightarrow> join sep (l # ls) = l @ sep @ join sep ls"
  by (cases ls) auto

lemma join_cons_char: "join sep ((x # l) # ls) = x # join sep (l # ls)"
  by (cases ls) auto

lemma join_split [simp]: "join [c] (split_char c s) = s"
proof (induction s)
  case (Cons x s)
  obtain l ls where ls: "split_char c s = l # ls" by (cases "split_char c s") auto
  with Cons show ?case by (auto simp: join_cons_char)
qed simp

lemma split_char_mem: "l \<in> set (split_char c s) \<Longrightarrow> c \<notin> set l"
  by (induction s arbitrary: l) (auto split: list.splits if_splits)

lemma split_char_single: "c \<notin> set l \<Longrightarrow> split_char c l = [l]"
  by (induction l) auto

lemma split_char_append: "c \<notin> set l \<Longrightarrow> split_char c (l @ c # s) = l # split_char c s"
  by (induction l) auto

lemma split_join:
  "ls \<noteq> [] \<Longrightarrow> \<forall>l\<in>set ls. c \<notin> set l \<Longrightarrow> split_char c (join [c] ls) = ls"
proof (induction ls rule: list_nonempty_induct)
  case (single l)
  then show ?case by (simp add: split_char_single)
next
  case (cons l ls)
  then show ?case by (simp add: join_Cons split_char_append)
qed

lemma join_append:
  "ls \<noteq> [] \<Longrightarrow> ms \<noteq> [] \<Longrightarrow> join sep (ls @ ms) = join sep ls @ sep @ join sep ms"
  by (induction ls rule: list_nonempty_induct) (simp_all add: join_Cons)

text \<open>\<open>str::lines\<close>: split at line feeds, one trailing carriage return dropped from each line, and
  no line after a final line feed.\<close>

definition drop_cr :: "rstr \<Rightarrow> rstr" where
  "drop_cr l = (if l \<noteq> [] \<and> last l = CR then butlast l else l)"

definition rust_lines :: "rstr \<Rightarrow> rstr list" where
  "rust_lines s =
     (let ls = split_char NL s;
          terminated = butlast ls
      in map drop_cr terminated @ (if last ls = [] then [] else [last ls]))"

end
