(* ===== verification/Fuzzy_Edit.thy ===== *)
theory Fuzzy_Edit
  imports Rust_Text Interfaces
begin

text \<open>
  \<open>src-tauri/src/fs_tools/fuzzy.rs\<close>: the find-and-replace behind the edit tools.  Error messages
  are constructors that carry what the message is about.  The compatibility normalisation NFKC
  comes from the crate \<open>unicode_normalization\<close> and is the parameter \<open>nfkc\<close>.
\<close>

section \<open>Model\<close>

record edit_result =
  first_changed_line :: nat
  line_before :: rstr
  line_after :: rstr
  used_fuzzy :: bool

record edit_outcome =
  new_content :: rstr
  outcome_result :: edit_result

datatype edit_error =
  OldStrEmpty
| AppearsTimes nat rstr
| NotFound rstr
| MatchesPlaces nat rstr
| Unchanged rstr

definition normalize_to_lf :: "rstr \<Rightarrow> rstr" where
  "normalize_to_lf s = replace_char CR [NL] (replace [CR, NL] [NL] s)"

definition strip_bom :: "rstr \<Rightarrow> bool \<times> rstr" where
  "strip_bom s = (case strip_prefix [BOM] s of Some rest \<Rightarrow> (True, rest) | None \<Rightarrow> (False, s))"

definition fold_char :: "rchar \<Rightarrow> rchar" where
  "fold_char c =
    (if c \<in> {0x2018, 0x2019, 0x201A, 0x201B} then 39
     else if c \<in> {0x201C, 0x201D, 0x201E, 0x201F} then 34
     else if (0x2010 \<le> c \<and> c \<le> 0x2015) \<or> c = 0x2212 then 45
     else if c = 0xA0 \<or> (0x2002 \<le> c \<and> c \<le> 0x200A) \<or> c = 0x202F \<or> c = 0x205F \<or> c = 0x3000 then 32
     else c)"

definition normalize_for_fuzzy_line :: "(rstr \<Rightarrow> rstr) \<Rightarrow> rstr \<Rightarrow> rstr" where
  "normalize_for_fuzzy_line nfkc line = map fold_char (trim_end (nfkc line))"

definition line_of_offset :: "rstr \<Rightarrow> nat \<Rightarrow> nat" where
  "line_of_offset s offset = length (filter (\<lambda>c. c = NL) (take offset s)) + 1"

definition window_starts :: "rstr list \<Rightarrow> rstr list \<Rightarrow> nat list" where
  "window_starts content_norm old_norm =
     filter (\<lambda>start. take (length old_norm) (drop start content_norm) = old_norm)
       [0..<Suc (length content_norm - length old_norm)]"

definition fuzzy_apply ::
  "(rstr \<Rightarrow> rstr) \<Rightarrow> rstr \<Rightarrow> rstr \<Rightarrow> rstr \<Rightarrow> rstr \<Rightarrow> edit_error + (rstr \<times> edit_result)" where
  "fuzzy_apply nfkc content old new path =
    (let content_lines = split_char NL content;
         old_lines = split_char NL old;
         content_norm = map (normalize_for_fuzzy_line nfkc) content_lines;
         old_norm = map (normalize_for_fuzzy_line nfkc) old_lines;
         win = length old_norm
     in if win = 0 \<or> length content_norm < win then Inl (NotFound path)
        else
          (let starts = window_starts content_norm old_norm in
           if length starts = 0 then Inl (NotFound path)
           else if length starts \<noteq> 1 then Inl (MatchesPlaces (length starts) path)
           else
             (let i = starts ! 0;
                  new_lines = split_char NL new;
                  out_lines = take i content_lines @ new_lines @ drop (i + win) content_lines
              in Inr (join [NL] out_lines,
                   \<lparr>first_changed_line = i + 1, line_before = content_lines ! i,
                    line_after = (case new_lines of l # _ \<Rightarrow> l | [] \<Rightarrow> []), used_fuzzy = True\<rparr>))))"

definition nth_or_empty :: "rstr list \<Rightarrow> nat \<Rightarrow> rstr" where
  "nth_or_empty ls n = (if n < length ls then ls ! n else [])"

definition exact_apply :: "rstr \<Rightarrow> rstr \<Rightarrow> rstr \<Rightarrow> rstr \<times> edit_result" where
  "exact_apply content old new =
    (let offset = (case str_find old content of Some i \<Rightarrow> i | None \<Rightarrow> 0);
         line = line_of_offset content offset
     in (replace_first old new content,
         \<lparr>first_changed_line = line,
          line_before = nth_or_empty (split_char NL content) (line - 1),
          line_after = nth_or_empty (split_char NL new) 0, used_fuzzy = False\<rparr>))"

definition apply_edit ::
  "(rstr \<Rightarrow> rstr) \<Rightarrow> rstr \<Rightarrow> rstr \<Rightarrow> rstr \<Rightarrow> rstr \<Rightarrow> edit_error + edit_outcome" where
  "apply_edit nfkc raw old_str new_str path =
    (let (had_bom, body) = strip_bom raw;
         was_crlf = contains [CR, NL] body;
         content = normalize_to_lf body;
         old = normalize_to_lf old_str;
         new = normalize_to_lf new_str
     in if old = [] then Inl OldStrEmpty
        else
          (let occurrences = match_count old content;
               found = (if 1 < occurrences then Inl (AppearsTimes occurrences path)
                        else if occurrences = 1 then Inr (exact_apply content old new)
                        else fuzzy_apply nfkc content old new path)
           in case found of
                Inl e \<Rightarrow> Inl e
              | Inr (edited, result) \<Rightarrow>
                  if edited = content then Inl (Unchanged path)
                  else
                    (let out = (if was_crlf then replace_char NL [CR, NL] edited else edited);
                         out = (if had_bom then BOM # out else out)
                     in Inr \<lparr>new_content = out, outcome_result = result\<rparr>)))"

text \<open>
  \<open>like_existing\<close>: \<open>head\<close> is the start of the file as the code reads it (at most 64 KiB of its
  bytes), \<open>None\<close> when it cannot be opened or read.
\<close>

definition first_newline_is_crlf :: "nat list \<Rightarrow> bool" where
  "first_newline_is_crlf head = (case position (\<lambda>b. b = NL) head of
     Some i \<Rightarrow> 0 < i \<and> head ! (i - 1) = CR | None \<Rightarrow> False)"

definition like_existing :: "nat list option \<Rightarrow> rstr \<Rightarrow> rstr" where
  "like_existing file content = (case file of
     None \<Rightarrow> content
   | Some bytes \<Rightarrow>
      (let head = take (64 * 1024) bytes;
           had_bom = prefix (utf8_encode [BOM]) head;
           crlf = first_newline_is_crlf head;
           out = (if crlf \<and> CR \<notin> set content then replace_char NL [CR, NL] content else content)
       in if had_bom \<and> \<not> prefix [BOM] out then BOM # out else out))"

end
