(* ===== verification/Fuzzy_Edit_Props.thy ===== *)
theory Fuzzy_Edit_Props
  imports Fuzzy_Edit
begin

text \<open>
  What an edit promises: one place of the file changes and nothing else, an ambiguous \<open>old_str\<close> is
  refused, and the line endings and the byte-order mark of the file survive.
\<close>

section \<open>Line endings\<close>

lemma replace_char_append [simp]:
  "replace_char c new (s @ t) = replace_char c new s @ replace_char c new t"
  by (simp add: replace_char_def)

lemma replace_char_Nil [simp]: "replace_char c new [] = []"
  by (simp add: replace_char_def)

lemma replace_char_Cons [simp]:
  "replace_char c new (x # s) = (if x = c then new else [x]) @ replace_char c new s"
  by (simp add: replace_char_def)

lemma replace_char_absent: "c \<notin> set s \<Longrightarrow> replace_char c new s = s"
  by (induction s) auto

lemma replace_char_gone: "c \<notin> set new \<Longrightarrow> c \<notin> set (replace_char c new s)"
  by (induction s) auto

lemma normalize_no_CR: "CR \<notin> set (normalize_to_lf s)"
  unfolding normalize_to_lf_def by (rule replace_char_gone) simp

lemma replace_absent_head: "c \<notin> set s \<Longrightarrow> replace (c # p) new s = s"
  by (induction s) (auto simp: replace.simps)

lemma replace_crlf: "CR \<notin> set s \<Longrightarrow> replace [CR, NL] [NL] (replace_char NL [CR, NL] s) = s"
proof (induction s)
  case Nil
  then show ?case by (simp add: replace.simps)
next
  case (Cons c s)
  then show ?case
    by (cases "c = NL") (subst replace.simps, simp)+
qed

lemma normalize_LF: "CR \<notin> set s \<Longrightarrow> normalize_to_lf s = s"
  by (simp add: normalize_to_lf_def replace_absent_head replace_char_absent)

lemma normalize_CRLF: "CR \<notin> set s \<Longrightarrow> normalize_to_lf (replace_char NL [CR, NL] s) = s"
  by (simp add: normalize_to_lf_def replace_crlf replace_char_absent)

lemma contains_append: "contains pat (a @ pat @ b)"
  by (simp add: contains_def str_find_ex)

lemma contains_SomeD: "contains pat s \<Longrightarrow> \<exists>a b. s = a @ pat @ b"
  unfolding contains_def by (metis option.exhaust str_find_SomeD)

lemma contains_CRLF: "CR \<notin> set s \<Longrightarrow> contains [CR, NL] (replace_char NL [CR, NL] s) \<longleftrightarrow> NL \<in> set s"
proof
  assume "CR \<notin> set s" "contains [CR, NL] (replace_char NL [CR, NL] s)"
  then show "NL \<in> set s" using contains_SomeD replace_char_absent
    by (metis append_Cons in_set_conv_decomp)
next
  assume "NL \<in> set s"
  then obtain a b where "s = a @ NL # b" by (meson split_list)
  then have "replace_char NL [CR, NL] s = replace_char NL [CR, NL] a @ [CR, NL] @ replace_char NL [CR, NL] b"
    by simp
  then show "contains [CR, NL] (replace_char NL [CR, NL] s)" by (simp only: contains_append)
qed

text \<open>How a file is written back: \<open>restore\<close> the byte-order mark and the line endings.\<close>

definition endings :: "bool \<Rightarrow> rstr \<Rightarrow> rstr" where
  "endings crlf s = (if crlf then replace_char NL [CR, NL] s else s)"

lemma endings_append [simp]: "endings crlf (s @ t) = endings crlf s @ endings crlf t"
  by (simp add: endings_def)

definition uniform_endings :: "rstr \<Rightarrow> bool" where
  "uniform_endings s \<longleftrightarrow> CR \<notin> set s \<or> s = replace_char NL [CR, NL] (normalize_to_lf s)"

lemma uniform_endingsD:
  "uniform_endings s \<Longrightarrow> endings (contains [CR, NL] s) (normalize_to_lf s) = s"
proof (cases "CR \<in> set s")
  case False
  moreover have "\<not> contains [CR, NL] s" using False contains_SomeD by fastforce
  ultimately show ?thesis by (simp add: normalize_LF endings_def)
next
  case True
  assume "uniform_endings s"
  with True have s: "s = replace_char NL [CR, NL] (normalize_to_lf s)"
    by (simp add: uniform_endings_def)
  have "contains [CR, NL] s \<longleftrightarrow> NL \<in> set (normalize_to_lf s)"
    by (subst s) (rule contains_CRLF [OF normalize_no_CR])
  then show ?thesis
    using s replace_char_absent by (auto simp: endings_def)
qed

section \<open>The two passes\<close>

lemma strip_bom_split: "strip_bom s = (b, body) \<Longrightarrow> s = (if b then [BOM] else []) @ body"
  by (auto simp: strip_bom_def strip_prefix_def prefix_def split: option.splits if_splits)

lemma exact_applyD:
  assumes "exact_apply content old new = (edited, res)" "match_count old content = 1" "old \<noteq> []"
  shows "\<exists>pre post. content = pre @ old @ post \<and> edited = pre @ new @ post \<and>
    first_changed_line res = length (filter (\<lambda>c. c = NL) pre) + 1 \<and> \<not> used_fuzzy res"
proof -
  have "str_find old content \<noteq> None" using assms match_count_pos [of old content] by simp
  then obtain i where i: "str_find old content = Some i" by auto
  then have "content = take i content @ old @ drop (i + length old) content"
    using str_find_SomeD by blast
  moreover have "edited = take i content @ new @ drop (i + length old) content"
    using assms(1) i by (auto simp: exact_apply_def replace_first_def Let_def)
  moreover have "first_changed_line res = length (filter (\<lambda>c. c = NL) (take i content)) + 1 \<and> \<not> used_fuzzy res"
    using assms(1) i by (auto simp: exact_apply_def line_of_offset_def Let_def)
  ultimately show ?thesis by blast
qed

lemma window_starts_iff:
  "i \<in> set (window_starts cs os) \<longleftrightarrow>
     i \<le> length cs - length os \<and> take (length os) (drop i cs) = os"
  by (auto simp: window_starts_def less_Suc_eq_le simp del: upt_Suc)

text \<open>A run of whole lines: it begins at the start of the text or after a line feed, and ends at the
  end of the text or before one.\<close>

definition whole_lines :: "rstr \<Rightarrow> rstr \<Rightarrow> bool" where
  "whole_lines pre post \<longleftrightarrow> (pre = [] \<or> last pre = NL) \<and> (post = [] \<or> hd post = NL)"

definition lines_before :: "rstr list \<Rightarrow> rstr" where
  "lines_before ls = (if ls = [] then [] else join [NL] ls @ [NL])"

definition lines_after :: "rstr list \<Rightarrow> rstr" where
  "lines_after ls = (if ls = [] then [] else NL # join [NL] ls)"

lemma join_around:
  "mid \<noteq> [] \<Longrightarrow> join [NL] (a @ mid @ b) = lines_before a @ join [NL] mid @ lines_after b"
  by (auto simp: lines_before_def lines_after_def join_append)

lemma count_NL_join:
  "ls \<noteq> [] \<Longrightarrow> \<forall>l\<in>set ls. NL \<notin> set l \<Longrightarrow> length (filter (\<lambda>c. c = NL) (join [NL] ls)) = length ls - 1"
proof (induction ls rule: list_nonempty_induct)
  case (single l)
  then show ?case by (simp add: filter_empty_conv) metis
next
  case (cons l ls)
  then have "filter (\<lambda>c. c = NL) l = []" by (auto simp: filter_empty_conv)
  moreover have "0 < length ls" using cons.hyps by simp
  ultimately show ?case using cons by (simp add: join_Cons)
qed

lemma fuzzy_applyD:
  assumes "fuzzy_apply nfkc content old new path = Inr (edited, res)"
  defines "norm \<equiv> map (normalize_for_fuzzy_line nfkc)"
  shows "\<exists>pre mid post. content = pre @ mid @ post \<and> edited = pre @ new @ post \<and>
    first_changed_line res = length (filter (\<lambda>c. c = NL) pre) + 1 \<and> used_fuzzy res \<and>
    whole_lines pre post \<and> norm (split_char NL mid) = norm (split_char NL old) \<and>
    window_starts (norm (split_char NL content)) (norm (split_char NL old)) =
      [first_changed_line res - 1]"
proof -
  let ?cs = "split_char NL content" and ?os = "split_char NL old"
  let ?w = "length ?os"
  obtain i where starts: "window_starts (norm ?cs) (norm ?os) = [i]"
    and len: "?w \<le> length ?cs"
    and ed: "edited = join [NL] (take i ?cs @ split_char NL new @ drop (i + ?w) ?cs)"
    and res: "first_changed_line res = i + 1" "used_fuzzy res"
    using assms by (auto simp: fuzzy_apply_def Let_def length_Suc_conv split: if_splits)
  have "i \<in> set (window_starts (norm ?cs) (norm ?os))" using starts by simp
  then have i: "i \<le> length ?cs - ?w" and m: "norm (take ?w (drop i ?cs)) = norm ?os"
    by (auto simp: window_starts_iff norm_def take_map drop_map)
  define mid where "mid = take ?w (drop i ?cs)"
  have wpos: "0 < ?w" by simp
  have "length mid = ?w" using i len by (auto simp: mid_def)
  then have ne: "mid \<noteq> []" using wpos by auto
  have cs: "?cs = take i ?cs @ mid @ drop (i + ?w) ?cs"
    unfolding mid_def by (metis append_take_drop_id drop_drop add.commute)
  define pre where "pre = lines_before (take i ?cs)"
  define post where "post = lines_after (drop (i + ?w) ?cs)"
  have "content = join [NL] ?cs" by simp
  also have "\<dots> = pre @ join [NL] mid @ post"
    by (subst cs) (simp only: join_around [OF ne] pre_def post_def)
  finally have content: "content = pre @ join [NL] mid @ post" .
  have "edited = pre @ join [NL] (split_char NL new) @ post"
    unfolding ed pre_def post_def by (rule join_around) simp
  then have edited: "edited = pre @ new @ post" by simp
  have nl: "\<forall>l\<in>set ?cs. NL \<notin> set l" using split_char_mem by blast
  then have "split_char NL (join [NL] mid) = mid"
    by (intro split_join [OF ne]) (auto simp: mid_def dest: in_set_takeD in_set_dropD)
  then have m': "norm (split_char NL (join [NL] mid)) = norm ?os" using m by (simp only: mid_def)
  have cnt: "length (filter (\<lambda>c. c = NL) pre) = i"
  proof (cases "take i ?cs = []")
    case True
    then show ?thesis by (auto simp: pre_def lines_before_def)
  next
    case False
    have "\<forall>l\<in>set (take i ?cs). NL \<notin> set l" using nl by (auto dest: in_set_takeD)
    then have "length (filter (\<lambda>c. c = NL) (join [NL] (take i ?cs))) = i - 1"
      using count_NL_join [OF False] i by simp
    moreover have "0 < i" using False by (cases i) auto
    ultimately show ?thesis using False by (simp add: pre_def lines_before_def)
  qed
  have whole: "whole_lines pre post"
    by (auto simp: whole_lines_def pre_def post_def lines_before_def lines_after_def)
  have first: "first_changed_line res = length (filter (\<lambda>c. c = NL) pre) + 1"
    using res cnt by simp
  have one: "window_starts (norm ?cs) (norm ?os) = [first_changed_line res - 1]"
    using starts res by simp
  show ?thesis using content edited first res(2) whole m' one by blast
qed

text \<open>What \<open>apply_edit\<close> answers, by the number of exact matches.\<close>

lemma apply_edit_InrD:
  assumes "apply_edit nfkc raw old_str new_str path = Inr out"
    and "strip_bom raw = (bom, body)"
  shows "\<exists>edited. new_content out = (if bom then [BOM] else []) @ endings (contains [CR, NL] body) edited
    \<and> edited \<noteq> normalize_to_lf body \<and> normalize_to_lf old_str \<noteq> []
    \<and> (if match_count (normalize_to_lf old_str) (normalize_to_lf body) = 1
       then exact_apply (normalize_to_lf body) (normalize_to_lf old_str) (normalize_to_lf new_str)
              = (edited, outcome_result out)
       else match_count (normalize_to_lf old_str) (normalize_to_lf body) = 0
         \<and> fuzzy_apply nfkc (normalize_to_lf body) (normalize_to_lf old_str) (normalize_to_lf new_str) path
              = Inr (edited, outcome_result out))"
  using assms
  by (auto simp: apply_edit_def Let_def endings_def split: if_splits sum.splits prod.splits)

text \<open>Replacing a window of lines changes nothing exactly when the new lines are the old ones.\<close>

lemma splice_same:
  "join [NL] (take i (split_char NL s) @ split_char NL t @ drop (i + n) (split_char NL s)) = s
    \<longleftrightarrow> take n (drop i (split_char NL s)) = split_char NL t"
proof -
  let ?cs = "split_char NL s" and ?new = "split_char NL t"
  let ?out = "take i ?cs @ ?new @ drop (i + n) ?cs"
  have cs: "?cs = take i ?cs @ take n (drop i ?cs) @ drop (i + n) ?cs"
    by (metis append_take_drop_id drop_drop add.commute)
  have "split_char NL (join [NL] ?out) = ?out"
    by (rule split_join) (auto dest: in_set_takeD in_set_dropD split_char_mem)
  then have "join [NL] ?out = s \<longleftrightarrow> ?out = ?cs" by (metis join_split)
  also have "\<dots> \<longleftrightarrow> take n (drop i ?cs) = ?new"
    by (subst (2) cs) auto
  finally show ?thesis .
qed

section \<open>Properties\<close>

text \<open>
  C12. An edit that is accepted changes one place and keeps the rest of the file.  The text in its
  LF view is \<open>pre @ mid @ post\<close> and the file is written as \<open>pre @ new @ post\<close> in the endings and
  with the byte-order mark of the file; \<open>mid\<close> is the old text itself (and occurs once), or, when
  the old text does not occur at all, the only run of whole lines that equals it line by line after
  the fuzzy normalisation.  The reported line is the line the place starts in, the file really
  changes, and when the line endings of the file are uniform every character outside the place is
  the one that was there.
\<close>

theorem edit_changes_one_place:
  assumes "apply_edit nfkc raw old_str new_str path = Inr out"
    and "strip_bom raw = (bom, body)"
  shows "\<exists>pre mid post.
    normalize_to_lf body = pre @ mid @ post \<and> mid \<noteq> normalize_to_lf new_str \<and>
    new_content out = (if bom then [BOM] else []) @ endings (contains [CR, NL] body) pre
      @ endings (contains [CR, NL] body) (normalize_to_lf new_str)
      @ endings (contains [CR, NL] body) post \<and>
    first_changed_line (outcome_result out) = length (filter (\<lambda>c. c = NL) pre) + 1 \<and>
    (if used_fuzzy (outcome_result out)
     then match_count (normalize_to_lf old_str) (normalize_to_lf body) = 0 \<and> whole_lines pre post \<and>
       map (normalize_for_fuzzy_line nfkc) (split_char NL mid) =
         map (normalize_for_fuzzy_line nfkc) (split_char NL (normalize_to_lf old_str)) \<and>
       window_starts (map (normalize_for_fuzzy_line nfkc) (split_char NL (normalize_to_lf body)))
         (map (normalize_for_fuzzy_line nfkc) (split_char NL (normalize_to_lf old_str)))
         = [first_changed_line (outcome_result out) - 1]
     else mid = normalize_to_lf old_str \<and>
       match_count (normalize_to_lf old_str) (normalize_to_lf body) = 1) \<and>
    (uniform_endings body \<longrightarrow>
       raw = (if bom then [BOM] else []) @ endings (contains [CR, NL] body) pre
         @ endings (contains [CR, NL] body) mid @ endings (contains [CR, NL] body) post)"
proof -
  let ?e = "endings (contains [CR, NL] body)" and ?lf = "normalize_to_lf body"
  let ?old = "normalize_to_lf old_str" and ?new = "normalize_to_lf new_str"
  obtain edited where ed: "new_content out = (if bom then [BOM] else []) @ ?e edited"
      "edited \<noteq> ?lf" "?old \<noteq> []"
    and split: "if match_count ?old ?lf = 1
       then exact_apply ?lf ?old ?new = (edited, outcome_result out)
       else match_count ?old ?lf = 0
         \<and> fuzzy_apply nfkc ?lf ?old ?new path = Inr (edited, outcome_result out)"
    using apply_edit_InrD [OF assms] by blast
  have raw: "raw = (if bom then [BOM] else []) @ body" using strip_bom_split [OF assms(2)] .
  have whole: "uniform_endings body \<Longrightarrow> ?lf = pre @ mid @ post \<Longrightarrow>
      raw = (if bom then [BOM] else []) @ ?e pre @ ?e mid @ ?e post" for pre mid post
    using uniform_endingsD [of body] raw by (metis endings_append)
  show ?thesis
  proof (cases "match_count ?old ?lf = 1")
    case True
    then obtain pre post where p: "?lf = pre @ ?old @ post" "edited = pre @ ?new @ post"
      "first_changed_line (outcome_result out) = length (filter (\<lambda>c. c = NL) pre) + 1"
      "\<not> used_fuzzy (outcome_result out)"
      using split exact_applyD [OF _ True ed(3)] by (metis (full_types))
    have "?old \<noteq> ?new" using p(1,2) ed(2) by auto
    then show ?thesis using p ed(1) True whole [OF _ p(1)]
      by (intro exI [of _ pre] exI [of _ ?old] exI [of _ post]) (auto simp: p(1) [symmetric])
  next
    case False
    then have f: "fuzzy_apply nfkc ?lf ?old ?new path = Inr (edited, outcome_result out)"
      and z: "match_count ?old ?lf = 0" using split by auto
    obtain pre mid post where p: "?lf = pre @ mid @ post" "edited = pre @ ?new @ post"
      "first_changed_line (outcome_result out) = length (filter (\<lambda>c. c = NL) pre) + 1"
      "used_fuzzy (outcome_result out)" "whole_lines pre post"
      "map (normalize_for_fuzzy_line nfkc) (split_char NL mid) =
         map (normalize_for_fuzzy_line nfkc) (split_char NL ?old)"
      "window_starts (map (normalize_for_fuzzy_line nfkc) (split_char NL ?lf))
         (map (normalize_for_fuzzy_line nfkc) (split_char NL ?old))
         = [first_changed_line (outcome_result out) - 1]"
      using fuzzy_applyD [OF f] by blast
    have "mid \<noteq> ?new" using p(1,2) ed(2) by auto
    then show ?thesis using p ed(1) z whole [OF _ p(1)]
      by (intro exI [of _ pre] exI [of _ mid] exI [of _ post]) (auto simp: p(1) [symmetric])
  qed
qed

text \<open>
  An old text that occurs more than once is refused with its number of occurrences, one that
  occurs nowhere and matches several windows fuzzily is refused with that number, one that matches
  nowhere is reported as not found, and every other edit is accepted unless it changes nothing.
\<close>

theorem ambiguous_edit_refused:
  assumes "normalize_to_lf old_str \<noteq> []" and "strip_bom raw = (bom, body)"
    and "lf = normalize_to_lf body" and "old = normalize_to_lf old_str"
    and "norm = map (normalize_for_fuzzy_line nfkc)"
    and "windows = (if length (split_char NL lf) < length (split_char NL old) then []
      else window_starts (norm (split_char NL lf)) (norm (split_char NL old)))"
  shows "apply_edit nfkc raw old_str new_str path = Inl e \<longleftrightarrow>
    (if 1 < match_count old lf then e = AppearsTimes (match_count old lf) path
     else if match_count old lf = 1 then
       old = normalize_to_lf new_str \<and> e = Unchanged path
     else if windows = [] then e = NotFound path
     else if length windows \<noteq> 1 then e = MatchesPlaces (length windows) path
     else take (length (split_char NL old)) (drop (hd windows) (split_char NL lf))
            = split_char NL (normalize_to_lf new_str) \<and> e = Unchanged path)"
proof -
  let ?new = "normalize_to_lf new_str"
  have edit: "apply_edit nfkc raw old_str new_str path = Inl e \<longleftrightarrow>
    (if 1 < match_count old lf then e = AppearsTimes (match_count old lf) path
     else if match_count old lf = 1 then
       fst (exact_apply lf old ?new) = lf \<and> e = Unchanged path
     else (case fuzzy_apply nfkc lf old ?new path of Inl e' \<Rightarrow> e = e'
       | Inr (edited, res) \<Rightarrow> edited = lf \<and> e = Unchanged path))"
    using assms(1,2) unfolding assms(3,4)
    by (auto simp: apply_edit_def Let_def split: sum.splits prod.splits)
  have exact: "fst (exact_apply lf old ?new) = lf \<longleftrightarrow> old = ?new" if "match_count old lf = 1"
  proof -
    obtain ed res where e: "exact_apply lf old ?new = (ed, res)" by fastforce
    then show ?thesis using exact_applyD [OF e that] assms(1,4) by auto
  qed
  have fuzzy: "fuzzy_apply nfkc lf old ?new path =
    (if windows = [] then Inl (NotFound path)
     else if length windows \<noteq> 1 then Inl (MatchesPlaces (length windows) path)
     else fuzzy_apply nfkc lf old ?new path)"
    using assms(5,6) by (auto simp: fuzzy_apply_def Let_def)
  show ?thesis
  proof (cases "length windows = 1")
    case False
    then show ?thesis unfolding edit by (subst fuzzy) (auto simp: exact)
  next
    case True
    then obtain i where w: "windows = [i]" by (auto simp: length_Suc_conv)
    then have len: "\<not> length (split_char NL lf) < length (split_char NL old)"
      using assms(6) by auto
    obtain ed res where f: "fuzzy_apply nfkc lf old ?new path = Inr (ed, res)"
      and ed: "ed = join [NL] (take i (split_char NL lf) @ split_char NL ?new
        @ drop (i + length (split_char NL old)) (split_char NL lf))"
      using w len assms(5,6) by (auto simp: fuzzy_apply_def Let_def)
    have "ed = lf \<longleftrightarrow> take (length (split_char NL old)) (drop i (split_char NL lf)) = split_char NL ?new"
      unfolding ed by (rule splice_same)
    then show ?thesis unfolding edit by (simp add: f w exact)
  qed
qed

section \<open>Witnesses\<close>

lemmas edit_eval = apply_edit_def strip_bom_def strip_prefix_def contains_def normalize_to_lf_def
  replace_eval replace_char_def match_count_eval fuzzy_apply_def window_starts_def
  normalize_for_fuzzy_line_def fold_char_def trim_end_def trim_end_matches_def is_whitespace_def
  exact_apply_def replace_first_def line_of_offset_def nth_or_empty_def lit_def Let_def

text \<open>A file with carriage returns and a byte-order mark; the old text differs from the file by a
  trailing blank, so the fuzzy pass finds it.\<close>

lemma edit_changes_one_place_witness:
  "\<exists>out pre mid post.
     apply_edit id ([BOM] @ lit ''foo '' @ [CR, NL] @ lit ''bar'' @ [CR, NL])
       (lit ''foo'' @ [NL] @ lit ''bar'') (lit ''X'') (lit ''f'') = Inr out \<and>
     lit ''foo '' @ [NL] @ lit ''bar'' @ [NL] = pre @ mid @ post \<and>
     new_content out = [BOM] @ endings True pre @ endings True (lit ''X'') @ endings True post \<and>
     used_fuzzy (outcome_result out) \<and> whole_lines pre post"
proof -
  let ?raw = "[BOM] @ lit ''foo '' @ [CR, NL] @ lit ''bar'' @ [CR, NL]"
  let ?body = "lit ''foo '' @ [CR, NL] @ lit ''bar'' @ [CR, NL]"
  let ?old = "lit ''foo'' @ [NL] @ lit ''bar''"
  have e: "apply_edit id ?raw ?old (lit ''X'') (lit ''f'') =
    Inr \<lparr>new_content = [BOM] @ lit ''X'' @ [CR, NL],
      outcome_result = \<lparr>first_changed_line = 1, line_before = lit ''foo '', line_after = lit ''X'',
        used_fuzzy = True\<rparr>\<rparr>"
    by (simp add: edit_eval)
  have b: "strip_bom ?raw = (True, ?body)" by (simp add: edit_eval)
  have n: "normalize_to_lf ?body = lit ''foo '' @ [NL] @ lit ''bar'' @ [NL]"
    "normalize_to_lf (lit ''X'') = lit ''X''" "contains [CR, NL] ?body = True" by (simp_all add: edit_eval)
  show ?thesis
    using edit_changes_one_place [OF e b, unfolded n] e by fastforce
qed

lemma ambiguous_edit_refused_witness:
  "apply_edit id (lit ''x'' @ [NL] @ lit ''x'') (lit ''x'') (lit ''y'') (lit ''f'') =
     Inl (AppearsTimes 2 (lit ''f''))"
proof -
  let ?raw = "lit ''x'' @ [NL] @ lit ''x''" and ?old = "lit ''x''"
  have o: "normalize_to_lf ?old \<noteq> []" by (simp add: edit_eval)
  have b: "strip_bom ?raw = (False, ?raw)" by (simp add: edit_eval)
  have c: "match_count (normalize_to_lf ?old) (normalize_to_lf ?raw) = 2" by (simp add: edit_eval)
  have n: "(1::nat) < 2" by simp
  show ?thesis
    by (rule iffD2 [OF ambiguous_edit_refused [OF o b refl refl refl refl]])
      (simp only: c n if_True)
qed

section \<open>Two corners\<close>

text \<open>Occurrences are counted without overlap, so an old text that overlaps itself counts as unique
  although it stands at two places of the file.\<close>

lemma overlapping_occurrences_pass:
  "map_sum id new_content (apply_edit nfkc (lit ''aaa'') (lit ''aa'') (lit ''b'') path) = Inr (lit ''ba'')"
  "take 2 (drop 0 (lit ''aaa'')) = lit ''aa''" "take 2 (drop 1 (lit ''aaa'')) = lit ''aa''"
  by (simp_all add: edit_eval)

text \<open>A file with mixed line endings is rewritten: the first line here is not part of the edit, and its
  line feed becomes a carriage return and a line feed.\<close>

lemma mixed_endings_rewritten:
  "map_sum id new_content (apply_edit nfkc (lit ''a'' @ [NL] @ lit ''b'' @ [CR, NL]) (lit ''b'') (lit ''c'') path) =
     Inr (lit ''a'' @ [CR, NL] @ lit ''c'' @ [CR, NL])"
  by (simp add: edit_eval)

end
