(* ===== verification/Session_Claims.thy ===== *)
theory Session_Claims
  imports Rust_Text Interfaces "HOL-Library.List_Lexorder"
begin

text \<open>
  \<open>src-tauri/src/code_tools/claims.rs\<close>: which window has each Code session open.  The two hash
  maps are association lists; \<open>alive\<close> is the predicate the code passes, whether a window with that
  label still exists.  The step relation adds what the windows believe: the pairs (window, session)
  a granted claim gave and the window has not let go of.
\<close>

section \<open>Model\<close>

record claims =
  owners :: "(rstr \<times> rstr) list"
  handoffs :: "(rstr \<times> rstr) list"

record code_claim =
  claim_owner :: "rstr option"
  claim_handoff :: "rstr option"

definition claims_default :: claims where
  "claims_default = \<lparr>owners = [], handoffs = []\<rparr>"

definition claim :: "rstr \<Rightarrow> rstr \<Rightarrow> (rstr \<Rightarrow> bool) \<Rightarrow> claims \<Rightarrow> code_claim \<times> claims" where
  "claim sid label alive c =
    (let grant = (\<lparr>claim_owner = None, claim_handoff = map_of (handoffs c) sid\<rparr>,
           c\<lparr>owners := AList.update sid label (owners c), handoffs := AList.delete sid (handoffs c)\<rparr>)
     in case map_of (owners c) sid of
       Some w \<Rightarrow> if w \<noteq> label \<and> alive w
         then (\<lparr>claim_owner = Some w, claim_handoff = None\<rparr>, c) else grant
     | None \<Rightarrow> grant)"

definition release :: "rstr \<Rightarrow> rstr \<Rightarrow> rstr option \<Rightarrow> claims \<Rightarrow> claims" where
  "release sid label handoff c =
    (let go = (\<lambda>owned.
       (let c' = (if owned then c\<lparr>owners := AList.delete sid (owners c)\<rparr> else c)
        in case handoff of
             Some h \<Rightarrow> c'\<lparr>handoffs := AList.update sid h (handoffs c')\<rparr>
           | None \<Rightarrow> if owned then c'\<lparr>handoffs := AList.delete sid (handoffs c')\<rparr> else c'))
     in case map_of (owners c) sid of
          Some w \<Rightarrow> if w \<noteq> label then c else go True
        | None \<Rightarrow> go False)"

definition release_window :: "rstr \<Rightarrow> claims \<Rightarrow> claims" where
  "release_window label c = c\<lparr>owners := store_retain (\<lambda>_ w. w \<noteq> label) (owners c)\<rparr>"

definition owner_of :: "rstr \<Rightarrow> (rstr \<Rightarrow> bool) \<Rightarrow> claims \<Rightarrow> rstr option" where
  "owner_of sid alive c = (case map_of (owners c) sid of
     Some w \<Rightarrow> if alive w then Some w else None | None \<Rightarrow> None)"

definition open_ids :: "(rstr \<Rightarrow> bool) \<Rightarrow> claims \<Rightarrow> rstr list" where
  "open_ids alive c = sort (map fst (filter (\<lambda>(_, w). alive w) (owners c)))"

text \<open>The commands: the answer or the new state, and whether the change is announced.\<close>

definition code_session_claim ::
  "rstr \<Rightarrow> (rstr \<Rightarrow> bool) \<Rightarrow> rstr \<Rightarrow> claims \<Rightarrow> code_claim \<times> claims \<times> bool" where
  "code_session_claim window exists sid c =
    (let (answer, c') = claim sid window exists c in (answer, c', claim_owner answer = None))"

definition code_session_release :: "rstr \<Rightarrow> rstr \<Rightarrow> rstr option \<Rightarrow> claims \<Rightarrow> claims \<times> bool" where
  "code_session_release window sid handoff c = (release sid window handoff c, True)"

definition code_session_open_ids :: "(rstr \<Rightarrow> bool) \<Rightarrow> claims \<Rightarrow> rstr list" where
  "code_session_open_ids exists c = open_ids exists c"

text \<open>Windows and claims together: the state, the live windows, and what the windows hold.\<close>

inductive claim_step ::
  "claims \<times> rstr set \<times> (rstr \<times> rstr) set \<Rightarrow> claims \<times> rstr set \<times> (rstr \<times> rstr) set \<Rightarrow> bool" where
  Open: "w \<notin> live \<Longrightarrow> claim_step (c, live, held) (c, insert w live, {p \<in> held. fst p \<noteq> w})"
| Granted: "w \<in> live \<Longrightarrow> code_session_claim w (\<lambda>v. v \<in> live) sid c = (answer, c', told)
    \<Longrightarrow> claim_owner answer = None \<Longrightarrow> claim_step (c, live, held) (c', live, insert (w, sid) held)"
| Refused: "w \<in> live \<Longrightarrow> code_session_claim w (\<lambda>v. v \<in> live) sid c = (answer, c', told)
    \<Longrightarrow> claim_owner answer \<noteq> None \<Longrightarrow> claim_step (c, live, held) (c', live, held)"
| Release: "w \<in> live \<Longrightarrow> code_session_release w sid handoff c = (c', told)
    \<Longrightarrow> claim_step (c, live, held) (c', live, held - {(w, sid)})"
| Gone: "claim_step (c, live, held) (c, live - {w}, held)"
| Destroyed: "w \<notin> live \<Longrightarrow> claim_step (c, live, held) (release_window w c, live, held)"

inductive_cases claim_stepE: "claim_step s t"

section \<open>One window per session\<close>

text \<open>What the owner table holds after each command, keys being unique.\<close>

lemma claim_owners:
  "claim sid w alive c = (answer, c') \<Longrightarrow>
     map_of (owners c') = (if claim_owner answer = None then (map_of (owners c))(sid \<mapsto> w) else map_of (owners c))
     \<and> (claim_owner answer = None \<longleftrightarrow>
         (case map_of (owners c) sid of Some v \<Rightarrow> v = w \<or> \<not> alive v | None \<Rightarrow> True))
     \<and> (claim_owner answer \<noteq> None \<longrightarrow> claim_owner answer = map_of (owners c) sid)"
  by (auto simp: claim_def Let_def update_conv' split: option.splits if_splits)

lemma release_owners:
  "map_of (owners (release sid w h c)) =
     (if map_of (owners c) sid = Some w then (map_of (owners c))(sid := None) else map_of (owners c))"
  by (auto simp: release_def Let_def delete_conv' split: option.splits)

lemma release_window_owners:
  "store_ok (owners c) \<Longrightarrow> map_of (owners (release_window w c)) k =
     (if map_of (owners c) k = Some w then None else map_of (owners c) k)"
  by (auto simp: release_window_def store_simps split: option.splits)

lemma claims_ok:
  "store_ok (owners c) \<Longrightarrow> store_ok (owners (snd (claim sid w alive c)))"
  "store_ok (owners c) \<Longrightarrow> store_ok (owners (release sid w h c))"
  "store_ok (owners c) \<Longrightarrow> store_ok (owners (release_window w c))"
  by (auto simp: claim_def release_def release_window_def Let_def store_simps split: option.splits)

definition claims_sound :: "claims \<times> rstr set \<times> (rstr \<times> rstr) set \<Rightarrow> bool" where
  "claims_sound s \<longleftrightarrow> (case s of (c, live, held) \<Rightarrow>
     store_ok (owners c) \<and> (\<forall>(w, sid)\<in>held. w \<in> live \<longrightarrow> map_of (owners c) sid = Some w))"

lemma claim_step_sound:
  assumes "claims_sound s" "claim_step s t"
  shows "claims_sound t"
  using assms(2,1)
proof cases
  case (Granted w live sid c answer c' told held)
  then have g: "claim sid w (\<lambda>v. v \<in> live) c = (answer, c')"
    by (auto simp: code_session_claim_def split: prod.splits)
  have "store_ok (owners c')" using claims_ok(1) [of c sid w "\<lambda>v. v \<in> live"] g Granted(1) assms(1)
    by (simp add: claims_sound_def)
  moreover have "map_of (owners c') sid' = Some v" if "(v, sid') \<in> held" "v \<in> live" for v sid'
  proof -
    have old: "map_of (owners c) sid' = Some v"
      using that assms(1) Granted(1) by (auto simp: claims_sound_def)
    then show ?thesis using claim_owners [OF g] Granted(5) that(2) by (auto split: if_splits)
  qed
  moreover have "map_of (owners c') sid = Some w" using claim_owners [OF g] Granted(5) by simp
  ultimately show ?thesis unfolding Granted(2) claims_sound_def by blast
next
  case (Refused w live sid c answer c' told held)
  then have "claim sid w (\<lambda>v. v \<in> live) c = (answer, c')"
    by (auto simp: code_session_claim_def split: prod.splits)
  then show ?thesis using claim_owners claims_ok(1) [of c sid w "\<lambda>v. v \<in> live"] Refused assms(1)
    by (auto simp: claims_sound_def)
next
  case (Release w live sid handoff c c' told held)
  then have c': "c' = release sid w handoff c" by (simp add: code_session_release_def)
  show ?thesis using Release(1,2) assms(1) claims_ok(2) [of c]
    by (auto simp: claims_sound_def c' release_owners)
next
  case (Destroyed w live c held)
  then show ?thesis using assms(1) claims_ok(3) [of c]
    by (auto simp: claims_sound_def release_window_owners)
qed (auto simp: claims_sound_def)

interpretation claims_sys: guarded_system "(claims_default, {}, {})" claim_step claims_sound
proof unfold_locales
  show "claims_sound (claims_default, {}, {})"
    by (simp add: claims_sound_def claims_default_def store_ok_def)
qed (rule claim_step_sound)

text \<open>
  C20. In every reachable state a session is open in at most one live window: the live window that
  was granted it and did not let go of it is the only one, the table names it, and any other live
  window's claim is refused with its label.
\<close>

theorem one_window_per_session:
  assumes "claim_step\<^sup>*\<^sup>* (claims_default, {}, {}) (c, live, held)"
    and "(w, sid) \<in> held" and "w \<in> live"
  shows "owner_of sid (\<lambda>v. v \<in> live) c = Some w \<and>
    (\<forall>v. (v, sid) \<in> held \<and> v \<in> live \<longrightarrow> v = w) \<and>
    (\<forall>v. v \<noteq> w \<longrightarrow> claim sid v (\<lambda>x. x \<in> live) c = (\<lparr>claim_owner = Some w, claim_handoff = None\<rparr>, c)) \<and>
    sid \<in> set (open_ids (\<lambda>v. v \<in> live) c)"
proof -
  have inv: "claims_sound (c, live, held)" using claims_sys.reachable_inv [OF assms(1)] .
  then have o: "map_of (owners c) sid = Some w" using assms(2,3) by (auto simp: claims_sound_def)
  then have "sid \<in> set (open_ids (\<lambda>v. v \<in> live) c)"
    using map_of_SomeD [OF o] assms(3) by (force simp: open_ids_def)
  moreover have "\<forall>v. (v, sid) \<in> held \<and> v \<in> live \<longrightarrow> v = w"
    using inv o by (auto simp: claims_sound_def)
  ultimately show ?thesis using o assms(3) by (auto simp: owner_of_def claim_def)
qed

text \<open>Two windows, one session: the second window is told who has it.\<close>

lemma one_window_per_session_witness:
  "\<exists>c. claim_step\<^sup>*\<^sup>* (claims_default, {}, {}) (c, {[1], [2]}, {([1], [7])}) \<and>
     claim [7] [2] (\<lambda>v. v \<in> {[1], [2]}) c = (\<lparr>claim_owner = Some [1], claim_handoff = None\<rparr>, c)"
proof -
  let ?c = "claims_default\<lparr>owners := [([7], [1])]\<rparr>"
  have "claim_step (claims_default, {}, {}) (claims_default, {[1]}, {})"
    using claim_step.Open [of "[1]" "{}" claims_default "{}"] by simp
  moreover have "claim_step (claims_default, {[1]}, {}) (claims_default, {[1], [2]}, {})"
    using claim_step.Open [of "[2]" "{[1]}" claims_default "{}"] by (simp add: insert_commute)
  moreover have "claim_step (claims_default, {[1], [2]}, {}) (?c, {[1], [2]}, {([1], [7])})"
    by (rule claim_step.Granted [where answer = "\<lparr>claim_owner = None, claim_handoff = None\<rparr>" and told = True])
      (simp_all add: code_session_claim_def claim_def claims_default_def Let_def)
  ultimately have r: "claim_step\<^sup>*\<^sup>* (claims_default, {}, {}) (?c, {[1], [2]}, {([1], [7])})"
    by (meson converse_rtranclp_into_rtranclp rtranclp.rtrancl_refl)
  have "claim [7] [2] (\<lambda>v. v \<in> {[1], [2]}) ?c = (\<lparr>claim_owner = Some [1], claim_handoff = None\<rparr>, ?c)"
    using one_window_per_session [OF r, of "[1]" "[7]"] by simp
  then show ?thesis using r by blast
qed

section \<open>Handoffs\<close>

text \<open>A run of calls; the answers of the claims are dropped.\<close>

datatype claim_call =
  CallClaim rstr rstr "rstr \<Rightarrow> bool"
| CallRelease rstr rstr "rstr option"
| CallReleaseWindow rstr

fun call :: "claim_call \<Rightarrow> claims \<Rightarrow> claims" where
  "call (CallClaim sid w alive) c = snd (claim sid w alive c)"
| "call (CallRelease sid w h) c = release sid w h c"
| "call (CallReleaseWindow w) c = release_window w c"

definition calls :: "claim_call list \<Rightarrow> claims \<Rightarrow> claims" where
  "calls cs c = fold call cs c"

text \<open>The calls that may change what waits for \<open>sid\<close>.\<close>

fun claims_it :: "rstr \<Rightarrow> claim_call \<Rightarrow> bool" where
  "claims_it sid (CallClaim s w alive) \<longleftrightarrow> s = sid"
| "claims_it sid (CallRelease s w h) \<longleftrightarrow> s = sid \<and> h \<noteq> None"
| "claims_it sid (CallReleaseWindow w) \<longleftrightarrow> False"

lemma call_keeps_free:
  assumes "\<not> claims_it sid a" "map_of (owners c) sid = None" "store_ok (owners c)"
  shows "map_of (owners (call a c)) sid = None \<and> store_ok (owners (call a c)) \<and>
    map_of (handoffs (call a c)) sid = map_of (handoffs c) sid"
proof (cases a)
  case (CallClaim s w alive)
  obtain answer c' where g: "claim s w alive c = (answer, c')" by fastforce
  have "map_of (handoffs c') sid = map_of (handoffs c) sid"
    using g assms(1) CallClaim by (auto simp: claim_def Let_def delete_conv' split: option.splits if_splits)
  then show ?thesis
    using claim_owners [OF g] claims_ok(1) [OF assms(3), of s w alive] assms CallClaim by (auto simp: g)
next
  case (CallRelease s w h)
  have "map_of (handoffs (release s w h c)) sid = map_of (handoffs c) sid"
    using assms(1,2) CallRelease
    by (auto simp: release_def Let_def delete_conv' update_conv' split: option.splits)
  then show ?thesis using CallRelease assms claims_ok(2) by (auto simp: release_owners)
next
  case (CallReleaseWindow w)
  then show ?thesis using assms claims_ok(3) by (simp add: release_window_owners) (simp add: release_window_def)
qed

lemma calls_keep_free:
  assumes "\<forall>a\<in>set as. \<not> claims_it sid a" "map_of (owners c) sid = None" "store_ok (owners c)"
  shows "map_of (owners (calls as c)) sid = None \<and> store_ok (owners (calls as c)) \<and>
    map_of (handoffs (calls as c)) sid = map_of (handoffs c) sid"
  using assms by (induction as arbitrary: c) (auto simp: calls_def dest: call_keeps_free)

lemma call_keeps_empty:
  assumes "\<not> (\<exists>s w h. a = CallRelease s w (Some h) \<and> s = sid)" "map_of (handoffs c) sid = None"
  shows "map_of (handoffs (call a c)) sid = None"
  using assms
  by (cases a) (auto simp: claim_def release_def release_window_def Let_def delete_conv' update_conv'
      split: option.splits)

lemma calls_keep_empty:
  "\<forall>a\<in>set as. \<not> (\<exists>s w h. a = CallRelease s w (Some h) \<and> s = sid) \<Longrightarrow> map_of (handoffs c) sid = None \<Longrightarrow>
     map_of (handoffs (calls as c)) sid = None"
  by (induction as arbitrary: c) (auto simp: calls_def call_keeps_empty)

text \<open>
  A handoff reaches the next owner, once.  A window that owns the session (or finds it without
  owner) lets go of it and leaves \<open>h\<close>; however the other sessions are claimed and released
  meanwhile, windows close, and windows that do not hold it release it without a handoff, the next
  claim is granted and is given \<open>h\<close>; after that no granted claim is given a handoff until a
  release leaves one again.
\<close>

theorem handoff_delivered_once:
  assumes "store_ok (owners c)"
    and "map_of (owners c) sid = Some w \<or> map_of (owners c) sid = None"
    and "\<forall>a\<in>set before. \<not> claims_it sid a"
    and "\<forall>a\<in>set after. \<not> (\<exists>s v g. a = CallRelease s v (Some g) \<and> s = sid)"
    and "claim sid v alive (calls before (release sid w (Some h) c)) = (answer, c')"
    and "claim sid v' alive' (calls after c') = (answer', c'')"
  shows "answer = \<lparr>claim_owner = None, claim_handoff = Some h\<rparr> \<and> claim_handoff answer' = None"
proof -
  let ?r = "release sid w (Some h) c"
  have "map_of (owners ?r) sid = None" "map_of (handoffs ?r) sid = Some h"
    using assms(2) by (auto simp: release_def Let_def delete_conv' update_conv' split: option.splits)
  then have b: "map_of (owners (calls before ?r)) sid = None"
      "map_of (handoffs (calls before ?r)) sid = Some h"
    using calls_keep_free [OF assms(3) _ claims_ok(2) [OF assms(1)]] by auto
  then have answer: "answer = \<lparr>claim_owner = None, claim_handoff = Some h\<rparr>"
    and "map_of (handoffs c') sid = None"
    using assms(5) by (auto simp: claim_def Let_def delete_conv')
  then have "map_of (handoffs (calls after c')) sid = None"
    using calls_keep_empty [OF assms(4)] by blast
  then have "claim_handoff answer' = None"
    using assms(6) by (auto simp: claim_def Let_def split: option.splits if_splits)
  with answer show ?thesis by blast
qed

lemma handoff_delivered_once_witness:
  "claim_handoff (fst (claim [7] [2] (\<lambda>v. v \<in> {[1], [2]})
     (calls [CallRelease [7] [3] None, CallReleaseWindow [1]]
       (release [7] [1] (Some [42]) \<lparr>owners = [([7], [1])], handoffs = []\<rparr>)))) = Some [42]"
proof -
  let ?c = "\<lparr>owners = [([7], [1])], handoffs = []\<rparr>"
  let ?before = "[CallRelease [7] [3] None, CallReleaseWindow [1]]"
  let ?first = "claim [7] [2] (\<lambda>v. v \<in> {[1], [2]}) (calls ?before (release [7] [1] (Some [42]) ?c))"
  let ?second = "claim [7] [2] (\<lambda>v. True) (calls [] (snd ?first))"
  have "store_ok (owners ?c)" "map_of (owners ?c) [7] = Some [1]" by (simp_all add: store_ok_def)
  moreover have "\<forall>a\<in>set ?before. \<not> claims_it [7] a" by simp
  ultimately show ?thesis
    using handoff_delivered_once [of ?c "[7]" "[1]" ?before "[]" "[2]" "\<lambda>v. v \<in> {[1], [2]}" "[42]"
        "fst ?first" "snd ?first" "[2]" "\<lambda>v. True" "fst ?second" "snd ?second"] by simp
qed

end
