(* ===== verification/Search_Stats.thy ===== *)
theory Search_Stats
  imports Rust_Text Interfaces "HOL-Library.List_Lexorder" "HOL-Library.Char_ord"
begin

text \<open>
  \<open>src-tauri/src/proxy/stats.rs\<close> and \<open>src-tauri/src/db/stats.rs\<close>: what every search attempt leaves in
  the session counters and, through the trait \<open>StatSink\<close>, in the four tables of the database.  The
  counters are naturals: each grows by one per attempt (the latency by milliseconds) and stays far
  below the 63 bits SQLite keeps.  The clock is the argument \<open>now\<close> (the
  session and the database each read it), the local date of a time
  (crate \<open>chrono\<close>) the parameter \<open>local_day\<close>, and \<open>sql_ok i\<close> says whether the \<open>i\<close>-th SQL
  statement of a call succeeds: the statements of a call are not in one transaction.
\<close>

section \<open>Outcomes\<close>

datatype search_failure_kind =
  Http | RateLimited | Parse | Empty | Irrelevant | Network | Timeout | Other

fun db_column :: "search_failure_kind \<Rightarrow> string" where
  "db_column Http = ''fail_http''"
| "db_column RateLimited = ''fail_rate_limited''"
| "db_column Parse = ''fail_parse''"
| "db_column Empty = ''fail_empty''"
| "db_column Irrelevant = ''fail_irrelevant''"
| "db_column Network = ''fail_network''"
| "db_column Timeout = ''fail_timeout''"
| "db_column Other = ''fail_other''"

record search_failure =
  failure_kind :: search_failure_kind
  failure_message :: rstr

datatype auto_position = First | Fallback

text \<open>\<open>Result<u64, SearchFailureKind>\<close> is a sum with the error on the left.\<close>

record recorded_outcome =
  outcome :: "search_failure_kind + nat"
  outcome_position :: "auto_position option"

record engine_stat_delta =
  delta_attempt :: bool
  delta_success :: bool
  delta_latency_ms :: nat
  delta_failure_column :: "string option"
  delta_now_ms :: int
  delta_first_choice :: bool
  delta_fallback :: bool
  delta_fallback_success :: bool

record engine_stats_core =
  engine_name :: rstr
  attempts :: nat
  successes :: nat
  total_latency_ms :: nat
  max_latency_ms :: nat
  last_success_at :: "int option"
  last_failure_at :: "int option"
  first_choice_attempts :: nat
  fallback_attempts :: nat
  fallback_successes :: nat

definition core_default :: "rstr \<Rightarrow> engine_stats_core" where
  "core_default e = \<lparr>engine_name = e, attempts = 0, successes = 0, total_latency_ms = 0,
     max_latency_ms = 0, last_success_at = None, last_failure_at = None,
     first_choice_attempts = 0, fallback_attempts = 0, fallback_successes = 0\<rparr>"

section \<open>The session counters\<close>

record engine_session_stats =
  session_core :: engine_stats_core
  failures_by_kind :: "(search_failure_kind \<times> nat) list"

record global_counters =
  cache_hits :: nat
  total_queries :: nat
  all_engines_failed :: nat
  browser_fallbacks :: nat

record search_stats =
  session_engines :: "(rstr \<times> engine_session_stats) list"
  session_globals :: global_counters

definition search_stats_new :: search_stats where
  "search_stats_new = \<lparr>session_engines = [],
     session_globals = \<lparr>cache_hits = 0, total_queries = 0, all_engines_failed = 0, browser_fallbacks = 0\<rparr>\<rparr>"

definition bump_kind :: "search_failure_kind \<Rightarrow> (search_failure_kind \<times> nat) list \<Rightarrow> (search_failure_kind \<times> nat) list" where
  "bump_kind k m = AList.update k ((case map_of m k of Some n \<Rightarrow> n | None \<Rightarrow> 0) + 1) m"

definition count_position :: "auto_position option \<Rightarrow> engine_stats_core \<Rightarrow> engine_stats_core" where
  "count_position pos c = (case pos of
     Some First \<Rightarrow> c\<lparr>first_choice_attempts := first_choice_attempts c + 1\<rparr>
   | Some Fallback \<Rightarrow> c\<lparr>fallback_attempts := fallback_attempts c + 1\<rparr>
   | None \<Rightarrow> c)"

definition count_outcome :: "int \<Rightarrow> recorded_outcome \<Rightarrow> engine_session_stats \<Rightarrow> engine_session_stats" where
  "count_outcome now out e =
    (let core = count_position (outcome_position out) ((session_core e)\<lparr>attempts := attempts (session_core e) + 1\<rparr>)
     in case outcome out of
          Inr latency \<Rightarrow>
            (let core = core\<lparr>successes := successes core + 1,
                   total_latency_ms := total_latency_ms core + latency,
                   max_latency_ms := (if latency > max_latency_ms core then latency else max_latency_ms core),
                   last_success_at := Some now\<rparr>;
                 core = (if outcome_position out = Some Fallback
                   then core\<lparr>fallback_successes := fallback_successes core + 1\<rparr> else core)
             in e\<lparr>session_core := core\<rparr>)
        | Inl kind \<Rightarrow>
            e\<lparr>session_core := core\<lparr>last_failure_at := Some now\<rparr>,
              failures_by_kind := bump_kind kind (failures_by_kind e)\<rparr>)"

definition session_entry :: "search_stats \<Rightarrow> rstr \<Rightarrow> engine_session_stats" where
  "session_entry s engine = (case map_of (session_engines s) engine of
     Some e \<Rightarrow> e | None \<Rightarrow> \<lparr>session_core = core_default engine, failures_by_kind = []\<rparr>)"

definition record_outcome :: "int \<Rightarrow> rstr \<Rightarrow> recorded_outcome \<Rightarrow> search_stats \<Rightarrow> search_stats" where
  "record_outcome now engine out s = s\<lparr>session_engines :=
     AList.update engine (count_outcome now out (session_entry s engine)) (session_engines s)\<rparr>"

datatype global_counter = Query | CacheHit | AllEnginesFailed | BrowserFallback

fun db_key :: "global_counter \<Rightarrow> string" where
  "db_key Query = ''total_queries''"
| "db_key CacheHit = ''cache_hits''"
| "db_key AllEnginesFailed = ''all_engines_failed''"
| "db_key BrowserFallback = ''browser_fallbacks''"

fun bump_global :: "global_counter \<Rightarrow> global_counters \<Rightarrow> global_counters" where
  "bump_global Query g = g\<lparr>total_queries := total_queries g + 1\<rparr>"
| "bump_global CacheHit g = g\<lparr>cache_hits := cache_hits g + 1\<rparr>"
| "bump_global AllEnginesFailed g = g\<lparr>all_engines_failed := all_engines_failed g + 1\<rparr>"
| "bump_global BrowserFallback g = g\<lparr>browser_fallbacks := browser_fallbacks g + 1\<rparr>"

definition record_query :: "search_stats \<Rightarrow> search_stats" where
  "record_query s = s\<lparr>session_globals := bump_global Query (session_globals s)\<rparr>"

definition record_cache_hit :: "search_stats \<Rightarrow> search_stats" where
  "record_cache_hit s = s\<lparr>session_globals := bump_global CacheHit (session_globals s)\<rparr>"

definition record_all_engines_failed :: "search_stats \<Rightarrow> search_stats" where
  "record_all_engines_failed s = s\<lparr>session_globals := bump_global AllEnginesFailed (session_globals s)\<rparr>"

definition record_browser_fallback :: "search_stats \<Rightarrow> search_stats" where
  "record_browser_fallback s = s\<lparr>session_globals := bump_global BrowserFallback (session_globals s)\<rparr>"

definition session_snapshot :: "search_stats \<Rightarrow> engine_session_stats list \<times> global_counters" where
  "session_snapshot s = (sort_key (\<lambda>e. engine_name (session_core e)) (map snd (session_engines s)), session_globals s)"

section \<open>The database tables\<close>

record engine_lifetime_stats =
  lifetime_core :: engine_stats_core
  fail_http :: nat
  fail_rate_limited :: nat
  fail_parse :: nat
  fail_empty :: nat
  fail_irrelevant :: nat
  fail_network :: nat
  fail_timeout :: nat
  fail_other :: nat

record daily_engine_stats =
  day_attempts :: nat
  day_successes :: nat
  day_fail_rate_limited :: nat
  day_fail_empty :: nat
  day_fail_other :: nat

record stats_db =
  engines_table :: "(rstr \<times> engine_lifetime_stats) list"
  globals_table :: "(string \<times> nat) list"
  daily_table :: "((rstr \<times> rstr) \<times> daily_engine_stats) list"
  daily_globals_table :: "((rstr \<times> string) \<times> nat) list"

definition row_default :: "rstr \<Rightarrow> engine_lifetime_stats" where
  "row_default e = \<lparr>lifetime_core = core_default e, fail_http = 0, fail_rate_limited = 0, fail_parse = 0,
     fail_empty = 0, fail_irrelevant = 0, fail_network = 0, fail_timeout = 0, fail_other = 0\<rparr>"

definition VALID_FAILURE_COLUMNS :: "string list" where
  "VALID_FAILURE_COLUMNS = [''fail_http'', ''fail_rate_limited'', ''fail_parse'', ''fail_empty'',
     ''fail_irrelevant'', ''fail_network'', ''fail_timeout'', ''fail_other'']"

definition DAILY_KEEP_DAYS :: nat where "DAILY_KEEP_DAYS = 90"

datatype stats_error = UnknownFailureColumn string | StatementFailed nat

definition fail_inc :: "engine_stat_delta \<Rightarrow> string \<Rightarrow> nat" where
  "fail_inc d name = (if delta_failure_column d = Some name then 1 else 0)"

definition of_flag :: "bool \<Rightarrow> nat" where "of_flag b = (if b then 1 else 0)"

text \<open>The UPDATE of \<open>search_stats_engines\<close> on one row.\<close>

definition update_row :: "engine_stat_delta \<Rightarrow> engine_lifetime_stats \<Rightarrow> engine_lifetime_stats" where
  "update_row d r =
    (let latency = (if delta_success d then delta_latency_ms d else 0);
         success_ts = (if delta_success d \<and> 0 < delta_now_ms d then delta_now_ms d else 0);
         failure_ts = (if delta_failure_column d \<noteq> None \<and> 0 < delta_now_ms d then delta_now_ms d else 0);
         c = lifetime_core r
     in r\<lparr>lifetime_core := c\<lparr>
            attempts := attempts c + of_flag (delta_attempt d),
            successes := successes c + of_flag (delta_success d),
            total_latency_ms := total_latency_ms c + latency,
            max_latency_ms := max (max_latency_ms c) latency,
            last_success_at := (if 0 < success_ts then Some success_ts else last_success_at c),
            last_failure_at := (if 0 < failure_ts then Some failure_ts else last_failure_at c),
            first_choice_attempts := first_choice_attempts c + of_flag (delta_first_choice d),
            fallback_attempts := fallback_attempts c + of_flag (delta_fallback d),
            fallback_successes := fallback_successes c + of_flag (delta_fallback_success d)\<rparr>,
          fail_http := fail_http r + fail_inc d ''fail_http'',
          fail_rate_limited := fail_rate_limited r + fail_inc d ''fail_rate_limited'',
          fail_parse := fail_parse r + fail_inc d ''fail_parse'',
          fail_empty := fail_empty r + fail_inc d ''fail_empty'',
          fail_irrelevant := fail_irrelevant r + fail_inc d ''fail_irrelevant'',
          fail_network := fail_network r + fail_inc d ''fail_network'',
          fail_timeout := fail_timeout r + fail_inc d ''fail_timeout'',
          fail_other := fail_other r + fail_inc d ''fail_other''\<rparr>)"

definition daily_inc :: "engine_stat_delta \<Rightarrow> daily_engine_stats" where
  "daily_inc d = \<lparr>day_attempts = of_flag (delta_attempt d), day_successes = of_flag (delta_success d),
     day_fail_rate_limited = fail_inc d ''fail_rate_limited'', day_fail_empty = fail_inc d ''fail_empty'',
     day_fail_other = of_flag (case delta_failure_column d of
       Some c \<Rightarrow> c \<noteq> ''fail_rate_limited'' \<and> c \<noteq> ''fail_empty'' | None \<Rightarrow> False)\<rparr>"

definition daily_add :: "daily_engine_stats \<Rightarrow> daily_engine_stats \<Rightarrow> daily_engine_stats" where
  "daily_add a b = \<lparr>day_attempts = day_attempts a + day_attempts b,
     day_successes = day_successes a + day_successes b,
     day_fail_rate_limited = day_fail_rate_limited a + day_fail_rate_limited b,
     day_fail_empty = day_fail_empty a + day_fail_empty b,
     day_fail_other = day_fail_other a + day_fail_other b\<rparr>"

text \<open>\<open>INSERT .. ON CONFLICT DO UPDATE\<close>: combine with the row that is there, or insert.\<close>

definition upsert :: "('v \<Rightarrow> 'v \<Rightarrow> 'v) \<Rightarrow> 'k \<Rightarrow> 'v \<Rightarrow> ('k \<times> 'v) list \<Rightarrow> ('k \<times> 'v) list" where
  "upsert f k v m = AList.update k (case map_of m k of Some old \<Rightarrow> f old v | None \<Rightarrow> v) m"

text \<open>Statement 0 inserts a missing row, statement 1 updates it, statement 2 counts the day.\<close>

definition update_tables ::
  "(nat \<Rightarrow> bool) \<Rightarrow> (int \<Rightarrow> rstr) \<Rightarrow> rstr \<Rightarrow> engine_stat_delta \<Rightarrow> stats_db \<Rightarrow> (stats_error + unit) \<times> stats_db" where
  "update_tables sql_ok local_day engine d db =
    (if \<not> sql_ok 0 then (Inl (StatementFailed 0), db)
     else
      (let db = (case map_of (engines_table db) engine of
             Some _ \<Rightarrow> db
           | None \<Rightarrow> db\<lparr>engines_table := AList.update engine (row_default engine) (engines_table db)\<rparr>)
       in if \<not> sql_ok 1 then (Inl (StatementFailed 1), db)
          else
           (let db = db\<lparr>engines_table := store_adjust engine (update_row d) (engines_table db)\<rparr>
            in if \<not> sql_ok 2 then (Inl (StatementFailed 2), db)
               else (Inr (), db\<lparr>daily_table :=
                 upsert daily_add (local_day (delta_now_ms d), engine) (daily_inc d) (daily_table db)\<rparr>))))"

definition update_engine_stat ::
  "(nat \<Rightarrow> bool) \<Rightarrow> (int \<Rightarrow> rstr) \<Rightarrow> rstr \<Rightarrow> engine_stat_delta \<Rightarrow> stats_db \<Rightarrow> (stats_error + unit) \<times> stats_db" where
  "update_engine_stat sql_ok local_day engine d db =
    (case delta_failure_column d of
       Some col \<Rightarrow> if col \<notin> set VALID_FAILURE_COLUMNS then (Inl (UnknownFailureColumn col), db)
         else update_tables sql_ok local_day engine d db
     | None \<Rightarrow> update_tables sql_ok local_day engine d db)"

definition increment_global ::
  "(nat \<Rightarrow> bool) \<Rightarrow> rstr \<Rightarrow> string \<Rightarrow> stats_db \<Rightarrow> (stats_error + unit) \<times> stats_db" where
  "increment_global sql_ok today key db =
    (if \<not> sql_ok 0 then (Inl (StatementFailed 0), db)
     else
      (let db = db\<lparr>globals_table := upsert (+) key 1 (globals_table db)\<rparr>
       in if \<not> sql_ok 1 then (Inl (StatementFailed 1), db)
          else (Inr (), db\<lparr>daily_globals_table := upsert (+) (today, key) 1 (daily_globals_table db)\<rparr>)))"

text \<open>\<open>days_ago n\<close> is the local date \<open>n\<close> days back.  Dates compare as text.  The two tables are
  pruned, then read from \<open>days - 1\<close> days back, newest day first, and by engine or key.\<close>

definition day_before :: "rstr \<Rightarrow> rstr \<Rightarrow> bool" where
  "day_before a b \<longleftrightarrow> a < b"

definition newest_first :: "((rstr \<times> 'k::linorder) \<times> 'v) list \<Rightarrow> ((rstr \<times> 'k) \<times> 'v) list" where
  "newest_first rows = concat (map (\<lambda>day. sort_key (\<lambda>r. snd (fst r)) (filter (\<lambda>r. fst (fst r) = day) rows))
     (rev (sort (remdups (map (fst \<circ> fst) rows)))))"

definition daily_stats_snapshot ::
  "(nat \<Rightarrow> rstr) \<Rightarrow> nat \<Rightarrow> stats_db \<Rightarrow>
     (((rstr \<times> rstr) \<times> daily_engine_stats) list \<times> ((rstr \<times> string) \<times> nat) list) \<times> stats_db" where
  "daily_stats_snapshot days_ago days db =
    (let keep = days_ago DAILY_KEEP_DAYS;
         db = db\<lparr>daily_table := store_retain (\<lambda>(day, _) _. \<not> day_before day keep) (daily_table db),
                daily_globals_table := store_retain (\<lambda>(day, _) _. \<not> day_before day keep) (daily_globals_table db)\<rparr>;
         from = days_ago (days - 1)
     in ((newest_first (filter (\<lambda>((day, _), _). \<not> day_before day from) (daily_table db)),
          newest_first (filter (\<lambda>((day, _), _). \<not> day_before day from) (daily_globals_table db))), db))"

definition lifetime_stats_snapshot :: "stats_db \<Rightarrow> engine_lifetime_stats list \<times> (string \<times> nat) list" where
  "lifetime_stats_snapshot db = (map snd (sort_key fst (engines_table db)), globals_table db)"

definition reset_lifetime_stats :: "stats_db \<Rightarrow> stats_db" where
  "reset_lifetime_stats db = \<lparr>engines_table = [], globals_table = [], daily_table = [], daily_globals_table = []\<rparr>"

text \<open>\<open>StatSink for Database\<close>: a failure is logged and dropped.\<close>

definition record_engine ::
  "(nat \<Rightarrow> bool) \<Rightarrow> (int \<Rightarrow> rstr) \<Rightarrow> rstr \<Rightarrow> engine_stat_delta \<Rightarrow> stats_db \<Rightarrow> stats_db" where
  "record_engine sql_ok local_day engine d db = snd (update_engine_stat sql_ok local_day engine d db)"

definition record_global :: "(nat \<Rightarrow> bool) \<Rightarrow> rstr \<Rightarrow> string \<Rightarrow> stats_db \<Rightarrow> stats_db" where
  "record_global sql_ok today counter db = snd (increment_global sql_ok today counter db)"

section \<open>Recording on both sides\<close>

definition delta_of :: "int \<Rightarrow> recorded_outcome \<Rightarrow> engine_stat_delta" where
  "delta_of now out =
    (let (success, latency, column) = (case outcome out of
           Inr ms \<Rightarrow> (True, ms, None) | Inl kind \<Rightarrow> (False, 0, Some (db_column kind)))
     in \<lparr>delta_attempt = True, delta_success = success, delta_latency_ms = latency,
         delta_failure_column = column, delta_now_ms = now,
         delta_first_choice = (outcome_position out = Some First),
         delta_fallback = (outcome_position out = Some Fallback),
         delta_fallback_success = (success \<and> outcome_position out = Some Fallback)\<rparr>)"

definition record_outcome_both ::
  "(rstr \<Rightarrow> engine_stat_delta \<Rightarrow> 'd \<Rightarrow> 'd) \<Rightarrow> int \<Rightarrow> int \<Rightarrow> rstr \<Rightarrow> recorded_outcome \<Rightarrow>
     search_stats \<times> 'd \<Rightarrow> search_stats \<times> 'd" where
  "record_outcome_both sink now now' engine out s =
    (record_outcome now engine out (fst s), sink engine (delta_of now' out) (snd s))"

definition classify_result ::
  "search_failure + 'r list \<Rightarrow> nat \<Rightarrow> auto_position option \<Rightarrow> recorded_outcome" where
  "classify_result result elapsed pos =
    (case result of
       Inr r \<Rightarrow> if r = [] then \<lparr>outcome = Inl Empty, outcome_position = pos\<rparr>
         else \<lparr>outcome = Inr elapsed, outcome_position = pos\<rparr>
     | Inl f \<Rightarrow> \<lparr>outcome = Inl (failure_kind f), outcome_position = pos\<rparr>)"

definition record_engine_result ::
  "(rstr \<Rightarrow> engine_stat_delta \<Rightarrow> 'd \<Rightarrow> 'd) \<Rightarrow> int \<Rightarrow> int \<Rightarrow> rstr \<Rightarrow> search_failure + 'r list \<Rightarrow> nat \<Rightarrow>
     auto_position option \<Rightarrow> search_stats \<times> 'd \<Rightarrow> search_stats \<times> 'd" where
  "record_engine_result sink now now' engine result elapsed pos s =
    record_outcome_both sink now now' engine (classify_result result elapsed pos) s"

definition record_global_both ::
  "(string \<Rightarrow> 'd \<Rightarrow> 'd) \<Rightarrow> global_counter \<Rightarrow> search_stats \<times> 'd \<Rightarrow> search_stats \<times> 'd" where
  "record_global_both sink counter s =
    ((case counter of Query \<Rightarrow> record_query | CacheHit \<Rightarrow> record_cache_hit
      | AllEnginesFailed \<Rightarrow> record_all_engines_failed | BrowserFallback \<Rightarrow> record_browser_fallback) (fst s),
     sink (db_key counter) (snd s))"

end
