(* ===== verification/Search_Stats_Props.thy ===== *)
theory Search_Stats_Props
  imports Search_Stats
begin

text \<open>
  The two sides of the search statistics agree.  A metric is one of the counters both sides keep;
  \<open>metric_inc\<close> is what one outcome adds to it.  The locale \<open>stat_sink\<close> is the trait \<open>StatSink\<close> with
  the law a recorder relies on, interpreted on the database whose statements succeed.
\<close>

section \<open>Metrics\<close>

datatype metric =
  Attempts | Successes | Latency | FirstChoice | FallbackTried | FallbackWon | Failed search_failure_kind

fun core_metric :: "metric \<Rightarrow> engine_stats_core \<Rightarrow> nat" where
  "core_metric Attempts c = attempts c"
| "core_metric Successes c = successes c"
| "core_metric Latency c = total_latency_ms c"
| "core_metric FirstChoice c = first_choice_attempts c"
| "core_metric FallbackTried c = fallback_attempts c"
| "core_metric FallbackWon c = fallback_successes c"
| "core_metric (Failed k) c = 0"

fun fail_field :: "search_failure_kind \<Rightarrow> engine_lifetime_stats \<Rightarrow> nat" where
  "fail_field Http r = fail_http r"
| "fail_field RateLimited r = fail_rate_limited r"
| "fail_field Parse r = fail_parse r"
| "fail_field Empty r = fail_empty r"
| "fail_field Irrelevant r = fail_irrelevant r"
| "fail_field Network r = fail_network r"
| "fail_field Timeout r = fail_timeout r"
| "fail_field Other r = fail_other r"

definition session_metric :: "metric \<Rightarrow> engine_session_stats \<Rightarrow> nat" where
  "session_metric m e = (case m of
     Failed k \<Rightarrow> (case map_of (failures_by_kind e) k of Some n \<Rightarrow> n | None \<Rightarrow> 0)
   | _ \<Rightarrow> core_metric m (session_core e))"

definition lifetime_metric :: "metric \<Rightarrow> engine_lifetime_stats \<Rightarrow> nat" where
  "lifetime_metric m r = (case m of Failed k \<Rightarrow> fail_field k r | _ \<Rightarrow> core_metric m (lifetime_core r))"

definition metric_inc :: "metric \<Rightarrow> recorded_outcome \<Rightarrow> nat" where
  "metric_inc m out = (case m of
     Attempts \<Rightarrow> 1
   | Successes \<Rightarrow> (case outcome out of Inr _ \<Rightarrow> 1 | Inl _ \<Rightarrow> 0)
   | Latency \<Rightarrow> (case outcome out of Inr ms \<Rightarrow> ms | Inl _ \<Rightarrow> 0)
   | FirstChoice \<Rightarrow> of_flag (outcome_position out = Some First)
   | FallbackTried \<Rightarrow> of_flag (outcome_position out = Some Fallback)
   | FallbackWon \<Rightarrow> (case outcome out of Inr _ \<Rightarrow> of_flag (outcome_position out = Some Fallback) | Inl _ \<Rightarrow> 0)
   | Failed k \<Rightarrow> (case outcome out of Inl j \<Rightarrow> of_flag (j = k) | Inr _ \<Rightarrow> 0))"

lemma session_metric_count:
  "session_metric m (count_outcome now out e) = session_metric m e + metric_inc m out"
  by (cases m; cases "outcome out"; cases "outcome_position out" rule: option.exhaust;
      simp add: session_metric_def count_outcome_def count_position_def metric_inc_def of_flag_def
        bump_kind_def update_conv' Let_def split: auto_position.splits)

lemma db_column_inj [simp]: "db_column j = db_column k \<longleftrightarrow> j = k"
  by (cases j; cases k; simp)

lemma db_column_valid: "db_column k \<in> set VALID_FAILURE_COLUMNS"
  by (cases k; simp add: VALID_FAILURE_COLUMNS_def)

lemma fail_field_update: "fail_field k (update_row d r) = fail_field k r + fail_inc d (db_column k)"
  by (cases k; simp add: update_row_def Let_def)

lemma core_metric_update:
  "\<forall>k. m \<noteq> Failed k \<Longrightarrow> core_metric m (lifetime_core (update_row (delta_of now out) r))
     = core_metric m (lifetime_core r) + metric_inc m out"
  by (cases m; cases "outcome out"; simp add: update_row_def delta_of_def metric_inc_def of_flag_def Let_def)

lemma lifetime_metric_update:
  "lifetime_metric m (update_row (delta_of now out) r) = lifetime_metric m r + metric_inc m out"
proof (cases "\<exists>k. m = Failed k")
  case True
  then show ?thesis
    by (cases "outcome out")
      (auto simp: lifetime_metric_def fail_field_update metric_inc_def fail_inc_def delta_of_def of_flag_def)
next
  case False
  then have "\<forall>k. m \<noteq> Failed k" by blast
  from core_metric_update [OF this] show ?thesis
    using False by (cases m) (simp_all add: lifetime_metric_def)
qed

lemma valid_delta: "delta_failure_column (delta_of now out) = Some c \<Longrightarrow> c \<in> set VALID_FAILURE_COLUMNS"
  using db_column_valid by (auto simp: delta_of_def split: sum.splits)

section \<open>The sink\<close>

lemma record_outcome_both_pair:
  "record_outcome_both sink now now' e out (s, db) = (record_outcome now e out s, sink e (delta_of now' out) db)"
  by (simp add: record_outcome_both_def)

locale stat_sink =
  fixes record_engine :: "rstr \<Rightarrow> engine_stat_delta \<Rightarrow> 'd \<Rightarrow> 'd"
    and row :: "'d \<Rightarrow> rstr \<Rightarrow> engine_lifetime_stats"
  assumes row_record:
    "(\<And>c. delta_failure_column d = Some c \<Longrightarrow> c \<in> set VALID_FAILURE_COLUMNS) \<Longrightarrow>
       row (record_engine e d db) e' = (if e' = e then update_row d (row db e) else row db e')"
begin

lemma row_outcome:
  "lifetime_metric m (row (record_engine e (delta_of now out) db) e') =
     lifetime_metric m (row db e') + (if e' = e then metric_inc m out else 0)"
  using row_record [of "delta_of now out" e db e'] valid_delta by (simp add: lifetime_metric_update)

lemma both_sides:
  "let (s', db') = fold (\<lambda>(now, now', e, out). record_outcome_both record_engine now now' e out) xs (s, db)
   in session_metric m (session_entry s' e) = session_metric m (session_entry s e)
        + (\<Sum>(now, now', e', out)\<leftarrow>xs. if e' = e then metric_inc m out else 0)
    \<and> lifetime_metric m (row db' e) = lifetime_metric m (row db e)
        + (\<Sum>(now, now', e', out)\<leftarrow>xs. if e' = e then metric_inc m out else 0)"
proof (induction xs arbitrary: s db)
  case (Cons x xs)
  obtain now now' e1 out where x: "x = (now, now', e1, out)" by (cases x)
  have s: "session_metric m (session_entry (record_outcome now e1 out s) e)
      = session_metric m (session_entry s e) + (if e1 = e then metric_inc m out else 0)"
  proof (cases "e1 = e")
    case True
    then have "session_entry (record_outcome now e1 out s) e = count_outcome now out (session_entry s e)"
      by (simp add: record_outcome_def session_entry_def update_conv')
    then show ?thesis using True by (simp add: session_metric_count)
  next
    case False
    then have "session_entry (record_outcome now e1 out s) e = session_entry s e"
      by (simp add: record_outcome_def session_entry_def update_conv')
    then show ?thesis using False by simp
  qed
  show ?case
    using Cons.IH [of "record_outcome now e1 out s" "record_engine e1 (delta_of now' out) db"] s
      row_outcome [of m e1 now' out db e]
    by (simp add: x record_outcome_both_def Let_def case_prod_beta eq_commute [of e e1])
qed simp

end

definition lifetime_row :: "stats_db \<Rightarrow> rstr \<Rightarrow> engine_lifetime_stats" where
  "lifetime_row db e = (case map_of (engines_table db) e of Some r \<Rightarrow> r | None \<Rightarrow> row_default e)"

lemma lifetime_row_record:
  "(\<And>c. delta_failure_column d = Some c \<Longrightarrow> c \<in> set VALID_FAILURE_COLUMNS) \<Longrightarrow>
    lifetime_row (record_engine (\<lambda>_. True) local_day e d db) e' =
      (if e' = e then update_row d (lifetime_row db e) else lifetime_row db e')"
  by (auto simp: record_engine_def update_engine_stat_def update_tables_def lifetime_row_def Let_def
      store_simps update_conv' split: option.splits)

interpretation db_sink: stat_sink "record_engine (\<lambda>_. True) local_day" lifetime_row for local_day
  by unfold_locales (rule lifetime_row_record)

text \<open>The daily row, by day and engine.\<close>

definition daily_row :: "stats_db \<Rightarrow> rstr \<Rightarrow> rstr \<Rightarrow> daily_engine_stats" where
  "daily_row db day e = (case map_of (daily_table db) (day, e) of Some r \<Rightarrow> r
     | None \<Rightarrow> \<lparr>day_attempts = 0, day_successes = 0, day_fail_rate_limited = 0, day_fail_empty = 0, day_fail_other = 0\<rparr>)"

lemma daily_row_record:
  "daily_row (record_engine (\<lambda>_. True) local_day e (delta_of now out) db) day e' =
    (if day = local_day now \<and> e' = e then daily_add (daily_row db day e') (daily_inc (delta_of now out))
     else daily_row db day e')"
proof -
  have now: "delta_now_ms (delta_of now out) = now"
    by (simp add: delta_of_def split: sum.splits)
  have "daily_table (record_engine (\<lambda>_. True) local_day e (delta_of now out) db) =
      upsert daily_add (local_day now, e) (daily_inc (delta_of now out)) (daily_table db)"
    using valid_delta [of now out]
    by (auto simp: record_engine_def update_engine_stat_def update_tables_def Let_def now split: option.splits)
  then show ?thesis
    by (auto simp: daily_row_def upsert_def update_conv' daily_add_def split: option.splits)
qed

definition daily_balanced :: "daily_engine_stats \<Rightarrow> bool" where
  "daily_balanced r \<longleftrightarrow> day_attempts r = day_successes r + day_fail_rate_limited r + day_fail_empty r + day_fail_other r"

lemma daily_inc_balanced: "daily_balanced (daily_inc (delta_of now out))"
proof (cases "outcome out")
  case (Inl k)
  then show ?thesis
    by (cases k) (simp_all add: daily_balanced_def daily_inc_def delta_of_def fail_inc_def of_flag_def)
qed (simp add: daily_balanced_def daily_inc_def delta_of_def fail_inc_def of_flag_def)

section \<open>Properties\<close>

text \<open>
  The session counters and the database count the same: after any sequence of recorded
  attempts, every counter of every engine has grown on both sides by exactly what the attempts on
  that engine add to it: attempts, successes, latency, first-choice and fallback tries, fallback
  wins, and failures by kind.
\<close>

theorem both_sides_count_alike:
  "let (s', db') = fold (\<lambda>(now, now', e, out).
         record_outcome_both (record_engine (\<lambda>_. True) local_day) now now' e out) xs (s, db)
   in session_metric m (session_entry s' e) = session_metric m (session_entry s e)
        + (\<Sum>(now, now', e', out)\<leftarrow>xs. if e' = e then metric_inc m out else 0)
    \<and> lifetime_metric m (lifetime_row db' e) = lifetime_metric m (lifetime_row db e)
        + (\<Sum>(now, now', e', out)\<leftarrow>xs. if e' = e then metric_inc m out else 0)"
  by (rule db_sink.both_sides)

text \<open>
  The day's row of an engine accounts for every attempt of that day: starting from a balanced
  row, any sequence of recorded attempts leaves it with
  attempts = successes + rate-limited + empty + other, and its attempts have grown by the number of
  attempts on the engine that fell on that local day.
\<close>

theorem day_row_accounts:
  assumes "daily_balanced (daily_row db day e)"
    and "(s', db') = fold (\<lambda>(now, now', e, out).
         record_outcome_both (record_engine (\<lambda>_. True) local_day) now now' e out) xs (s, db)"
  shows "daily_balanced (daily_row db' day e) \<and>
    day_attempts (daily_row db' day e) = day_attempts (daily_row db day e) +
      length (filter (\<lambda>(now, now', e', out). e' = e \<and> local_day now' = day) xs)"
  using assms
proof (induction xs arbitrary: s db)
  case (Cons x xs)
  obtain now now' e1 out where x: "x = (now, now', e1, out)" by (cases x)
  let ?db = "record_engine (\<lambda>_. True) local_day e1 (delta_of now' out) db"
  have row: "daily_row ?db day e = (if day = local_day now' \<and> e = e1
      then daily_add (daily_row db day e) (daily_inc (delta_of now' out)) else daily_row db day e)"
    by (rule daily_row_record)
  have one: "day_attempts (daily_inc (delta_of now' out)) = 1"
    by (simp add: daily_inc_def delta_of_def of_flag_def split: sum.splits)
  have "daily_balanced (daily_row ?db day e)"
    using Cons.prems(1) daily_inc_balanced [of now' out]
    by (auto simp: row daily_balanced_def daily_add_def)
  moreover have "(s', db') = fold (\<lambda>(now, now', e, out).
         record_outcome_both (record_engine (\<lambda>_. True) local_day) now now' e out) xs
         (record_outcome now e1 out s, ?db)"
    using Cons.prems(2) by (simp add: x record_outcome_both_pair)
  ultimately have "daily_balanced (daily_row db' day e) \<and> day_attempts (daily_row db' day e)
      = day_attempts (daily_row ?db day e) + length (filter (\<lambda>(now, now', e', out). e' = e \<and> local_day now' = day) xs)"
    by (rule Cons.IH)
  then show ?case using one by (auto simp: x row daily_add_def)
qed simp

text \<open>
  A database error never tears a row or touches another engine.  Whatever statements fail, the
  row of the attempt's engine is either as it was or fully counted, every other engine's row is as it
  was, the day's row is counted only when the engine's is, and a delta naming an unknown failure
  column changes no table at all.
\<close>

theorem failed_statement_never_tears:
  "let (res, db') = update_engine_stat sql_ok local_day engine d db
   in (\<forall>e. e \<noteq> engine \<longrightarrow> lifetime_row db' e = lifetime_row db e) \<and>
      lifetime_row db' engine \<in> {lifetime_row db engine, update_row d (lifetime_row db engine)} \<and>
      (daily_table db' \<noteq> daily_table db \<longrightarrow> res = Inr () \<and> lifetime_row db' engine = update_row d (lifetime_row db engine)) \<and>
      (res = Inr () \<longrightarrow> lifetime_row db' engine = update_row d (lifetime_row db engine) \<and>
         daily_row db' (local_day (delta_now_ms d)) engine =
           daily_add (daily_row db (local_day (delta_now_ms d)) engine) (daily_inc d)) \<and>
      (\<forall>c. delta_failure_column d = Some c \<and> c \<notin> set VALID_FAILURE_COLUMNS \<longrightarrow>
         res = Inl (UnknownFailureColumn c) \<and> db' = db)"
proof -
  have t: "let (res, db') = update_tables sql_ok local_day engine d db
   in (\<forall>e. e \<noteq> engine \<longrightarrow> lifetime_row db' e = lifetime_row db e) \<and>
      lifetime_row db' engine \<in> {lifetime_row db engine, update_row d (lifetime_row db engine)} \<and>
      (daily_table db' \<noteq> daily_table db \<longrightarrow> res = Inr () \<and> lifetime_row db' engine = update_row d (lifetime_row db engine)) \<and>
      (res = Inr () \<longrightarrow> lifetime_row db' engine = update_row d (lifetime_row db engine) \<and>
         daily_row db' (local_day (delta_now_ms d)) engine =
           daily_add (daily_row db (local_day (delta_now_ms d)) engine) (daily_inc d))"
    by (cases "map_of (engines_table db) engine"; cases "sql_ok 0"; cases "sql_ok 1"; cases "sql_ok 2")
      (simp_all add: update_tables_def lifetime_row_def daily_row_def upsert_def Let_def
        store_simps update_conv' daily_add_def split: option.splits)
  show ?thesis
  proof (cases "\<exists>c. delta_failure_column d = Some c \<and> c \<notin> set VALID_FAILURE_COLUMNS")
    case True
    then show ?thesis by (auto simp: update_engine_stat_def)
  next
    case False
    then have "update_engine_stat sql_ok local_day engine d db = update_tables sql_ok local_day engine d db"
      by (auto simp: update_engine_stat_def split: option.splits)
    moreover have "\<not> (delta_failure_column d = Some c \<and> c \<notin> set VALID_FAILURE_COLUMNS)" for c
      using False by blast
    ultimately show ?thesis using t by (simp only: case_prod_beta Let_def) simp
  qed
qed

text \<open>Two attempts on one engine on the same day, one won and one that found nothing.\<close>

lemma day_row_accounts_witness:
  "\<exists>s' db'. (s', db') = fold (\<lambda>(now, now', e, out).
       record_outcome_both (record_engine (\<lambda>_. True) (\<lambda>_. [1])) now now' e out)
     [(5, 5, [9], \<lparr>outcome = Inr 40, outcome_position = Some First\<rparr>),
      (6, 6, [9], \<lparr>outcome = Inl Empty, outcome_position = None\<rparr>)]
     (search_stats_new, \<lparr>engines_table = [], globals_table = [], daily_table = [], daily_globals_table = []\<rparr>)
   \<and> day_attempts (daily_row db' [1] [9]) = 2 \<and> daily_balanced (daily_row db' [1] [9])"
  (is "\<exists>s' db'. (s', db') = fold ?f ?xs (?s, ?db) \<and> _")
proof -
  obtain s' db' where r: "(s', db') = fold ?f ?xs (?s, ?db)" by (metis surj_pair)
  have b: "daily_balanced (daily_row ?db [1] [9])" by (simp add: daily_balanced_def daily_row_def)
  have z: "day_attempts (daily_row ?db [1] [9]) = 0" by (simp add: daily_row_def)
  show ?thesis
    using day_row_accounts [OF b r] r unfolding z by (intro exI [of _ s'] exI [of _ db']) simp
qed

lemma failed_statement_never_tears_witness:
  "lifetime_row (snd (update_engine_stat (\<lambda>i. i \<noteq> 2) (\<lambda>_. [1]) [9]
      (delta_of 5 \<lparr>outcome = Inr 40, outcome_position = None\<rparr>)
      \<lparr>engines_table = [], globals_table = [], daily_table = [], daily_globals_table = []\<rparr>)) [8] = row_default [8]"
  using failed_statement_never_tears [of "\<lambda>i. i \<noteq> 2" "\<lambda>_. [1]" "[9]"
      "delta_of 5 \<lparr>outcome = Inr 40, outcome_position = None\<rparr>"
      "\<lparr>engines_table = [], globals_table = [], daily_table = [], daily_globals_table = []\<rparr>"]
  by (simp add: case_prod_beta Let_def) (simp add: lifetime_row_def)

end
