(* ===== verification/Rust_Bytes.thy ===== *)
theory Rust_Bytes
  imports Rust_Text
begin

text \<open>
  Bytes and numbers as Rust's standard library reads them: \<open>str::from_utf8\<close>,
  \<open>String::from_utf8_lossy\<close> (one replacement character per maximal invalid part, as the Unicode
  standard recommends), and \<open>str::parse\<close> for integers.  A byte is a natural below 256.
\<close>

section \<open>UTF-8\<close>

definition cont :: "nat \<Rightarrow> bool" where
  "cont b \<longleftrightarrow> 0x80 \<le> b \<and> b \<le> 0xBF"

definition second_of_three :: "nat \<Rightarrow> nat \<Rightarrow> bool" where
  "second_of_three b0 b1 \<longleftrightarrow> (if b0 = 0xE0 then 0xA0 \<le> b1 \<and> b1 \<le> 0xBF
     else if b0 = 0xED then 0x80 \<le> b1 \<and> b1 \<le> 0x9F else cont b1)"

definition second_of_four :: "nat \<Rightarrow> nat \<Rightarrow> bool" where
  "second_of_four b0 b1 \<longleftrightarrow> (if b0 = 0xF0 then 0x90 \<le> b1 \<and> b1 \<le> 0xBF
     else if b0 = 0xF4 then 0x80 \<le> b1 \<and> b1 \<le> 0x8F else cont b1)"

text \<open>The first character and its width, or the number of bytes of the invalid part.\<close>

definition utf8_step :: "nat list \<Rightarrow> nat + (rchar \<times> nat)" where
  "utf8_step bs = (case bs of [] \<Rightarrow> Inl 1 | b0 # r0 \<Rightarrow>
     if b0 < 0x80 then Inr (b0, 1)
     else if 0xC2 \<le> b0 \<and> b0 \<le> 0xDF then
       (case r0 of b1 # _ \<Rightarrow> if cont b1 then Inr ((b0 - 0xC0) * 64 + (b1 - 0x80), 2) else Inl 1 | [] \<Rightarrow> Inl 1)
     else if 0xE0 \<le> b0 \<and> b0 \<le> 0xEF then
       (case r0 of b1 # r1 \<Rightarrow>
          if second_of_three b0 b1 then
            (case r1 of b2 # _ \<Rightarrow>
               if cont b2 then Inr ((b0 - 0xE0) * 4096 + (b1 - 0x80) * 64 + (b2 - 0x80), 3) else Inl 2
             | [] \<Rightarrow> Inl 2)
          else Inl 1
        | [] \<Rightarrow> Inl 1)
     else if 0xF0 \<le> b0 \<and> b0 \<le> 0xF4 then
       (case r0 of b1 # r1 \<Rightarrow>
          if second_of_four b0 b1 then
            (case r1 of b2 # r2 \<Rightarrow>
               if cont b2 then
                 (case r2 of b3 # _ \<Rightarrow>
                    if cont b3 then Inr ((b0 - 0xF0) * 262144 + (b1 - 0x80) * 4096 + (b2 - 0x80) * 64 + (b3 - 0x80), 4)
                    else Inl 3
                  | [] \<Rightarrow> Inl 3)
               else Inl 2
             | [] \<Rightarrow> Inl 2)
          else Inl 1
        | [] \<Rightarrow> Inl 1)
     else Inl 1)"

lemma utf8_step_pos:
  "utf8_step bs = Inr (c, n) \<Longrightarrow> 0 < n" "utf8_step bs = Inl k \<Longrightarrow> 0 < k"
  by (auto simp: utf8_step_def split: list.splits if_splits)

function from_utf8 :: "nat list \<Rightarrow> rstr option" where
  "from_utf8 bs = (if bs = [] then Some [] else
     case utf8_step bs of Inl _ \<Rightarrow> None
     | Inr (c, n) \<Rightarrow> map_option ((#) c) (from_utf8 (drop n bs)))"
  by pat_completeness auto
termination
  by (relation "measure length") (auto dest: utf8_step_pos simp: diff_less)

function from_utf8_lossy :: "nat list \<Rightarrow> rstr" where
  "from_utf8_lossy bs = (if bs = [] then [] else
     case utf8_step bs of
       Inl k \<Rightarrow> 0xFFFD # from_utf8_lossy (drop k bs)
     | Inr (c, n) \<Rightarrow> c # from_utf8_lossy (drop n bs))"
  by pat_completeness auto
termination
  by (relation "measure length") (auto dest: utf8_step_pos simp: diff_less)

declare from_utf8.simps [simp del] from_utf8_lossy.simps [simp del]

definition scalar :: "rchar \<Rightarrow> bool" where
  "scalar c \<longleftrightarrow> c < 0xD800 \<or> (0xE000 \<le> c \<and> c < 0x110000)"

lemma split_base64: obtains x y z where "c = x * 4096 + y * 64 + z" "y < 64" "z < (64::nat)"
  "c div 4096 = x" "c div 64 mod 64 = y" "c mod 64 = z"
proof
  have "c = (c div 64) * 64 + c mod 64" by simp
  also have "c div 64 = (c div 64 div 64) * 64 + c div 64 mod 64" by simp
  also have "c div 64 div 64 = c div 4096" by (simp add: div_mult2_eq [symmetric])
  finally show "c = c div 4096 * 4096 + c div 64 mod 64 * 64 + c mod 64" by (simp add: algebra_simps)
qed auto

lemma utf8_step_encode:
  assumes "scalar c"
  shows "utf8_step (utf8_encode_char c @ t) = Inr (c, utf8_len_char c)"
proof -
  obtain x y z where c: "c = x * 4096 + y * 64 + z" and b: "y < 64" "z < 64"
    and d: "c div 4096 = x" "c div 64 mod 64 = y" "c mod 64 = z"
    using split_base64 by blast
  consider "c < 0x80" | "0x80 \<le> c" "c < 0x800" | "0x800 \<le> c" "c < 0x10000" | "0x10000 \<le> c" by linarith
  then show ?thesis
  proof cases
    case 1
    then show ?thesis by (simp add: utf8_encode_char_def utf8_len_char_def utf8_step_def)
  next
    case 2
    then have "x = 0" using c b by linarith
    then have "c div 64 = y" using c b by simp
    then show ?thesis using 2 c b d
      by (simp add: utf8_encode_char_def utf8_len_char_def utf8_step_def cont_def)
  next
    case 3
    then have "x < 16" using c by auto
    moreover have "x = 0 \<Longrightarrow> 32 \<le> y" "x = 13 \<Longrightarrow> y < 32" using 3 c b assms by (auto simp: scalar_def)
    ultimately show ?thesis using 3 c b d
      by (auto simp: utf8_encode_char_def utf8_len_char_def utf8_step_def cont_def second_of_three_def)
  next
    case 4
    define u v where "u = x div 64" and "v = x mod 64"
    have x: "x = u * 64 + v" "v < 64" by (simp_all add: u_def v_def)
    have du: "c div 262144 = u" using d(1) by (simp add: u_def div_mult2_eq [symmetric])
    have u: "u \<le> 4" "u = 0 \<Longrightarrow> 16 \<le> v" "u = 4 \<Longrightarrow> v < 16" using 4 c b x assms by (auto simp: scalar_def)
    show ?thesis using 4 c b d x u du
      by (auto simp: utf8_encode_char_def utf8_len_char_def utf8_step_def cont_def second_of_four_def)
  qed
qed

lemma length_utf8_encode_char: "length (utf8_encode_char c) = utf8_len_char c"
  by (simp add: utf8_encode_char_def utf8_len_char_def)

lemma utf8_encode_Cons: "utf8_encode (c # s) = utf8_encode_char c @ utf8_encode s"
  by (simp add: utf8_encode_def)

lemma utf8_encode_char_not_Nil [simp]: "utf8_encode_char c \<noteq> []"
  by (simp add: utf8_encode_char_def)

lemma from_utf8_Nil [simp]: "from_utf8 [] = Some []" "from_utf8_lossy [] = []"
  by (simp_all add: from_utf8.simps from_utf8_lossy.simps)

theorem from_utf8_encode: "\<forall>c\<in>set s. scalar c \<Longrightarrow> from_utf8 (utf8_encode s) = Some s"
proof (induction s)
  case (Cons c s)
  then show ?case
    by (subst from_utf8.simps)
      (simp add: utf8_encode_Cons utf8_step_encode length_utf8_encode_char [symmetric])
qed (simp add: utf8_encode_def)

theorem from_utf8_lossy_encode: "\<forall>c\<in>set s. scalar c \<Longrightarrow> from_utf8_lossy (utf8_encode s) = s"
proof (induction s)
  case (Cons c s)
  then show ?case
    by (subst from_utf8_lossy.simps)
      (simp add: utf8_encode_Cons utf8_step_encode length_utf8_encode_char [symmetric])
qed (simp add: utf8_encode_def)

section \<open>Numbers\<close>

text \<open>The value of a run of decimal digits, \<open>None\<close> for anything else and for no digits.\<close>

definition digits_value :: "rstr \<Rightarrow> nat option" where
  "digits_value s = (if s = [] \<or> \<not> list_all is_ascii_digit s then None
     else Some (foldl (\<lambda>n d. n * 10 + (d - 48)) 0 s))"

text \<open>\<open>parse::<u..>\<close>: an optional plus sign, then digits; \<open>None\<close> on overflow of \<open>limit\<close>.\<close>

definition parse_uint :: "nat \<Rightarrow> rstr \<Rightarrow> nat option" where
  "parse_uint limit s =
    (case digits_value (case s of c # r \<Rightarrow> if c = 43 then r else s | [] \<Rightarrow> []) of
       Some n \<Rightarrow> if n \<le> limit then Some n else None | None \<Rightarrow> None)"

definition parse_int :: "nat \<Rightarrow> rstr \<Rightarrow> int option" where
  "parse_int bits s =
    (let neg = (s \<noteq> [] \<and> hd s = 45);
         body = (if s \<noteq> [] \<and> (hd s = 43 \<or> hd s = 45) then tl s else s)
     in case digits_value body of
          Some n \<Rightarrow> (let v = (if neg then - int n else int n)
            in if - (2 ^ (bits - 1)) \<le> v \<and> v < 2 ^ (bits - 1) then Some v else None)
        | None \<Rightarrow> None)"

text \<open>\<open>splitn(2, c)\<close>: the part before the first \<open>c\<close>, and the rest (empty when there is none).\<close>

definition split_once_or :: "rchar \<Rightarrow> rstr \<Rightarrow> rstr \<times> rstr" where
  "split_once_or c s = (takeWhile (\<lambda>x. x \<noteq> c) s, drop 1 (dropWhile (\<lambda>x. x \<noteq> c) s))"

text \<open>\<open>{n}\<close> in \<open>format!\<close>.\<close>

fun decimal :: "nat \<Rightarrow> rstr" where
  "decimal n = (if n < 10 then [48 + n] else decimal (n div 10) @ [48 + n mod 10])"

declare decimal.simps [simp del]

lemma digits_value_snoc:
  "digits_value s = Some n \<Longrightarrow> is_ascii_digit d \<Longrightarrow> digits_value (s @ [d]) = Some (n * 10 + (d - 48))"
  by (auto simp: digits_value_def split: if_splits)

lemma digits_value_decimal: "digits_value (decimal n) = Some n"
proof (induction n rule: decimal.induct)
  case (1 n)
  show ?case
  proof (cases "n < 10")
    case True
    then show ?thesis by (simp add: decimal.simps [of n] digits_value_def is_ascii_digit_def)
  next
    case False
    then have "digits_value (decimal (n div 10) @ [48 + n mod 10]) = Some (n div 10 * 10 + (48 + n mod 10 - 48))"
      using 1 by (intro digits_value_snoc) (auto simp: is_ascii_digit_def)
    then show ?thesis using False by (simp add: decimal.simps [of n])
  qed
qed

lemma decimal_inj: "decimal m = decimal n \<Longrightarrow> m = n"
  by (metis digits_value_decimal option.inject)

text \<open>\<open>split_inclusive\<close>, \<open>split_once\<close> and \<open>rsplit(..).next()\<close>.\<close>

fun split_inclusive :: "(rchar \<Rightarrow> bool) \<Rightarrow> rstr \<Rightarrow> rstr list" where
  "split_inclusive p [] = []"
| "split_inclusive p (c # s) = (if p c then [c] # split_inclusive p s
     else (case split_inclusive p s of [] \<Rightarrow> [[c]] | w # ws \<Rightarrow> (c # w) # ws))"

definition split_once :: "rchar \<Rightarrow> rstr \<Rightarrow> (rstr \<times> rstr) option" where
  "split_once c s = (if c \<in> set s
     then Some (takeWhile (\<lambda>x. x \<noteq> c) s, drop 1 (dropWhile (\<lambda>x. x \<noteq> c) s)) else None)"

definition after_last :: "(rchar \<Rightarrow> bool) \<Rightarrow> rstr \<Rightarrow> rstr" where
  "after_last p s = rev (takeWhile (\<lambda>c. \<not> p c) (rev s))"

lemma concat_split_inclusive [simp]: "concat (split_inclusive p s) = s"
  by (induction s) (auto split: list.splits)

end
