(* ===== verification/Shell_Integration.thy ===== *)
theory Shell_Integration
  imports Rust_Bytes Interfaces
begin

text \<open>
  \<open>src-tauri/src/shell/integration.rs\<close>: the parser of the shell's OSC 133 and OSC 7 markers, the ring
  of recent output bytes, the captured commands, and the rendering of captured bytes to text.  The
  offsets and totals count bytes of one session and stay below the 64 bits of the code's \<open>u64\<close>.
  The crates \<open>base64\<close> and \<open>urlencoding\<close> are the fields of \<open>codecs\<close>.
\<close>

section \<open>Data\<close>

definition DEFAULT_OUTPUT_CAPACITY :: nat where "DEFAULT_OUTPUT_CAPACITY = 2 ^ 20"
definition DEFAULT_MARKER_CAPACITY :: nat where "DEFAULT_MARKER_CAPACITY = 256"
definition MAX_OSC_PAYLOAD :: nat where "MAX_OSC_PAYLOAD = 4096"

abbreviation ESC :: nat where "ESC \<equiv> 0x1B"
abbreviation BEL :: nat where "BEL \<equiv> 7"
abbreviation SEMI :: nat where "SEMI \<equiv> 59"
abbreviation BACKSLASH :: nat where "BACKSLASH \<equiv> 92"
abbreviation RBRACKET :: nat where "RBRACKET \<equiv> 93"
abbreviation LBRACKET :: nat where "LBRACKET \<equiv> 91"

datatype marker_kind = PromptStart | CommandStart | OutputStart | OutputEnd

record marker =
  kind :: marker_kind
  seq_start :: nat
  seq_end :: nat
  exit_code :: "int option"
  cwd :: "rstr option"
  command_line :: "rstr option"

record captured_region =
  region_command_line :: rstr
  region_output :: rstr
  region_exit_code :: "int option"
  region_cwd :: "rstr option"
  truncated :: bool
  pending :: bool
  output_start :: nat
  output_end :: nat

datatype parser_state =
  Normal
| EscSeen nat
| OscPayload nat "nat list"
| OscEsc nat "nat list"

record codecs =
  b64_decode :: "rstr \<Rightarrow> nat list option"
  url_decode :: "rstr \<Rightarrow> rstr option"

record integration =
  out_ring :: "nat list"
  output_capacity :: nat
  output_first_offset :: nat
  total_offset :: nat
  markers :: "marker list"
  marker_capacity :: nat
  output_end_total :: nat
  marker_total :: nat
  current_cwd :: "rstr option"
  state :: parser_state

definition with_capacity :: "nat \<Rightarrow> nat \<Rightarrow> integration" where
  "with_capacity out_cap marker_cap =
    \<lparr>out_ring = [], output_capacity = out_cap, output_first_offset = 0, total_offset = 0, markers = [],
     marker_capacity = marker_cap, output_end_total = 0, marker_total = 0, current_cwd = None,
     state = Normal\<rparr>"

definition integration_new :: integration where
  "integration_new = with_capacity DEFAULT_OUTPUT_CAPACITY DEFAULT_MARKER_CAPACITY"

section \<open>Rendering\<close>

text \<open>
  The screen: the lines, the row and the column.  \<open>resize_line\<close> is \<open>Vec::resize\<close> with blanks when
  the column lies past the end.
\<close>

type_synonym screen = "rstr list \<times> nat \<times> nat"

definition usize_wrap :: "nat \<Rightarrow> nat" where "usize_wrap n = n mod 2 ^ 64"

definition put_char :: "rchar \<Rightarrow> screen \<Rightarrow> screen" where
  "put_char c s = (case s of (lines, row, col) \<Rightarrow>
    (let line = lines ! row;
         line = (if length line \<le> col then line @ replicate (col + 1 - length line) 32 else line)
     in (lines[row := line[col := c]], row, col + 1)))"

definition apply_csi :: "rstr \<Rightarrow> rchar \<Rightarrow> screen \<Rightarrow> screen" where
  "apply_csi params final s = (case s of (lines, row, col) \<Rightarrow>
    (let n = (case parse_uint usize_max (fst (split_once_or SEMI (trim_start_matches (\<lambda>c. c = 63) params))) of
            Some v \<Rightarrow> v | None \<Rightarrow> 0);
         step = max n 1
     in if final = 67 then (lines, row, usize_wrap (col + step))
        else if final = 68 then (lines, row, col - step)
        else if final = 71 \<or> final = 96 then (lines, row, step - 1)
        else if final = 65 then (lines, row - step, col)
        else if final = 66 then
          (let row' = row + step in (lines @ replicate (row' + 1 - length lines) [], row', col))
        else if final = 75 then
          (let line = lines ! row in
           if n = 0 then (lines[row := take col line], row, col)
           else if n = 1 then
             (let end = min (col + 1) (length line)
              in (lines[row := replicate end 32 @ drop end line], row, col))
           else if n = 2 then (lines[row := []], row, col)
           else (lines, row, col))
        else if final = 74 \<and> n = 0 then
          (take (row + 1) (lines[row := take col (lines ! row)]), row, col)
        else (lines, row, col)))"

text \<open>The final byte of a control sequence, as the code scans for it: a letter, \<open>~\<close> or \<open>@\<close>.\<close>

definition csi_final :: "rchar \<Rightarrow> bool" where
  "csi_final c \<longleftrightarrow> is_ascii_alphabetic c \<or> c = 126 \<or> c = 64"

text \<open>Parameters, final byte (0 at the end of the text), and what is left.\<close>

definition scan_csi :: "rstr \<Rightarrow> rstr \<times> rchar \<times> rstr" where
  "scan_csi s = (let rest = dropWhile (\<lambda>c. \<not> csi_final c) s
     in (takeWhile (\<lambda>c. \<not> csi_final c) s, (case rest of [] \<Rightarrow> 0 | c # _ \<Rightarrow> c), drop 1 rest))"

definition skip_osc :: "rstr \<Rightarrow> rstr" where
  "skip_osc s = (case dropWhile (\<lambda>c. c \<noteq> BEL \<and> c \<noteq> ESC) s of
     [] \<Rightarrow> [] | c # r \<Rightarrow> if c = BEL then r else drop 1 r)"

text \<open>One escape sequence, the ESC already read: what is left of the text, and the screen.\<close>

definition apply_escape :: "rstr \<Rightarrow> screen \<Rightarrow> rstr \<times> screen" where
  "apply_escape s scr = (case s of
     [] \<Rightarrow> ([], scr)
   | c # r \<Rightarrow>
      if c = LBRACKET then
        (let (params, final, rest) = scan_csi r in (rest, apply_csi params final scr))
      else if c = RBRACKET then (skip_osc r, scr)
      else (r, scr))"

lemma scan_csi_length: "scan_csi s = (p, f, r) \<Longrightarrow> length r \<le> length s"
  by (auto simp: scan_csi_def Let_def intro: le_trans [OF diff_le_self length_dropWhile_le])

lemma skip_osc_length: "length (skip_osc s) \<le> length s"
  using length_dropWhile_le [of "\<lambda>c. c \<noteq> BEL \<and> c \<noteq> ESC" s]
  by (auto simp: skip_osc_def split: list.splits)

lemma apply_escape_length: "apply_escape s scr = (r, scr') \<Longrightarrow> length r \<le> length s"
  using skip_osc_length scan_csi_length
  by (fastforce simp: apply_escape_def split: list.splits if_splits prod.splits intro: le_SucI)

lemma apply_escape_length': "length (fst (apply_escape s scr)) \<le> length s"
  by (rule apply_escape_length) (rule prod.collapse [symmetric])

text \<open>A character that is not the start of an escape sequence.\<close>

definition apply_char :: "rchar \<Rightarrow> screen \<Rightarrow> screen" where
  "apply_char c scr = (case scr of (lines, row, col) \<Rightarrow>
     if c = CR then (lines, row, 0)
     else if c = NL then
       (let row' = row + 1 in (if row' = length lines then lines @ [[]] else lines, row', 0))
     else if c = 8 then (lines, row, col - 1)
     else if c = 9 then (lines, row, (col div 8 + 1) * 8)
     else if is_control c then scr
     else put_char c scr)"

function render_loop :: "rstr \<Rightarrow> screen \<Rightarrow> screen" where
  "render_loop [] scr = scr"
| "render_loop (c # s) scr =
     (if c = ESC then (let (rest, scr') = apply_escape s scr in render_loop rest scr')
      else render_loop s (apply_char c scr))"
  by pat_completeness auto
termination
  by (relation "measure (\<lambda>(s, scr). length s)") (auto simp: case_prod_beta less_Suc_eq_le apply_escape_length')

definition screen_text :: "rstr list \<Rightarrow> rstr" where
  "screen_text lines = join [NL] (map trim_end lines)"

definition render_terminal :: "rstr \<Rightarrow> rstr" where
  "render_terminal s = screen_text (fst (render_loop s ([[]], 0, 0)))"

definition bytes_to_clean_text :: "nat list \<Rightarrow> rstr" where
  "bytes_to_clean_text bytes = render_terminal (from_utf8_lossy bytes)"

section \<open>Markers\<close>

definition normalize_cwd :: "rstr \<Rightarrow> rstr" where
  "normalize_cwd path =
    (if 3 \<le> length path \<and> path ! 0 = 47 \<and> is_ascii_alphabetic (path ! 1) \<and> path ! 2 = 58
     then replace_char 47 [BACKSLASH] (drop 1 path) else path)"

fun decode_attributes :: "codecs \<Rightarrow> rstr list \<Rightarrow> rstr option" where
  "decode_attributes cx [] = None"
| "decode_attributes cx (attr # attrs) =
    (case strip_prefix (lit ''cl='') attr of
       Some b64 \<Rightarrow> map_option from_utf8_lossy (b64_decode cx b64)
     | None \<Rightarrow>
        (case strip_prefix (lit ''cmdline_url='') attr of
           Some enc \<Rightarrow> url_decode cx enc
         | None \<Rightarrow> decode_attributes cx attrs))"

definition decode_cl_attribute :: "codecs \<Rightarrow> rstr \<Rightarrow> rstr option" where
  "decode_cl_attribute cx data = decode_attributes cx (split_char SEMI data)"

definition push_marker :: "marker \<Rightarrow> integration \<Rightarrow> integration" where
  "push_marker m i =
    (let i = i\<lparr>marker_total := sat_add (2 ^ 64 - 1) (marker_total i) 1\<rparr>;
         i = (if kind m = OutputEnd
              then i\<lparr>output_end_total := sat_add (2 ^ 64 - 1) (output_end_total i) 1\<rparr> else i)
     in i\<lparr>markers := (if length (markers i) = marker_capacity i then tl (markers i) else markers i) @ [m]\<rparr>)"

definition kind_of :: "rstr \<Rightarrow> marker_kind option" where
  "kind_of s = (if s = lit ''A'' then Some PromptStart
     else if s = lit ''B'' then Some CommandStart
     else if s = lit ''C'' then Some OutputStart
     else if s = lit ''D'' then Some OutputEnd else None)"

definition handle_133 :: "codecs \<Rightarrow> rstr \<Rightarrow> nat \<Rightarrow> nat \<Rightarrow> integration \<Rightarrow> integration" where
  "handle_133 cx rest sstart send i =
    (let (kind_str, data) = split_once_or SEMI rest in
     case kind_of kind_str of
       None \<Rightarrow> i
     | Some k \<Rightarrow>
        push_marker \<lparr>kind = k, seq_start = sstart, seq_end = send,
          exit_code = (if k = OutputEnd then parse_int 32 data else None),
          cwd = current_cwd i,
          command_line = (if k = OutputStart then decode_cl_attribute cx data else None)\<rparr> i)"

definition handle_7 :: "rstr \<Rightarrow> integration \<Rightarrow> integration" where
  "handle_7 rest i = (case strip_prefix (lit ''file://'') rest of
     None \<Rightarrow> i
   | Some after_scheme \<Rightarrow>
      (case position (\<lambda>c. c = 47) after_scheme of
         Some slash \<Rightarrow> i\<lparr>current_cwd := Some (normalize_cwd (drop slash after_scheme))\<rparr>
       | None \<Rightarrow> i))"

definition handle_osc :: "codecs \<Rightarrow> nat list \<Rightarrow> nat \<Rightarrow> nat \<Rightarrow> integration \<Rightarrow> integration" where
  "handle_osc cx payload sstart send i = (case from_utf8 payload of
     None \<Rightarrow> i
   | Some s \<Rightarrow>
      (let (code, rest) = split_once_or SEMI s in
       if code = lit ''133'' then handle_133 cx rest sstart send i
       else if code = lit ''7'' then handle_7 rest i
       else i))"

definition feed :: "codecs \<Rightarrow> nat \<Rightarrow> nat \<Rightarrow> integration \<Rightarrow> integration" where
  "feed cx b abs_offset i = (case state i of
     Normal \<Rightarrow> if b = ESC then i\<lparr>state := EscSeen abs_offset\<rparr> else i
   | EscSeen s \<Rightarrow> if b = RBRACKET then i\<lparr>state := OscPayload s []\<rparr> else i\<lparr>state := Normal\<rparr>
   | OscPayload s buf \<Rightarrow>
       if b = BEL then (handle_osc cx buf s (abs_offset + 1) i)\<lparr>state := Normal\<rparr>
       else if b = ESC then i\<lparr>state := OscEsc s buf\<rparr>
       else if length buf < MAX_OSC_PAYLOAD then i\<lparr>state := OscPayload s (buf @ [b])\<rparr>
       else i\<lparr>state := Normal\<rparr>
   | OscEsc s buf \<Rightarrow>
       if b = BACKSLASH then (handle_osc cx buf s (abs_offset + 1) i)\<lparr>state := Normal\<rparr>
       else i\<lparr>state := Normal\<rparr>)"

definition append_byte :: "nat \<Rightarrow> integration \<Rightarrow> integration" where
  "append_byte b i =
    (let i = (if length (out_ring i) = output_capacity i
              then i\<lparr>out_ring := tl (out_ring i), output_first_offset := output_first_offset i + 1\<rparr> else i)
     in i\<lparr>out_ring := out_ring i @ [b]\<rparr>)"

definition append_output :: "nat list \<Rightarrow> integration \<Rightarrow> integration" where
  "append_output chunk i = fold append_byte chunk i"

fun feed_all :: "codecs \<Rightarrow> nat list \<Rightarrow> nat \<Rightarrow> integration \<Rightarrow> integration" where
  "feed_all cx [] n i = i"
| "feed_all cx (b # bs) n i = feed_all cx bs (n + 1) (feed cx b n i)"

definition ingest :: "codecs \<Rightarrow> nat list \<Rightarrow> integration \<Rightarrow> integration" where
  "ingest cx chunk i =
    (let i = feed_all cx chunk (total_offset i) i;
         i = append_output chunk i
     in i\<lparr>total_offset := total_offset i + length chunk\<rparr>)"

section \<open>Reading back\<close>

definition output_bytes_total :: "integration \<Rightarrow> nat" where
  "output_bytes_total i = output_first_offset i + length (out_ring i)"

definition slice_output :: "nat \<Rightarrow> nat \<Rightarrow> integration \<Rightarrow> nat list option" where
  "slice_output start end i =
    (if start < output_first_offset i then None
     else if end < start then None
     else (let from = start - output_first_offset i; to = end - output_first_offset i
           in if length (out_ring i) < to then None
              else Some (take (to - from) (drop from (out_ring i)))))"

definition unwrap_bytes :: "nat list option \<Rightarrow> nat list" where
  "unwrap_bytes x = (case x of Some bs \<Rightarrow> bs | None \<Rightarrow> [])"

definition output_text_since :: "nat \<Rightarrow> nat \<Rightarrow> integration \<Rightarrow> rstr" where
  "output_text_since from max_bytes i =
    (let end = output_bytes_total i;
         start = max (max from (output_first_offset i)) (end - max_bytes)
     in bytes_to_clean_text (unwrap_bytes (slice_output start end i)))"

text \<open>The last complete cycle of markers before \<open>search_end\<close>: the positions of its B, C and D.\<close>

definition find_cycle :: "marker list \<Rightarrow> nat \<Rightarrow> (nat \<times> nat \<times> nat) option" where
  "find_cycle ms search_end =
    (case rposition (\<lambda>m. kind m = OutputEnd) (take search_end ms) of
       None \<Rightarrow> None
     | Some d \<Rightarrow>
        (case rposition (\<lambda>m. kind m = OutputStart) (take d ms) of
           None \<Rightarrow> None
         | Some c \<Rightarrow>
            (case rposition (\<lambda>m. kind m = CommandStart) (take c ms) of
               None \<Rightarrow> None
             | Some b \<Rightarrow> Some (b, c, d))))"

lemma find_cycle_order:
  "find_cycle ms e = Some (b, c, d) \<Longrightarrow> b < c \<and> c < d \<and> d < e \<and> d < length ms \<and>
     kind (ms ! b) = CommandStart \<and> kind (ms ! c) = OutputStart \<and> kind (ms ! d) = OutputEnd"
  by (auto simp: find_cycle_def split: option.splits dest!: rposition_SomeD)

text \<open>The walk of \<open>completed_command_count\<close> and \<open>capture_recent_commands\<close>: the cycles from the last
  one backwards, at most \<open>limit\<close> of them.\<close>

function cycles :: "marker list \<Rightarrow> nat \<Rightarrow> nat \<Rightarrow> (nat \<times> nat \<times> nat) list" where
  "cycles ms limit search_end =
    (if limit = 0 then [] else
     case find_cycle ms search_end of
       None \<Rightarrow> []
     | Some (b, c, d) \<Rightarrow> (b, c, d) # cycles ms (limit - 1) b)"
  by pat_completeness auto
termination
  by (relation "measure (\<lambda>(ms, limit, e). limit)") auto

declare cycles.simps [simp del]

definition completed_command_count :: "integration \<Rightarrow> nat" where
  "completed_command_count i = length (cycles (markers i) (length (markers i)) (length (markers i)))"

definition resolve_command_line :: "marker \<Rightarrow> marker \<Rightarrow> integration \<Rightarrow> rstr \<times> bool" where
  "resolve_command_line b c i = (case command_line c of
     Some cl \<Rightarrow> (cl, False)
   | None \<Rightarrow>
      (let bytes = slice_output (seq_end b) (seq_start c) i
       in (bytes_to_clean_text (unwrap_bytes bytes), bytes = None)))"

definition or_else :: "'a option \<Rightarrow> 'a option \<Rightarrow> 'a option" where
  "or_else x y = (case x of Some v \<Rightarrow> Some v | None \<Rightarrow> y)"

definition region_of :: "integration \<Rightarrow> nat \<times> nat \<times> nat \<Rightarrow> captured_region" where
  "region_of i bcd = (case bcd of (bo, co, do) \<Rightarrow>
    (let b = markers i ! bo; c = markers i ! co; d = markers i ! do;
         out_bytes = slice_output (seq_end c) (seq_start d) i;
         (cl, cmd_truncated) = resolve_command_line b c i
     in \<lparr>region_command_line = cl, region_output = bytes_to_clean_text (unwrap_bytes out_bytes),
         region_exit_code = exit_code d, region_cwd = or_else (cwd d) (or_else (cwd c) (cwd b)),
         truncated = (cmd_truncated \<or> out_bytes = None), pending = False,
         output_start = seq_end c, output_end = seq_start d\<rparr>))"

definition capture_recent_commands :: "nat \<Rightarrow> integration \<Rightarrow> captured_region list" where
  "capture_recent_commands limit i =
    rev (map (region_of i) (cycles (markers i) limit (length (markers i))))"

definition pending_markers :: "integration \<Rightarrow> (marker \<times> marker) option" where
  "pending_markers i =
    (let ms = markers i in
     case rposition (\<lambda>m. kind m = OutputStart) ms of
       None \<Rightarrow> None
     | Some co \<Rightarrow>
        if list_ex (\<lambda>m. kind m = OutputEnd) (drop (co + 1) ms) then None
        else (case rposition (\<lambda>m. kind m = CommandStart) (take co ms) of
            None \<Rightarrow> None | Some bo \<Rightarrow> Some (ms ! bo, ms ! co)))"

definition pending_command_line :: "integration \<Rightarrow> rstr option" where
  "pending_command_line i = map_option (\<lambda>(b, c). fst (resolve_command_line b c i)) (pending_markers i)"

definition pending_command :: "nat \<Rightarrow> integration \<Rightarrow> captured_region option" where
  "pending_command pending_from i = (case pending_markers i of
     None \<Rightarrow> None
   | Some (b, c) \<Rightarrow>
      (let start = max pending_from (seq_end c);
           end = max (total_offset i) start;
           out_bytes = slice_output start end i;
           (cl, cmd_truncated) = resolve_command_line b c i
       in Some \<lparr>region_command_line = cl, region_output = bytes_to_clean_text (unwrap_bytes out_bytes),
           region_exit_code = None, region_cwd = or_else (cwd c) (cwd b),
           truncated = (cmd_truncated \<or> out_bytes = None), pending = True,
           output_start = start, output_end = end\<rparr>))"

definition capture_recent_commands_with_pending :: "nat \<Rightarrow> nat \<Rightarrow> integration \<Rightarrow> captured_region list" where
  "capture_recent_commands_with_pending limit pending_from i =
    capture_recent_commands limit i @ (case pending_command pending_from i of Some r \<Rightarrow> [r] | None \<Rightarrow> [])"

end
