(* ===== verification/Shell_Integration_Props.thy ===== *)
theory Shell_Integration_Props
  imports Shell_Integration
begin

text \<open>
  What the shell parser promises: the chunks the terminal delivers do not matter, the ring holds the
  newest bytes at the offsets it reports, a command the hook brackets is captured exactly, a growing
  command is handed out in contiguous pieces, and rendering stays on the screen.
\<close>

section \<open>The parser and the ring do not touch each other\<close>

text \<open>\<open>rebase\<close> replaces the part of the state that \<open>feed\<close> neither reads nor writes.\<close>

definition rebase :: "nat list \<Rightarrow> nat \<Rightarrow> nat \<Rightarrow> integration \<Rightarrow> integration" where
  "rebase r f t i = i\<lparr>out_ring := r, output_first_offset := f, total_offset := t\<rparr>"

lemma rebase_simps [simp]:
  "state (rebase r f t i) = state i" "markers (rebase r f t i) = markers i"
  "current_cwd (rebase r f t i) = current_cwd i" "marker_capacity (rebase r f t i) = marker_capacity i"
  "output_capacity (rebase r f t i) = output_capacity i" "total_offset (rebase r f t i) = t"
  "out_ring (rebase r f t i) = r" "output_first_offset (rebase r f t i) = f"
  "rebase r f t (rebase r' f' t' i) = rebase r f t i"
  "(rebase r f t i)\<lparr>state := st\<rparr> = rebase r f t (i\<lparr>state := st\<rparr>)"
  "(rebase r f t i)\<lparr>current_cwd := cd\<rparr> = rebase r f t (i\<lparr>current_cwd := cd\<rparr>)"
  "rebase (out_ring i) (output_first_offset i) (total_offset i) i = i"
  by (simp_all add: rebase_def)

lemma push_marker_rebase [simp]: "push_marker m (rebase r f t i) = rebase r f t (push_marker m i)"
  by (simp add: push_marker_def rebase_def Let_def)

lemma handle_osc_rebase [simp]:
  "handle_osc cx p a b (rebase r f t i) = rebase r f t (handle_osc cx p a b i)"
  by (simp add: handle_osc_def handle_133_def handle_7_def Let_def split: option.splits prod.splits)

lemma feed_rebase [simp]: "feed cx b n (rebase r f t i) = rebase r f t (feed cx b n i)"
  by (simp add: feed_def split: parser_state.splits)

lemma feed_all_rebase [simp]: "feed_all cx bs n (rebase r f t i) = rebase r f t (feed_all cx bs n i)"
  by (induction bs arbitrary: n i) simp_all

definition same_ring :: "integration \<Rightarrow> integration \<Rightarrow> bool" where
  "same_ring i j \<longleftrightarrow> out_ring j = out_ring i \<and> output_first_offset j = output_first_offset i \<and>
     total_offset j = total_offset i \<and> output_capacity j = output_capacity i \<and> marker_capacity j = marker_capacity i"

lemma push_marker_same_ring: "same_ring i (push_marker m i)"
  by (simp add: push_marker_def same_ring_def Let_def)

lemma handle_osc_same_ring: "same_ring i (handle_osc cx p a b i)"
  using push_marker_same_ring
  by (auto simp: handle_osc_def handle_133_def handle_7_def Let_def same_ring_def split: option.splits prod.splits)

lemma feed_same_ring: "same_ring i (feed cx b n i)"
  using handle_osc_same_ring by (auto simp: feed_def same_ring_def split: parser_state.splits)

lemma feed_all_same_ring: "same_ring i (feed_all cx bs n i)"
  by (induction bs arbitrary: n i) (use feed_same_ring in \<open>auto simp: same_ring_def\<close>)

lemmas feed_ring [simp] = feed_all_same_ring [unfolded same_ring_def, THEN conjunct1]
  feed_all_same_ring [unfolded same_ring_def, THEN conjunct2, THEN conjunct1]
  feed_all_same_ring [unfolded same_ring_def, THEN conjunct2, THEN conjunct2, THEN conjunct1]
  feed_all_same_ring [unfolded same_ring_def, THEN conjunct2, THEN conjunct2, THEN conjunct2, THEN conjunct1]
  feed_all_same_ring [unfolded same_ring_def, THEN conjunct2, THEN conjunct2, THEN conjunct2, THEN conjunct2]

lemma feed_all_append:
  "feed_all cx (xs @ ys) n i = feed_all cx ys (n + length xs) (feed_all cx xs n i)"
  by (induction xs arbitrary: n i) simp_all

lemma append_output_rebase:
  "\<exists>r f. \<forall>i. out_ring i = r0 \<and> output_first_offset i = f0 \<and> output_capacity i = oc \<longrightarrow>
     append_output bs i = rebase r f (total_offset i) i"
proof (induction bs arbitrary: r0 f0)
  case Nil
  then show ?case
    by (intro exI [of _ r0] exI [of _ f0]) (auto simp: append_output_def rebase_def)
next
  case (Cons b bs)
  define r1 f1 where "r1 = (if length r0 = oc then tl r0 else r0) @ [b]"
    and "f1 = (if length r0 = oc then f0 + 1 else f0)"
  obtain r f where rf: "\<forall>i. out_ring i = r1 \<and> output_first_offset i = f1 \<and> output_capacity i = oc \<longrightarrow>
     append_output bs i = rebase r f (total_offset i) i"
    using Cons by blast
  have one: "append_byte b i = rebase r1 f1 (total_offset i) i"
    if "out_ring i = r0" "output_first_offset i = f0" "output_capacity i = oc" for i
    using that by (simp add: append_byte_def rebase_def r1_def f1_def Let_def)
  show ?case
  proof (intro exI [of _ r] exI [of _ f] allI impI)
    fix i :: integration
    assume i: "out_ring i = r0 \<and> output_first_offset i = f0 \<and> output_capacity i = oc"
    then have "append_output (b # bs) i = append_output bs (rebase r1 f1 (total_offset i) i)"
      using one by (simp add: append_output_def)
    also have "\<dots> = rebase r f (total_offset i) i" using rf i by simp
    finally show "append_output (b # bs) i = rebase r f (total_offset i) i" .
  qed
qed

text \<open>Taking in bytes is feeding them to the parser and putting them on the ring, independently.\<close>

lemma append_output_any:
  assumes "out_ring i = out_ring j" "output_first_offset i = output_first_offset j"
    "output_capacity i = output_capacity j"
  shows "out_ring (append_output bs i) = out_ring (append_output bs j) \<and>
    output_first_offset (append_output bs i) = output_first_offset (append_output bs j) \<and>
    append_output bs i = rebase (out_ring (append_output bs i)) (output_first_offset (append_output bs i)) (total_offset i) i"
  using append_output_rebase [of "out_ring j" "output_first_offset j" "output_capacity j" bs] assms
  by (metis rebase_simps(6,7,8))

lemma append_output_append: "append_output (xs @ ys) i = append_output ys (append_output xs i)"
  by (simp add: append_output_def)

lemma ingest_split:
  "ingest cx bs i = rebase (out_ring (append_output bs i)) (output_first_offset (append_output bs i))
     (total_offset i + length bs) (feed_all cx bs (total_offset i) i)"
proof -
  let ?j = "feed_all cx bs (total_offset i) i"
  have a: "append_output bs ?j = rebase (out_ring (append_output bs i))
      (output_first_offset (append_output bs i)) (total_offset i) ?j"
  proof -
    have any: "out_ring (append_output bs ?j) = out_ring (append_output bs i)"
      "output_first_offset (append_output bs ?j) = output_first_offset (append_output bs i)"
      "append_output bs ?j = rebase (out_ring (append_output bs ?j))
         (output_first_offset (append_output bs ?j)) (total_offset ?j) ?j"
      using append_output_any [of ?j i bs] by auto
    show ?thesis by (subst any(3)) (simp only: any(1,2) feed_ring)
  qed
  show ?thesis unfolding ingest_def Let_def a by (simp add: rebase_def)
qed

lemma append_output_capacity [simp]: "output_capacity (append_output bs i) = output_capacity i"
  using append_output_any [of i i bs] rebase_simps(5) by metis

lemma ingest_ingest: "ingest cx ys (ingest cx xs i) = ingest cx (xs @ ys) i"
proof -
  let ?i = "ingest cx xs i"
  have r: "out_ring ?i = out_ring (append_output xs i)"
    "output_first_offset ?i = output_first_offset (append_output xs i)"
    "output_capacity ?i = output_capacity (append_output xs i)" "total_offset ?i = total_offset i + length xs"
    by (simp_all add: ingest_split)
  have "out_ring (append_output ys ?i) = out_ring (append_output (xs @ ys) i) \<and>
      output_first_offset (append_output ys ?i) = output_first_offset (append_output (xs @ ys) i)"
    using append_output_any [OF r(1-3), of ys] by (simp add: append_output_append)
  then show ?thesis
    unfolding ingest_split [of cx ys ?i] r(4)
    by (subst ingest_split [of cx xs i]) (simp add: ingest_split feed_all_append add.assoc)
qed

section \<open>The rings\<close>

interpretation byte_ring: bounded_ring append_byte out_ring output_capacity
proof
  fix b i
  show "output_capacity (append_byte b i) = output_capacity i"
    by (simp add: append_byte_def Let_def)
  assume "0 < output_capacity i" "length (out_ring i) \<le> output_capacity i"
  then show "out_ring (append_byte b i) = keep_last (output_capacity i) (out_ring i @ [b])"
    by (cases "out_ring i") (auto simp: append_byte_def keep_last_def Let_def)
qed

interpretation marker_ring: bounded_ring push_marker markers marker_capacity
proof
  fix m i
  show "marker_capacity (push_marker m i) = marker_capacity i"
    by (simp add: push_marker_def Let_def)
  assume "0 < marker_capacity i" "length (markers i) \<le> marker_capacity i"
  then show "markers (push_marker m i) = keep_last (marker_capacity i) (markers i @ [m])"
    by (cases "markers i") (auto simp: push_marker_def keep_last_def Let_def)
qed

lemma append_output_content:
  assumes "0 < output_capacity i" "length (out_ring i) \<le> output_capacity i"
  shows "out_ring (append_output bs i) = keep_last (output_capacity i) (out_ring i @ bs)"
  unfolding append_output_def by (rule byte_ring.content_pushes [OF assms])

lemma append_byte_total:
  "0 < output_capacity i \<Longrightarrow> length (out_ring i) \<le> output_capacity i \<Longrightarrow>
     output_bytes_total (append_byte b i) = output_bytes_total i + 1"
  by (cases "out_ring i") (auto simp: append_byte_def output_bytes_total_def Let_def)

lemma append_output_total:
  "0 < output_capacity i \<Longrightarrow> length (out_ring i) \<le> output_capacity i \<Longrightarrow>
     output_bytes_total (append_output bs i) = output_bytes_total i + length bs"
proof (induction bs arbitrary: i)
  case (Cons b bs)
  then show ?case
    using append_byte_total [of i b] byte_ring.length_push [of i b] byte_ring.cap_push [of b i]
    by (simp add: append_output_def)
qed (simp add: append_output_def)

text \<open>\<open>holds\<close>: the ring and its offsets stand for the whole stream \<open>bs\<close> seen so far.\<close>

definition holds :: "integration \<Rightarrow> nat list \<Rightarrow> bool" where
  "holds i bs \<longleftrightarrow> 0 < output_capacity i \<and> out_ring i = keep_last (output_capacity i) bs \<and>
     total_offset i = length bs \<and> output_bytes_total i = length bs"

lemma holds_init: "0 < oc \<Longrightarrow> holds (with_capacity oc mc) []"
  by (simp add: holds_def with_capacity_def keep_last_def output_bytes_total_def)

lemma holds_ingest:
  assumes "holds i bs"
  shows "holds (ingest cx cs i) (bs @ cs)"
proof -
  have pos: "0 < output_capacity i" and len: "length (out_ring i) \<le> output_capacity i"
    using assms by (auto simp: holds_def vec_simps)
  have "out_ring (ingest cx cs i) = keep_last (output_capacity i) (out_ring i @ cs)"
    using append_output_content [OF pos len] by (simp add: ingest_split)
  also have "\<dots> = keep_last (output_capacity i) (bs @ cs)"
    using assms by (simp add: holds_def keep_last_append)
  finally have "out_ring (ingest cx cs i) = keep_last (output_capacity i) (bs @ cs)" .
  moreover have "output_bytes_total (ingest cx cs i) = output_bytes_total (append_output cs i)"
    by (simp add: ingest_split output_bytes_total_def)
  then have "output_bytes_total (ingest cx cs i) = length (bs @ cs)"
    using append_output_total [OF pos len, of cs] assms by (simp add: holds_def)
  moreover have "total_offset (ingest cx cs i) = length (bs @ cs)" "output_capacity (ingest cx cs i) = output_capacity i"
    using assms by (simp_all add: ingest_split holds_def)
  ultimately show ?thesis using pos by (simp add: holds_def)
qed

lemma holds_slice:
  assumes "holds i bs"
  shows "slice_output s e i =
    (if length bs - output_capacity i \<le> s \<and> s \<le> e \<and> e \<le> length bs
     then Some (take (e - s) (drop s bs)) else None)"
proof -
  let ?oc = "output_capacity i"
  have ring: "out_ring i = drop (length bs - ?oc) bs" and f: "output_first_offset i = length bs - ?oc"
    using assms by (auto simp: holds_def keep_last_def output_bytes_total_def)
  have "drop (s - (length bs - ?oc)) (out_ring i) = drop s bs" if "length bs - ?oc \<le> s"
    using that by (simp add: ring)
  then show ?thesis using ring f by (auto simp: slice_output_def Let_def)
qed

section \<open>Feeding whole sequences\<close>

text \<open>Bytes that leave the parser where it was: no escape begins an OSC sequence or stands at the end.
  Colours and cursor movement are of this kind.\<close>

fun quiet :: "nat list \<Rightarrow> bool" where
  "quiet [] \<longleftrightarrow> True"
| "quiet [b] \<longleftrightarrow> b \<noteq> ESC"
| "quiet (b # c # cs) \<longleftrightarrow> (if b = ESC then c \<noteq> RBRACKET \<and> quiet cs else quiet (c # cs))"

lemma state_Normal_id: "state i = Normal \<Longrightarrow> i\<lparr>state := Normal\<rparr> = i"
  by simp

lemma feed_all_quiet: "quiet bs \<Longrightarrow> state i = Normal \<Longrightarrow> feed_all cx bs n i = i"
  by (induction bs arbitrary: n rule: quiet.induct) (auto simp: feed_def state_Normal_id split: if_splits)

lemma push_marker_state [simp]:
  "push_marker m (i\<lparr>state := st\<rparr>) = (push_marker m i)\<lparr>state := st\<rparr>"
  "state (push_marker m i) = state i" "current_cwd (push_marker m i) = current_cwd i"
  "marker_capacity (push_marker m i) = marker_capacity i"
  by (simp_all add: push_marker_def Let_def)

lemma handle_osc_state [simp]:
  "handle_osc cx p a b (i\<lparr>state := st\<rparr>) = (handle_osc cx p a b i)\<lparr>state := st\<rparr>"
  "state (handle_osc cx p a b i) = state i"
  by (simp_all add: handle_osc_def handle_133_def handle_7_def Let_def split: option.splits prod.splits)

definition osc :: "nat list \<Rightarrow> nat list" where
  "osc p = [ESC, RBRACKET] @ p @ [BEL]"

definition clean_payload :: "nat list \<Rightarrow> bool" where
  "clean_payload p \<longleftrightarrow> list_all (\<lambda>b. b \<noteq> ESC \<and> b \<noteq> BEL \<and> b < 0x80) p \<and> length p \<le> MAX_OSC_PAYLOAD"

lemma feed_all_payload:
  "list_all (\<lambda>b. b \<noteq> ESC \<and> b \<noteq> BEL \<and> b < 0x80) p \<Longrightarrow> length buf + length p \<le> MAX_OSC_PAYLOAD \<Longrightarrow>
     feed_all cx p n (i\<lparr>state := OscPayload s buf\<rparr>) = i\<lparr>state := OscPayload s (buf @ p)\<rparr>"
  by (induction p arbitrary: n buf) (simp_all add: feed_def)

lemma feed_all_osc:
  assumes "clean_payload p" "state i = Normal"
  shows "feed_all cx (osc p) n i = handle_osc cx p n (n + length (osc p)) i"
proof -
  have "feed_all cx (p @ [BEL]) (n + 2) (i\<lparr>state := OscPayload n []\<rparr>)
      = feed cx BEL (n + 2 + length p) (i\<lparr>state := OscPayload n p\<rparr>)"
    using assms(1) feed_all_payload [of p "[]"] by (simp add: feed_all_append clean_payload_def)
  also have "\<dots> = (handle_osc cx p n (n + length (osc p)) i)\<lparr>state := Normal\<rparr>"
    by (simp add: feed_def osc_def add.commute add.left_commute)
  also have "\<dots> = handle_osc cx p n (n + length (osc p)) i"
    using assms(2) by (intro state_Normal_id) simp
  finally show ?thesis using assms(2) by (simp add: osc_def feed_def)
qed

lemma from_utf8_ascii: "list_all (\<lambda>b. b < 0x80) p \<Longrightarrow> from_utf8 p = Some p"
proof -
  assume a: "list_all (\<lambda>b. b < 0x80) p"
  then have "utf8_encode p = p" by (induction p) (simp_all add: utf8_encode_def utf8_encode_char_def)
  moreover have "\<forall>c\<in>set p. scalar c" using a by (auto simp: scalar_def list_all_iff)
  ultimately show ?thesis using from_utf8_encode [of p] by simp
qed

lemma clean_from_utf8: "clean_payload p \<Longrightarrow> from_utf8 p = Some p"
  by (rule from_utf8_ascii) (auto simp: clean_payload_def list_all_iff)

text \<open>The markers the shell hook emits.\<close>

definition mark_B :: "nat list" where "mark_B = osc (lit ''133;B'')"
definition mark_C :: "nat list \<Rightarrow> nat list" where "mark_C attrs = osc (lit ''133;C;'' @ attrs)"
definition mark_D :: "nat list \<Rightarrow> nat list" where "mark_D code = osc (lit ''133;D;'' @ code)"

definition the_B :: "integration \<Rightarrow> nat \<Rightarrow> marker" where
  "the_B i n = \<lparr>kind = CommandStart, seq_start = n, seq_end = n + length mark_B, exit_code = None,
     cwd = current_cwd i, command_line = None\<rparr>"

definition the_C :: "codecs \<Rightarrow> nat list \<Rightarrow> integration \<Rightarrow> nat \<Rightarrow> marker" where
  "the_C cx attrs i n = \<lparr>kind = OutputStart, seq_start = n, seq_end = n + length (mark_C attrs),
     exit_code = None, cwd = current_cwd i, command_line = decode_cl_attribute cx attrs\<rparr>"

definition the_D :: "nat list \<Rightarrow> integration \<Rightarrow> nat \<Rightarrow> marker" where
  "the_D code i n = \<lparr>kind = OutputEnd, seq_start = n, seq_end = n + length (mark_D code),
     exit_code = parse_int 32 code, cwd = current_cwd i, command_line = None\<rparr>"

lemma feed_mark_B:
  "state i = Normal \<Longrightarrow> feed_all cx mark_B n i = push_marker (the_B i n) i"
  unfolding mark_B_def
  by (subst feed_all_osc)
    (simp_all add: clean_payload_def lit_def MAX_OSC_PAYLOAD_def handle_osc_def from_utf8_ascii
      split_once_or_def handle_133_def kind_of_def the_B_def mark_B_def)

lemma feed_mark_C:
  assumes "state i = Normal" "clean_payload (lit ''133;C;'' @ attrs)"
  shows "feed_all cx (mark_C attrs) n i = push_marker (the_C cx attrs i n) i"
  unfolding mark_C_def feed_all_osc [OF assms(2,1)]
  by (simp add: handle_osc_def clean_from_utf8 [OF assms(2)])
    (simp add: lit_def split_once_or_def handle_133_def kind_of_def the_C_def mark_C_def)

lemma feed_mark_D:
  assumes "state i = Normal" "clean_payload (lit ''133;D;'' @ code)"
  shows "feed_all cx (mark_D code) n i = push_marker (the_D code i n) i"
  unfolding mark_D_def feed_all_osc [OF assms(2,1)]
  by (simp add: handle_osc_def clean_from_utf8 [OF assms(2)])
    (simp add: lit_def split_once_or_def handle_133_def kind_of_def the_D_def mark_D_def)

lemma the_push [simp]:
  "the_B (push_marker m i) n = the_B i n" "the_C cx a (push_marker m i) n = the_C cx a i n"
  "the_D c (push_marker m i) n = the_D c i n"
  by (simp_all add: the_B_def the_C_def the_D_def)

section \<open>Finding the last cycle\<close>

lemma rposition_snoc [simp]:
  "rposition p (xs @ [x]) = (if p x then Some (length xs) else rposition p xs)"
  by (induction xs) auto

lemma find_cycle_last:
  "kind b = CommandStart \<Longrightarrow> kind c = OutputStart \<Longrightarrow> kind d = OutputEnd \<Longrightarrow>
     find_cycle (xs @ [b, c, d]) (length (xs @ [b, c, d])) = Some (length xs, length xs + 1, length xs + 2)"
  using rposition_snoc [of _ "xs @ [b, c]" d] rposition_snoc [of _ "xs @ [b]" c] rposition_snoc [of _ xs b]
  by (simp add: find_cycle_def)

lemma pushes_last:
  assumes "3 \<le> marker_capacity i" "length (markers i) \<le> marker_capacity i"
  shows "\<exists>xs. markers (push_marker d (push_marker c (push_marker b i))) = xs @ [b, c, d]"
proof -
  have "markers (fold push_marker [b, c, d] i) = keep_last (marker_capacity i) (markers i @ [b, c, d])"
    using assms by (intro marker_ring.content_pushes) auto
  also have "\<exists>xs. \<dots> = xs @ [b, c, d]" using assms(1) by (auto simp: keep_last_def)
  finally show ?thesis by simp
qed

section \<open>Properties\<close>

lemma ingest_chunks: "fold (ingest cx) chunks i = ingest cx (concat chunks) i"
proof (induction chunks arbitrary: i)
  case Nil
  show ?case by (simp add: ingest_def append_output_def)
next
  case (Cons c chunks)
  then show ?case by (simp add: ingest_ingest)
qed

text \<open>
  C26. The chunks the terminal delivers do not matter: taking a byte stream in pieces, cut anywhere
  (inside an escape sequence too), leaves the same ring, markers, counts and parser state as taking
  it in at once.
\<close>

theorem chunks_do_not_matter:
  "fold (ingest cx) chunks i = ingest cx (concat chunks) i"
  by (rule ingest_chunks)

text \<open>
  The ring holds the newest bytes of the stream under their absolute offsets: after any chunks,
  a slice \<open>[s, e)\<close> is exactly those bytes of the whole stream when all of them are among the last
  \<open>output_capacity\<close> bytes, and \<open>None\<close> otherwise (so a truncated region is never silently shifted).
\<close>

theorem slice_is_the_stream:
  assumes "0 < oc"
  shows "slice_output s e (fold (ingest cx) chunks (with_capacity oc mc)) =
    (let bs = concat chunks in
     if length bs - oc \<le> s \<and> s \<le> e \<and> e \<le> length bs then Some (take (e - s) (drop s bs)) else None)"
proof -
  have "holds (fold (ingest cx) chunks (with_capacity oc mc)) ([] @ concat chunks)"
    unfolding ingest_chunks by (rule holds_ingest [OF holds_init [OF assms]])
  then have "holds (fold (ingest cx) chunks (with_capacity oc mc)) (concat chunks)" by simp
  moreover have "output_capacity (fold (ingest cx) chunks (with_capacity oc mc)) = oc"
    unfolding ingest_chunks by (simp add: ingest_split with_capacity_def)
  ultimately show ?thesis by (simp add: holds_slice Let_def)
qed

section \<open>One bracketed command\<close>

definition cycle_bytes :: "nat list \<Rightarrow> nat list \<Rightarrow> nat list \<Rightarrow> nat list \<Rightarrow> nat list" where
  "cycle_bytes cmd attrs out code = mark_B @ cmd @ mark_C attrs @ out @ mark_D code"

text \<open>The offsets of the markers of a command that starts at \<open>n\<close>.\<close>

definition at_C :: "nat \<Rightarrow> nat list \<Rightarrow> nat" where
  "at_C n cmd = n + length mark_B + length cmd"

definition at_D :: "nat \<Rightarrow> nat list \<Rightarrow> nat list \<Rightarrow> nat list \<Rightarrow> nat" where
  "at_D n cmd attrs out = at_C n cmd + length (mark_C attrs) + length out"

lemma feed_cycle:
  assumes "state i = Normal" "quiet cmd" "quiet out"
    "clean_payload (lit ''133;C;'' @ attrs)" "clean_payload (lit ''133;D;'' @ code)"
  shows "feed_all cx (cycle_bytes cmd attrs out code) n i =
    push_marker (the_D code i (at_D n cmd attrs out))
      (push_marker (the_C cx attrs i (at_C n cmd)) (push_marker (the_B i n) i))"
  using assms
  by (simp add: cycle_bytes_def feed_all_append feed_mark_B feed_mark_C feed_mark_D feed_all_quiet
      at_C_def at_D_def add.assoc)

lemma feed_running:
  assumes "state i = Normal" "quiet cmd" "quiet out" "clean_payload (lit ''133;C;'' @ attrs)"
  shows "feed_all cx (mark_B @ cmd @ mark_C attrs @ out) n i =
    push_marker (the_C cx attrs i (at_C n cmd)) (push_marker (the_B i n) i)"
  using assms
  by (simp add: feed_all_append feed_mark_B feed_mark_C feed_all_quiet at_C_def add.assoc)

lemma ingest_fields [simp]:
  "markers (ingest cx bs i) = markers (feed_all cx bs (total_offset i) i)"
  "state (ingest cx bs i) = state (feed_all cx bs (total_offset i) i)"
  "total_offset (ingest cx bs i) = total_offset i + length bs"
  "output_capacity (ingest cx bs i) = output_capacity i"
  by (simp_all add: ingest_split)

lemma drop_take_append: "drop (length a) (take (length a + n) (a @ b)) = take n b"
  by simp

lemma take_drop_mid: "take (length b) (drop (length a) (a @ b @ c)) = b"
  by simp

lemma kinds [simp]:
  "kind (the_B i n) = CommandStart" "kind (the_C cx attrs i n) = OutputStart" "kind (the_D code i n) = OutputEnd"
  by (simp_all add: the_B_def the_C_def the_D_def)


text \<open>No marker ends past the bytes seen.\<close>

definition marked_within :: "nat \<Rightarrow> integration \<Rightarrow> bool" where
  "marked_within n i \<longleftrightarrow> (\<forall>m\<in>set (markers i). seq_end m \<le> n)"

lemma marked_within_le: "marked_within n i \<Longrightarrow> n \<le> k \<Longrightarrow> marked_within k i"
  by (auto simp: marked_within_def)

lemma push_marker_within:
  "marked_within n i \<Longrightarrow> seq_end m \<le> n \<Longrightarrow> marked_within n (push_marker m i)"
  by (cases "markers i") (auto simp: marked_within_def push_marker_def Let_def)

lemma handle_osc_within: "marked_within n i \<Longrightarrow> b \<le> n \<Longrightarrow> marked_within n (handle_osc cx p a b i)"
proof -
  assume a: "marked_within n i" "b \<le> n"
  have "marked_within n (handle_7 r i)" for r
    using a(1) by (simp add: handle_7_def marked_within_def split: option.splits)
  moreover have "marked_within n (handle_133 cx r a b i)" for r
    using a by (auto simp: handle_133_def Let_def intro: push_marker_within split: option.splits prod.splits)
  ultimately show ?thesis using a(1) by (auto simp: handle_osc_def Let_def split: option.splits prod.splits)
qed

lemma feed_within: "marked_within n i \<Longrightarrow> marked_within (n + 1) (feed cx b n i)"
proof -
  assume "marked_within n i"
  then have a: "marked_within (n + 1) i" by (rule marked_within_le) simp
  have "marked_within (n + 1) (j\<lparr>state := st\<rparr>)" if "marked_within (n + 1) j" for j st
    using that by (simp add: marked_within_def)
  then show ?thesis using a handle_osc_within [OF a order_refl]
    by (auto simp: feed_def split: parser_state.splits)
qed

lemma feed_all_within: "marked_within n i \<Longrightarrow> marked_within (n + length bs) (feed_all cx bs n i)"
proof (induction bs arbitrary: n i)
  case (Cons b bs)
  then show ?case using Cons.IH [OF feed_within [OF Cons.prems, of cx b]] by simp
qed simp

lemma seen_within: "marked_within (total_offset i) i \<Longrightarrow> marked_within (total_offset (ingest cx bs i)) (ingest cx bs i)"
  using feed_all_within [of "total_offset i" i bs cx] by (simp add: marked_within_def)

lemma pending_markers_mem: "pending_markers i = Some (b, c) \<Longrightarrow> c \<in> set (markers i)"
  by (auto simp: pending_markers_def Let_def split: option.splits if_splits dest!: rposition_SomeD)

text \<open>
  A running command is handed out in contiguous pieces.  While a command runs (a C without its
  D), a capture from a watermark \<open>w\<close> already seen ends at the end of the stream; when more output has
  arrived, the capture from that end is exactly the new bytes, neither repeating nor skipping one, as
  long as the new bytes still fit in the ring.
\<close>

theorem running_output_contiguous:
  assumes "0 < oc" and "i = fold (ingest cx) chunks (with_capacity oc mc)"
    and "state i = Normal" and "quiet extra" and "w \<le> length (concat chunks)"
    and "pending_command w i = Some r" and "length extra \<le> oc"
  shows "output_end r = length (concat chunks) \<and>
    (\<exists>r'. pending_command (output_end r) (ingest cx extra i) = Some r' \<and>
       region_output r' = bytes_to_clean_text extra \<and> output_start r' = output_end r \<and>
       output_end r' = length (concat chunks) + length extra)"
proof -
  let ?j = "ingest cx extra i" and ?bs = "concat chunks"
  have i: "i = ingest cx ?bs (with_capacity oc mc)" using assms(2) by (simp add: ingest_chunks)
  have hi: "holds i ?bs" using holds_ingest [OF holds_init [OF assms(1)], of cx ?bs] by (simp add: i)
  have n: "total_offset i = length ?bs" using hi by (simp add: holds_def)
  have oc: "output_capacity i = oc" by (simp add: i with_capacity_def)
  obtain b c where bc: "pending_markers i = Some (b, c)"
    using assms(6) by (auto simp: pending_command_def split: option.splits)
  have "marked_within (total_offset i) i"
    unfolding i by (rule seen_within) (simp add: marked_within_def with_capacity_def)
  then have c: "seq_end c \<le> length ?bs"
    using pending_markers_mem [OF bc] n by (auto simp: marked_within_def)
  have e: "output_end r = length ?bs"
    using assms(5,6) bc c n by (auto simp: pending_command_def Let_def split: prod.splits)
  have "markers ?j = markers i" using feed_all_quiet [OF assms(4,3)] by simp
  then have bc': "pending_markers ?j = Some (b, c)" using bc by (simp add: pending_markers_def)
  have h: "holds ?j (?bs @ extra)" by (rule holds_ingest [OF hi])
  have "slice_output (length ?bs) (length ?bs + length extra) ?j = Some extra"
    using assms(7) oc by (simp add: holds_slice [OF h])
  moreover have "max (total_offset ?j) (max (length ?bs) (seq_end c)) = length ?bs + length extra"
    "max (length ?bs) (seq_end c) = length ?bs" using n c by auto
  ultimately show ?thesis
    using bc' e by (auto simp: pending_command_def Let_def unwrap_bytes_def split: prod.splits)
qed

section \<open>Witnesses\<close>

definition plain_codecs :: codecs where
  "plain_codecs = \<lparr>b64_decode = (\<lambda>_. None), url_decode = (\<lambda>s. Some s)\<rparr>"

lemma slice_is_the_stream_witness:
  "slice_output 1 3 (fold (ingest plain_codecs) [[65, 66], [67]] (with_capacity 2 1)) = Some [66, 67]
   \<and> slice_output 0 2 (fold (ingest plain_codecs) [[65, 66], [67]] (with_capacity 2 1)) = None"
proof -
  have "(0::nat) < 2" by simp
  from slice_is_the_stream [OF this] show ?thesis by (simp only:) simp
qed

lemma plain_C [simp]: "clean_payload (lit ''133;C;'' @ [])"
  by (simp add: clean_payload_def lit_def MAX_OSC_PAYLOAD_def)


lemma running_output_contiguous_witness:
  "\<exists>r r'. pending_command 0 (fold (ingest plain_codecs) [mark_B @ lit ''x'' @ mark_C [] @ []] (with_capacity 100 10)) = Some r \<and>
     pending_command (output_end r) (ingest plain_codecs (lit ''done'')
       (fold (ingest plain_codecs) [mark_B @ lit ''x'' @ mark_C [] @ []] (with_capacity 100 10))) = Some r' \<and>
     region_output r' = bytes_to_clean_text (lit ''done'')"
proof -
  let ?start = "mark_B @ lit ''x'' @ mark_C [] @ []"
  let ?w = "with_capacity 100 10"
  let ?i = "fold (ingest plain_codecs) [?start] ?w"
  have q: "quiet (lit ''x'')" "quiet []" "quiet (lit ''done'')" by (simp_all add: lit_def)
  have w: "state ?w = Normal" by (simp add: with_capacity_def)
  have f: "feed_all plain_codecs ?start (total_offset ?w) ?w =
      push_marker (the_C plain_codecs [] ?w (at_C (total_offset ?w) (lit ''x''))) (push_marker (the_B ?w (total_offset ?w)) ?w)"
    by (rule feed_running [OF w q(1,2) plain_C])
  then have st: "state ?i = Normal" using w by simp
  have "markers ?i = [the_B ?w (total_offset ?w), the_C plain_codecs [] ?w (at_C (total_offset ?w) (lit ''x''))]"
    using f by (simp add: push_marker_def with_capacity_def Let_def)
  then have "pending_markers ?i = Some (the_B ?w (total_offset ?w), the_C plain_codecs [] ?w (at_C (total_offset ?w) (lit ''x'')))"
    by (simp add: pending_markers_def)
  then have "pending_command 0 ?i \<noteq> None"
    by (simp only: pending_command_def option.case prod.case Let_def case_prod_beta option.simps not_False_eq_True)
  then obtain r where r: "pending_command 0 ?i = Some r" by blast
  have len: "length (lit ''done'') \<le> 100" by (simp add: lit_def)
  show ?thesis
    using running_output_contiguous [OF _ refl st q(3) _ r len] r by auto
qed

end
