(* ===== verification/Terminal_Render_Props.thy ===== *)
theory Terminal_Render_Props
  imports Shell_Integration
begin

text \<open>
  What rendering captured bytes gives: the cursor row always exists, text redrawn with carriage
  returns shows its final state, and two corners of the control sequences.
\<close>

section \<open>The loop as a transition system\<close>

inductive render_step :: "rstr \<times> screen \<Rightarrow> rstr \<times> screen \<Rightarrow> bool" where
  Escape: "apply_escape s scr = (r, scr') \<Longrightarrow> render_step (ESC # s, scr) (r, scr')"
| Char: "c \<noteq> ESC \<Longrightarrow> render_step (c # s, scr) (s, apply_char c scr)"

inductive_cases render_stepE: "render_step (s, scr) (r, scr')"

definition row_ok :: "rstr \<times> screen \<Rightarrow> bool" where
  "row_ok x \<longleftrightarrow> (case x of (_, lines, row, _) \<Rightarrow> row < length lines)"

lemma apply_char_row:
  "row < length lines \<Longrightarrow> apply_char c (lines, row, col) = (lines', row', col') \<Longrightarrow> row' < length lines'"
  by (auto simp: apply_char_def put_char_def Let_def split: if_splits)

lemma apply_csi_row:
  "row < length lines \<Longrightarrow> apply_csi p f (lines, row, col) = (lines', row', col') \<Longrightarrow> row' < length lines'"
  by (auto simp: apply_csi_def Let_def split: if_splits)

lemma apply_escape_row:
  "row < length lines \<Longrightarrow> apply_escape s (lines, row, col) = (r, lines', row', col') \<Longrightarrow> row' < length lines'"
  by (auto simp: apply_escape_def Let_def split: list.splits if_splits prod.splits dest: apply_csi_row)

lemma render_step_row: "row_ok x \<Longrightarrow> render_step x y \<Longrightarrow> row_ok y"
  by (auto simp: row_ok_def elim!: render_step.cases dest: apply_escape_row apply_char_row [OF _ sym])

interpretation render_sys: guarded_system "(inp, [[]], 0, 0)" render_step row_ok for inp
  by unfold_locales (auto simp: row_ok_def [of "(inp, [[]], 0, 0)"] intro: render_step_row)

lemma render_loop_runs: "render_step\<^sup>*\<^sup>* (s, scr) ([], render_loop s scr)"
proof (induction s scr rule: render_loop.induct)
  case (2 c s scr)
  show ?case
  proof (cases "c = ESC")
    case True
    obtain r scr' where e: "apply_escape s scr = (r, scr')" by (metis surj_pair)
    then have "render_step (c # s, scr) (r, scr')" using True by (auto intro: render_step.Escape)
    then show ?thesis using 2(1) [OF True e [symmetric] refl] True e
      by (simp add: converse_rtranclp_into_rtranclp)
  next
    case False
    then show ?thesis using 2(2) render_step.Char [of c s scr]
      by (simp add: converse_rtranclp_into_rtranclp)
  qed
qed simp

section \<open>Redrawn lines\<close>

definition printable :: "rchar \<Rightarrow> bool" where
  "printable c \<longleftrightarrow> \<not> is_control c"

definition overlay :: "rstr \<Rightarrow> rstr \<Rightarrow> rstr" where
  "overlay old new = new @ drop (length new) old"

lemma printable_apply:
  "printable c \<Longrightarrow> c \<noteq> ESC \<and> apply_char c scr = put_char c scr"
  by (auto simp: printable_def apply_char_def is_control_def split: prod.splits)

lemma put_char_overlay:
  assumes "lines ! row = overlay old p" "row < length lines"
  shows "put_char c (lines, row, length p) = (lines[row := overlay old (p @ [c])], row, length (p @ [c]))"
proof -
  have "length p \<le> length (overlay old p)" by (simp add: overlay_def)
  then show ?thesis
    using assms by (cases "length old \<le> length p")
      (auto simp: put_char_def overlay_def Let_def list_update_append Cons_nth_drop_Suc [symmetric])
qed

lemma render_printable:
  assumes "list_all printable f" "lines ! row = overlay old p" "row < length lines"
  shows "render_loop (f @ s) (lines, row, length p) =
    render_loop s (lines[row := overlay old (p @ f)], row, length (p @ f))"
  using assms
proof (induction f arbitrary: lines p)
  case Nil
  then show ?case by (metis append_Nil append_Nil2 list_update_id)
next
  case (Cons c f)
  let ?lines = "lines[row := overlay old (p @ [c])]"
  have "render_loop ((c # f) @ s) (lines, row, length p) = render_loop (f @ s) (?lines, row, length (p @ [c]))"
    using Cons.prems printable_apply [of c] put_char_overlay [of lines row old p c] by simp
  also have "\<dots> = render_loop s (?lines[row := overlay old ((p @ [c]) @ f)], row, length ((p @ [c]) @ f))"
    using Cons.prems by (intro Cons.IH) simp_all
  finally show ?case by simp
qed

lemma overlay_Nil [simp]: "overlay old [] = old"
  by (simp add: overlay_def)

lemma render_frame:
  assumes "list_all printable f" "row < length lines"
  shows "render_loop (f @ s) (lines, row, 0) = render_loop s (lines[row := overlay (lines ! row) f], row, length f)"
  using render_printable [OF assms(1) _ assms(2), of "lines ! row" "[]" s] by simp

lemma apply_CR [simp]: "apply_char CR (lines, row, col) = (lines, row, 0)"
  by (simp add: apply_char_def)

lemma render_NL:
  "render_loop (NL # s) (ls @ [l], length ls, col) = render_loop s (ls @ [l, []], length ls + 1, 0)"
  by (simp add: apply_char_def)

lemma render_frames:
  assumes "fs \<noteq> []" "\<forall>f\<in>set fs. list_all printable f"
  shows "\<exists>col. render_loop (join [CR] fs @ s) (ls @ [l], length ls, 0) =
    render_loop s (ls @ [foldl overlay l fs], length ls, col)"
  using assms
proof (induction fs arbitrary: l rule: list_nonempty_induct)
  case (single f)
  then show ?case by (simp add: render_frame) blast
next
  case (cons f fs)
  then show ?case by (simp add: render_frame join_Cons)
qed

lemma render_rows:
  assumes "rows \<noteq> []" "\<forall>fs\<in>set rows. fs \<noteq> [] \<and> (\<forall>f\<in>set fs. list_all printable f)"
  shows "fst (render_loop (join [NL] (map (join [CR]) rows)) (ls @ [[]], length ls, 0)) =
    ls @ map (foldl overlay []) rows"
  using assms
proof (induction rows arbitrary: ls rule: list_nonempty_induct)
  case (single fs)
  then obtain col where "render_loop (join [CR] fs @ []) (ls @ [[]], length ls, 0) =
      render_loop [] (ls @ [foldl overlay [] fs], length ls, col)"
    using render_frames [of fs "[]" ls "[]"] by auto
  then show ?case by simp
next
  case (cons fs rows)
  let ?l = "foldl overlay [] fs" and ?t = "join [NL] (map (join [CR]) rows)"
  obtain col where "render_loop (join [CR] fs @ NL # ?t) (ls @ [[]], length ls, 0) =
      render_loop (NL # ?t) (ls @ [?l], length ls, col)"
    using render_frames [of fs "NL # ?t" ls "[]"] cons.prems by auto
  also have "\<dots> = render_loop ?t ((ls @ [?l]) @ [[]], length (ls @ [?l]), 0)"
    by (simp only: render_NL) simp
  finally show ?case
    using cons.IH [of "ls @ [?l]"] cons by (simp add: join_Cons)
qed

section \<open>Control sequences\<close>

lemma digit_not_final: "is_ascii_digit c \<Longrightarrow> \<not> csi_final c"
  by (auto simp: is_ascii_digit_def csi_final_def is_ascii_alphabetic_def)

lemma scan_csi_run:
  "list_all (\<lambda>c. \<not> csi_final c) p \<Longrightarrow> csi_final f \<Longrightarrow> scan_csi (p @ f # s) = (p, f, s)"
  by (induction p) (auto simp: scan_csi_def Let_def)

lemma scan_csi_open: "list_all (\<lambda>c. \<not> csi_final c) p \<Longrightarrow> scan_csi p = (p, 0, [])"
  by (induction p) (auto simp: scan_csi_def Let_def)

lemma digit_params:
  assumes "list_all is_ascii_digit ds"
  shows "fst (split_once_or SEMI (trim_start_matches (\<lambda>c. c = 63) ds)) = ds"
proof -
  have "trim_start_matches (\<lambda>c. c = 63) ds = ds"
    using assms by (cases ds) (auto simp: trim_start_matches_def is_ascii_digit_def)
  moreover have "takeWhile (\<lambda>x. x \<noteq> SEMI) ds = ds"
    using assms by (auto simp: takeWhile_eq_all_conv list_all_iff is_ascii_digit_def)
  ultimately show ?thesis by (simp add: split_once_or_def)
qed

section \<open>Properties\<close>

text \<open>
  Rendering never leaves the screen: in every state the loop goes through, for any text with any
  escape sequences, the cursor row is one of the lines, so every access to the current line is within
  bounds; and the loop goes from the text to the end of it.
\<close>

theorem cursor_row_exists:
  "(\<forall>s lines row col. render_step\<^sup>*\<^sup>* (inp, [[]], 0, 0) (s, lines, row, col) \<longrightarrow> row < length lines) \<and>
   render_step\<^sup>*\<^sup>* (inp, [[]], 0, 0) ([], render_loop inp ([[]], 0, 0))"
proof (intro conjI allI impI)
  fix s lines row col assume "render_step\<^sup>*\<^sup>* (inp, [[]], 0, 0) (s, lines, row, col)"
  then have "row_ok (s, lines, row, col)" by (rule render_sys.reachable_inv)
  then show "row < length lines" by (simp add: row_ok_def)
qed (rule render_loop_runs)

text \<open>
  Text redrawn with carriage returns is read in its final state.  When every line is a sequence
  of frames of printable characters, each drawn from the first column over what the line shows, the
  rendered text has, line by line, the frames laid over each other, without the blanks at the end:
  a progress bar shows once, and plain text comes out as it is.
\<close>

theorem redraws_collapse:
  assumes "rows \<noteq> []" and "\<forall>fs\<in>set rows. fs \<noteq> [] \<and> (\<forall>f\<in>set fs. list_all printable f)"
  shows "render_terminal (join [NL] (map (join [CR]) rows)) =
    join [NL] (map (\<lambda>fs. trim_end (foldl overlay [] fs)) rows)"
  using render_rows [OF assms, of "[]"]
  by (simp add: render_terminal_def screen_text_def comp_def)

text \<open>
  A cursor-down sequence creates as many lines as its parameter says: a text of a dozen bytes
  makes a screen of any number of lines up to the machine word, whatever was printed.
\<close>

theorem cursor_down_creates_lines:
  assumes "list_all is_ascii_digit ds" and "parse_uint usize_max ds = Some n"
  shows "length (fst (render_loop ([ESC, LBRACKET] @ ds @ [66]) ([[]], 0, 0))) = max n 1 + 1"
proof -
  have "list_all (\<lambda>c. \<not> csi_final c) ds" using assms(1) digit_not_final by (auto simp: list_all_iff)
  then have "scan_csi (ds @ [66]) = (ds, 66, [])"
    by (rule scan_csi_run) (simp add: csi_final_def is_ascii_alphabetic_def)
  then show ?thesis
    using digit_params [OF assms(1)] assms(2)
    by (simp add: apply_escape_def apply_csi_def Let_def)
qed

text \<open>
  A column-absolute sequence that ends in a backquote is not recognised: the scan for the final
  byte runs past the backquote, and the text after it is lost up to and including the next letter
  (all of it, when no letter follows).
\<close>

theorem backquote_swallows_text:
  assumes "list_all is_ascii_digit ds" and "list_all printable before"
    and "list_all (\<lambda>c. \<not> csi_final c) after"
  shows "render_terminal (before @ [ESC, LBRACKET] @ ds @ [96] @ after) = trim_end before"
proof -
  have "list_all (\<lambda>c. \<not> csi_final c) (ds @ [96] @ after)"
    using assms(1,3) digit_not_final by (auto simp: list_all_iff csi_final_def is_ascii_alphabetic_def)
  then have "scan_csi (ds @ [96] @ after) = (ds @ [96] @ after, 0, [])" by (rule scan_csi_open)
  then have "render_loop ([ESC, LBRACKET] @ ds @ [96] @ after) scr = scr" for scr
    by (cases scr) (simp add: apply_escape_def apply_csi_def Let_def)
  then show ?thesis
    using render_frame [OF assms(2), of 0 "[[]]" "[ESC, LBRACKET] @ ds @ [96] @ after"]
    by (simp add: render_terminal_def screen_text_def overlay_def)
qed

section \<open>Witnesses\<close>

text \<open>The last line erased below the cursor, after a move up.\<close>

lemma cursor_row_exists_witness:
  "\<exists>lines row col. render_step\<^sup>*\<^sup>* ([NL, 97, ESC, LBRACKET, 65, ESC, LBRACKET, 74], [[]], 0, 0) ([], lines, row, col) \<and>
     row < length lines"
proof -
  let ?i = "[NL, 97, ESC, LBRACKET, 65, ESC, LBRACKET, 74]"
  obtain lines row col where r: "render_loop ?i ([[]], 0, 0) = (lines, row, col)" by (metis surj_pair)
  show ?thesis using cursor_row_exists [of ?i] unfolding r by blast
qed

text \<open>A progress line drawn twice, then a second line.\<close>

lemma redraws_collapse_witness:
  "render_terminal (lit ''10%'' @ [CR] @ lit ''100%'' @ [NL] @ lit ''ok '') = lit ''100%'' @ [NL] @ lit ''ok''"
  using redraws_collapse [of "[[lit ''10%'', lit ''100%''], [lit ''ok '']]"]
  by (simp add: lit_def printable_def is_control_def overlay_def trim_end_def trim_end_matches_def is_whitespace_def)

lemma cursor_down_creates_lines_witness:
  "length (fst (render_loop ([ESC, LBRACKET] @ lit ''9000000'' @ [66]) ([[]], 0, 0))) = 9000001"
proof -
  have "parse_uint usize_max (lit ''9000000'') = Some 9000000"
    by (simp add: parse_uint_def digits_value_def lit_def is_ascii_digit_def usize_max_def)
  then show ?thesis using cursor_down_creates_lines [of "lit ''9000000''" 9000000]
    by (simp add: lit_def is_ascii_digit_def)
qed

lemma backquote_swallows_text_witness:
  "render_terminal (lit ''ab'' @ [ESC, LBRACKET] @ lit ''1'' @ [96] @ lit ''12:34'') = lit ''ab''"
  using backquote_swallows_text [of "lit ''1''" "lit ''ab''" "lit ''12:34''"]
  by (simp add: lit_def is_ascii_digit_def printable_def is_control_def csi_final_def is_ascii_alphabetic_def
      trim_end_def trim_end_matches_def is_whitespace_def)

end
