(* ===== verification/Workdir_Files.thy ===== *)
theory Workdir_Files
  imports Rust_Bytes Fuzzy_Edit "HOL-Library.List_Lexorder"
begin

text \<open>
  \<open>src-tauri/src/fs_tools/path.rs\<close> off Windows: resolving a path inside the working directory,
  writing a file atomically, reading a window of a text file, listing a folder and finding a free
  name.  A path is the list of its components below the root.  The file system is a map from paths
  to nodes; \<open>canonicalize\<close> follows its links as the standard library and the kernel do, at most 40 of
  them.  Messages are constructors.
\<close>

section \<open>The file system\<close>

type_synonym path = "rstr list"

text \<open>A file has its bytes and its read-only flag; a link has its target, an absolute path.\<close>

datatype node = Directory | File "nat list" bool | Link path

type_synonym fs = "path \<Rightarrow> node option"

text \<open>The components walked so far are free of links; a link starts over at its target.\<close>

function walk_path :: "fs \<Rightarrow> nat \<Rightarrow> path \<Rightarrow> path \<Rightarrow> path option" where
  "walk_path fs fuel walked [] = Some walked"
| "walk_path fs fuel walked (c # rest) =
     (case fs (walked @ [c]) of
        None \<Rightarrow> None
      | Some (Link target) \<Rightarrow> (case fuel of 0 \<Rightarrow> None | Suc fuel' \<Rightarrow> walk_path fs fuel' [] (target @ rest))
      | Some _ \<Rightarrow> walk_path fs fuel (walked @ [c]) rest)"
  by pat_completeness auto
termination
  by (relation "measures [\<lambda>(fs, fuel, walked, todo). fuel, \<lambda>(fs, fuel, walked, todo). length todo]") auto

definition MAX_LINKS :: nat where "MAX_LINKS = 40"

definition canonicalize :: "fs \<Rightarrow> path \<Rightarrow> path option" where
  "canonicalize fs p = walk_path fs MAX_LINKS [] p"

definition path_exists :: "fs \<Rightarrow> path \<Rightarrow> bool" where
  "path_exists fs p \<longleftrightarrow> canonicalize fs p \<noteq> None"

definition parent_of :: "path \<Rightarrow> path option" where
  "parent_of p = (if p = [] then None else Some (butlast p))"

section \<open>Resolving\<close>

datatype path_error =
  CannotCanonicalize
| Escapes
| NoExistingAncestor

abbreviation SLASH :: nat where "SLASH \<equiv> 47"
abbreviation DOT :: nat where "DOT \<equiv> 46"

definition DOTDOT :: rstr where "DOTDOT = [DOT, DOT]"

text \<open>\<open>Path::components\<close> of a text: empty parts and \<open>.\<close> vanish.\<close>

definition components :: "rstr \<Rightarrow> path" where
  "components s = filter (\<lambda>c. c \<noteq> [] \<and> c \<noteq> [DOT]) (split_char SLASH s)"

text \<open>The segments between both separators, as the lexical check sees them.\<close>

definition segments :: "rstr \<Rightarrow> rstr list" where
  "segments s = concat (map (split_char 92) (split_char SLASH s))"

text \<open>The proper ancestors of a path, nearest first.\<close>

fun ancestors_rev :: "rstr list \<Rightarrow> path list" where
  "ancestors_rev [] = []"
| "ancestors_rev (c # r) = rev r # ancestors_rev r"

definition proper_ancestors :: "path \<Rightarrow> path list" where
  "proper_ancestors p = ancestors_rev (rev p)"

definition resolve_nonexistent :: "fs \<Rightarrow> path \<Rightarrow> path_error + path" where
  "resolve_nonexistent fs candidate =
    (case find (path_exists fs) (proper_ancestors candidate) of
       None \<Rightarrow> Inl NoExistingAncestor
     | Some existing \<Rightarrow>
        (let tail = drop (length existing) candidate in
         if DOTDOT \<in> set tail then Inl Escapes
         else (case canonicalize fs existing of
             None \<Rightarrow> Inl CannotCanonicalize
           | Some base \<Rightarrow> Inr (base @ tail))))"

definition resolve_in_workdir :: "fs \<Rightarrow> path \<Rightarrow> rstr \<Rightarrow> path_error + path" where
  "resolve_in_workdir fs workdir rel_path =
    (if rel_path = [] \<or> rel_path = [DOT] then
       (case canonicalize fs workdir of Some p \<Rightarrow> Inr p | None \<Rightarrow> Inl CannotCanonicalize)
     else if DOTDOT \<in> set (segments rel_path) then Inl Escapes
     else
       (case canonicalize fs workdir of
          None \<Rightarrow> Inl CannotCanonicalize
        | Some root \<Rightarrow>
           (let candidate = (if prefix [SLASH] rel_path then components rel_path else root @ components rel_path);
                resolved =
                  (if path_exists fs candidate
                   then (case canonicalize fs candidate of Some p \<Rightarrow> Inr p | None \<Rightarrow> Inl CannotCanonicalize)
                   else resolve_nonexistent fs candidate)
            in case resolved of
                 Inl e \<Rightarrow> Inl e
               | Inr p \<Rightarrow> if prefix root p then Inr p else Inl Escapes)))"

section \<open>Writing\<close>

datatype write_error = ReadOnlyFile | WriteFailed

definition TMP_WRITE_PREFIX :: rstr where "TMP_WRITE_PREFIX = lit ''.haruspex-''"
definition TMP_WRITE_SUFFIX :: rstr where "TMP_WRITE_SUFFIX = lit ''.tmp''"

definition is_staged_tmp_name :: "rstr \<Rightarrow> bool" where
  "is_staged_tmp_name name \<longleftrightarrow> prefix TMP_WRITE_PREFIX name \<and> suffix TMP_WRITE_SUFFIX name"

definition tmp_name :: "path \<Rightarrow> nat \<Rightarrow> path" where
  "tmp_name target seq =
    (let stem = (if target = [] then lit ''unnamed'' else last target)
     in butlast target @ [TMP_WRITE_PREFIX @ stem @ lit ''-'' @ decimal seq @ TMP_WRITE_SUFFIX])"

text \<open>What goes wrong: the staging write stops after some bytes, or the rename fails; then whether the
  clean-up removes the staged file.\<close>

datatype write_fault = NoFault | StagingFails nat bool | RenameFails bool

definition read_only :: "node option \<Rightarrow> bool" where
  "read_only x = (case x of Some (File _ ro) \<Rightarrow> ro | _ \<Rightarrow> False)"

definition node_at :: "fs \<Rightarrow> path \<Rightarrow> node option" where
  "node_at fs p = (case canonicalize fs p of Some q \<Rightarrow> (if q = [] then Some Directory else fs q) | None \<Rightarrow> None)"

text \<open>
  The result, the file system and the next number, and every file system another program can see on
  the way: the staged file growing byte by byte, then the rename, which puts the file in the
  directory entry of the target in one step, whatever was there.
\<close>

definition write_atomic ::
  "write_fault \<Rightarrow> path \<Rightarrow> nat list \<Rightarrow> fs \<Rightarrow> nat \<Rightarrow> (write_error + unit) \<times> (fs \<times> nat) \<times> fs list" where
  "write_atomic fault target bytes fs seq =
    (if read_only (node_at fs target) then (Inl ReadOnlyFile, (fs, seq), [fs])
     else
       (let tmp = tmp_name target seq;
            staged = (\<lambda>n. fs(tmp \<mapsto> File (take n bytes) False));
            growing = (\<lambda>n. map staged [0..<Suc n])
        in case fault of
             StagingFails n removed \<Rightarrow>
               (let fs' = (if removed then (staged n)(tmp := None) else staged n)
                in (Inl WriteFailed, (fs', seq + 1), fs # growing n @ [fs']))
           | RenameFails removed \<Rightarrow>
               (let fs' = (if removed then (staged (length bytes))(tmp := None) else staged (length bytes))
                in (Inl WriteFailed, (fs', seq + 1), fs # growing (length bytes) @ [fs']))
           | NoFault \<Rightarrow>
               (let fs' = (staged (length bytes))(target \<mapsto> File bytes False, tmp := None)
                in (Inr (), (fs', seq + 1), fs # growing (length bytes) @ [fs']))))"

definition refuse_if_exists :: "fs \<Rightarrow> path \<Rightarrow> bool option \<Rightarrow> bool" where
  "refuse_if_exists fs resolved overwrite \<longleftrightarrow> overwrite \<noteq> Some True \<and> path_exists fs resolved"

section \<open>Reading a window of text\<close>

definition MAX_WRITE_BYTES :: nat where "MAX_WRITE_BYTES = 10 * 1048576"
definition MAX_TEXT_READ_BYTES :: nat where "MAX_TEXT_READ_BYTES = 1048576"
definition MAX_READ_LOAD_BYTES :: nat where "MAX_READ_LOAD_BYTES = 64 * 1048576"
definition DEFAULT_READ_LINES :: nat where "DEFAULT_READ_LINES = 2000"
definition MAX_READ_OUTPUT_BYTES :: nat where "MAX_READ_OUTPUT_BYTES = 256 * 1024"

text \<open>\<open>SlicePanics\<close> is the panic of a slice whose start lies past its end.\<close>

datatype read_error =
  BinaryFile
| NotUtf8
| OffsetPastEnd nat nat
| SlicePanics nat nat
| StatFailed
| TooLargeToLoad nat
| TooLargeToEdit nat
| EditRefused edit_error
| SaveFailed write_error

datatype read_note = NoNote | OutputTruncated | MoreLines nat

text \<open>Dropping bytes until a character boundary: the longest prefix of at most \<open>n\<close> bytes.\<close>

fun utf8_take :: "nat \<Rightarrow> rstr \<Rightarrow> rstr" where
  "utf8_take n [] = []"
| "utf8_take n (c # s) = (if utf8_len_char c \<le> n then c # utf8_take (n - utf8_len_char c) s else [])"

text \<open>The text and the note that is appended to it.\<close>

definition render_text_read ::
  "nat list \<Rightarrow> nat option \<Rightarrow> nat option \<Rightarrow> read_error + (rstr \<times> read_note)" where
  "render_text_read bytes offset limit =
    (if 0 \<in> set (take (min (length bytes) 8192) bytes) then Inl BinaryFile
     else (case from_utf8 bytes of
         None \<Rightarrow> Inl NotUtf8
       | Some content \<Rightarrow>
          (let lines = rust_lines content;
               total = length lines;
               start = (case offset of Some o' \<Rightarrow> max o' 1 - 1 | None \<Rightarrow> 0)
           in if 0 < total \<and> total \<le> start then Inl (OffsetPastEnd (start + 1) total)
              else
                (let count = (case limit of Some l \<Rightarrow> max l 1 | None \<Rightarrow> DEFAULT_READ_LINES);
                     stop = min (sat_add usize_max start count) total
                 in if stop < start then Inl (SlicePanics start stop)
                    else
                      (let out = join [NL] (take (stop - start) (drop start lines))
                       in if MAX_READ_OUTPUT_BYTES < utf8_len out
                          then Inr (utf8_take MAX_READ_OUTPUT_BYTES out, OutputTruncated)
                          else if stop < total then Inr (out, MoreLines (total - stop))
                          else Inr (out, NoNote))))))"

definition stat_within :: "fs \<Rightarrow> path \<Rightarrow> nat \<Rightarrow> (nat \<Rightarrow> read_error) \<Rightarrow> read_error + nat list" where
  "stat_within fs p limit too_large = (case node_at fs p of
     Some (File bytes _) \<Rightarrow> if limit < length bytes then Inl (too_large (length bytes)) else Inr bytes
   | _ \<Rightarrow> Inl StatFailed)"

definition read_text_at :: "fs \<Rightarrow> path \<Rightarrow> nat option \<Rightarrow> nat option \<Rightarrow> read_error + (rstr \<times> read_note)" where
  "read_text_at fs p offset limit = (case stat_within fs p MAX_READ_LOAD_BYTES TooLargeToLoad of
     Inl e \<Rightarrow> Inl e | Inr bytes \<Rightarrow> render_text_read bytes offset limit)"

definition edit_text_at ::
  "(rstr \<Rightarrow> rstr) \<Rightarrow> write_fault \<Rightarrow> path \<Rightarrow> rstr \<Rightarrow> rstr \<Rightarrow> rstr \<Rightarrow> fs \<Rightarrow> nat \<Rightarrow>
     (read_error + edit_result) \<times> fs \<times> nat" where
  "edit_text_at nfkc fault p old_str new_str display fs seq =
    (case stat_within fs p MAX_TEXT_READ_BYTES TooLargeToEdit of
       Inl e \<Rightarrow> (Inl e, fs, seq)
     | Inr bytes \<Rightarrow>
        (case from_utf8 bytes of
           None \<Rightarrow> (Inl NotUtf8, fs, seq)
         | Some content \<Rightarrow>
            (case apply_edit nfkc content old_str new_str display of
               Inl e \<Rightarrow> (Inl (EditRefused e), fs, seq)
             | Inr out \<Rightarrow>
                (case write_atomic fault p (utf8_encode (new_content out)) fs seq of
                   (Inl e, (fs', seq'), _) \<Rightarrow> (Inl (SaveFailed e), fs', seq')
                 | (Inr _, (fs', seq'), _) \<Rightarrow> (Inr (outcome_result out), fs', seq')))))"

section \<open>Listing a folder\<close>

record dir_entry =
  entry_name :: rstr
  is_dir :: bool
  entry_size :: nat

definition MAX_DIR_ENTRIES :: nat where "MAX_DIR_ENTRIES = 500"

text \<open>The order of a listing: folders first, then by lower-case name.\<close>

datatype listing_key = ListingKey bool rstr

instantiation listing_key :: linorder
begin

fun less_eq_listing_key :: "listing_key \<Rightarrow> listing_key \<Rightarrow> bool" where
  "less_eq_listing_key (ListingKey d n) (ListingKey e m) \<longleftrightarrow> (d \<and> \<not> e) \<or> (d = e \<and> n \<le> m)"

definition less_listing_key :: "listing_key \<Rightarrow> listing_key \<Rightarrow> bool" where
  "less_listing_key a b \<longleftrightarrow> a \<le> b \<and> \<not> b \<le> a"

instance
proof
  fix a b c :: listing_key
  show "a < b \<longleftrightarrow> a \<le> b \<and> \<not> b \<le> a" by (rule less_listing_key_def)
  show "a \<le> a" by (cases a) simp
  show "a \<le> b \<Longrightarrow> b \<le> c \<Longrightarrow> a \<le> c" by (cases a; cases b; cases c) auto
  show "a \<le> b \<Longrightarrow> b \<le> a \<Longrightarrow> a = b" by (cases a; cases b) auto
  show "a \<le> b \<or> b \<le> a" by (cases a; cases b) auto
qed

end

definition key_of_entry :: "(rstr \<Rightarrow> rstr) \<Rightarrow> dir_entry \<Rightarrow> listing_key" where
  "key_of_entry to_lowercase e = ListingKey (is_dir e) (to_lowercase (entry_name e))"

text \<open>An error while the folder is read ends the call and is not modelled.  One entry the folder yields: its name, and its kind and size when they can be read.\<close>

type_synonym raw_entry = "rstr \<times> (bool \<times> nat) option"

definition listed :: "bool \<Rightarrow> raw_entry \<Rightarrow> bool" where
  "listed include_hidden e \<longleftrightarrow> \<not> (\<not> include_hidden \<and> prefix [DOT] (fst e)) \<and>
     \<not> is_staged_tmp_name (fst e) \<and> snd e \<noteq> None"

definition entry_of :: "raw_entry \<Rightarrow> dir_entry" where
  "entry_of e = (case snd e of Some (d, n) \<Rightarrow> \<lparr>entry_name = fst e, is_dir = d, entry_size = n\<rparr>
     | None \<Rightarrow> \<lparr>entry_name = fst e, is_dir = False, entry_size = 0\<rparr>)"

fun read_entries :: "bool \<Rightarrow> raw_entry list \<Rightarrow> dir_entry list \<Rightarrow> dir_entry list \<times> bool" where
  "read_entries include_hidden [] entries = (entries, False)"
| "read_entries include_hidden (e # es) entries =
     (if MAX_DIR_ENTRIES \<le> length entries then (entries, True)
      else if \<not> listed include_hidden e then read_entries include_hidden es entries
      else read_entries include_hidden es (entries @ [entry_of e]))"

definition collect_dir_entries ::
  "(rstr \<Rightarrow> rstr) \<Rightarrow> bool \<Rightarrow> raw_entry list \<Rightarrow> dir_entry list \<times> bool" where
  "collect_dir_entries to_lowercase include_hidden raw =
    (let (entries, truncated) = read_entries include_hidden raw []
     in (sort_key (key_of_entry to_lowercase) entries, truncated))"

section \<open>A free name\<close>

text \<open>The name split at its last dot, unless it begins the name: stem and extension with its dot.\<close>

definition split_ext :: "rstr \<Rightarrow> rstr \<times> rstr" where
  "split_ext name = (case rposition (\<lambda>c. c = DOT) name of
     None \<Rightarrow> (name, [])
   | Some i \<Rightarrow> if i = 0 then (name, []) else (take i name, drop i name))"

text \<open>The text without the slashes and \<open>.\<close> segments at its end that name nothing; the last name, unless
  there is none; and the text before it, as \<open>Path::file_name\<close> and \<open>Path::parent\<close> give them.\<close>

fun strip_rev :: "rstr \<Rightarrow> rstr" where
  "strip_rev [] = []"
| "strip_rev (c # r) =
     (if (c = SLASH \<and> r \<noteq> []) \<or> (c = DOT \<and> r \<noteq> [] \<and> hd r = SLASH) then strip_rev r else c # r)"

definition strip_tail :: "rstr \<Rightarrow> rstr" where
  "strip_tail s = rev (strip_rev (rev s))"

definition file_name :: "rstr \<Rightarrow> rstr option" where
  "file_name s = (let name = last (split_char SLASH (strip_tail s))
     in if name = [] \<or> name = [DOT] \<or> name = DOTDOT then None else Some name)"

definition parent_text :: "rstr \<Rightarrow> rstr" where
  "parent_text s = (let t = strip_tail s in
     case rposition (\<lambda>c. c = SLASH) t of
       None \<Rightarrow> []
     | Some i \<Rightarrow> if t = [SLASH] then [] else if i = 0 then [SLASH] else strip_tail (take i t))"

definition numbered :: "rstr \<Rightarrow> nat \<Rightarrow> rstr" where
  "numbered rel n =
    (let (stem, ext) = (case file_name rel of Some name \<Rightarrow> split_ext name | None \<Rightarrow> (rel, []))
     in (if parent_text rel = [] then [] else parent_text rel @ [SLASH])
        @ stem @ lit ''-'' @ decimal n @ ext)"

datatype available_error = Unresolved path_error | NoneAvailable

fun try_names :: "fs \<Rightarrow> path \<Rightarrow> rstr \<Rightarrow> nat list \<Rightarrow> available_error + rstr" where
  "try_names fs workdir rel [] = Inl NoneAvailable"
| "try_names fs workdir rel (n # ns) = (case resolve_in_workdir fs workdir (numbered rel n) of
     Inl e \<Rightarrow> Inl (Unresolved e)
   | Inr p \<Rightarrow> if path_exists fs p then try_names fs workdir rel ns else Inr (numbered rel n))"

definition fs_find_available_path :: "fs \<Rightarrow> path \<Rightarrow> rstr \<Rightarrow> available_error + rstr" where
  "fs_find_available_path fs workdir rel = (case resolve_in_workdir fs workdir rel of
     Inl e \<Rightarrow> Inl (Unresolved e)
   | Inr p \<Rightarrow> if \<not> path_exists fs p then Inr rel else try_names fs workdir rel [2..<1001])"

definition fs_path_exists :: "fs \<Rightarrow> path \<Rightarrow> rstr \<Rightarrow> path_error + bool" where
  "fs_path_exists fs workdir rel = (case resolve_in_workdir fs workdir rel of
     Inl e \<Rightarrow> Inl e | Inr p \<Rightarrow> Inr (path_exists fs p))"

end
