(* ===== verification/Workdir_Files_Props.thy ===== *)
theory Workdir_Files_Props
  imports Workdir_Files "HOL-Library.Multiset"
begin

text \<open>
  A resolved path stays in the working directory, a write shows the old file or the new one, a
  window of a text is exactly the lines asked for, and a listing is sorted and complete unless cut.
\<close>

section \<open>Canonical paths\<close>

text \<open>No link on the way to \<open>p\<close>, and everything there.\<close>

definition plain :: "fs \<Rightarrow> path \<Rightarrow> bool" where
  "plain fs p \<longleftrightarrow> (\<forall>q. prefix q p \<and> q \<noteq> [] \<longrightarrow> (\<exists>x. fs q = Some x \<and> (\<forall>t. x \<noteq> Link t)))"

lemma plain_Nil: "plain fs []"
  by (simp add: plain_def)

lemma plain_snoc: "plain fs (p @ [c]) \<longleftrightarrow> plain fs p \<and> (\<exists>x. fs (p @ [c]) = Some x \<and> (\<forall>t. x \<noteq> Link t))"
  by (auto simp: plain_def)

lemma walk_path_plain: "walk_path fs fuel walked todo = Some q \<Longrightarrow> plain fs walked \<Longrightarrow> plain fs q"
proof (induction fs fuel walked todo rule: walk_path.induct)
  case (2 fs fuel walked c rest)
  then show ?case
    by (auto simp: plain_Nil plain_snoc split: option.splits node.splits nat.splits)
qed simp

lemma canonicalize_plain: "canonicalize fs p = Some q \<Longrightarrow> plain fs q"
  unfolding canonicalize_def by (rule walk_path_plain [OF _ plain_Nil])

lemma walk_plain: "plain fs (walked @ todo) \<Longrightarrow> walk_path fs fuel walked todo = Some (walked @ todo)"
proof (induction todo arbitrary: walked)
  case (Cons c rest)
  then have "plain fs (walked @ [c])" by (auto simp: plain_def)
  then obtain x where "fs (walked @ [c]) = Some x" "\<forall>t. x \<noteq> Link t" by (auto simp: plain_snoc)
  then show ?case using Cons by (cases x) auto
qed simp

lemma plain_canonical: "plain fs p \<Longrightarrow> canonicalize fs p = Some p"
  using walk_plain [of fs "[]" p] by (simp add: canonicalize_def)

lemma walk_prefix: "walk_path fs fuel walked (p @ q) = Some r \<Longrightarrow> walk_path fs fuel walked p \<noteq> None"
proof (induction fs fuel walked p arbitrary: rule: walk_path.induct)
  case (2 fs fuel walked c rest)
  then show ?case by (auto split: option.splits node.splits nat.splits)
qed simp

text \<open>Walking a path is walking to the end of its first part, then on from where that led.\<close>

lemma walk_append:
  "walk_path fs fuel walked p = Some b \<Longrightarrow> \<exists>fuel' \<le> fuel. \<forall>q. walk_path fs fuel walked (p @ q) = walk_path fs fuel' b q"
proof (induction fs fuel walked p rule: walk_path.induct)
  case (1 fs fuel walked)
  then show ?case by auto
next
  case (2 fs fuel walked c rest)
  obtain x where x: "fs (walked @ [c]) = Some x" using 2(4) by (auto split: option.splits)
  show ?case
  proof (cases x)
    case (Link t)
    with 2(4) x obtain k where k: "fuel = Suc k" by (cases fuel) auto
    then have "walk_path fs k [] (t @ rest) = Some b" using 2(4) x Link by simp
    from 2(3) [OF x Link k this] obtain fuel' where "fuel' \<le> k" "\<forall>q. walk_path fs k [] ((t @ rest) @ q) = walk_path fs fuel' b q"
      by blast
    then show ?thesis using x Link k by (intro exI [of _ fuel']) simp
  qed (use 2 x in auto)
qed

lemma ancestors_rev_mem: "a \<in> set (ancestors_rev r) \<Longrightarrow> \<exists>t. t \<noteq> [] \<and> rev r = a @ t"
  by (induction r) auto

lemma proper_ancestors_mem: "a \<in> set (proper_ancestors p) \<Longrightarrow> \<exists>t. t \<noteq> [] \<and> p = a @ t"
  using ancestors_rev_mem [of a "rev p"] by (simp add: proper_ancestors_def)

text \<open>The first ancestor that exists, and the first missing component below it.\<close>

lemma ancestors_rev_find:
  "find P (ancestors_rev r) = Some a \<Longrightarrow> \<exists>c t. rev r = a @ c # t \<and> P a \<and> (t \<noteq> [] \<longrightarrow> \<not> P (a @ [c]))"
proof (induction r)
  case (Cons c r)
  show ?case
  proof (cases "P (rev r)")
    case True
    with Cons.prems show ?thesis by auto
  next
    case False
    with Cons obtain d t where "rev r = a @ d # t" "P a" "t \<noteq> [] \<longrightarrow> \<not> P (a @ [d])" by auto
    then show ?thesis using False by (cases t) auto
  qed
qed simp

lemma nearest_ancestor:
  assumes "find (path_exists fs) (proper_ancestors p) = Some a" "\<not> path_exists fs p"
  obtains c t where "p = a @ c # t" "path_exists fs a" "\<not> path_exists fs (a @ [c])"
  using ancestors_rev_find [OF assms(1) [unfolded proper_ancestors_def]] assms(2) by auto

section \<open>Numbers and staged names\<close>

lemma tmp_name_inj: "tmp_name target m = tmp_name target n \<Longrightarrow> m = n"
  by (auto simp: tmp_name_def Let_def dest: decimal_inj split: if_splits)

lemma tmp_name_differs: "target \<noteq> [] \<Longrightarrow> tmp_name target n \<noteq> target"
proof
  assume t: "target \<noteq> []" and e: "tmp_name target n = target"
  then have "length (last (tmp_name target n)) = length (last target)" by simp
  then show False using t by (simp add: tmp_name_def TMP_WRITE_PREFIX_def lit_def Let_def)
qed

lemma tmp_name_staged: "is_staged_tmp_name (last (tmp_name target n))"
  by (simp add: is_staged_tmp_name_def tmp_name_def Let_def suffix_def)

section \<open>Windows and listings\<close>

lemma split_char_Nil_iff: "split_char c s = [[]] \<longleftrightarrow> s = []"
  by (cases s) (auto split: list.splits)

lemma rust_lines_Nil: "rust_lines s = [] \<longleftrightarrow> s = []"
proof
  assume a: "rust_lines s = []"
  then have b: "butlast (split_char NL s) = []" and l: "last (split_char NL s) = []"
    by (auto simp: rust_lines_def Let_def split: if_splits)
  have "split_char NL s = butlast (split_char NL s) @ [last (split_char NL s)]" by simp
  then have "split_char NL s = [[]]" unfolding b l by simp
  then show "s = []" by (simp add: split_char_Nil_iff)
qed (simp add: rust_lines_def)

lemma from_utf8_empty: "from_utf8 bytes = Some [] \<longleftrightarrow> bytes = []"
  by (subst from_utf8.simps) (auto split: sum.splits)

lemma read_entries_spec:
  "length acc \<le> MAX_DIR_ENTRIES \<Longrightarrow> read_entries hid raw acc = (es, truncated) \<Longrightarrow>
     es = take MAX_DIR_ENTRIES (acc @ map entry_of (filter (listed hid) raw)) \<and>
     (\<not> truncated \<longrightarrow> es = acc @ map entry_of (filter (listed hid) raw)) \<and>
     (truncated \<longrightarrow> length es = MAX_DIR_ENTRIES)"
proof (induction hid raw acc rule: read_entries.induct)
  case (2 hid e es' acc)
  then show ?case by (auto split: if_splits)
qed auto

lemma concat_windows:
  "0 < l \<Longrightarrow> length xs \<le> n * l \<Longrightarrow> concat (map (\<lambda>k. take l (drop (k * l) xs)) [0..<n]) = xs"
proof (induction n arbitrary: xs)
  case (Suc n)
  have "concat (map (\<lambda>k. take l (drop (k * l) xs)) [0..<Suc n]) =
      take l xs @ concat (map (\<lambda>k. take l (drop (k * l) (drop l xs))) [0..<n])"
    by (simp add: upt_conv_Cons map_Suc_upt [symmetric] comp_def add.commute del: upt_Suc)
  also have "concat (map (\<lambda>k. take l (drop (k * l) (drop l xs))) [0..<n]) = drop l xs"
    using Suc by (intro Suc.IH) auto
  finally show ?case by simp
qed simp

lemma try_names_spec:
  "try_names fs wd rel ns = Inr r \<Longrightarrow>
     \<exists>ms n bs p. ns = ms @ n # bs \<and> r = numbered rel n \<and> resolve_in_workdir fs wd r = Inr p \<and> \<not> path_exists fs p \<and>
       (\<forall>m\<in>set ms. \<exists>q. resolve_in_workdir fs wd (numbered rel m) = Inr q \<and> path_exists fs q)"
proof (induction ns)
  case (Cons n ns)
  then obtain p where p: "resolve_in_workdir fs wd (numbered rel n) = Inr p" by (auto split: sum.splits)
  show ?case
  proof (cases "path_exists fs p")
    case False
    then show ?thesis using Cons.prems p by (intro exI [of _ "[]"]) auto
  next
    case True
    then obtain ms k bs q where "ns = ms @ k # bs" "r = numbered rel k" "resolve_in_workdir fs wd r = Inr q"
      "\<not> path_exists fs q"
      "\<forall>m\<in>set ms. \<exists>q. resolve_in_workdir fs wd (numbered rel m) = Inr q \<and> path_exists fs q"
      using Cons p by auto
    then show ?thesis using True p by (intro exI [of _ "n # ms"]) auto
  qed
qed simp

section \<open>Properties\<close>


text \<open>
  C15. A write shows the old file or the new one, never a part.  In every state of the file system
  another program can see during the write, the target is as it was or has all the bytes, and nothing
  else differs but the staged file, whose name listings hide and which no other write of this process
  to the target uses.  On success the target has the bytes and the staged file is gone; on an error
  the target is as it was; a read-only target is refused with nothing written.
\<close>

theorem write_old_or_new:
  assumes "target \<noteq> []" and "write_atomic fault target bytes fs seq = (res, (fs', seq'), seen)"
  shows "(\<forall>g\<in>set seen. (g target = fs target \<or> g target = Some (File bytes False)) \<and>
      (\<forall>q. q \<noteq> target \<and> q \<noteq> tmp_name target seq \<longrightarrow> g q = fs q)) \<and>
    fs' \<in> set seen \<and> is_staged_tmp_name (last (tmp_name target seq)) \<and>
    (\<forall>s. tmp_name target s = tmp_name target seq \<longrightarrow> s = seq) \<and>
    (res = Inr () \<longrightarrow> fs' target = Some (File bytes False) \<and> fs' (tmp_name target seq) = None) \<and>
    (\<forall>e. res = Inl e \<longrightarrow> fs' target = fs target) \<and>
    (read_only (node_at fs target) \<longrightarrow> res = Inl ReadOnlyFile \<and> fs' = fs \<and> seq' = seq)"
proof (cases "read_only (node_at fs target)")
  case True
  then show ?thesis using assms(2) tmp_name_inj tmp_name_staged by (auto simp: write_atomic_def)
next
  case False
  have ne: "tmp_name target seq \<noteq> target" using tmp_name_differs [OF assms(1)] .
  show ?thesis
    using assms(2) False ne tmp_name_inj tmp_name_staged
    by (cases fault) (auto simp: write_atomic_def Let_def simp del: upt_Suc)
qed

text \<open>
  Windows cover the file.  Reading a text file in windows of \<open>l\<close> lines, from line 1 on and each
  from where the last ended, gives every line once and in order, as long as no window exceeds the
  output budget; each window says exactly how many lines are left after it, and the last says
  nothing.
\<close>

theorem windows_cover_the_file:
  assumes "from_utf8 bytes = Some content" and "0 \<notin> set (take 8192 bytes)" and "0 < l"
    and "length (rust_lines content) \<le> usize_max"
    and "\<forall>k. utf8_len (join [NL] (take l (drop (k * l) (rust_lines content)))) \<le> MAX_READ_OUTPUT_BYTES"
    and "length (rust_lines content) \<le> n * l"
  shows "(\<forall>k. k * l < length (rust_lines content) \<longrightarrow>
      render_text_read bytes (Some (k * l + 1)) (Some l) =
        Inr (join [NL] (take l (drop (k * l) (rust_lines content))),
          if (k + 1) * l < length (rust_lines content)
          then MoreLines (length (rust_lines content) - (k + 1) * l) else NoNote)) \<and>
    concat (map (\<lambda>k. take l (drop (k * l) (rust_lines content))) [0..<n]) = rust_lines content"
proof (intro conjI allI impI)
  fix k
  assume k: "k * l < length (rust_lines content)"
  let ?ls = "rust_lines content"
  have nobin: "0 \<notin> set (take (min (length bytes) 8192) bytes)" using assms(2) by (cases "length bytes \<le> 8192") simp_all
  define stop where "stop = min (k * l + l) (length ?ls)"
  have sat: "min (sat_add usize_max (k * l) (max l 1)) (length ?ls) = stop"
    using assms(3,4) by (simp add: sat_add_def max_def min_def stop_def)
  have start: "max (k * l + 1) 1 - 1 = k * l" by simp
  have win: "take (stop - k * l) (drop (k * l) ?ls) = take l (drop (k * l) ?ls)"
    by (cases "k * l + l \<le> length ?ls") (auto simp: min_def stop_def)
  have budget: "\<not> MAX_READ_OUTPUT_BYTES < utf8_len (join [NL] (take l (drop (k * l) ?ls)))"
    using assms(5) by (simp add: not_less)
  have ord: "\<not> stop < k * l" "\<not> (0 < length ?ls \<and> length ?ls \<le> k * l)" using k by (auto simp: stop_def)
  have "render_text_read bytes (Some (k * l + 1)) (Some l) =
      (if stop < length ?ls then Inr (join [NL] (take l (drop (k * l) ?ls)), MoreLines (length ?ls - stop))
       else Inr (join [NL] (take l (drop (k * l) ?ls)), NoNote))"
    unfolding render_text_read_def if_not_P [OF nobin] assms(1) option.case Let_def
    by (simp only: start sat win ord budget if_False)
  then show "render_text_read bytes (Some (k * l + 1)) (Some l) = Inr (join [NL] (take l (drop (k * l) ?ls)),
      if (k + 1) * l < length ?ls then MoreLines (length ?ls - (k + 1) * l) else NoNote)"
    by (auto simp: stop_def min_def add.commute)
next
  show "concat (map (\<lambda>k. take l (drop (k * l) (rust_lines content))) [0..<n]) = rust_lines content"
    using concat_windows [OF assms(3,6)] .
qed

text \<open>
  Reading from line 2 on in an empty file panics: it is the only case in which the slice of the
  lines is out of order.  The check that the offset is past the end is skipped for a file without
  lines.
\<close>

theorem empty_file_read_panics:
  assumes "\<forall>o'. offset = Some o' \<longrightarrow> o' < 2 ^ 32"
  shows "(\<exists>a b. render_text_read bytes offset limit = Inl (SlicePanics a b)) \<longleftrightarrow>
    bytes = [] \<and> (\<exists>o'. offset = Some o' \<and> 2 \<le> o')"
proof
  assume "bytes = [] \<and> (\<exists>o'. offset = Some o' \<and> 2 \<le> o')"
  then show "\<exists>a b. render_text_read bytes offset limit = Inl (SlicePanics a b)"
    by (auto simp: render_text_read_def rust_lines_def Let_def max_def)
next
  assume "\<exists>a b. render_text_read bytes offset limit = Inl (SlicePanics a b)"
  then obtain a b where r: "render_text_read bytes offset limit = Inl (SlicePanics a b)" by blast
  let ?start = "case offset of Some o' \<Rightarrow> max o' 1 - 1 | None \<Rightarrow> 0"
  let ?count = "case limit of Some l \<Rightarrow> max l 1 | None \<Rightarrow> DEFAULT_READ_LINES"
  obtain content where c: "from_utf8 bytes = Some content" "0 \<notin> set (take (min (length bytes) 8192) bytes)"
    using r by (auto simp: render_text_read_def split: if_splits option.splits)
  have small: "?start \<le> usize_max" using assms by (cases offset) (auto simp: usize_max_def max_def)
  have "\<not> (0 < length (rust_lines content) \<and> length (rust_lines content) \<le> ?start)"
    and stop: "min (sat_add usize_max ?start ?count) (length (rust_lines content)) < ?start"
    using r c by (auto simp: render_text_read_def Let_def split: if_splits)
  moreover have "?start \<le> sat_add usize_max ?start ?count" using small by (simp add: sat_add_def)
  ultimately have "rust_lines content = []" "0 < ?start" by auto
  then have "content = []" and o': "0 < ?start" by (simp_all add: rust_lines_Nil)
  then have "bytes = []" using c(1) from_utf8_empty by blast
  moreover have "\<exists>o'. offset = Some o' \<and> 2 \<le> o'" using o' by (cases offset) (auto simp: max_def split: if_splits)
  ultimately show "bytes = [] \<and> (\<exists>o'. offset = Some o' \<and> 2 \<le> o')" by blast
qed

text \<open>
  A listing is sorted, folders first and then by lower-case name, has at most 500 entries, no
  staged write, and no hidden name unless asked; it holds the first 500 entries that pass, and all of
  them when it does not say that it was cut.
\<close>

theorem listing_sorted_and_complete:
  assumes "collect_dir_entries to_lowercase hid raw = (es, truncated)"
  shows "sorted (map (key_of_entry to_lowercase) es) \<and>
    mset es = mset (take MAX_DIR_ENTRIES (map entry_of (filter (listed hid) raw))) \<and>
    length es \<le> MAX_DIR_ENTRIES \<and>
    (\<not> truncated \<longrightarrow> mset es = mset (map entry_of (filter (listed hid) raw))) \<and>
    (\<forall>e\<in>set es. \<not> is_staged_tmp_name (entry_name e) \<and> (hid \<or> \<not> prefix [DOT] (entry_name e)))"
proof -
  obtain xs t where x: "read_entries hid raw [] = (xs, t)" by fastforce
  have spec: "xs = take MAX_DIR_ENTRIES (map entry_of (filter (listed hid) raw))"
    "\<not> t \<longrightarrow> xs = map entry_of (filter (listed hid) raw)"
    using read_entries_spec [OF _ x] by auto
  have es: "es = sort_key (key_of_entry to_lowercase) xs" "truncated = t"
    using assms x by (simp_all add: collect_dir_entries_def)
  have "\<not> is_staged_tmp_name (entry_name e) \<and> (hid \<or> \<not> prefix [DOT] (entry_name e))" if e: "e \<in> set xs" for e
  proof -
    have "e \<in> set (map entry_of (filter (listed hid) raw))" using e spec(1) in_set_takeD by metis
    then show ?thesis by (auto simp: listed_def entry_of_def)
  qed
  then show ?thesis using es spec by (auto simp: spec(1))
qed

text \<open>
  A free name is free: the name found resolves to a path where nothing is; it is the name asked
  for when that is free, and else the first numbered one from 2 to 1000 that is, every earlier one
  being taken.
\<close>

theorem free_name_is_free:
  assumes "fs_find_available_path fs workdir rel = Inr name"
  shows "(\<exists>p. resolve_in_workdir fs workdir name = Inr p \<and> \<not> path_exists fs p) \<and>
    (name = rel \<or> (\<exists>n. 2 \<le> n \<and> n \<le> 1000 \<and> name = numbered rel n \<and>
      (\<forall>m. 2 \<le> m \<and> m < n \<longrightarrow> (\<exists>q. resolve_in_workdir fs workdir (numbered rel m) = Inr q \<and> path_exists fs q))))"
proof -
  obtain p where p: "resolve_in_workdir fs workdir rel = Inr p"
    using assms by (auto simp: fs_find_available_path_def split: sum.splits)
  show ?thesis
  proof (cases "path_exists fs p")
    case False
    then show ?thesis using assms p by (auto simp: fs_find_available_path_def)
  next
    case True
    then have "try_names fs workdir rel [2..<1001] = Inr name"
      using assms p by (simp add: fs_find_available_path_def del: upt.simps try_names.simps)
    then obtain ms n ns q where t: "[2..<1001] = ms @ n # ns" "name = numbered rel n"
      "resolve_in_workdir fs workdir name = Inr q" "\<not> path_exists fs q"
      "\<forall>m\<in>set ms. \<exists>q. resolve_in_workdir fs workdir (numbered rel m) = Inr q \<and> path_exists fs q"
      using try_names_spec by blast
    have len: "length ms < 999" using arg_cong [OF t(1), of length] by simp
    have "[2..<1001] ! length ms = n" unfolding t(1) by simp
    moreover have "[2..<1001] ! length ms = 2 + length ms" using len by (intro nth_upt) simp
    ultimately have n: "n = 2 + length ms" by (simp only:)
    have "ms = take (length ms) [2..<1001]" unfolding t(1) by simp
    also have "\<dots> = [2..<n]" using len n take_upt [of 2 "length ms" 1001] by simp
    finally have "set ms = {2..<n}" by (metis set_upt)
    then have "\<forall>m. 2 \<le> m \<and> m < n \<longrightarrow> (\<exists>q. resolve_in_workdir fs workdir (numbered rel m) = Inr q \<and> path_exists fs q)"
      using t(5) by auto
    moreover have "2 \<le> n" "n \<le> 1000" using n len by auto
    ultimately show ?thesis using t(2-4) by blast
  qed
qed

section \<open>Corners\<close>

text \<open>A link in the working directory that leads nowhere yet is accepted, although it points outside:
  the path given back is the link itself.\<close>

lemma dangling_link_accepted:
  "\<exists>fs. resolve_in_workdir fs [[119]] [108] = Inr [[119], [108]] \<and> fs [[119], [108]] = Some (Link [[111]])"
proof -
  let ?fs = "[[[119]] \<mapsto> Directory, [[119], [108]] \<mapsto> Link [[111]]] :: fs"
  have w: "canonicalize ?fs [[119]] = Some [[119]]" "canonicalize ?fs [[119], [108]] = None"
    by (simp_all add: canonicalize_def MAX_LINKS_def numeral_eq_Suc)
  have "resolve_in_workdir ?fs [[119]] [108] = Inr [[119], [108]]"
    using w
    by (simp add: resolve_in_workdir_def segments_def components_def DOTDOT_def path_exists_def
        resolve_nonexistent_def proper_ancestors_def Let_def)
  then show ?thesis by (intro exI [of _ ?fs]) simp
qed

text \<open>With exactly 500 entries that pass, the listing is complete, yet says it was cut when the folder
  yields one more entry, even a hidden one.\<close>

lemma full_listing_says_cut:
  assumes "\<forall>e\<in>set raw. listed False e" and "length raw = MAX_DIR_ENTRIES"
  shows "snd (collect_dir_entries to_lowercase False (raw @ [([DOT, 97], Some (False, 0))])) \<and>
    mset (fst (collect_dir_entries to_lowercase False (raw @ [([DOT, 97], Some (False, 0))])))
      = mset (map entry_of (filter (listed False) (raw @ [([DOT, 97], Some (False, 0))])))"
proof -
  have run: "length acc + length raw = MAX_DIR_ENTRIES \<Longrightarrow> \<forall>e\<in>set raw. listed False e \<Longrightarrow>
      read_entries False (raw @ [([DOT, 97], Some (False, 0))]) acc = (acc @ map entry_of raw, True)" for raw acc
    by (induction raw arbitrary: acc) (auto simp: MAX_DIR_ENTRIES_def)
  have "read_entries False (raw @ [([DOT, 97], Some (False, 0))]) [] = (map entry_of raw, True)"
    using run [of "[]" raw] assms by simp
  moreover have "filter (listed False) (raw @ [([DOT, 97], Some (False, 0))]) = raw"
    using assms(1) by (simp add: listed_def)
  ultimately show ?thesis by (simp add: collect_dir_entries_def)
qed

section \<open>Witnesses\<close>


lemma write_old_or_new_witness:
  "(\<lambda>g. g [[97]]) ` set (snd (snd (write_atomic (StagingFails 1 True) [[97]] [1, 2]
      [[[97]] \<mapsto> File [9] False] 0))) \<subseteq> {Some (File [9] False), Some (File [1, 2] False)}"
proof -
  let ?w = "write_atomic (StagingFails 1 True) [[97]] [1, 2] [[[97]] \<mapsto> File [9] False] 0"
  obtain res fs' seq' seen where w: "?w = (res, (fs', seq'), seen)" by (metis surj_pair)
  have "[[97]] \<noteq> ([] :: path)" by simp
  from write_old_or_new [OF this w] show ?thesis unfolding w by auto
qed

lemma windows_cover_the_file_witness:
  "render_text_read [97, NL, 98, NL, 99] (Some 3) (Some 2) = Inr ([99], NoNote) \<and>
   render_text_read [97, NL, 98, NL, 99] (Some 1) (Some 2) = Inr ([97, NL, 98], MoreLines 1)"
proof -
  let ?b = "[97, NL, 98, NL, 99]"
  have ls: "rust_lines ?b = [[97], [98], [99]]" by (simp add: rust_lines_def drop_cr_def)
  have c: "from_utf8 ?b = Some ?b" "0 \<notin> set (take 8192 ?b)"
    by (simp_all add: from_utf8.simps utf8_step_def)
  have small: "utf8_len (join [NL] (take 2 (drop (k * 2) (rust_lines ?b)))) \<le> MAX_READ_OUTPUT_BYTES" for k
  proof -
    consider "k = 0" | "k = 1" | "2 \<le> k" by linarith
    then show ?thesis unfolding ls
      by cases (simp_all add: utf8_len_def utf8_len_char_def MAX_READ_OUTPUT_BYTES_def)
  qed
  have w: "\<forall>k. k * 2 < length (rust_lines ?b) \<longrightarrow> render_text_read ?b (Some (k * 2 + 1)) (Some 2) =
        Inr (join [NL] (take 2 (drop (k * 2) (rust_lines ?b))),
          if (k + 1) * 2 < length (rust_lines ?b) then MoreLines (length (rust_lines ?b) - (k + 1) * 2) else NoNote)"
    using windows_cover_the_file [OF c, of 2 2] small by (simp add: ls usize_max_def)
  show ?thesis using w [rule_format, of 1] w [rule_format, of 0] unfolding ls by simp
qed

lemma empty_file_read_panics_witness:
  "\<exists>a b. render_text_read [] (Some 2) None = Inl (SlicePanics a b)"
  using empty_file_read_panics [of "Some 2" "[]" None] by simp

lemma listing_sorted_and_complete_witness:
  "mset (fst (collect_dir_entries (\<lambda>n. n) False
     [([98], Some (False, 1)), ([DOT, 97], Some (False, 1)), ([99], Some (True, 0))])) =
     {#\<lparr>entry_name = [98], is_dir = False, entry_size = 1\<rparr>, \<lparr>entry_name = [99], is_dir = True, entry_size = 0\<rparr>#} \<and>
   map entry_name (fst (collect_dir_entries (\<lambda>n. n) False
     [([98], Some (False, 1)), ([DOT, 97], Some (False, 1)), ([99], Some (True, 0))])) = [[99], [98]]"
proof -
  let ?c = "collect_dir_entries (\<lambda>n. n) False
     [([98], Some (False, 1)), ([DOT, 97], Some (False, 1)), ([99], Some (True, 0))]"
  have c: "?c = (fst ?c, snd ?c)" by simp
  have staged: "\<not> is_staged_tmp_name [98]" "\<not> is_staged_tmp_name [99]"
    by (simp_all add: is_staged_tmp_name_def TMP_WRITE_PREFIX_def lit_def)
  have m: "mset (fst ?c) = {#\<lparr>entry_name = [98], is_dir = False, entry_size = 1\<rparr>, \<lparr>entry_name = [99], is_dir = True, entry_size = 0\<rparr>#}"
    using listing_sorted_and_complete [OF c] staged
    by (simp add: listed_def entry_of_def MAX_DIR_ENTRIES_def)
  have "map entry_name (fst ?c) = [[99], [98]]"
    using staged by (simp add: collect_dir_entries_def listed_def entry_of_def MAX_DIR_ENTRIES_def key_of_entry_def insort_key_def)
  with m show ?thesis by blast
qed

lemma free_name_is_free_witness:
  "fs_find_available_path [[[119]] \<mapsto> Directory] [[119]] [120] = Inr [120] \<and>
   (\<exists>p. resolve_in_workdir [[[119]] \<mapsto> Directory] [[119]] [120] = Inr p \<and> \<not> path_exists [[[119]] \<mapsto> Directory] p)"
proof -
  let ?fs = "[[[119]] \<mapsto> Directory] :: fs"
  have w: "canonicalize ?fs [[119]] = Some [[119]]" "canonicalize ?fs [[119], [120]] = None"
    by (simp_all add: canonicalize_def)
  have "resolve_in_workdir ?fs [[119]] [120] = Inr [[119], [120]]"
    using w
    by (simp add: resolve_in_workdir_def segments_def components_def DOTDOT_def path_exists_def
        resolve_nonexistent_def proper_ancestors_def Let_def)
  then have a: "fs_find_available_path ?fs [[119]] [120] = Inr [120]"
    using w by (simp add: fs_find_available_path_def path_exists_def)
  show ?thesis using free_name_is_free [OF a] a by blast
qed

end
