(* ===== verification/Editor_Watches.thy ===== *)
theory Editor_Watches
  imports Workdir_Files
begin

text \<open>
  \<open>src-tauri/src/fs_tools/editor.rs\<close>: the files open in editor windows, the folders watched for
  them, what each window last saw, and saving.  A path is the list of its components below the
  root, so its parent is \<open>butlast\<close> and the root has none.  The crate \<open>notify\<close> (whether a watcher
  can be made and a folder watched), the start of the debounce thread and whether a folder lies in
  a WSL distro are the fields of \<open>notify_env\<close>; the content hash (the standard hasher and the
  length) is the parameter \<open>hash\<close>; the disk is a map from paths to bytes.
\<close>

section \<open>State\<close>

text \<open>The content hash a window last saw: \<open>None\<close> when the file did not exist.\<close>

type_synonym known = "rstr option"

type_synonym disk = "path \<Rightarrow> nat list option"

record notify_env =
  spawn_ok :: bool
  watcher_ok :: bool
  poller_ok :: bool
  watch_ok :: "path \<Rightarrow> bool"
  in_wsl :: "path \<Rightarrow> bool"

text \<open>\<open>watcher\<close> and \<open>poller\<close> hold the folders they watch; \<open>events\<close> says that the debounce thread
  runs.\<close>

record editor_state =
  files :: "(path \<times> (rstr \<times> known) list) list"
  dirs :: "(path \<times> nat) list"
  watcher :: "path list option"
  poller :: "path list option"
  failed :: "path list"
  events :: bool

record editor_file =
  ef_content :: "rstr option"
  ef_hash :: known
  ef_live :: bool

datatype editor_save = Saved rstr | Conflict known

datatype editor_error =
  NotAFile
| TooLargeToOpen nat
| ReadFailed
| EditorStatFailed
| NotText
| ContentTooLarge nat
| EditorWriteFailed

record file_changed =
  changed_label :: rstr
  changed_path :: path
  changed_hash :: known

definition editor_state_default :: editor_state where
  "editor_state_default =
    \<lparr>files = [], dirs = [], watcher = None, poller = None, failed = [], events = False\<rparr>"

definition disk_hash :: "(nat list \<Rightarrow> rstr) \<Rightarrow> disk \<Rightarrow> path \<Rightarrow> known" where
  "disk_hash hash d p = map_option hash (d p)"

section \<open>Watching\<close>

definition start_events :: "notify_env \<Rightarrow> editor_state \<Rightarrow> bool \<times> editor_state" where
  "start_events env st = (if events st then (True, st)
     else if spawn_ok env then (True, st\<lparr>events := True\<rparr>) else (False, st))"

definition watch_dir :: "notify_env \<Rightarrow> path \<Rightarrow> editor_state \<Rightarrow> bool \<times> editor_state" where
  "watch_dir env dir st =
    (let (ok, st) = start_events env st in
     if \<not> ok then (False, st)
     else if in_wsl env dir then
       (case poller st of
          None \<Rightarrow> if poller_ok env
            then (if watch_ok env dir then (True, st\<lparr>poller := Some [dir]\<rparr>) else (False, st\<lparr>poller := Some []\<rparr>))
            else (False, st)
        | Some ds \<Rightarrow> if watch_ok env dir then (True, st\<lparr>poller := Some (dir # ds)\<rparr>) else (False, st))
     else
       (case watcher st of
          None \<Rightarrow> if watcher_ok env
            then (if watch_ok env dir then (True, st\<lparr>watcher := Some [dir]\<rparr>) else (False, st\<lparr>watcher := Some []\<rparr>))
            else (False, st)
        | Some ds \<Rightarrow> if watch_ok env dir then (True, st\<lparr>watcher := Some (dir # ds)\<rparr>) else (False, st)))"

definition labels_of :: "editor_state \<Rightarrow> path \<Rightarrow> (rstr \<times> known) list" where
  "labels_of st p = (case map_of (files st) p of Some ls \<Rightarrow> ls | None \<Rightarrow> [])"

definition watch :: "notify_env \<Rightarrow> rstr \<Rightarrow> path \<Rightarrow> known \<Rightarrow> editor_state \<Rightarrow> bool \<times> editor_state" where
  "watch env label p k st =
    (let new_file = (map_of (files st) p = None);
         st = st\<lparr>files := AList.update p (AList.update label k (labels_of st p)) (files st)\<rparr>
     in case parent_of p of
          None \<Rightarrow> (False, st)
        | Some dir \<Rightarrow>
           if \<not> new_file then (dir \<notin> set (failed st), st)
           else
             (let count = (case map_of (dirs st) dir of Some n \<Rightarrow> n | None \<Rightarrow> 0) + 1;
                  st = st\<lparr>dirs := AList.update dir count (dirs st)\<rparr>
              in if 1 < count then (dir \<notin> set (failed st), st)
                 else
                   (let (ok, st) = watch_dir env dir st in
                    if ok then (True, st) else (False, st\<lparr>failed := List.insert dir (failed st)\<rparr>))))"

definition set_known :: "rstr \<Rightarrow> path \<Rightarrow> known \<Rightarrow> editor_state \<Rightarrow> editor_state" where
  "set_known label p k st = (case map_of (files st) p of
     None \<Rightarrow> st
   | Some ls \<Rightarrow> if map_of ls label = None then st
       else st\<lparr>files := AList.update p (AList.update label k ls) (files st)\<rparr>)"

definition known_of :: "rstr \<Rightarrow> path \<Rightarrow> editor_state \<Rightarrow> known option" where
  "known_of label p st = (case map_of (files st) p of None \<Rightarrow> None | Some ls \<Rightarrow> map_of ls label)"

definition unwatch_dir :: "path \<Rightarrow> editor_state \<Rightarrow> editor_state" where
  "unwatch_dir dir st =
     st\<lparr>watcher := map_option (filter (\<lambda>d. d \<noteq> dir)) (watcher st),
        poller := map_option (filter (\<lambda>d. d \<noteq> dir)) (poller st)\<rparr>"

definition unwatch_locked :: "rstr \<Rightarrow> path \<Rightarrow> editor_state \<Rightarrow> editor_state" where
  "unwatch_locked label p st =
    (case map_of (files st) p of
       None \<Rightarrow> st
     | Some ls \<Rightarrow>
        (let ls = AList.delete label ls in
         if ls \<noteq> [] then st\<lparr>files := AList.update p ls (files st)\<rparr>
         else
           (let st = st\<lparr>files := AList.delete p (files st)\<rparr> in
            case parent_of p of
              None \<Rightarrow> st
            | Some dir \<Rightarrow>
               (case map_of (dirs st) dir of
                  None \<Rightarrow> st
                | Some n \<Rightarrow>
                   if 0 < n - 1 then st\<lparr>dirs := AList.update dir (n - 1) (dirs st)\<rparr>
                   else
                     (let st = unwatch_dir dir (st\<lparr>dirs := AList.delete dir (dirs st),
                            failed := filter (\<lambda>d. d \<noteq> dir) (failed st)\<rparr>)
                      in if files st = [] then st\<lparr>watcher := None, poller := None, events := False\<rparr>
                         else st)))))"

definition unwatch :: "rstr \<Rightarrow> path \<Rightarrow> editor_state \<Rightarrow> editor_state" where
  "unwatch label p st = unwatch_locked label p st"

definition unwatch_label :: "rstr \<Rightarrow> editor_state \<Rightarrow> editor_state" where
  "unwatch_label label st =
    (let paths = map fst (filter (\<lambda>(_, ls). map_of ls label \<noteq> None) (files st))
     in fold (unwatch_locked label) paths st)"

definition stop_all :: "editor_state \<Rightarrow> editor_state" where
  "stop_all st = st\<lparr>files := [], dirs := [], failed := [], watcher := None, poller := None, events := False\<rparr>"

definition labels_for :: "path \<Rightarrow> editor_state \<Rightarrow> rstr set" where
  "labels_for p st = set (map fst (labels_of st p))"

section \<open>Telling the windows\<close>

text \<open>\<open>flush\<close> hashes the file and tells every window whose last-seen hash differs.\<close>

definition flush ::
  "(nat list \<Rightarrow> rstr) \<Rightarrow> disk \<Rightarrow> path \<Rightarrow> editor_state \<Rightarrow> file_changed list \<times> editor_state" where
  "flush hash d p st = (case map_of (files st) p of
     None \<Rightarrow> ([], st)
   | Some ls \<Rightarrow>
      (let now = disk_hash hash d p in
       (map (\<lambda>(l, _). \<lparr>changed_label = l, changed_path = p, changed_hash = now\<rparr>)
          (filter (\<lambda>(_, k). k \<noteq> now) ls),
        st\<lparr>files := AList.update p (map (\<lambda>(l, k). (l, if k \<noteq> now then now else k)) ls) (files st)\<rparr>)))"

text \<open>Which paths an event of the watcher forwards to the debounce thread: everything but an access
  that is not a close after writing.\<close>

datatype event_kind = AccessCloseWrite | AccessOther | OtherKind

definition forwarded :: "event_kind \<Rightarrow> path list \<Rightarrow> path list" where
  "forwarded k ps = (if k = AccessOther then [] else ps)"

section \<open>Reading and saving\<close>

text \<open>What \<open>stat\<close> and \<open>read\<close> find.\<close>

datatype file_on_disk =
  Missing
| StatError
| NoRegularFile
| Unreadable nat
| Bytes "nat list"

definition read_file ::
  "(nat list \<Rightarrow> rstr) \<Rightarrow> file_on_disk \<Rightarrow> editor_error + (rstr option \<times> known)" where
  "read_file hash f =
    (let load = (\<lambda>bs. case from_utf8 bs of Some t \<Rightarrow> Inr (Some t, Some (hash bs)) | None \<Rightarrow> Inl NotText)
     in case f of
          NoRegularFile \<Rightarrow> Inl NotAFile
        | Unreadable n \<Rightarrow> if MAX_READ_LOAD_BYTES < n then Inl (TooLargeToOpen n) else Inl ReadFailed
        | Bytes bs \<Rightarrow> if MAX_READ_LOAD_BYTES < length bs then Inl (TooLargeToOpen (length bs)) else load bs
        | Missing \<Rightarrow> Inr (None, None)
        | StatError \<Rightarrow> Inl EditorStatFailed)"

definition editor_read_file ::
  "notify_env \<Rightarrow> (nat list \<Rightarrow> rstr) \<Rightarrow> rstr \<Rightarrow> path \<Rightarrow> file_on_disk \<Rightarrow> editor_state \<Rightarrow>
     (editor_error + editor_file) \<times> editor_state" where
  "editor_read_file env hash label p f st = (case read_file hash f of
     Inl e \<Rightarrow> (Inl e, st)
   | Inr (content, h) \<Rightarrow>
      (let (live, st) = watch env label p h st
       in (Inr \<lparr>ef_content = content, ef_hash = h, ef_live = live\<rparr>, st)))"

text \<open>
  Saving takes the state lock several times, so it is two steps here.  \<open>save_begin\<close> goes up to
  recording the new hash; on success it leaves the bytes to write, and what to put back if the write
  fails.  \<open>save_finish\<close> is the write and what follows it.
\<close>

record save_ticket =
  st_bytes :: "nat list"
  st_hash :: rstr
  st_before :: known

definition save_begin ::
  "notify_env \<Rightarrow> (nat list \<Rightarrow> rstr) \<Rightarrow> rstr \<Rightarrow> path \<Rightarrow> rstr \<Rightarrow> known \<Rightarrow> bool \<Rightarrow> bool \<Rightarrow> disk \<Rightarrow>
     editor_state \<Rightarrow> ((editor_error + editor_save) + save_ticket) \<times> editor_state" where
  "save_begin env hash label p content expected force folder d st =
    (if MAX_WRITE_BYTES < utf8_len content then (Inl (Inl (ContentTooLarge (utf8_len content))), st)
     else if folder then (Inl (Inl NotAFile), st)
     else
       (let on_disk = disk_hash hash d p in
        if \<not> force \<and> on_disk \<noteq> expected then (Inl (Inr (Conflict on_disk)), st)
        else
          (let bytes = utf8_encode (like_existing (d p) content);
               h = hash bytes;
               before = known_of label p st;
               (live, st) = watch env label p (Some h) st
           in (Inr \<lparr>st_bytes = bytes, st_hash = h,
                 st_before = (case before of Some k \<Rightarrow> k | None \<Rightarrow> on_disk)\<rparr>, st))))"

definition save_finish ::
  "rstr \<Rightarrow> path \<Rightarrow> bool \<Rightarrow> save_ticket \<Rightarrow> disk \<Rightarrow> editor_state \<Rightarrow>
     (editor_error + editor_save) \<times> disk \<times> editor_state" where
  "save_finish label p write_ok t d st =
    (if write_ok then (Inr (Saved (st_hash t)), d(p \<mapsto> st_bytes t), st)
     else (Inl EditorWriteFailed, d, set_known label p (st_before t) st))"

definition save_file ::
  "notify_env \<Rightarrow> (nat list \<Rightarrow> rstr) \<Rightarrow> rstr \<Rightarrow> path \<Rightarrow> rstr \<Rightarrow> known \<Rightarrow> bool \<Rightarrow> bool \<Rightarrow> bool \<Rightarrow> disk \<Rightarrow>
     editor_state \<Rightarrow> (editor_error + editor_save) \<times> disk \<times> editor_state" where
  "save_file env hash label p content expected force folder write_ok d st =
    (case save_begin env hash label p content expected force folder d st of
       (Inl res, st) \<Rightarrow> (res, d, st)
     | (Inr t, st) \<Rightarrow> save_finish label p write_ok t d st)"

section \<open>The commands of all windows, interleaved\<close>

inductive watch_step :: "editor_state \<Rightarrow> editor_state \<Rightarrow> bool" where
  Watch: "p \<noteq> [] \<Longrightarrow> watch env label p k st = (live, st') \<Longrightarrow> watch_step st st'"
| SetKnown: "watch_step st (set_known label p k st)"
| Unwatch: "watch_step st (unwatch label p st)"
| UnwatchLabel: "watch_step st (unwatch_label label st)"
| StopAll: "watch_step st (stop_all st)"
| Flush: "flush hash d p st = (told, st') \<Longrightarrow> watch_step st st'"

inductive_cases watch_stepE: "watch_step st st'"

section \<open>File lists\<close>

definition VIEWABLE_EXTS :: "string list" where
  "VIEWABLE_EXTS = [''glb'', ''png'', ''jpg'', ''jpeg'', ''webp'', ''gif'', ''bmp'', ''svg'', ''wav'', ''mp3'',
     ''ogg'', ''oga'', ''opus'', ''flac'', ''m4a'', ''aac'']"

definition is_viewable :: "rstr option \<Rightarrow> bool" where
  "is_viewable ext = (case ext of None \<Rightarrow> False
     | Some e \<Rightarrow> list_ex (\<lambda>v. eq_ignore_ascii_case e (lit v)) VIEWABLE_EXTS)"

definition SNIFF_BYTES :: nat where "SNIFF_BYTES = 8192"

definition looks_like_text :: "nat list option \<Rightarrow> bool" where
  "looks_like_text f = (case f of None \<Rightarrow> False
     | Some bs \<Rightarrow> \<not> MAX_READ_LOAD_BYTES < length bs \<and> 0 \<notin> set (take SNIFF_BYTES bs))"

end
