(* ===== verification/Editor_Watches_Props.thy ===== *)
theory Editor_Watches_Props
  imports Editor_Watches
begin

text \<open>
  The watches of the editor windows: the folder counts are right and a folder is watched exactly as
  reported, a flush tells every window that is behind and no other, and a save overwrites nothing
  unseen.
\<close>

section \<open>The invariant\<close>

definition files_in :: "editor_state \<Rightarrow> path \<Rightarrow> nat" where
  "files_in st d = length (filter (\<lambda>p. parent_of p = Some d) (map fst (files st)))"

definition watched :: "editor_state \<Rightarrow> path set" where
  "watched st = (case watcher st of Some ds \<Rightarrow> set ds | None \<Rightarrow> {}) \<union> (case poller st of Some ds \<Rightarrow> set ds | None \<Rightarrow> {})"

definition files_ok :: "editor_state \<Rightarrow> bool" where
  "files_ok st \<longleftrightarrow> store_ok (files st) \<and> (\<forall>(p, ls)\<in>set (files st). p \<noteq> [] \<and> ls \<noteq> [] \<and> store_ok ls)"

definition dirs_ok :: "editor_state \<Rightarrow> bool" where
  "dirs_ok st \<longleftrightarrow> store_ok (dirs st) \<and>
     (\<forall>d. map_of (dirs st) d = (if files_in st d = 0 then None else Some (files_in st d)))"

definition live_ok :: "editor_state \<Rightarrow> bool" where
  "live_ok st \<longleftrightarrow> set (failed st) \<inter> watched st = {} \<and> set (failed st) \<union> watched st = dom (map_of (dirs st))"

definition idle_ok :: "editor_state \<Rightarrow> bool" where
  "idle_ok st \<longleftrightarrow> (files st = [] \<longrightarrow> watcher st = None \<and> poller st = None \<and> \<not> events st)"

definition watches_ok :: "editor_state \<Rightarrow> bool" where
  "watches_ok st \<longleftrightarrow> files_ok st \<and> dirs_ok st \<and> live_ok st \<and> idle_ok st"

lemmas watches_defs = watches_ok_def files_ok_def dirs_ok_def live_ok_def idle_ok_def

lemma watches_ok_init: "watches_ok editor_state_default"
  by (auto simp: watches_defs editor_state_default_def files_in_def watched_def store_simps)

lemma watches_ok_stop_all: "watches_ok (stop_all st)"
  by (auto simp: watches_defs stop_all_def files_in_def watched_def store_simps)

lemma parent_Some: "p \<noteq> [] \<Longrightarrow> parent_of p = Some (butlast p)"
  by (simp add: parent_of_def)

lemma parent_None: "parent_of p = None \<longleftrightarrow> p = []"
  by (simp add: parent_of_def)

text \<open>Changing the labels of a watched file changes no key.\<close>

definition same_but_files :: "editor_state \<Rightarrow> editor_state \<Rightarrow> bool" where
  "same_but_files st st' \<longleftrightarrow> map fst (files st') = map fst (files st) \<and> dirs st' = dirs st \<and>
     watcher st' = watcher st \<and> poller st' = poller st \<and> failed st' = failed st \<and> events st' = events st"

lemma same_but_files_ok:
  assumes "watches_ok st" "same_but_files st st'" "files_ok st'"
  shows "watches_ok st'"
proof -
  have "files_in st' = files_in st" "watched st' = watched st"
    using assms(2) by (auto simp: same_but_files_def files_in_def watched_def)
  moreover have "files st' = [] \<longleftrightarrow> files st = []"
    using assms(2) by (metis same_but_files_def list.map_disc_iff)
  ultimately show ?thesis using assms by (simp add: watches_defs same_but_files_def)
qed

lemma files_ok_update:
  assumes "files_ok st" "p \<noteq> []" "ls \<noteq> []" "store_ok ls"
  shows "files_ok (st\<lparr>files := AList.update p ls (files st)\<rparr>)"
proof -
  have ok: "store_ok (AList.update p ls (files st))" using assms(1) by (simp add: files_ok_def store_simps)
  have "q \<noteq> [] \<and> ms \<noteq> [] \<and> store_ok ms" if "(q, ms) \<in> set (AList.update p ls (files st))" for q ms
  proof -
    have "map_of (AList.update p ls (files st)) q = Some ms" using that ok by (simp add: store_ok_mem)
    then show ?thesis using assms by (auto simp: update_conv' files_ok_def dest: map_of_SomeD split: if_splits)
  qed
  then show ?thesis using ok by (auto simp: files_ok_def)
qed

lemma files_ok_labels:
  "files_ok st \<Longrightarrow> map_of (files st) p = Some ls \<Longrightarrow> p \<noteq> [] \<and> ls \<noteq> [] \<and> store_ok ls"
  by (auto simp: files_ok_def dest: map_of_SomeD)

lemma relabel_ok:
  assumes "watches_ok st" "map_of (files st) p = Some ls" "ms \<noteq> []" "store_ok ms"
  shows "watches_ok (st\<lparr>files := AList.update p ms (files st)\<rparr>)"
proof (rule same_but_files_ok [OF assms(1)])
  have "p \<in> set (map fst (files st))" using assms(2) by (force dest: map_of_SomeD)
  then show "same_but_files st (st\<lparr>files := AList.update p ms (files st)\<rparr>)"
    by (simp add: same_but_files_def update_keys)
  show "files_ok (st\<lparr>files := AList.update p ms (files st)\<rparr>)"
    using assms files_ok_labels [of st p ls] by (intro files_ok_update) (auto simp: watches_ok_def)
qed

lemma AList_update_not_Nil [simp]: "AList.update k v m \<noteq> []"
  by (cases m) auto

lemma set_known_ok: "watches_ok st \<Longrightarrow> watches_ok (set_known label p k st)"
  using files_ok_labels [of st p]
  by (auto simp: set_known_def watches_ok_def [of st] store_simps intro!: relabel_ok split: option.splits)

lemma flush_ok:
  assumes "watches_ok st" "flush hash d p st = (told, st')"
  shows "watches_ok st'"
proof (cases "map_of (files st) p")
  case None
  then show ?thesis using assms by (simp add: flush_def)
next
  case (Some ls)
  let ?now = "disk_hash hash d p"
  let ?ms = "map (\<lambda>(l, k). (l, if k \<noteq> ?now then ?now else k)) ls"
  have ls: "ls \<noteq> []" "store_ok ls" using assms(1) Some files_ok_labels [of st p] by (auto simp: watches_ok_def)
  have "map fst ?ms = map fst ls" by (auto simp: comp_def case_prod_beta)
  then have "store_ok ?ms" using ls(2) unfolding store_ok_def by (simp only:)
  then show ?thesis
    using assms(2) Some ls(1) relabel_ok [OF assms(1) Some, of ?ms] by (auto simp: flush_def Let_def)
qed

section \<open>Watching keeps the counts\<close>

lemma watched_simps [simp]:
  "watched (st\<lparr>files := f\<rparr>) = watched st" "watched (st\<lparr>dirs := ds\<rparr>) = watched st"
  "watched (st\<lparr>failed := fl\<rparr>) = watched st" "watched (st\<lparr>events := e\<rparr>) = watched st"
  by (simp_all add: watched_def)

lemma files_in_simps [simp]:
  "files_in (st\<lparr>dirs := ds\<rparr>) = files_in st" "files_in (st\<lparr>failed := fl\<rparr>) = files_in st"
  "files_in (st\<lparr>events := e\<rparr>) = files_in st" "files_in (st\<lparr>watcher := w\<rparr>) = files_in st"
  "files_in (st\<lparr>poller := w\<rparr>) = files_in st"
  by (simp_all add: files_in_def fun_eq_iff)

lemma ok_failed [simp]:
  "files_ok (st\<lparr>failed := fl\<rparr>) = files_ok st" "dirs_ok (st\<lparr>failed := fl\<rparr>) = dirs_ok st"
  by (simp_all add: files_ok_def dirs_ok_def)

lemma start_events_spec:
  "start_events env st = (ok, st') \<Longrightarrow> st' = st \<or> st' = st\<lparr>events := True\<rparr>"
  by (auto simp: start_events_def split: if_splits)

lemma watched_poller: "watched (st\<lparr>poller := Some ds\<rparr>) = (case watcher st of Some ws \<Rightarrow> set ws | None \<Rightarrow> {}) \<union> set ds"
  by (simp add: watched_def)

lemma watched_watcher: "watched (st\<lparr>watcher := Some ds\<rparr>) = set ds \<union> (case poller st of Some ws \<Rightarrow> set ws | None \<Rightarrow> {})"
  by (simp add: watched_def)

lemma watch_dir_spec:
  assumes "watch_dir env dir st = (ok, st')"
  shows "files st' = files st \<and> dirs st' = dirs st \<and> failed st' = failed st \<and>
    watched st' = (if ok then insert dir (watched st) else watched st)"
proof -
  obtain ok1 st1 where s: "start_events env st = (ok1, st1)" by (metis surj_pair)
  have st1: "files st1 = files st" "dirs st1 = dirs st" "failed st1 = failed st" "watched st1 = watched st"
    using start_events_spec [OF s] by auto
  consider "\<not> ok1" | "ok1" "in_wsl env dir" | "ok1" "\<not> in_wsl env dir" by blast
  then show ?thesis
  proof cases
    case 1
    then show ?thesis using assms s st1 by (simp add: watch_dir_def)
  next
    case 2
    then have "(ok, st') = (case poller st1 of
          None \<Rightarrow> if poller_ok env
            then (if watch_ok env dir then (True, st1\<lparr>poller := Some [dir]\<rparr>) else (False, st1\<lparr>poller := Some []\<rparr>))
            else (False, st1)
        | Some ds \<Rightarrow> if watch_ok env dir then (True, st1\<lparr>poller := Some (dir # ds)\<rparr>) else (False, st1))"
      using assms s by (simp add: watch_dir_def)
    then show ?thesis using st1
      by (cases "poller st1") (auto simp: watched_poller watched_def [of st1] split: if_splits)
  next
    case 3
    then have "(ok, st') = (case watcher st1 of
          None \<Rightarrow> if watcher_ok env
            then (if watch_ok env dir then (True, st1\<lparr>watcher := Some [dir]\<rparr>) else (False, st1\<lparr>watcher := Some []\<rparr>))
            else (False, st1)
        | Some ds \<Rightarrow> if watch_ok env dir then (True, st1\<lparr>watcher := Some (dir # ds)\<rparr>) else (False, st1))"
      using assms s by (simp add: watch_dir_def)
    then show ?thesis using st1
      by (cases "watcher st1") (auto simp: watched_watcher watched_def [of st1] split: if_splits)
  qed
qed

lemma files_in_new:
  assumes "map_of (files st) p = None"
  shows "files_in (st\<lparr>files := AList.update p ls (files st)\<rparr>) d =
    files_in st d + (if parent_of p = Some d then 1 else 0)"
proof -
  have "p \<notin> set (map fst (files st))" using assms by (simp add: map_of_eq_None_iff)
  then show ?thesis by (simp add: files_in_def update_keys)
qed

lemma watch_ok_preserved:
  assumes "watches_ok st" "p \<noteq> []" "watch env label p k st = (live, st')"
  shows "watches_ok st'"
proof (cases "map_of (files st) p")
  case (Some ls)
  have "st' = st\<lparr>files := AList.update p (AList.update label k ls) (files st)\<rparr>"
    using assms(2,3) Some by (simp add: watch_def labels_of_def parent_Some Let_def)
  then show ?thesis
    using relabel_ok [OF assms(1) Some] files_ok_labels [OF _ Some] assms(1)
    by (simp add: watches_ok_def [of st] store_simps)
next
  case None
  let ?dir = "butlast p"
  define st1 where "st1 = st\<lparr>files := AList.update p [(label, k)] (files st)\<rparr>"
  define n where "n = (case map_of (dirs st) ?dir of Some n \<Rightarrow> n | None \<Rightarrow> 0)"
  define st2 where "st2 = st1\<lparr>dirs := AList.update ?dir (n + 1) (dirs st1)\<rparr>"
  have st': "(live, st') = (if 1 < n + 1 then (?dir \<notin> set (failed st2), st2)
      else let (ok, st3) = watch_dir env ?dir st2
           in if ok then (True, st3) else (False, st3\<lparr>failed := List.insert ?dir (failed st3)\<rparr>))"
    using assms(2,3) None
    by (auto simp: watch_def labels_of_def parent_Some Let_def st1_def st2_def n_def split: option.splits)
  have n: "n = files_in st ?dir" using assms(1) by (auto simp: watches_ok_def dirs_ok_def n_def)
  have fi: "files_in st2 d = files_in st d + (if ?dir = d then 1 else 0)" for d
    using files_in_new [OF None] assms(2) by (simp add: st2_def st1_def parent_Some)
  have f2: "files_ok st2"
    using files_ok_update [of st p "[(label, k)]"] assms(1,2)
    by (simp add: watches_ok_def files_ok_def st2_def st1_def store_ok_def)
  have d2: "dirs_ok st2"
    using assms(1) unfolding dirs_ok_def fi
    by (auto simp: watches_ok_def dirs_ok_def st2_def st1_def store_simps update_conv' n split: if_splits)
  have dom2: "dom (map_of (dirs st2)) = insert ?dir (dom (map_of (dirs st)))"
    by (simp add: st2_def st1_def update_conv')
  have w2: "watched st2 = watched st" "failed st2 = failed st" "files st2 \<noteq> []"
    by (simp_all add: st2_def st1_def)
  have live: "set (failed st) \<inter> watched st = {}" "set (failed st) \<union> watched st = dom (map_of (dirs st))"
    using assms(1) by (auto simp: watches_ok_def live_ok_def)
  show ?thesis
  proof (cases "0 < n")
    case True
    then have "?dir \<in> dom (map_of (dirs st))" by (auto simp: n_def split: option.splits)
    then have "live_ok st2" using live dom2 w2 by (auto simp: live_ok_def)
    then show ?thesis using True st' f2 d2 w2 by (simp add: watches_ok_def idle_ok_def)
  next
    case False
    then have "map_of (dirs st) ?dir = None" using n assms(1) by (simp add: watches_ok_def dirs_ok_def)
    then have new: "?dir \<notin> set (failed st)" "?dir \<notin> watched st" using live by auto
    obtain ok st3 where w: "watch_dir env ?dir st2 = (ok, st3)" by fastforce
    have st3: "files st3 = files st2" "dirs st3 = dirs st2" "failed st3 = failed st"
        "watched st3 = (if ok then insert ?dir (watched st) else watched st)"
      using watch_dir_spec [OF w] w2 by auto
    have "files_ok st3" "dirs_ok st3" using f2 d2 st3 by (auto simp: files_ok_def dirs_ok_def files_in_def)
    moreover have "live_ok st3" if ok
      using that live new dom2 st3 by (auto simp: live_ok_def)
    moreover have "live_ok (st3\<lparr>failed := List.insert ?dir (failed st3)\<rparr>)" if "\<not> ok"
      using that live new dom2 st3 by (auto simp: live_ok_def)
    ultimately show ?thesis
      using False st' w st3(1) w2(3) by (auto simp: watches_ok_def idle_ok_def split: if_splits)
  qed
qed

section \<open>Unwatching keeps them\<close>

lemma files_in_delete:
  assumes "store_ok (files st)" "map_of (files st) p \<noteq> None"
  shows "files_in (st\<lparr>files := AList.delete p (files st)\<rparr>) d + (if parent_of p = Some d then 1 else 0) =
    files_in st d"
proof -
  have "p \<in> set (map fst (files st))" using assms(2) by (simp add: map_of_eq_None_iff)
  then obtain a b where ks: "map fst (files st) = a @ p # b" by (meson split_list)
  then have "p \<notin> set a" "p \<notin> set b" using assms(1) by (auto simp: store_ok_def)
  then show ?thesis by (simp add: files_in_def delete_keys ks)
qed

lemma watched_unwatch_dir [simp]:
  "watched (unwatch_dir d st) = watched st - {d}" "files (unwatch_dir d st) = files st"
  "dirs (unwatch_dir d st) = dirs st" "failed (unwatch_dir d st) = failed st"
  by (auto simp: unwatch_dir_def watched_def split: option.splits)

lemma files_ok_delete: "files_ok st \<Longrightarrow> files_ok (st\<lparr>files := AList.delete p (files st)\<rparr>)"
proof -
  have "set (AList.delete p (files st)) \<subseteq> set (files st)" by (auto simp: AList.delete_eq)
  then show "files_ok st \<Longrightarrow> files_ok (st\<lparr>files := AList.delete p (files st)\<rparr>)"
    by (auto simp: files_ok_def store_simps)
qed

lemma unwatch_locked_ok:
  assumes "watches_ok st"
  shows "watches_ok (unwatch_locked label p st)"
proof (cases "map_of (files st) p")
  case None
  then show ?thesis using assms by (simp add: unwatch_locked_def)
next
  case (Some ls)
  have ls: "p \<noteq> []" "store_ok ls" using assms Some files_ok_labels [of st p ls] by (auto simp: watches_ok_def)
  let ?dir = "butlast p" and ?ls = "AList.delete label ls"
  show ?thesis
  proof (cases "?ls = []")
    case False
    then show ?thesis using assms Some ls relabel_ok [OF assms Some False]
      by (simp add: unwatch_locked_def store_simps)
  next
    case True
    define st1 where "st1 = st\<lparr>files := AList.delete p (files st)\<rparr>"
    have fi: "files_in st1 d + (if ?dir = d then 1 else 0) = files_in st d" for d
      using files_in_delete [of st p d] assms Some ls(1)
      by (simp add: watches_ok_def files_ok_def parent_Some st1_def)
    have f1: "files_ok st1" using assms files_ok_delete by (simp add: watches_ok_def st1_def)
    have s1: "dirs st1 = dirs st" "failed st1 = failed st" "watched st1 = watched st" by (simp_all add: st1_def)
    have n: "map_of (dirs st) ?dir = Some (files_in st1 ?dir + 1)"
      using assms fi [of ?dir] by (auto simp: watches_ok_def dirs_ok_def)
    have other: "map_of (dirs st) d = (if files_in st1 d = 0 then None else Some (files_in st1 d))" if "d \<noteq> ?dir" for d
      using assms fi [of d] that by (auto simp: watches_ok_def dirs_ok_def)
    have sd: "store_ok (dirs st)" using assms by (simp add: watches_ok_def dirs_ok_def)
    have live: "set (failed st) \<inter> watched st = {}" "set (failed st) \<union> watched st = dom (map_of (dirs st))"
      using assms by (auto simp: watches_ok_def live_ok_def)
    have un: "unwatch_locked label p st =
       (if 0 < files_in st1 ?dir then st1\<lparr>dirs := AList.update ?dir (files_in st1 ?dir) (dirs st1)\<rparr>
        else let st2 = unwatch_dir ?dir (st1\<lparr>dirs := AList.delete ?dir (dirs st1),
                 failed := filter (\<lambda>d. d \<noteq> ?dir) (failed st1)\<rparr>)
             in if files st2 = [] then st2\<lparr>watcher := None, poller := None, events := False\<rparr> else st2)"
      using Some True ls(1) n by (simp add: unwatch_locked_def parent_Some Let_def st1_def)
    show ?thesis
    proof (cases "0 < files_in st1 ?dir")
      case True
      let ?st = "st1\<lparr>dirs := AList.update ?dir (files_in st1 ?dir) (dirs st1)\<rparr>"
      have "dirs_ok ?st" using True other sd s1 by (auto simp: dirs_ok_def store_simps update_conv')
      moreover have "dom (map_of (dirs ?st)) = dom (map_of (dirs st))" using n s1 by (auto simp: update_conv')
      then have "live_ok ?st" using live s1 unfolding live_ok_def by simp
      moreover have "files st1 \<noteq> []" using True by (auto simp: files_in_def)
      ultimately show ?thesis using True f1 by (simp add: un watches_ok_def files_ok_def idle_ok_def)
    next
      case False
      let ?st = "unwatch_dir ?dir (st1\<lparr>dirs := AList.delete ?dir (dirs st1),
                 failed := filter (\<lambda>d. d \<noteq> ?dir) (failed st1)\<rparr>)"
      have d2: "dirs_ok ?st"
        using False other sd s1 by (auto simp: dirs_ok_def store_simps delete_conv' files_in_def)
      have f2: "files_ok ?st" using f1 by (simp add: files_ok_def)
      have dom: "dom (map_of (dirs ?st)) = dom (map_of (dirs st)) - {?dir}"
        using s1 by (auto simp: delete_conv')
      have l2: "set (failed ?st) \<inter> watched ?st = {}" "set (failed ?st) \<union> watched ?st = dom (map_of (dirs ?st))"
        unfolding dom using live s1 by auto
      show ?thesis
      proof (cases "files ?st = []")
        case True
        then have "map_of (dirs ?st) d = None" for d
          using d2 unfolding dirs_ok_def files_in_def by simp
        then have "map_of (dirs ?st) = Map.empty" by (rule ext)
        then have d: "dirs ?st = []" by (simp only: map_of_eq_empty_iff)
        then have "failed ?st = []" using l2 by auto
        note this d
        then show ?thesis using False True
          by (simp add: un Let_def watches_defs watched_def files_in_def store_simps)
      next
        case nonempty: False
        then show ?thesis using False f2 d2 l2 by (simp add: un Let_def watches_ok_def live_ok_def idle_ok_def)
      qed
    qed
  qed
qed

lemma unwatch_label_ok:
  assumes "watches_ok st"
  shows "watches_ok (unwatch_label label st)"
proof -
  have "watches_ok (fold (unwatch_locked label) ps s)" if "watches_ok s" for ps s
    using that by (induction ps arbitrary: s) (auto intro: unwatch_locked_ok)
  then show ?thesis using assms by (simp add: unwatch_label_def)
qed

lemma watch_step_ok: "watches_ok st \<Longrightarrow> watch_step st st' \<Longrightarrow> watches_ok st'"
  by (erule watch_step.cases)
    (auto intro: watch_ok_preserved set_known_ok unwatch_locked_ok unwatch_label_ok watches_ok_stop_all flush_ok
      simp: unwatch_def)

interpretation watches_sys: guarded_system editor_state_default watch_step watches_ok
  by unfold_locales (auto intro: watches_ok_init watch_step_ok)

section \<open>What a closing window leaves\<close>

lemma files_unwatch:
  "files (unwatch_locked label p st) = (case map_of (files st) p of
     None \<Rightarrow> files st
   | Some ls \<Rightarrow> if AList.delete label ls = [] then AList.delete p (files st)
       else AList.update p (AList.delete label ls) (files st))"
  by (simp add: unwatch_locked_def Let_def split: option.splits)

lemma known_unwatch:
  "known_of l q (unwatch_locked label p st) =
     (if l = label \<and> q = p then None else known_of l q st)"
proof -
  have drop: "AList.delete label ls = [] \<Longrightarrow> l \<noteq> label \<Longrightarrow> map_of ls l = None" for ls :: "(rstr \<times> known) list"
    by (metis delete_conv' fun_upd_other map_of.simps(1))
  have gone: "map_of (AList.delete label ls) label = None" for ls :: "(rstr \<times> known) list"
    by (simp add: delete_conv')
  show ?thesis
    using drop gone
    by (auto simp: known_of_def files_unwatch update_conv' delete_conv' simp del: map_of_delete split: option.splits)
qed

lemma known_unwatch_fold:
  "known_of l q (fold (unwatch_locked label) ps st) =
     (if l = label \<and> q \<in> set ps then None else known_of l q st)"
  by (induction ps arbitrary: st) (auto simp: known_unwatch)

lemma known_unwatch_label: "known_of l q (unwatch_label label st) = (if l = label then None else known_of l q st)"
proof -
  have "q \<in> set (map fst (filter (\<lambda>(_, ls). map_of ls label \<noteq> None) (files st)))" if "known_of label q st \<noteq> None"
    using that by (force simp: known_of_def dest: map_of_SomeD split: option.splits)
  then show ?thesis unfolding unwatch_label_def Let_def known_unwatch_fold
    by (cases "known_of label q st") auto
qed

text \<open>What \<open>watch\<close> reports.\<close>

lemma watch_files:
  "watch env label p k st = (live, st') \<Longrightarrow> files st' = AList.update p (AList.update label k (labels_of st p)) (files st)"
  by (auto simp: watch_def Let_def dest: watch_dir_spec split: if_splits option.splits prod.splits)

lemma watch_known: "watch env label p k st = (live, st') \<Longrightarrow> known_of l q st' =
    (if l = label \<and> q = p then Some k else known_of l q st)"
  by (frule watch_files) (auto simp: known_of_def labels_of_def update_conv' split: option.splits)

lemma watch_live:
  assumes "watch env label p k st = (live, st')" "p \<noteq> []"
  shows "live \<and> (butlast p \<in> watched st' \<or> butlast p \<notin> set (failed st')) \<or> \<not> live \<and> butlast p \<in> set (failed st')"
  using assms(1)
  by (auto simp: watch_def parent_Some [OF assms(2)] Let_def dest: watch_dir_spec split: if_splits option.splits prod.splits)

lemma watch_reports:
  assumes "watches_ok st" "p \<noteq> []" "watch env label p k st = (live, st')"
  shows "live = (butlast p \<in> watched st')"
proof -
  have ok: "watches_ok st'" using watch_ok_preserved [OF assms] .
  have "p \<in> set (map fst (files st'))" using watch_files [OF assms(3)] by (simp add: update_keys)
  then have "0 < files_in st' (butlast p)"
    using parent_Some [OF assms(2)] by (auto simp: files_in_def filter_empty_conv)
  then have "butlast p \<in> dom (map_of (dirs st'))" using ok by (auto simp: watches_ok_def dirs_ok_def)
  then have "butlast p \<in> set (failed st') \<union> watched st'" "set (failed st') \<inter> watched st' = {}"
    using ok by (auto simp: watches_ok_def live_ok_def)
  then show ?thesis using watch_live [OF assms(3,2)] by auto
qed

text \<open>What \<open>flush\<close> tells and leaves.\<close>

lemma map_of_map_pair: "map_of (map (\<lambda>(l, k). (l, f k)) ls) = map_option f \<circ> map_of ls"
  by (induction ls) (auto simp: fun_eq_iff)

lemma flush_known:
  assumes "flush hash d p st = (told, st')"
  shows "known_of l q st' = (if q = p \<and> known_of l p st \<noteq> None then Some (disk_hash hash d p) else known_of l q st)"
proof (cases "map_of (files st) p")
  case None
  then show ?thesis using assms by (auto simp: flush_def known_of_def)
next
  case (Some ls)
  let ?now = "disk_hash hash d p"
  have "st' = st\<lparr>files := AList.update p (map (\<lambda>(l, k). (l, if k \<noteq> ?now then ?now else k)) ls) (files st)\<rparr>"
    using assms Some by (auto simp: flush_def Let_def)
  then show ?thesis
    using Some map_of_map_pair [of "\<lambda>k. if k \<noteq> ?now then ?now else k" ls]
    by (auto simp: known_of_def update_conv' split: option.splits)
qed

lemma flush_told:
  assumes "watches_ok st" "flush hash d p st = (told, st')"
  shows "set told = {\<lparr>changed_label = l, changed_path = p, changed_hash = disk_hash hash d p\<rparr> | l.
      \<exists>k. known_of l p st = Some k \<and> k \<noteq> disk_hash hash d p} \<and> distinct told"
proof (cases "map_of (files st) p")
  case None
  then show ?thesis using assms by (simp add: flush_def known_of_def)
next
  case (Some ls)
  let ?now = "disk_hash hash d p"
  have told: "told = map (\<lambda>(l, _). \<lparr>changed_label = l, changed_path = p, changed_hash = ?now\<rparr>)
      (filter (\<lambda>(_, k). k \<noteq> ?now) ls)"
    using assms(2) Some by (simp add: flush_def Let_def)
  have ok: "store_ok ls" using assms(1) Some files_ok_labels [of st p ls] by (auto simp: watches_ok_def)
  have "set told = {\<lparr>changed_label = l, changed_path = p, changed_hash = ?now\<rparr> | l. \<exists>k. (l, k) \<in> set ls \<and> k \<noteq> ?now}"
    by (force simp: told)
  moreover have "distinct (map changed_label told)"
    using ok by (auto simp: told comp_def case_prod_beta store_ok_def distinct_map_filter)
  ultimately show ?thesis
    using ok Some by (auto simp: known_of_def store_ok_mem distinct_map)
qed

lemma set_known_known:
  "known_of l q (set_known label p k st) =
    (if l = label \<and> q = p \<and> known_of l q st \<noteq> None then Some k else known_of l q st)"
  by (auto simp: set_known_def known_of_def update_conv' split: option.splits)

text \<open>The ways a save can go: refused, a conflict, or the hash recorded and the write tried.\<close>

lemma save_file_cases:
  assumes "save_file env hash label p content expected force folder write_ok d st = (res, d', st')"
  obtains (refused) e where "res = Inl e" "d' = d" "st' = st"
  | (conflict) "res = Inr (Conflict (disk_hash hash d p))" "\<not> force" "disk_hash hash d p \<noteq> expected" "d' = d" "st' = st"
  | (wrote) live st1 bs where "force \<or> disk_hash hash d p = expected"
      "watch env label p (Some (hash bs)) st = (live, st1)"
      "if write_ok then res = Inr (Saved (hash bs)) \<and> d' = d(p \<mapsto> bs) \<and> st' = st1
       else res = Inl EditorWriteFailed \<and> d' = d \<and>
         st' = set_known label p (case known_of label p st of Some k \<Rightarrow> k | None \<Rightarrow> disk_hash hash d p) st1"
proof -
  let ?bs = "utf8_encode (like_existing (d p) content)"
  consider "MAX_WRITE_BYTES < utf8_len content \<or> folder"
    | "\<not> (MAX_WRITE_BYTES < utf8_len content \<or> folder)" "\<not> force \<and> disk_hash hash d p \<noteq> expected"
    | "\<not> (MAX_WRITE_BYTES < utf8_len content \<or> folder)" "force \<or> disk_hash hash d p = expected" by blast
  then show thesis
  proof cases
    case 1
    then obtain e where "save_begin env hash label p content expected force folder d st = (Inl (Inl e), st)"
      by (cases folder; cases "MAX_WRITE_BYTES < utf8_len content") (simp_all add: save_begin_def)
    then have "res = Inl e" "d' = d" "st' = st" using assms by (simp_all add: save_file_def)
    then show thesis by (rule refused)
  next
    case 2
    then have "save_begin env hash label p content expected force folder d st
        = (Inl (Inr (Conflict (disk_hash hash d p))), st)"
      by (simp add: save_begin_def Let_def)
    then have "res = Inr (Conflict (disk_hash hash d p)) \<and> d' = d \<and> st' = st"
      using assms by (auto simp: save_file_def)
    then show thesis using 2 by (intro conflict) auto
  next
    case 3
    obtain live st1 where w: "watch env label p (Some (hash ?bs)) st = (live, st1)" by (metis surj_pair)
    from 3 w have "save_begin env hash label p content expected force folder d st
        = (Inr \<lparr>st_bytes = ?bs, st_hash = hash ?bs,
             st_before = (case known_of label p st of Some k \<Rightarrow> k | None \<Rightarrow> disk_hash hash d p)\<rparr>, st1)"
      by (cases force) (simp_all add: save_begin_def Let_def split: option.split)
    then have "if write_ok then res = Inr (Saved (hash ?bs)) \<and> d' = d(p \<mapsto> ?bs) \<and> st' = st1
       else res = Inl EditorWriteFailed \<and> d' = d \<and>
         st' = set_known label p (case known_of label p st of Some k \<Rightarrow> k | None \<Rightarrow> disk_hash hash d p) st1"
      using assms by (simp add: save_file_def save_finish_def split: if_splits)
    then show thesis using wrote [OF 3(2) w] by blast
  qed
qed

section \<open>Properties\<close>

text \<open>
  C13. In every reachable state the folder counts and the watches are right: a folder is counted with
  the number of open files in it and only then, every counted folder is either watched or reported as
  failed and not both, and with nothing open no watcher and no thread is left.  So opening a file
  reports \<open>live\<close> exactly when its folder is being watched afterwards; and a closing window
  drops all it saw and nothing of the others.
\<close>

theorem watches_match_open_files:
  assumes "watch_step\<^sup>*\<^sup>* editor_state_default st"
  shows "(\<forall>d. map_of (dirs st) d = (if files_in st d = 0 then None else Some (files_in st d))) \<and>
    set (failed st) \<inter> watched st = {} \<and> set (failed st) \<union> watched st = dom (map_of (dirs st)) \<and>
    (files st = [] \<longrightarrow> watcher st = None \<and> poller st = None \<and> \<not> events st) \<and>
    (\<forall>env label p k live st'. p \<noteq> [] \<and> watch env label p k st = (live, st') \<longrightarrow>
       live = (butlast p \<in> watched st') \<and> known_of label p st' = Some k) \<and>
    (\<forall>label l q. known_of l q (unwatch_label label st) = (if l = label then None else known_of l q st))"
proof -
  have ok: "watches_ok st" using watches_sys.reachable_inv [OF assms] .
  have live: "live = (butlast p \<in> watched st') \<and> known_of label p st' = Some k"
    if "p \<noteq> []" "watch env label p k st = (live, st')" for env label p k live st'
    using watch_reports [OF ok that] watch_known [OF that(2), of label p] by simp
  show ?thesis
    using ok live known_unwatch_label by (auto simp: watches_ok_def dirs_ok_def live_ok_def idle_ok_def)
qed

text \<open>
  When the events of a file have settled, every window that shows it and last saw other content is
  told the hash on disk, once, and no other window is; afterwards all its windows count as having
  seen what is on disk, so settling again without a change tells nobody.
\<close>

theorem flush_tells_the_stale:
  assumes "watch_step\<^sup>*\<^sup>* editor_state_default st" and "flush hash d p st = (told, st')"
  shows "set told = {\<lparr>changed_label = l, changed_path = p, changed_hash = disk_hash hash d p\<rparr> | l.
      \<exists>k. known_of l p st = Some k \<and> k \<noteq> disk_hash hash d p} \<and> distinct told \<and>
    (\<forall>l q. known_of l q st' =
      (if q = p \<and> known_of l p st \<noteq> None then Some (disk_hash hash d p) else known_of l q st)) \<and>
    fst (flush hash d p st') = []"
proof -
  have ok: "watches_ok st" using watches_sys.reachable_inv [OF assms(1)] .
  have ok': "watches_ok st'" using flush_ok [OF ok assms(2)] .
  obtain told' st'' where f: "flush hash d p st' = (told', st'')" by fastforce
  have "set told' = {}" using flush_told [OF ok' f] flush_known [OF assms(2)] by auto
  then show ?thesis using flush_told [OF ok assms(2)] flush_known [OF assms(2)] f by simp
qed


text \<open>
  The save and the debounce thread take the lock separately, and between recording the new hash
  and writing the file a flush may run.  When it does, the saving window is told of a change although
  nothing changed, counts as having seen the old content again, and the next flush tells it of its
  own save.
\<close>

theorem save_interleaved_with_flush:
  assumes "watches_ok st" and "p \<noteq> []"
    and "save_begin env hash label p content expected False False d st = (Inr t, st1)"
    and "st_hash t \<noteq> hash_now" and "disk_hash hash d p = Some hash_now"
    and "flush hash d p st1 = (told1, st2)"
    and "save_finish label p True t d st2 = (Inr (Saved h), d', st3)"
    and "flush hash d' p st3 = (told2, st4)"
  shows "\<lparr>changed_label = label, changed_path = p, changed_hash = Some hash_now\<rparr> \<in> set told1 \<and>
    \<lparr>changed_label = label, changed_path = p, changed_hash = Some h\<rparr> \<in> set told2"
proof -
  obtain live bs where w: "watch env label p (Some (st_hash t)) st = (live, st1)" and t: "st_hash t = hash bs" "st_bytes t = bs"
    using assms(3) by (auto simp: save_begin_def Let_def split: if_splits prod.splits)
  have ok1: "watches_ok st1" using watch_ok_preserved [OF assms(1,2) w] .
  have k1: "known_of label p st1 = Some (Some (st_hash t))" using watch_known [OF w] by simp
  have fin: "h = st_hash t" "d' = d(p \<mapsto> bs)" "st3 = st2" using assms(7) t by (auto simp: save_finish_def)
  have ok2: "watches_ok st2" using flush_ok [OF ok1 assms(6)] .
  have k2: "known_of label p st2 = Some (Some hash_now)"
    using flush_known [OF assms(6)] k1 assms(5) by simp
  have h: "disk_hash hash d' p = Some h" by (simp add: fin disk_hash_def t)
  have "\<lparr>changed_label = label, changed_path = p, changed_hash = Some hash_now\<rparr> \<in> set told1"
    using flush_told [OF ok1 assms(6)] k1 assms(4,5) by auto
  moreover have "\<lparr>changed_label = label, changed_path = p, changed_hash = Some h\<rparr> \<in> set told2"
    using flush_told [OF ok2 assms(8) [unfolded fin(3)]] k2 h assms(4) fin(1) by auto
  ultimately show ?thesis by blast
qed

section \<open>Witnesses\<close>

text \<open>Everything \<open>notify\<close> is asked succeeds; the hash is the content itself.\<close>

definition env_ok :: notify_env where
  "env_ok = \<lparr>spawn_ok = True, watcher_ok = True, poller_ok = True, watch_ok = (\<lambda>_. True), in_wsl = (\<lambda>_. False)\<rparr>"

definition one_open :: editor_state where
  "one_open = \<lparr>files = [([[1], [2]], [([7], Some [65])])], dirs = [([[1]], 1)], watcher = Some [[[1]]],
     poller = None, failed = [], events = True\<rparr>"

lemma watch_one: "watch env_ok [7] [[1], [2]] (Some [65]) editor_state_default = (True, one_open)"
  by (simp add: watch_def labels_of_def parent_of_def watch_dir_def start_events_def env_ok_def
      editor_state_default_def one_open_def Let_def)

lemma one_open_reachable: "watch_step\<^sup>*\<^sup>* editor_state_default one_open"
  by (intro r_into_rtranclp watch_step.Watch [OF _ watch_one]) simp

lemma watches_match_open_files_witness:
  "files_in one_open [[1]] = 1 \<and> map_of (dirs one_open) [[1]] = Some 1 \<and>
   known_of [7] [[1], [2]] (unwatch_label [7] one_open) = None"
proof -
  have f: "files_in one_open [[1]] = 1" by (simp add: files_in_def one_open_def parent_of_def)
  show ?thesis using watches_match_open_files [OF one_open_reachable] f by simp
qed

lemma flush_tells_the_stale_witness:
  "fst (flush (\<lambda>bs. bs) [[[1], [2]] \<mapsto> [66]] [[1], [2]] one_open) =
     [\<lparr>changed_label = [7], changed_path = [[1], [2]], changed_hash = Some [66]\<rparr>] \<and>
   fst (flush (\<lambda>bs. bs) [[[1], [2]] \<mapsto> [66]] [[1], [2]]
     (snd (flush (\<lambda>bs. bs) [[[1], [2]] \<mapsto> [66]] [[1], [2]] one_open))) = []"
proof -
  let ?f = "flush (\<lambda>bs. bs) [[[1], [2]] \<mapsto> [66]] [[1], [2]] one_open"
  have f: "?f = (fst ?f, snd ?f)" by simp
  have "fst ?f = [\<lparr>changed_label = [7], changed_path = [[1], [2]], changed_hash = Some [66]\<rparr>]"
    by (simp add: flush_def one_open_def disk_hash_def Let_def)
  then show ?thesis using flush_tells_the_stale [OF one_open_reachable f] by blast
qed

lemma one_open_ok: "watches_ok one_open"
  by (rule watches_sys.reachable_inv [OF one_open_reachable])


text \<open>The window saves C over A; a flush runs between the record and the write.\<close>

lemma save_interleaved_with_flush_witness:
  "\<exists>t st1 told1 st2 d' st3 told2 st4.
     save_begin env_ok (\<lambda>bs. bs) [7] [[1], [2]] [67] (Some [65]) False False [[[1], [2]] \<mapsto> [65]] one_open = (Inr t, st1) \<and>
     flush (\<lambda>bs. bs) [[[1], [2]] \<mapsto> [65]] [[1], [2]] st1 = (told1, st2) \<and>
     save_finish [7] [[1], [2]] True t [[[1], [2]] \<mapsto> [65]] st2 = (Inr (Saved [67]), d', st3) \<and>
     flush (\<lambda>bs. bs) d' [[1], [2]] st3 = (told2, st4) \<and>
     \<lparr>changed_label = [7], changed_path = [[1], [2]], changed_hash = Some [67]\<rparr> \<in> set told2"
proof -
  let ?p = "[[1], [2]] :: path" and ?d = "[[[1], [2]] \<mapsto> [65]] :: disk"
  let ?t = "\<lparr>st_bytes = [67], st_hash = [67], st_before = Some [65]\<rparr> :: save_ticket"
  let ?st1 = "one_open\<lparr>files := [(?p, [([7], Some [67])])]\<rparr>"
  have like: "like_existing (Some [65]) [67] = [67]"
    by (simp add: like_existing_def first_newline_is_crlf_def utf8_encode_def utf8_encode_char_def Let_def)
  have b: "save_begin env_ok (\<lambda>bs. bs) [7] ?p [67] (Some [65]) False False ?d one_open = (Inr ?t, ?st1)"
    using like
    by (simp add: save_begin_def disk_hash_def MAX_WRITE_BYTES_def utf8_len_def utf8_len_char_def
        watch_def labels_of_def parent_of_def known_of_def one_open_def utf8_encode_def utf8_encode_char_def Let_def)
  obtain told1 st2 where f1: "flush (\<lambda>bs. bs) ?d ?p ?st1 = (told1, st2)" by fastforce
  have s: "save_finish [7] ?p True ?t ?d st2 = (Inr (Saved [67]), ?d(?p \<mapsto> [67]), st2)"
    by (simp add: save_finish_def)
  obtain told2 st4 where f2: "flush (\<lambda>bs. bs) (?d(?p \<mapsto> [67])) ?p st2 = (told2, st4)" by fastforce
  have ne: "?p \<noteq> []" and df: "st_hash ?t \<noteq> [65]" and dh: "disk_hash (\<lambda>bs. bs) ?d ?p = Some [65]"
    by (simp_all add: disk_hash_def)
  show ?thesis
    using save_interleaved_with_flush [OF one_open_ok ne b df dh f1 s f2] b f1 s f2 by blast
qed

end
