(* ===== verification/Sheet_Split.thy ===== *)
theory Sheet_Split
  imports Prelude "HOL-Library.Product_Lexorder"
begin

text \<open>
  \<open>image_gen/split.rs\<close>: cutting a generated sheet into the sprites drawn on it.  Islands of opaque
  pixels are found by flood fill, islands near each other are joined by union-find, each group with a
  real piece in it becomes a sprite, and the sprites are put in reading order.  Loops whose end is not
  structural are \<open>partial_function (option)\<close>: \<open>None\<close> is a loop that never ends.  Coordinates are the
  code's \<open>u32\<close>; the products and the step to the left wrap at 32 bits as there.  What the code
  computes in \<open>f32\<close> (the size thresholds, the centres, the row tolerance) is an argument.
\<close>

section \<open>The image\<close>

type_synonym rgba = "nat \<times> nat \<times> nat \<times> nat"

record image =
  img_w :: nat
  img_h :: nat
  img_px :: "rgba list"

definition u32_max :: nat where "u32_max = 4294967295"

definition wrap32 :: "nat \<Rightarrow> nat" where "wrap32 n = n mod 4294967296"

definition get_pixel :: "image \<Rightarrow> nat \<Rightarrow> nat \<Rightarrow> rgba" where
  "get_pixel img x y = img_px img ! (y * img_w img + x)"

definition alpha :: "rgba \<Rightarrow> nat" where
  "alpha p = snd (snd (snd p))"

definition from_pixel :: "nat \<Rightarrow> nat \<Rightarrow> rgba \<Rightarrow> image" where
  "from_pixel w h p = \<lparr>img_w = w, img_h = h, img_px = replicate (w * h) p\<rparr>"

definition put_pixel :: "nat \<Rightarrow> nat \<Rightarrow> rgba \<Rightarrow> image \<Rightarrow> image" where
  "put_pixel x y p img = img\<lparr>img_px := (img_px img)[y * img_w img + x := p]\<rparr>"

definition idx :: "nat \<Rightarrow> nat \<times> nat \<Rightarrow> nat" where
  "idx w p = wrap32 (snd p * w + fst p)"

text \<open>\<open>for y in 0..h { for x in 0..w\<close>\<close>

definition row_major :: "nat \<Rightarrow> nat \<Rightarrow> (nat \<times> nat) list" where
  "row_major w h = concat (map (\<lambda>y. map (\<lambda>x. (x, y)) [0..<w]) [0..<h])"

section \<open>Islands\<close>

record island =
  x0 :: nat
  y0 :: nat
  x1 :: nat
  y1 :: nat
  area :: nat
  sum_x :: nat
  sum_y :: nat
  edge :: "(nat \<times> nat) list"

definition fresh_island :: "nat \<times> nat \<Rightarrow> island" where
  "fresh_island p = \<lparr>x0 = fst p, y0 = snd p, x1 = fst p, y1 = snd p,
     area = 0, sum_x = 0, sum_y = 0, edge = []\<rparr>"

definition absorb :: "nat \<times> nat \<Rightarrow> island \<Rightarrow> island" where
  "absorb c il = il\<lparr>area := area il + 1, sum_x := sum_x il + fst c, sum_y := sum_y il + snd c,
     x0 := min (x0 il) (fst c), y0 := min (y0 il) (snd c),
     x1 := max (x1 il) (fst c), y1 := max (y1 il) (snd c)\<rparr>"

definition neighbours :: "nat \<times> nat \<Rightarrow> (nat \<times> nat) list" where
  "neighbours c = (case c of (cx, cy) \<Rightarrow>
     [(wrap32 (cx + u32_max), cy), (cx + 1, cy), (cx, wrap32 (cy + u32_max)), (cx, cy + 1)])"

definition off_island :: "image \<Rightarrow> nat \<times> nat \<Rightarrow> bool" where
  "off_island img n \<longleftrightarrow> img_w img \<le> fst n \<or> img_h img \<le> snd n \<or>
     alpha (get_pixel img (fst n) (snd n)) = 0"

text \<open>The body of \<open>for (nx, ny) in neighbours\<close>: the edge flag, the labels and the stack.\<close>

definition visit ::
  "image \<Rightarrow> nat \<Rightarrow> nat \<times> nat \<Rightarrow> bool \<times> nat list \<times> (nat \<times> nat) list \<Rightarrow> bool \<times> nat list \<times> (nat \<times> nat) list" where
  "visit img i n s = (case s of (on_edge, lab, stack) \<Rightarrow>
     if off_island img n then (True, lab, stack)
     else if lab ! idx (img_w img) n \<noteq> u32_max then (on_edge, lab, stack)
     else (on_edge, lab[idx (img_w img) n := i], n # stack))"

partial_function (option) flood ::
  "image \<Rightarrow> nat \<Rightarrow> (nat \<times> nat) list \<Rightarrow> nat list \<Rightarrow> island \<Rightarrow> (nat list \<times> island) option" where
  "flood img i stack lab il = (case stack of
     [] \<Rightarrow> Some (lab, il)
   | c # rest \<Rightarrow>
      (case fold (visit img i) (neighbours c) (False, lab, rest) of (on_edge, lab, stack) \<Rightarrow>
         flood img i stack lab
           (if on_edge then (absorb c il)\<lparr>edge := edge il @ [c]\<rparr> else absorb c il)))"

fun scan :: "image \<Rightarrow> (nat \<times> nat) list \<Rightarrow> nat list \<Rightarrow> island list \<Rightarrow> (nat list \<times> island list) option" where
  "scan img [] lab out = Some (lab, out)"
| "scan img (p # ps) lab out =
    (if alpha (get_pixel img (fst p) (snd p)) = 0 \<or> lab ! idx (img_w img) p \<noteq> u32_max
     then scan img ps lab out
     else Option.bind
       (flood img (length out) [p] (lab[idx (img_w img) p := length out]) (fresh_island p))
       (\<lambda>(lab, il). scan img ps lab (out @ [il])))"

definition islands :: "image \<Rightarrow> (nat list \<times> island list) option" where
  "islands img = scan img (row_major (img_w img) (img_h img))
     (replicate (wrap32 (img_w img * img_h img)) u32_max) []"

section \<open>Which islands are near\<close>

definition box_gap :: "island \<Rightarrow> island \<Rightarrow> nat" where
  "box_gap a b =
    (let dx = max (x0 b - x1 a) (x0 a - x1 b); dy = max (y0 b - y1 a) (y0 a - y1 b)
     in max dx dy)"

definition abs_diff :: "nat \<Rightarrow> nat \<Rightarrow> nat" where
  "abs_diff a b = (if a < b then b - a else a - b)"

type_synonym grid = "(nat \<times> nat) \<rightharpoonup> (nat \<times> nat) list"

definition grid_push :: "nat \<Rightarrow> nat \<times> nat \<Rightarrow> grid \<Rightarrow> grid" where
  "grid_push cell p g =
    (let k = (fst p div cell, snd p div cell)
     in g(k \<mapsto> (case g k of None \<Rightarrow> [] | Some ps \<Rightarrow> ps) @ [p]))"

definition near :: "island \<Rightarrow> island \<Rightarrow> nat \<Rightarrow> bool" where
  "near a b gap =
    (if gap < box_gap a b then False
     else
       (let cell = max gap 1;
            grid = fold (grid_push cell) (edge b) Map.empty
        in list_ex (\<lambda>(x, y).
             let gx = x div cell; gy = y div cell in
             list_ex (\<lambda>cx. list_ex (\<lambda>cy.
               case grid (cx, cy) of None \<Rightarrow> False
               | Some pts \<Rightarrow> list_ex (\<lambda>(qx, qy). max (abs_diff qx x) (abs_diff qy y) \<le> gap) pts)
               [gy - 1..<gy + 2]) [gx - 1..<gx + 2]) (edge a)))"

section \<open>Joining them\<close>

partial_function (option) find_root :: "nat list \<Rightarrow> nat \<Rightarrow> (nat list \<times> nat) option" where
  "find_root parent i =
    (if parent ! i = i then Some (parent, i)
     else (let parent = parent[i := parent ! (parent ! i)] in find_root parent (parent ! i)))"

definition join_roots :: "nat \<Rightarrow> nat \<Rightarrow> nat list \<Rightarrow> nat list option" where
  "join_roots a j parent =
    Option.bind (find_root parent a) (\<lambda>(parent, ra).
    Option.bind (find_root parent j) (\<lambda>(parent, rb).
      Some (if ra \<noteq> rb then parent[rb := ra] else parent)))"

fun join_near :: "island list \<Rightarrow> nat \<Rightarrow> (nat \<times> nat) list \<Rightarrow> nat list \<Rightarrow> nat list option" where
  "join_near il gap [] parent = Some parent"
| "join_near il gap ((a, j) # ps) parent =
    Option.bind (if j \<noteq> a \<and> near (il ! a) (il ! j) gap then join_roots a j parent else Some parent)
      (join_near il gap ps)"

fun add_to_group :: "nat \<Rightarrow> nat \<Rightarrow> (nat \<times> nat list) list \<Rightarrow> (nat \<times> nat list) list" where
  "add_to_group root i [] = [(root, [i])]"
| "add_to_group root i ((r, ms) # gs) =
    (if r = root then (r, ms @ [i]) # gs else (r, ms) # add_to_group root i gs)"

fun collect_groups ::
  "nat list \<Rightarrow> nat list \<Rightarrow> (nat \<times> nat list) list \<Rightarrow> (nat \<times> nat list) list option" where
  "collect_groups [] parent gs = Some gs"
| "collect_groups (i # is) parent gs =
    Option.bind (find_root parent i) (\<lambda>(parent, root). collect_groups is parent (add_to_group root i gs))"

definition all_pairs :: "nat list \<Rightarrow> nat \<Rightarrow> (nat \<times> nat) list" where
  "all_pairs big n = concat (map (\<lambda>a. map (\<lambda>j. (a, j)) [0..<n]) big)"

definition group_islands :: "island list \<Rightarrow> nat list \<Rightarrow> nat \<Rightarrow> nat list list option" where
  "group_islands il big gap =
    Option.bind (join_near il gap (all_pairs big (length il)) [0..<length il]) (\<lambda>parent.
    Option.bind (collect_groups [0..<length il] parent []) (\<lambda>groups.
      Some (map snd (filter (\<lambda>(_, ms). list_ex (\<lambda>i. i \<in> set big) ms) groups))))"

section \<open>How many parts a piece has\<close>

text \<open>\<open>filter_1d\<close>: every pixel's output is assigned once, row by row.\<close>

definition filter_1d :: "bool list \<Rightarrow> nat \<Rightarrow> nat \<Rightarrow> nat \<Rightarrow> bool \<Rightarrow> bool \<Rightarrow> bool list" where
  "filter_1d m w h r along_rows all =
    map (\<lambda>(x, y).
      let (pos, len) = (if along_rows then (x, w) else (y, h));
          lo = pos - r;
          hi = min (pos + r) (len - 1);
          at_edge = (pos < r \<or> len \<le> pos + r);
          at_pos = (\<lambda>i. if along_rows then m ! (y * w + i) else m ! (i * w + x))
      in if all then \<not> at_edge \<and> list_all at_pos [lo..<Suc hi] else list_ex at_pos [lo..<Suc hi])
      (row_major w h)"

definition erode :: "bool list \<Rightarrow> nat \<Rightarrow> nat \<Rightarrow> nat \<Rightarrow> bool list" where
  "erode m w h r = filter_1d (filter_1d m w h r True True) w h r False True"

definition dilate :: "bool list \<Rightarrow> nat \<Rightarrow> nat \<Rightarrow> nat \<Rightarrow> bool list" where
  "dilate m w h r = filter_1d (filter_1d m w h r True False) w h r False False"

definition lobe_neighbours :: "nat \<Rightarrow> nat \<Rightarrow> (int \<times> int) list" where
  "lobe_neighbours w i =
    (let x = int (i mod w); y = int (i div w)
     in concat (map (\<lambda>dy. map (\<lambda>dx. (x + dx, y + dy)) [-1, 0, 1]) [-1, 0, 1]))"

definition lobe_visit ::
  "bool list \<Rightarrow> nat \<Rightarrow> nat \<Rightarrow> int \<times> int \<Rightarrow> bool list \<times> nat list \<Rightarrow> bool list \<times> nat list" where
  "lobe_visit opened w h n s = (case (n, s) of ((nx, ny), (seen, stack)) \<Rightarrow>
     if nx < 0 \<or> ny < 0 \<or> int w \<le> nx \<or> int h \<le> ny then (seen, stack)
     else
       (let j = nat ny * w + nat nx
        in if opened ! j \<and> \<not> seen ! j then (seen[j := True], j # stack) else (seen, stack)))"

partial_function (option) lobe_fill ::
  "bool list \<Rightarrow> nat \<Rightarrow> nat \<Rightarrow> bool list \<Rightarrow> nat list \<Rightarrow> nat \<Rightarrow> (bool list \<times> nat) option" where
  "lobe_fill opened w h seen stack size' = (case stack of
     [] \<Rightarrow> Some (seen, size')
   | i # rest \<Rightarrow>
      (case fold (lobe_visit opened w h) (lobe_neighbours w i) (seen, rest) of (seen, stack) \<Rightarrow>
         lobe_fill opened w h seen stack (size' + 1)))"

fun count_lobes :: "bool list \<Rightarrow> nat \<Rightarrow> nat \<Rightarrow> nat \<Rightarrow> nat list \<Rightarrow> bool list \<Rightarrow> nat \<Rightarrow> nat option" where
  "count_lobes opened w h least [] seen n = Some n"
| "count_lobes opened w h least (i # is) seen n =
    (if \<not> opened ! i \<or> seen ! i then count_lobes opened w h least is seen n
     else Option.bind (lobe_fill opened w h (seen[i := True]) [i] 0)
       (\<lambda>(seen, sz). count_lobes opened w h least is seen (if least \<le> sz then n + 1 else n)))"

text \<open>The places where the code computes in \<open>f32\<close>: whether an island is a piece (of width, height and
  area), the gap to join over (of the median area), a centre (of sum and area), whether a centre lies
  below the row (of the median height), the kernel of the opening, the least part counted.\<close>

record 'f sheet_floats =
  is_piece :: "nat \<Rightarrow> nat \<Rightarrow> nat \<Rightarrow> bool"
  join_gap :: "nat \<Rightarrow> nat"
  centre :: "nat \<Rightarrow> nat \<Rightarrow> 'f"
  below_row :: "nat \<Rightarrow> 'f \<Rightarrow> 'f \<Rightarrow> bool"
  opening_kernel :: "nat \<Rightarrow> nat"
  least_lobe :: "nat \<Rightarrow> nat"

definition lobes :: "'f sheet_floats \<Rightarrow> image \<Rightarrow> nat option" where
  "lobes fl img =
    (let w = img_w img; h = img_h img in
     if w = 0 \<or> h = 0 then Some 0
     else
       (let mask = map (\<lambda>p. alpha p \<noteq> 0) (img_px img);
            total = length (filter (\<lambda>m. m) mask)
        in if total = 0 then Some 0
           else
             (let r = opening_kernel fl (min w h) div 2;
                  opened = dilate (erode mask w h r) w h r
              in map_option (max 1)
                   (count_lobes opened w h (least_lobe fl total) [0..<w * h] (replicate (w * h) False) 0))))"

section \<open>The pieces\<close>

record 'f piece =
  p_x :: nat
  p_y :: nat
  p_width :: nat
  p_height :: nat
  p_cx :: 'f
  p_cy :: 'f
  p_area :: nat
  p_lobes :: nat
  p_image :: image

text \<open>\<open>iter().min().unwrap_or(0)\<close> and \<open>max\<close>.\<close>

fun min_or_0 :: "nat list \<Rightarrow> nat" where
  "min_or_0 [] = 0"
| "min_or_0 (x # xs) = fold min xs x"

definition max_or_0 :: "nat list \<Rightarrow> nat" where
  "max_or_0 xs = fold max xs 0"

definition copy_pixel ::
  "image \<Rightarrow> nat list \<Rightarrow> nat list \<Rightarrow> nat \<Rightarrow> nat \<Rightarrow> nat \<times> nat \<Rightarrow> image \<Rightarrow> image" where
  "copy_pixel img lab ms left upper p im =
    (let l = lab ! idx (img_w img) p in
     if l \<noteq> u32_max \<and> l \<in> set ms
     then put_pixel (fst p - left) (snd p - upper) (get_pixel img (fst p) (snd p)) im else im)"

definition crop :: "image \<Rightarrow> nat list \<Rightarrow> nat list \<Rightarrow> nat \<Rightarrow> nat \<Rightarrow> nat \<Rightarrow> nat \<Rightarrow> image" where
  "crop img lab ms left upper right bottom =
    fold (copy_pixel img lab ms left upper)
      (concat (map (\<lambda>y. map (\<lambda>x. (x, y)) [left..<Suc right]) [upper..<Suc bottom]))
      (from_pixel (right - left + 1) (bottom - upper + 1) (0, 0, 0, 0))"

definition piece_of ::
  "'f sheet_floats \<Rightarrow> image \<Rightarrow> nat list \<Rightarrow> island list \<Rightarrow> nat list \<Rightarrow> 'f piece option" where
  "piece_of fl img lab ils ms =
    (let left = min_or_0 (map (\<lambda>i. x0 (ils ! i)) ms);
         upper = min_or_0 (map (\<lambda>i. y0 (ils ! i)) ms);
         right = max_or_0 (map (\<lambda>i. x1 (ils ! i)) ms);
         bottom = max_or_0 (map (\<lambda>i. y1 (ils ! i)) ms);
         total = sum_list (map (\<lambda>i. area (ils ! i)) ms);
         sx = sum_list (map (\<lambda>i. sum_x (ils ! i)) ms);
         sy = sum_list (map (\<lambda>i. sum_y (ils ! i)) ms);
         im = crop img lab ms left upper right bottom
     in map_option (\<lambda>n. \<lparr>p_x = left, p_y = upper, p_width = right - left + 1, p_height = bottom - upper + 1,
          p_cx = centre fl sx (max total 1), p_cy = centre fl sy (max total 1), p_area = total,
          p_lobes = n, p_image = im\<rparr>) (lobes fl im))"

fun sequence_opt :: "'a option list \<Rightarrow> 'a list option" where
  "sequence_opt [] = Some []"
| "sequence_opt (x # xs) = Option.bind x (\<lambda>a. map_option ((#) a) (sequence_opt xs))"

text \<open>The row of every piece, top to bottom: a centre below the row starts the next one.\<close>

fun number_rows :: "('f \<Rightarrow> 'f \<Rightarrow> bool) \<Rightarrow> 'f \<Rightarrow> nat \<Rightarrow> 'f list \<Rightarrow> nat list" where
  "number_rows below start row [] = []"
| "number_rows below start row (c # cs) =
    (if below c start then (row + 1) # number_rows below c (row + 1) cs
     else row # number_rows below start row cs)"

definition reading_order :: "('f :: linorder) sheet_floats \<Rightarrow> 'f piece list \<Rightarrow> 'f piece list" where
  "reading_order fl pieces =
    (if pieces = [] then []
     else
       (let heights = sort (map p_height pieces);
            below = below_row fl (heights ! (length heights div 2));
            ps = sort_key p_cy pieces;
            rows = number_rows below (p_cy (ps ! 0)) 0 (map p_cy ps);
            keyed = map (\<lambda>i. (rows ! i, p_cx (ps ! i), i)) [0..<length ps]
        in map (\<lambda>(_, _, i). ps ! i) (sort_key (\<lambda>(r, c, _). (r, c)) keyed)))"

definition split_sheet :: "('f :: linorder) sheet_floats \<Rightarrow> image \<Rightarrow> 'f piece list option" where
  "split_sheet fl img =
    Option.bind (islands img) (\<lambda>(lab, ils).
      if ils = [] then Some []
      else
        (let big = filter (\<lambda>i. is_piece fl (img_w img) (img_h img) (area (ils ! i))) [0..<length ils]
         in if big = [] then Some []
            else
              (let areas = sort (map (\<lambda>i. area (ils ! i)) big);
                   gap = join_gap fl (areas ! (length areas div 2))
               in Option.bind (group_islands ils big gap) (\<lambda>groups.
                  map_option (reading_order fl)
                    (sequence_opt (map (piece_of fl img lab ils) groups))))))"

end
