(* ===== verification/Sheet_Islands_Props.thy ===== *)
theory Sheet_Islands_Props
  imports Sheet_Split
begin

text \<open>
  The flood fill of \<open>image_gen/split.rs\<close>: it ends, and labels exactly the 4-connected components of
  the opaque pixels, with the right area, sums, box and edge for each.
\<close>

declare split_paired_All [simp del] split_paired_Ex [simp del]

section \<open>Pixels and their connection\<close>

definition in_img :: "image \<Rightarrow> nat \<times> nat \<Rightarrow> bool" where
  "in_img img p \<longleftrightarrow> fst p < img_w img \<and> snd p < img_h img"

definition opaque :: "image \<Rightarrow> nat \<times> nat \<Rightarrow> bool" where
  "opaque img p \<longleftrightarrow> in_img img p \<and> alpha (get_pixel img (fst p) (snd p)) \<noteq> 0"

text \<open>An image buffer holds its width times its height in pixels, and the product fits 32 bits.\<close>

definition sheet_ok :: "image \<Rightarrow> bool" where
  "sheet_ok img \<longleftrightarrow> length (img_px img) = img_w img * img_h img \<and> img_w img * img_h img \<le> u32_max"

definition beside :: "nat \<times> nat \<Rightarrow> nat \<times> nat \<Rightarrow> bool" where
  "beside p q \<longleftrightarrow> abs_diff (fst p) (fst q) + abs_diff (snd p) (snd q) = 1"

definition touches :: "image \<Rightarrow> nat \<times> nat \<Rightarrow> nat \<times> nat \<Rightarrow> bool" where
  "touches img p q \<longleftrightarrow> opaque img p \<and> opaque img q \<and> beside p q"

definition component :: "image \<Rightarrow> nat \<times> nat \<Rightarrow> (nat \<times> nat) set" where
  "component img p = {q. (touches img)\<^sup>*\<^sup>* p q}"

definition on_border :: "image \<Rightarrow> nat \<times> nat \<Rightarrow> bool" where
  "on_border img p \<longleftrightarrow> list_ex (off_island img) (neighbours p)"

abbreviation label_of :: "image \<Rightarrow> nat list \<Rightarrow> nat \<times> nat \<Rightarrow> nat" where
  "label_of img lab p \<equiv> lab ! idx (img_w img) p"

lemma off_island_iff: "off_island img p \<longleftrightarrow> \<not> opaque img p"
  by (auto simp: off_island_def opaque_def in_img_def)

lemma opaque_in_img: "opaque img p \<Longrightarrow> in_img img p" by (simp add: opaque_def)

lemma in_img_less:
  assumes "in_img img p" shows "snd p * img_w img + fst p < img_w img * img_h img"
proof -
  have "snd p * img_w img + fst p < snd p * img_w img + img_w img" using assms by (simp add: in_img_def)
  also have "\<dots> = Suc (snd p) * img_w img" by simp
  also have "\<dots> \<le> img_h img * img_w img" using assms by (intro mult_le_mono1) (simp add: in_img_def)
  finally show ?thesis by (simp add: mult.commute)
qed

lemma idx_in_img:
  assumes "sheet_ok img" and "in_img img p"
  shows "idx (img_w img) p = snd p * img_w img + fst p" "idx (img_w img) p < img_w img * img_h img"
  using in_img_less [OF assms(2)] assms(1)
  by (auto simp: idx_def wrap32_def sheet_ok_def u32_max_def)

lemma idx_inj:
  assumes "sheet_ok img" and "in_img img p" and "in_img img q"
  shows "idx (img_w img) p = idx (img_w img) q \<longleftrightarrow> p = q"
proof
  assume eq: "idx (img_w img) p = idx (img_w img) q"
  have w: "fst p < img_w img" "fst q < img_w img" using assms(2,3) by (simp_all add: in_img_def)
  have e: "fst p + snd p * img_w img = fst q + snd q * img_w img"
    using eq by (simp add: idx_in_img [OF assms(1,2)] idx_in_img [OF assms(1,3)] add.commute)
  have "(fst p + snd p * img_w img) mod img_w img = fst p" "(fst q + snd q * img_w img) mod img_w img = fst q"
    using w by simp_all
  then have "fst p = fst q" using e by metis
  moreover from this have "snd p = snd q" using e w by simp
  ultimately show "p = q" by (simp add: prod_eq_iff)
qed simp

lemma label_of_update:
  assumes "sheet_ok img" and "in_img img p" and "in_img img q" and "length lab = img_w img * img_h img"
  shows "label_of img (lab[idx (img_w img) p := i]) q = (if q = p then i else label_of img lab q)"
  using idx_inj [OF assms(1,2,3)] idx_in_img(2) [OF assms(1,2)] assms(4) by (auto simp: nth_list_update)

lemma width_le: assumes "sheet_ok img" and "in_img img p" shows "img_w img \<le> u32_max" "img_h img \<le> u32_max"
proof -
  have pos: "0 < img_w img" "0 < img_h img" using assms(2) by (auto simp: in_img_def)
  have le: "img_w img * img_h img \<le> u32_max" using assms(1) by (simp add: sheet_ok_def)
  have "img_w img \<le> img_w img * img_h img" "img_h img \<le> img_w img * img_h img" using pos by simp_all
  then show "img_w img \<le> u32_max" "img_h img \<le> u32_max" using le le_trans by blast+
qed

lemma neighbours_in_img:
  assumes "sheet_ok img" and "in_img img p" and "in_img img q"
  shows "q \<in> set (neighbours p) \<longleftrightarrow> beside p q"
proof -
  obtain a b c d where p: "p = (a, b)" and q: "q = (c, d)" by (metis surj_pair)
  have le: "a < u32_max" "b < u32_max" "c < u32_max" "d < u32_max"
    using width_le [OF assms(1,2)] assms(2,3) by (auto simp: in_img_def p q)
  have wrap: "wrap32 (n + u32_max) = (if n = 0 then u32_max else n - 1)" if "n < u32_max" for n
    using that by (cases n) (auto simp: wrap32_def u32_max_def)
  show ?thesis
    using le by (auto simp: p q neighbours_def beside_def abs_diff_def wrap split: if_splits)
qed

lemma beside_sym: "beside p q \<Longrightarrow> beside q p"
  by (auto simp: beside_def abs_diff_def split: if_splits)

lemma touches_sym: "touches img p q \<Longrightarrow> touches img q p"
  by (auto simp: touches_def beside_sym)

lemma reach_sym: "(touches img)\<^sup>*\<^sup>* p q \<Longrightarrow> (touches img)\<^sup>*\<^sup>* q p"
  by (induction rule: rtranclp_induct) (auto intro: converse_rtranclp_into_rtranclp touches_sym)

lemma component_self [simp]: "p \<in> component img p"
  by (simp add: component_def)

lemma component_opaque: "opaque img p \<Longrightarrow> q \<in> component img p \<Longrightarrow> opaque img q"
  by (auto simp: component_def touches_def elim: rtranclp.cases)

lemma component_step: "q \<in> component img p \<Longrightarrow> touches img q r \<Longrightarrow> r \<in> component img p"
  by (auto simp: component_def intro: rtranclp.rtrancl_into_rtrancl)

lemma component_eq: "q \<in> component img p \<Longrightarrow> component img q = component img p"
  unfolding component_def by (auto intro: rtranclp_trans reach_sym)

lemma component_closed:
  assumes "p \<in> S" and "\<And>q r. q \<in> S \<Longrightarrow> touches img q r \<Longrightarrow> r \<in> S"
  shows "component img p \<subseteq> S"
proof
  fix q assume "q \<in> component img p"
  then have "(touches img)\<^sup>*\<^sup>* p q" by (simp add: component_def)
  then show "q \<in> S" by (induction rule: rtranclp_induct) (use assms in auto)
qed

lemma finite_in_img: "finite {p. in_img img p}"
proof -
  have "{p. in_img img p} \<subseteq> {..<img_w img} \<times> {..<img_h img}" by (auto simp: in_img_def)
  then show ?thesis by (rule finite_subset) simp
qed

lemma set_row_major: "set (row_major w h) = {p. fst p < w \<and> snd p < h}"
  by (auto simp: row_major_def)

section \<open>What an island says of its pixels\<close>

definition island_of :: "image \<Rightarrow> nat \<times> nat \<Rightarrow> (nat \<times> nat) list \<Rightarrow> island" where
  "island_of img p ds = \<lparr>
     x0 = fold min (map fst ds) (fst p), y0 = fold min (map snd ds) (snd p),
     x1 = fold max (map fst ds) (fst p), y1 = fold max (map snd ds) (snd p),
     area = length ds, sum_x = sum_list (map fst ds), sum_y = sum_list (map snd ds),
     edge = filter (on_border img) ds\<rparr>"

lemma island_of_Nil: "island_of img p [] = fresh_island p"
  by (simp add: island_of_def fresh_island_def)

lemma island_of_snoc:
  "island_of img p (ds @ [c]) =
    (if on_border img c
     then (absorb c (island_of img p ds))\<lparr>edge := edge (island_of img p ds) @ [c]\<rparr>
     else absorb c (island_of img p ds))"
  by (simp add: island_of_def absorb_def min.commute max.commute)

section \<open>One flood\<close>

definition unlabelled :: "image \<Rightarrow> nat list \<Rightarrow> (nat \<times> nat) set" where
  "unlabelled img lab = {p. in_img img p \<and> label_of img lab p = u32_max}"

lemma finite_unlabelled [simp]: "finite (unlabelled img lab)"
  by (rule finite_subset [OF _ finite_in_img]) (auto simp: unlabelled_def)

text \<open>Visiting the neighbours of a pixel labels and pushes its unlabelled opaque ones.\<close>

lemma fold_visit:
  assumes "sheet_ok img" and "i \<noteq> u32_max"
  shows "length lab = img_w img * img_h img \<Longrightarrow>
    \<exists>new lab'. fold (visit img i) qs (e, lab, stack) = (e \<or> list_ex (off_island img) qs, lab', new @ stack) \<and>
      distinct new \<and> set new = {q \<in> set qs. opaque img q \<and> label_of img lab q = u32_max} \<and>
      length lab' = length lab \<and>
      (\<forall>q. in_img img q \<longrightarrow> label_of img lab' q = (if q \<in> set new then i else label_of img lab q))"
proof (induction qs arbitrary: e lab stack)
  case Nil
  then show ?case by auto
next
  case (Cons n qs)
  show ?case
  proof (cases "opaque img n \<and> label_of img lab n = u32_max")
    case False
    then have v: "visit img i n (e, lab, stack) = (e \<or> off_island img n, lab, stack)"
      by (auto simp: visit_def off_island_iff)
    from Cons.IH [OF Cons.prems, of "e \<or> off_island img n" stack] obtain new lab' where
      n: "fold (visit img i) qs (e \<or> off_island img n, lab, stack) =
           ((e \<or> off_island img n) \<or> list_ex (off_island img) qs, lab', new @ stack)"
        "distinct new" "set new = {q \<in> set qs. opaque img q \<and> label_of img lab q = u32_max}"
        "length lab' = length lab"
        "\<forall>q. in_img img q \<longrightarrow> label_of img lab' q = (if q \<in> set new then i else label_of img lab q)"
      by blast
    show ?thesis
      by (rule exI [of _ new], rule exI [of _ lab']) (use n v False in auto)
  next
    case True
    let ?lab = "lab[idx (img_w img) n := i]"
    have inn: "in_img img n" using True by (simp add: opaque_in_img)
    have notoff: "\<not> off_island img n" using True by (simp add: off_island_iff)
    have v: "visit img i n (e, lab, stack) = (e, ?lab, n # stack)"
      using True by (simp add: visit_def off_island_iff)
    have upd: "label_of img ?lab q = (if q = n then i else label_of img lab q)" if "in_img img q" for q
      using label_of_update [OF assms(1) inn that Cons.prems] .
    from Cons.IH [of ?lab e "n # stack"] Cons.prems obtain new lab' where
      n: "fold (visit img i) qs (e, ?lab, n # stack) = (e \<or> list_ex (off_island img) qs, lab', new @ n # stack)"
        "distinct new" "set new = {q \<in> set qs. opaque img q \<and> label_of img ?lab q = u32_max}"
        "length lab' = length lab"
        "\<forall>q. in_img img q \<longrightarrow> label_of img lab' q = (if q \<in> set new then i else label_of img ?lab q)"
      by auto
    have notin: "n \<notin> set new" using n(3) upd [OF inn] assms(2) by auto
    have set: "set (new @ [n]) = {q \<in> set (n # qs). opaque img q \<and> label_of img lab q = u32_max}"
    proof -
      have "{q \<in> set qs. opaque img q \<and> label_of img ?lab q = u32_max}
            = {q \<in> set qs. opaque img q \<and> q \<noteq> n \<and> label_of img lab q = u32_max}"
        using upd opaque_in_img assms(2) by (intro Collect_cong) (metis (full_types))
      with n(3) True show ?thesis by auto
    qed
    show ?thesis
      by (rule exI [of _ "new @ [n]"], rule exI [of _ lab'])
        (use n v notoff notin set upd in auto)
  qed
qed

text \<open>The pixels of a flood from \<open>p\<close> are the labelled ones, split into those done and those stacked.\<close>

definition flooding ::
  "image \<Rightarrow> nat \<Rightarrow> nat \<times> nat \<Rightarrow> nat list \<Rightarrow> (nat \<times> nat) list \<Rightarrow> (nat \<times> nat) list \<Rightarrow> nat list \<Rightarrow> bool" where
  "flooding img i p before ds stack lab \<longleftrightarrow>
    length lab = img_w img * img_h img \<and> distinct (ds @ stack) \<and> p \<in> set (ds @ stack) \<and>
    set (ds @ stack) \<subseteq> component img p \<and>
    (\<forall>q. in_img img q \<longrightarrow> label_of img lab q = (if q \<in> set (ds @ stack) then i else label_of img before q)) \<and>
    (\<forall>d\<in>set ds. \<forall>q. touches img d q \<longrightarrow> q \<in> set (ds @ stack))"

lemma flooding_step:
  assumes ok: "sheet_ok img" "i \<noteq> u32_max" "opaque img p"
    and before: "\<forall>q\<in>component img p. label_of img before q = u32_max"
    and inv: "flooding img i p before ds (c # rest) lab"
    and step: "fold (visit img i) (neighbours c) (False, lab, rest) = (e, lab', stack')"
  shows "e = on_border img c" "flooding img i p before (ds @ [c]) stack' lab'"
    "card (unlabelled img lab') + length stack' < card (unlabelled img lab) + length (c # rest)"
proof -
  have len: "length lab = img_w img * img_h img" using inv by (simp add: flooding_def)
  from fold_visit [OF ok(1,2) len, of "neighbours c" False rest] step obtain new where
    n: "e = list_ex (off_island img) (neighbours c)" "stack' = new @ rest" "distinct new"
      "set new = {q \<in> set (neighbours c). opaque img q \<and> label_of img lab q = u32_max}"
      "length lab' = length lab"
      "\<forall>q. in_img img q \<longrightarrow> label_of img lab' q = (if q \<in> set new then i else label_of img lab q)"
    by auto
  show "e = on_border img c" using n(1) by (simp add: on_border_def)
  have c: "c \<in> component img p" using inv by (simp add: flooding_def)
  then have oc: "opaque img c" using component_opaque ok(3) by blast
  have new: "set new = {q. touches img c q \<and> label_of img lab q = u32_max}"
  proof -
    have "q \<in> set (neighbours c) \<longleftrightarrow> beside c q" if "opaque img q" for q
      using neighbours_in_img [OF ok(1) opaque_in_img [OF oc] opaque_in_img [OF that]] .
    then show ?thesis unfolding n(4) touches_def using oc by blast
  qed
  have lv: "label_of img lab q = (if q \<in> set (ds @ c # rest) then i else label_of img before q)"
    if "in_img img q" for q using inv that by (simp only: flooding_def)
  have fresh: "set new \<inter> set (ds @ c # rest) = {}"
  proof (intro equals0I, elim IntE)
    fix q assume q: "q \<in> set new" "q \<in> set (ds @ c # rest)"
    then have "in_img img q" "label_of img lab q = u32_max"
      using new by (auto simp: touches_def opaque_in_img)
    with lv [of q] q(2) ok(2) show False by metis
  qed
  have sub: "set new \<subseteq> component img p" using new c component_step by blast
  have closed: "q \<in> set ((ds @ [c]) @ stack')" if t: "touches img c q" for q
  proof -
    have q: "q \<in> component img p" "in_img img q"
      using component_step [OF c t] t by (auto simp: touches_def opaque_in_img)
    show ?thesis
    proof (cases "label_of img lab q = u32_max")
      case True
      with t new n(2) show ?thesis by auto
    next
      case False
      from lv [OF q(2)] have "q \<in> set (ds @ c # rest)" using False before q(1) by (auto split: if_splits)
      with n(2) show ?thesis by auto
    qed
  qed
  show "flooding img i p before (ds @ [c]) stack' lab'"
    unfolding flooding_def
  proof (intro conjI ballI allI impI)
    show "length lab' = img_w img * img_h img" using n(5) len by simp
    show "distinct ((ds @ [c]) @ stack')" using inv n(2,3) fresh by (auto simp: flooding_def)
    show "p \<in> set ((ds @ [c]) @ stack')" using inv n(2) by (auto simp: flooding_def)
    show "set ((ds @ [c]) @ stack') \<subseteq> component img p" using inv n(2) sub by (auto simp: flooding_def)
    show "label_of img lab' q = (if q \<in> set ((ds @ [c]) @ stack') then i else label_of img before q)"
      if q: "in_img img q" for q
      using lv [OF q] n(2,6) q by auto
    show "q \<in> set ((ds @ [c]) @ stack')" if "d \<in> set (ds @ [c])" "touches img d q" for d q
    proof (cases "d = c")
      case True
      with that(2) show ?thesis using closed by blast
    next
      case False
      with that have "q \<in> set (ds @ c # rest)" using inv unfolding flooding_def by auto
      with n(2) show ?thesis by auto
    qed
  qed
  have lv': "label_of img lab' q = (if q \<in> set new then i else label_of img lab q)"
    if "in_img img q" for q using n(6) that by blast
  have "unlabelled img lab' = unlabelled img lab - set new"
    unfolding unlabelled_def using ok(2) by (auto simp: lv' split: if_splits)
  moreover have "set new \<subseteq> unlabelled img lab" using new by (auto simp: unlabelled_def touches_def opaque_in_img)
  ultimately have "card (unlabelled img lab') + card (set new) = card (unlabelled img lab)"
    by (metis card_Diff_subset card_mono finite_set finite_unlabelled le_add_diff_inverse2)
  then show "card (unlabelled img lab') + length stack' < card (unlabelled img lab) + length (c # rest)"
    using n(2,3) distinct_card [OF n(3)] by simp
qed

lemma flood_correct:
  assumes ok: "sheet_ok img" "i \<noteq> u32_max" "opaque img p"
    and before: "\<forall>q\<in>component img p. label_of img before q = u32_max"
  shows "flooding img i p before ds stack lab \<Longrightarrow>
    \<exists>ds' lab'. flood img i stack lab (island_of img p ds) = Some (lab', island_of img p ds') \<and>
      flooding img i p before ds' [] lab'"
proof (induction "card (unlabelled img lab) + length stack" arbitrary: ds stack lab rule: less_induct)
  case less
  show ?case
  proof (cases stack)
    case Nil
    with less.prems show ?thesis by (auto simp: flood.simps)
  next
    case (Cons c rest)
    obtain e lab' stack' where
      step: "fold (visit img i) (neighbours c) (False, lab, rest) = (e, lab', stack')"
      by (metis surj_pair)
    note inv = less.prems [unfolded Cons]
    note next_inv = flooding_step [OF ok before inv step]
    from less.hyps [OF _ next_inv(2)] next_inv(3) Cons obtain ds' lab'' where
      "flood img i stack' lab' (island_of img p (ds @ [c])) = Some (lab'', island_of img p ds')"
      "flooding img i p before ds' [] lab''" by auto
    then show ?thesis
      by (intro exI [of _ ds'] exI [of _ lab''])
        (simp add: Cons flood.simps [of img i "c # rest"] step next_inv(1) island_of_snoc)
  qed
qed

lemma flooding_start:
  assumes "sheet_ok img" and "opaque img p" and "length lab = img_w img * img_h img"
  shows "flooding img i p lab [] [p] (lab[idx (img_w img) p := i])"
  using label_of_update [OF assms(1) opaque_in_img [OF assms(2)] _ assms(3)] assms(3)
  by (simp add: flooding_def)

lemma flooding_end:
  assumes "flooding img i p before ds [] lab"
  shows "set ds = component img p"
proof
  show "set ds \<subseteq> component img p" using assms by (simp add: flooding_def)
  show "component img p \<subseteq> set ds"
    by (rule component_closed) (use assms in \<open>auto simp: flooding_def\<close>)
qed

section \<open>The whole sheet\<close>

text \<open>After some pixels have been scanned, the islands found are components, each with its own label.\<close>

definition labelling :: "image \<Rightarrow> nat list \<Rightarrow> island list \<Rightarrow> bool" where
  "labelling img lab out \<longleftrightarrow>
    length lab = img_w img * img_h img \<and>
    (\<forall>p. in_img img p \<longrightarrow> label_of img lab p = u32_max \<or> (label_of img lab p < length out \<and> opaque img p)) \<and>
    (\<forall>k<length out. \<exists>p ds. opaque img p \<and> distinct ds \<and> set ds = component img p \<and>
       out ! k = island_of img p ds \<and> {q. in_img img q \<and> label_of img lab q = k} = component img p)"

lemma labelling_component:
  assumes "labelling img lab out" and "opaque img p" and "q \<in> component img p"
  shows "label_of img lab q = label_of img lab p"
proof -
  have in_comp: "label_of img lab s = label_of img lab r"
    if r: "opaque img r" "label_of img lab r \<noteq> u32_max" and s: "s \<in> component img r" for r s
  proof -
    have k: "label_of img lab r < length out"
      using assms(1) r opaque_in_img [of img r] unfolding labelling_def by blast
    then obtain t where t: "{q. in_img img q \<and> label_of img lab q = label_of img lab r} = component img t"
      using assms(1) unfolding labelling_def by blast
    then have "r \<in> component img t" using r(1) opaque_in_img by blast
    then have "s \<in> component img t" using s component_eq by blast
    with t show ?thesis by blast
  qed
  have oq: "opaque img q" using component_opaque assms(2,3) by blast
  have "p \<in> component img q" using component_eq [OF assms(3)] by simp
  with in_comp [of p q] in_comp [of q p] assms(2,3) oq show ?thesis by metis
qed

lemma labelling_count:
  assumes "sheet_ok img" and "labelling img lab out" and "in_img img p" and "label_of img lab p = u32_max"
  shows "length out < u32_max"
proof -
  let ?lbl = "\<lambda>q. label_of img lab q"
  have ex: "\<exists>q. in_img img q \<and> ?lbl q = k" if "k < length out" for k
  proof -
    from assms(2) that obtain t where "{q. in_img img q \<and> ?lbl q = k} = component img t"
      unfolding labelling_def by blast
    then show ?thesis using component_self [of t img] by blast
  qed
  have "{..<length out} \<union> {u32_max} \<subseteq> ?lbl ` {q. in_img img q}"
  proof
    fix k assume "k \<in> {..<length out} \<union> {u32_max}"
    then have "\<exists>q. in_img img q \<and> ?lbl q = k" using ex assms(3,4) by blast
    then show "k \<in> ?lbl ` {q. in_img img q}" by blast
  qed
  then have "card ({..<length out} \<union> {u32_max}) \<le> card {q. in_img img q}"
    using card_mono finite_in_img finite_imageI card_image_le le_trans by metis
  moreover have "{q. in_img img q} = {..<img_w img} \<times> {..<img_h img}" by (auto simp: in_img_def)
  then have "card {q. in_img img q} \<le> u32_max" using assms(1) by (simp add: sheet_ok_def)
  ultimately have le: "card ({..<length out} \<union> {u32_max}) \<le> u32_max" by simp
  show ?thesis
  proof (rule ccontr)
    assume "\<not> ?thesis"
    then have "{..u32_max} \<subseteq> {..<length out} \<union> {u32_max}" by auto
    then have "card {..u32_max} \<le> card ({..<length out} \<union> {u32_max})" by (rule card_mono [rotated]) simp
    with le show False by simp
  qed
qed

lemma labelling_next:
  assumes ok: "sheet_ok img" and inv: "labelling img lab out"
    and p: "opaque img p" "label_of img lab p = u32_max"
  shows "\<exists>il lab'. flood img (length out) [p] (lab[idx (img_w img) p := length out]) (fresh_island p)
      = Some (lab', il) \<and> labelling img lab' (out @ [il]) \<and>
      (\<forall>q. in_img img q \<longrightarrow> label_of img lab' q =
         (if q \<in> component img p then length out else label_of img lab q))"
proof -
  have len: "length lab = img_w img * img_h img" using inv by (simp add: labelling_def)
  have inp: "in_img img p" using p(1) by (simp add: opaque_in_img)
  have i: "length out < u32_max" using labelling_count [OF ok inv inp p(2)] .
  have before: "\<forall>q\<in>component img p. label_of img lab q = u32_max"
    using labelling_component [OF inv p(1)] p(2) by simp
  have ne: "length out \<noteq> u32_max" using i by simp
  from flood_correct [OF ok ne p(1) before flooding_start [OF ok p(1) len]] obtain ds lab' where
    f: "flood img (length out) [p] (lab[idx (img_w img) p := length out]) (fresh_island p)
          = Some (lab', island_of img p ds)"
      "flooding img (length out) p lab ds [] lab'" by (auto simp: island_of_Nil)
  have ds: "set ds = component img p" using flooding_end [OF f(2)] .
  have lv: "label_of img lab' q = (if q \<in> component img p then length out else label_of img lab q)"
    if "in_img img q" for q using f(2) that by (simp add: flooding_def ds)
  have old: "{q. in_img img q \<and> label_of img lab' q = k} = {q. in_img img q \<and> label_of img lab q = k}"
    if k: "k < length out" for k
  proof (intro Collect_cong conj_cong refl)
    fix q assume "in_img img q"
    from lv [OF this] show "label_of img lab' q = k \<longleftrightarrow> label_of img lab q = k"
      using before k i by auto
  qed
  have new: "{q. in_img img q \<and> label_of img lab' q = length out} = component img p"
  proof (intro equalityI subsetI CollectI)
    fix q assume "q \<in> {q. in_img img q \<and> label_of img lab' q = length out}"
    then have q: "in_img img q" "label_of img lab' q = length out" by simp_all
    then have "label_of img lab q \<noteq> length out \<or> q \<in> component img p"
      using inv i unfolding labelling_def by (metis less_irrefl)
    with lv [OF q(1)] q(2) show "q \<in> component img p" by (auto split: if_splits)
  next
    fix q assume q: "q \<in> component img p"
    then have "in_img img q" using component_opaque p(1) opaque_in_img by blast
    with lv q show "in_img img q \<and> label_of img lab' q = length out" by simp
  qed
  have "labelling img lab' (out @ [island_of img p ds])"
    unfolding labelling_def
  proof (intro conjI allI impI)
    show "length lab' = img_w img * img_h img" using f(2) by (simp add: flooding_def)
    show "label_of img lab' q = u32_max \<or>
        label_of img lab' q < length (out @ [island_of img p ds]) \<and> opaque img q" if "in_img img q" for q
      using lv [OF that] inv that component_opaque [OF p(1)] unfolding labelling_def
      by (auto simp: less_Suc_eq)
    show "\<exists>r es. opaque img r \<and> distinct es \<and> set es = component img r \<and>
        (out @ [island_of img p ds]) ! k = island_of img r es \<and>
        {q. in_img img q \<and> label_of img lab' q = k} = component img r"
      if "k < length (out @ [island_of img p ds])" for k
    proof (cases "k = length out")
      case True
      have "distinct ds" using f(2) by (simp add: flooding_def)
      with True ds new p(1) show ?thesis by auto
    next
      case False
      with that have "k < length out" by simp
      with inv old [OF this] show ?thesis unfolding labelling_def by (simp add: nth_append)
    qed
  qed
  with f(1) lv show ?thesis by blast
qed

lemma scan_correct:
  assumes ok: "sheet_ok img"
  shows "labelling img lab out \<Longrightarrow> \<forall>p\<in>set ps. in_img img p \<Longrightarrow>
    \<exists>lab' out'. scan img ps lab out = Some (lab', out') \<and> labelling img lab' out' \<and>
      (\<forall>q. in_img img q \<longrightarrow> label_of img lab q \<noteq> u32_max \<longrightarrow> label_of img lab' q \<noteq> u32_max) \<and>
      (\<forall>p\<in>set ps. opaque img p \<longrightarrow> label_of img lab' p \<noteq> u32_max)"
proof (induction ps arbitrary: lab out)
  case Nil
  then show ?case by auto
next
  case (Cons p ps)
  have inp: "in_img img p" using Cons.prems(2) by simp
  show ?case
  proof (cases "opaque img p \<and> label_of img lab p = u32_max")
    case False
    then have "scan img (p # ps) lab out = scan img ps lab out"
      using inp by (auto simp: opaque_def)
    with Cons.IH [OF Cons.prems(1)] Cons.prems(2) False inp show ?thesis by auto
  next
    case True
    from labelling_next [OF ok Cons.prems(1)] True obtain il lab1 where
      n: "flood img (length out) [p] (lab[idx (img_w img) p := length out]) (fresh_island p)
            = Some (lab1, il)" "labelling img lab1 (out @ [il])"
        "\<forall>q. in_img img q \<longrightarrow> label_of img lab1 q =
           (if q \<in> component img p then length out else label_of img lab q)" by blast
    have i: "length out < u32_max" using labelling_count [OF ok Cons.prems(1) inp] True by blast
    have "scan img (p # ps) lab out = scan img ps lab1 (out @ [il])"
      using n(1) True by (simp add: opaque_def)
    moreover from Cons.IH [OF n(2)] Cons.prems(2) obtain lab' out' where
      r: "scan img ps lab1 (out @ [il]) = Some (lab', out')" "labelling img lab' out'"
        "\<forall>q. in_img img q \<longrightarrow> label_of img lab1 q \<noteq> u32_max \<longrightarrow> label_of img lab' q \<noteq> u32_max"
        "\<forall>p\<in>set ps. opaque img p \<longrightarrow> label_of img lab' p \<noteq> u32_max" by auto
    moreover have "label_of img lab1 q \<noteq> u32_max"
      if "in_img img q" "label_of img lab q \<noteq> u32_max \<or> q = p" for q
    proof -
      have "label_of img lab1 q = (if q \<in> component img p then length out else label_of img lab q)"
        using n(3) that(1) by blast
      with that(2) i show ?thesis by auto
    qed
    ultimately show ?thesis using inp by auto
  qed
qed

lemma labelling_start:
  "sheet_ok img \<Longrightarrow> labelling img (replicate (wrap32 (img_w img * img_h img)) u32_max) []"
  by (auto simp: labelling_def sheet_ok_def wrap32_def u32_max_def idx_def mult.commute
      dest!: in_img_less)

definition interior :: "image \<Rightarrow> nat \<times> nat \<Rightarrow> bool" where
  "interior img p \<longleftrightarrow> 0 < fst p \<and> 0 < snd p \<and>
     opaque img (fst p - 1, snd p) \<and> opaque img (fst p + 1, snd p) \<and>
     opaque img (fst p, snd p - 1) \<and> opaque img (fst p, snd p + 1)"

lemma on_border_iff:
  assumes "sheet_ok img" and "in_img img p"
  shows "on_border img p \<longleftrightarrow> \<not> interior img p"
proof -
  obtain a b where p: "p = (a, b)" by (metis surj_pair)
  have le: "a < u32_max" "b < u32_max" "img_w img \<le> u32_max" "img_h img \<le> u32_max"
    using width_le [OF assms] assms(2) by (auto simp: in_img_def p)
  have wrap: "wrap32 (n + u32_max) = (if n = 0 then u32_max else n - 1)" if "n < u32_max" for n
    using that by (cases n) (auto simp: wrap32_def u32_max_def)
  have "\<not> opaque img (u32_max, b)" "\<not> opaque img (a, u32_max)"
    using le(3,4) by (auto simp: opaque_def in_img_def)
  then show ?thesis
    using le(1,2) by (auto simp: p on_border_def neighbours_def off_island_iff interior_def wrap)
qed

lemma fold_min_Min: "fold min xs (a :: nat) = Min (insert a (set xs))"
  using Min.set_eq_fold [of a xs] by simp

lemma fold_max_Max: "fold max xs (a :: nat) = Max (insert a (set xs))"
  using Max.set_eq_fold [of a xs] by simp

text \<open>What an island says of a set of pixels: how many, their sums, their box, their edge.\<close>

definition describes :: "image \<Rightarrow> island \<Rightarrow> (nat \<times> nat) set \<Rightarrow> bool" where
  "describes img il C \<longleftrightarrow> C \<noteq> {} \<and> area il = card C \<and>
     sum_x il = (\<Sum>p\<in>C. fst p) \<and> sum_y il = (\<Sum>p\<in>C. snd p) \<and>
     x0 il = Min (fst ` C) \<and> x1 il = Max (fst ` C) \<and> y0 il = Min (snd ` C) \<and> y1 il = Max (snd ` C) \<and>
     distinct (edge il) \<and> set (edge il) = {p \<in> C. \<not> interior img p}"

lemma island_of_describes:
  assumes "sheet_ok img" and "distinct ds" and "set ds = component img p" and "opaque img p"
  shows "describes img (island_of img p ds) (component img p)"
proof -
  have p: "insert (f p) (f ` set ds) = f ` component img p" for f :: "nat \<times> nat \<Rightarrow> nat"
    using assms(3) component_self [of p img] by auto
  have "set (filter (on_border img) ds) = {q \<in> component img p. \<not> interior img q}"
    using on_border_iff [OF assms(1)] component_opaque [OF assms(4)] opaque_in_img assms(3) by auto
  moreover have "component img p \<noteq> {}" using component_self by blast
  ultimately show ?thesis
    using assms(2,3) p [of fst] p [of snd]
    by (auto simp: describes_def island_of_def fold_min_Min fold_max_Max distinct_card [symmetric]
        sum_list_distinct_conv_sum_set)
qed

lemma islands_labelling:
  assumes "sheet_ok img"
  obtains lab ils where "islands img = Some (lab, ils)" and "labelling img lab ils"
    and "\<And>p. opaque img p \<Longrightarrow> label_of img lab p \<noteq> u32_max"
proof -
  have "\<forall>p\<in>set (row_major (img_w img) (img_h img)). in_img img p"
    by (simp add: set_row_major in_img_def)
  from scan_correct [OF assms labelling_start [OF assms] this] obtain lab ils where
    "islands img = Some (lab, ils)" "labelling img lab ils"
    "\<forall>p\<in>set (row_major (img_w img) (img_h img)). opaque img p \<longrightarrow> label_of img lab p \<noteq> u32_max"
    by (auto simp: islands_def)
  with that show ?thesis by (auto simp: set_row_major opaque_def in_img_def)
qed

definition island_pixels :: "image \<Rightarrow> nat list \<Rightarrow> nat \<Rightarrow> (nat \<times> nat) set" where
  "island_pixels img lab k = {p. in_img img p \<and> label_of img lab p = k}"

lemma labelling_lt:
  assumes "labelling img lab out" and "opaque img p" and "label_of img lab p \<noteq> u32_max"
  shows "label_of img lab p < length out"
  using assms opaque_in_img [OF assms(2)] unfolding labelling_def by blast

lemma labelling_touches:
  assumes lab: "labelling img lab out" "\<And>p. opaque img p \<Longrightarrow> label_of img lab p \<noteq> u32_max"
    and pq: "opaque img p" "opaque img q"
  shows "label_of img lab p = label_of img lab q \<longleftrightarrow> (touches img)\<^sup>*\<^sup>* p q"
proof
  assume eq: "label_of img lab p = label_of img lab q"
  from lab(1) labelling_lt [OF lab(1) pq(1) lab(2) [OF pq(1)]] obtain r where
    r: "{s. in_img img s \<and> label_of img lab s = label_of img lab p} = component img r"
    unfolding labelling_def by blast
  have p: "p \<in> component img r" and q: "q \<in> component img r"
    unfolding r [symmetric] using pq opaque_in_img eq by simp_all
  from component_eq [OF p] q have "q \<in> component img p" by simp
  then show "(touches img)\<^sup>*\<^sup>* p q" by (simp add: component_def)
next
  assume "(touches img)\<^sup>*\<^sup>* p q"
  then show "label_of img lab p = label_of img lab q"
    using labelling_component [OF lab(1) pq(1), of q] by (simp add: component_def)
qed

lemma labelling_describes:
  assumes "sheet_ok img" and "labelling img lab out" and "k < length out"
  shows "describes img (out ! k) (island_pixels img lab k)"
    and "\<exists>p. opaque img p \<and> island_pixels img lab k = component img p"
proof -
  from assms(2,3) obtain p ds where p: "opaque img p" "distinct ds" "set ds = component img p"
    "out ! k = island_of img p ds" "{q. in_img img q \<and> label_of img lab q = k} = component img p"
    unfolding labelling_def by blast
  show "describes img (out ! k) (island_pixels img lab k)"
    unfolding island_pixels_def p(4,5) by (rule island_of_describes [OF assms(1) p(2,3,1)])
  show "\<exists>p. opaque img p \<and> island_pixels img lab k = component img p"
    unfolding island_pixels_def p(5) using p(1) by blast
qed

lemma islands_correct:
  assumes "sheet_ok img"
  obtains lab ils where "islands img = Some (lab, ils)"
    and "\<And>p. in_img img p \<Longrightarrow> label_of img lab p = u32_max \<longleftrightarrow> \<not> opaque img p"
    and "\<And>p. opaque img p \<Longrightarrow> label_of img lab p < length ils"
    and "\<And>p q. opaque img p \<Longrightarrow> opaque img q \<Longrightarrow>
      label_of img lab p = label_of img lab q \<longleftrightarrow> (touches img)\<^sup>*\<^sup>* p q"
    and "\<And>k. k < length ils \<Longrightarrow> describes img (ils ! k) (island_pixels img lab k)"
    and "\<And>k. k < length ils \<Longrightarrow> \<exists>p. opaque img p \<and> island_pixels img lab k = component img p"
proof -
  from islands_labelling [OF assms] obtain lab ils where
    i: "islands img = Some (lab, ils)" "labelling img lab ils"
      "\<And>p. opaque img p \<Longrightarrow> label_of img lab p \<noteq> u32_max" by blast
  have t: "label_of img lab p = u32_max \<longleftrightarrow> \<not> opaque img p" if "in_img img p" for p
    using i(2,3) that unfolding labelling_def by blast
  show ?thesis
    by (rule that [OF i(1) t labelling_lt [OF i(2)] labelling_touches [OF i(2)]
        labelling_describes [OF assms i(2)]]) (simp_all add: i(3))
qed



end
