(* ===== verification/Sheet_Join_Props.thy ===== *)
theory Sheet_Join_Props
  imports Sheet_Islands_Props
begin

text \<open>
  Joining islands of \<open>image_gen/split.rs\<close>: the grid of edge pixels answers exactly whether two islands
  come within the gap, the union-find with path halving always ends and finds representatives, and the
  groups it leaves are the clusters of islands near real pieces.
\<close>

section \<open>Near islands\<close>

definition chebyshev :: "nat \<times> nat \<Rightarrow> nat \<times> nat \<Rightarrow> nat" where
  "chebyshev p q = max (abs_diff (fst p) (fst q)) (abs_diff (snd p) (snd q))"

definition grid_points :: "grid \<Rightarrow> nat \<times> nat \<Rightarrow> (nat \<times> nat) list" where
  "grid_points g k = (case g k of None \<Rightarrow> [] | Some ps \<Rightarrow> ps)"

lemma abs_diff_sym: "abs_diff a b = abs_diff b a"
  by (simp add: abs_diff_def)

lemma chebyshev_sym: "chebyshev p q = chebyshev q p"
  by (simp add: chebyshev_def abs_diff_sym)

lemma grid_points_fold:
  "grid_points (fold (grid_push cell) ps g) k =
     grid_points g k @ filter (\<lambda>p. (fst p div cell, snd p div cell) = k) ps"
proof (induction ps arbitrary: g)
  case (Cons p ps)
  have "grid_points (grid_push cell p g) k =
      grid_points g k @ (if (fst p div cell, snd p div cell) = k then [p] else [])"
    by (simp add: grid_points_def grid_push_def Let_def)
  with Cons.IH show ?case by simp
qed (simp add: grid_points_def)

lemma div_close:
  assumes "abs_diff a b \<le> gap" and "gap \<le> cell" and "0 < cell"
  shows "b div cell \<in> set [a div cell - 1..<a div cell + 2]"
proof -
  have le: "a \<le> b + cell" "b \<le> a + cell" using assms(1,2) by (auto simp: abs_diff_def split: if_splits)
  have "a div cell \<le> (b + cell) div cell" "b div cell \<le> (a + cell) div cell"
    using le by (auto intro: div_le_mono)
  then have "a div cell \<le> b div cell + 1" "b div cell \<le> a div cell + 1"
    using assms(3) by (simp_all add: div_add_self2)
  then show ?thesis unfolding set_upt atLeastLessThan_iff by linarith
qed

lemma near_iff:
  "near a b gap \<longleftrightarrow> box_gap a b \<le> gap \<and> (\<exists>p\<in>set (edge a). \<exists>q\<in>set (edge b). chebyshev q p \<le> gap)"
proof -
  let ?cell = "max gap 1"
  let ?grid = "fold (grid_push ?cell) (edge b) Map.empty"
  have pts: "(case ?grid k of None \<Rightarrow> False | Some ps \<Rightarrow> list_ex P ps) \<longleftrightarrow>
      (\<exists>q\<in>set (edge b). (fst q div ?cell, snd q div ?cell) = k \<and> P q)" for k P
  proof -
    have "(case ?grid k of None \<Rightarrow> False | Some ps \<Rightarrow> list_ex P ps) \<longleftrightarrow> list_ex P (grid_points ?grid k)"
      by (simp add: grid_points_def split: option.split)
    then show ?thesis by (auto simp: grid_points_fold list_ex_iff) (simp add: grid_points_def)
  qed
  have cell: "gap \<le> ?cell" "0 < ?cell" by simp_all
  have key: "list_ex (\<lambda>cx. list_ex (\<lambda>cy. case ?grid (cx, cy) of None \<Rightarrow> False
        | Some pts \<Rightarrow> list_ex (\<lambda>(qx, qy). max (abs_diff qx x) (abs_diff qy y) \<le> gap) pts)
        [y div ?cell - 1..<y div ?cell + 2]) [x div ?cell - 1..<x div ?cell + 2]
      \<longleftrightarrow> (\<exists>q\<in>set (edge b). chebyshev q (x, y) \<le> gap)" for x y
  proof
    assume "\<exists>q\<in>set (edge b). chebyshev q (x, y) \<le> gap"
    then obtain q where q: "q \<in> set (edge b)" "abs_diff x (fst q) \<le> gap" "abs_diff y (snd q) \<le> gap"
      by (auto simp: chebyshev_def abs_diff_sym)
    have m: "fst q div ?cell \<in> set [x div ?cell - 1..<x div ?cell + 2]"
      "snd q div ?cell \<in> set [y div ?cell - 1..<y div ?cell + 2]"
      by (rule div_close [OF q(2) cell], rule div_close [OF q(3) cell])
    have "(\<lambda>(qx, qy). max (abs_diff qx x) (abs_diff qy y) \<le> gap) q"
      using q(2,3) by (simp add: case_prod_beta abs_diff_sym)
    with q(1) have "\<exists>r\<in>set (edge b). (fst r div ?cell, snd r div ?cell) = (fst q div ?cell, snd q div ?cell) \<and>
        (\<lambda>(qx, qy). max (abs_diff qx x) (abs_diff qy y) \<le> gap) r" by blast
    with m show "list_ex (\<lambda>cx. list_ex (\<lambda>cy. case ?grid (cx, cy) of None \<Rightarrow> False
        | Some pts \<Rightarrow> list_ex (\<lambda>(qx, qy). max (abs_diff qx x) (abs_diff qy y) \<le> gap) pts)
        [y div ?cell - 1..<y div ?cell + 2]) [x div ?cell - 1..<x div ?cell + 2]"
      unfolding pts unfolding list_ex_iff by blast
  next
    assume "list_ex (\<lambda>cx. list_ex (\<lambda>cy. case ?grid (cx, cy) of None \<Rightarrow> False
        | Some pts \<Rightarrow> list_ex (\<lambda>(qx, qy). max (abs_diff qx x) (abs_diff qy y) \<le> gap) pts)
        [y div ?cell - 1..<y div ?cell + 2]) [x div ?cell - 1..<x div ?cell + 2]"
    then obtain q where "q \<in> set (edge b)" "(\<lambda>(qx, qy). max (abs_diff qx x) (abs_diff qy y) \<le> gap) q"
      unfolding pts unfolding list_ex_iff by blast
    then show "\<exists>q\<in>set (edge b). chebyshev q (x, y) \<le> gap"
      by (intro bexI [of _ q]) (simp_all add: chebyshev_def case_prod_beta)
  qed
  show ?thesis
    unfolding near_def Let_def key by (auto simp: list_ex_iff not_less)
qed

text \<open>Stepping from a pixel toward another one shortens the way to it.\<close>

lemma step_closer:
  assumes "p \<noteq> q" and "interior img p" and "opaque img p"
  shows "\<exists>r. touches img p r \<and> chebyshev r q \<le> chebyshev p q \<and>
    abs_diff (fst r) (fst q) + abs_diff (snd r) (snd q) < abs_diff (fst p) (fst q) + abs_diff (snd p) (snd q)"
proof -
  obtain a b c d where pq: "p = (a, b)" "q = (c, d)" by (metis surj_pair)
  have step: ?thesis
    if "opaque img r" "beside p r" "chebyshev r q \<le> chebyshev p q"
      "abs_diff (fst r) (fst q) + abs_diff (snd r) (snd q) < abs_diff (fst p) (fst q) + abs_diff (snd p) (snd q)" for r
    using that assms(3) by (auto simp: touches_def)
  consider "a < c" | "c < a" | "a = c" "b < d" | "a = c" "d < b" using assms(1) pq by fastforce
  then show ?thesis
  proof cases
    case 1
    show ?thesis by (rule step [of "(a + 1, b)"])
        (use 1 assms(2) in \<open>auto simp: pq interior_def beside_def chebyshev_def abs_diff_def\<close>)
  next
    case 2
    show ?thesis by (rule step [of "(a - 1, b)"])
        (use 2 assms(2) in \<open>auto simp: pq interior_def beside_def chebyshev_def abs_diff_def\<close>)
  next
    case 3
    show ?thesis by (rule step [of "(a, b + 1)"])
        (use 3 assms(2) in \<open>auto simp: pq interior_def beside_def chebyshev_def abs_diff_def\<close>)
  next
    case 4
    show ?thesis by (rule step [of "(a, b - 1)"])
        (use 4 assms(2) in \<open>auto simp: pq interior_def beside_def chebyshev_def abs_diff_def\<close>)
  qed
qed

text \<open>An island is a set of opaque pixels closed under touching.\<close>

definition island_set :: "image \<Rightarrow> (nat \<times> nat) set \<Rightarrow> bool" where
  "island_set img A \<longleftrightarrow> finite A \<and> (\<forall>p\<in>A. opaque img p) \<and> (\<forall>p\<in>A. \<forall>q. touches img p q \<longrightarrow> q \<in> A)"

lemma nearest_on_edge:
  assumes "island_set img A" and "island_set img B" and "A \<inter> B = {}"
    and "p \<in> A" and "q \<in> B" and "chebyshev p q \<le> gap"
  shows "\<exists>p\<in>A. \<exists>q\<in>B. \<not> interior img p \<and> \<not> interior img q \<and> chebyshev p q \<le> gap"
  using assms(4,5,6)
proof (induction "abs_diff (fst p) (fst q) + abs_diff (snd p) (snd q)" arbitrary: p q rule: less_induct)
  case less
  have ne: "p \<noteq> q" using less.prems(1,2) assms(3) by blast
  have op: "opaque img p" "opaque img q" using less.prems assms(1,2) by (auto simp: island_set_def)
  show ?case
  proof (cases "interior img p")
    case True
    from step_closer [OF ne True op(1)] obtain r where
      r: "touches img p r" "chebyshev r q \<le> chebyshev p q"
        "abs_diff (fst r) (fst q) + abs_diff (snd r) (snd q) < abs_diff (fst p) (fst q) + abs_diff (snd p) (snd q)"
      by blast
    have "r \<in> A" using assms(1) less.prems(1) r(1) unfolding island_set_def by blast
    from less.hyps [OF r(3) this less.prems(2)] r(2) less.prems(3) show ?thesis by simp
  next
    case False
    show ?thesis
    proof (cases "interior img q")
      case True
      from step_closer [OF ne [symmetric] True op(2)] obtain r where
        r: "touches img q r" "chebyshev r p \<le> chebyshev q p"
          "abs_diff (fst r) (fst p) + abs_diff (snd r) (snd p) < abs_diff (fst q) (fst p) + abs_diff (snd q) (snd p)"
        by blast
      have "r \<in> B" using assms(2) less.prems(2) r(1) unfolding island_set_def by blast
      moreover have "abs_diff (fst p) (fst r) + abs_diff (snd p) (snd r) < abs_diff (fst p) (fst q) + abs_diff (snd p) (snd q)"
        using r(3) by (simp add: abs_diff_sym)
      ultimately show ?thesis
        using less.hyps [of p r] less.prems r(2) by (simp add: chebyshev_sym)
    next
      case False
      with \<open>\<not> interior img p\<close> less.prems show ?thesis by blast
    qed
  qed
qed

lemma box_gap_le:
  assumes "describes img a A" and "describes img b B" and "finite A" and "finite B"
    and "p \<in> A" and "q \<in> B"
  shows "box_gap a b \<le> chebyshev p q"
proof -
  have "x0 a \<le> fst p" "fst p \<le> x1 a" "y0 a \<le> snd p" "snd p \<le> y1 a"
    "x0 b \<le> fst q" "fst q \<le> x1 b" "y0 b \<le> snd q" "snd q \<le> y1 b"
    using assms by (auto simp: describes_def)
  then show ?thesis by (auto simp: box_gap_def chebyshev_def abs_diff_def Let_def)
qed

text \<open>The pixels decide: boxes and edges never hide a close pair, nor invent one.\<close>

lemma near_islands:
  assumes "island_set img A" and "island_set img B" and "A \<inter> B = {}"
    and "describes img a A" and "describes img b B"
  shows "near a b gap \<longleftrightarrow> (\<exists>p\<in>A. \<exists>q\<in>B. chebyshev p q \<le> gap)"
proof
  assume "near a b gap"
  then obtain p q where "p \<in> set (edge a)" "q \<in> set (edge b)" "chebyshev p q \<le> gap"
    by (auto simp: near_iff chebyshev_sym)
  with assms(4,5) show "\<exists>p\<in>A. \<exists>q\<in>B. chebyshev p q \<le> gap" by (auto simp: describes_def)
next
  assume "\<exists>p\<in>A. \<exists>q\<in>B. chebyshev p q \<le> gap"
  then obtain p q where "p \<in> A" "q \<in> B" "chebyshev p q \<le> gap" by blast
  from nearest_on_edge [OF assms(1,2,3) this] obtain r s where
    rs: "r \<in> A" "s \<in> B" "\<not> interior img r" "\<not> interior img s" "chebyshev r s \<le> gap" by blast
  have "box_gap a b \<le> chebyshev r s"
    using box_gap_le [OF assms(4,5) _ _ rs(1,2)] assms(1,2) by (simp add: island_set_def)
  with rs assms(4,5) show "near a b gap"
    by (auto simp: near_iff describes_def chebyshev_sym)
qed

section \<open>Union-find\<close>

text \<open>A forest over \<open>n\<close> nodes: \<open>rep\<close> names the root every node leads to, and \<open>rank\<close> grows on the way.\<close>

definition forest :: "nat \<Rightarrow> (nat \<Rightarrow> nat) \<Rightarrow> (nat \<Rightarrow> nat) \<Rightarrow> nat list \<Rightarrow> bool" where
  "forest n rep rank parent \<longleftrightarrow> length parent = n \<and>
    (\<forall>i<n. parent ! i < n \<and> rep i < n \<and> parent ! rep i = rep i \<and> rep (parent ! i) = rep i \<and>
      (parent ! i = i \<longrightarrow> rep i = i) \<and> (parent ! i \<noteq> i \<longrightarrow> rank i < rank (parent ! i)))"

lemma nth_update: "(xs[i := v]) ! x = (if x = i \<and> i < length xs then v else xs ! x)"
  by (cases "i < length xs") (simp_all add: nth_list_update list_update_beyond)

lemma forestD:
  assumes "forest n rep rank parent" and "i < n"
  shows "length parent = n" "parent ! i < n" "rep i < n" "parent ! rep i = rep i" "rep (parent ! i) = rep i"
    "parent ! i = i \<Longrightarrow> rep i = i" "parent ! i \<noteq> i \<Longrightarrow> rank i < rank (parent ! i)" "rep (rep i) = rep i"
  using assms by (auto simp: forest_def)

lemma forest_start: "forest n (\<lambda>i. i) (\<lambda>i. 0) [0..<n]"
  by (simp add: forest_def)

lemma forest_rank_mono:
  assumes "forest n rep rank parent" and "i < n" shows "rank i \<le> rank (parent ! i)"
  using forestD(7) [OF assms] by (cases "parent ! i = i") auto

lemma forest_halve:
  assumes f: "forest n rep rank parent" and i: "i < n" "parent ! i \<noteq> i"
  shows "forest n rep rank (parent[i := parent ! (parent ! i)])"
proof -
  let ?g = "parent ! (parent ! i)"
  note pi = forestD [OF f i(1)]
  note ppi = forestD [OF f pi(2)]
  have up: "rank i < rank ?g" using pi(7) [OF i(2)] forest_rank_mono [OF f pi(2)] by simp
  then have ne: "?g \<noteq> i" by auto
  have "rep i \<noteq> i" using pi(4) i(2) by auto
  then have root: "(parent[i := ?g]) ! rep j = rep j" if "j < n" for j
    using forestD(3,4) [OF f that] i(2) pi(1) by (cases "rep j = i") auto
  show ?thesis
    unfolding forest_def
  proof (intro conjI allI impI)
    fix j assume j: "j < n"
    note pj = forestD [OF f j]
    show "(parent[i := ?g]) ! j < n" "rep j < n" "(parent[i := ?g]) ! rep j = rep j"
      using pj(2,3) ppi(2) root [OF j] by (simp_all add: nth_update)
    show "rep ((parent[i := ?g]) ! j) = rep j" using pj(5) ppi(5) pi(5) by (simp add: nth_update)
    show "rep j = j" if "(parent[i := ?g]) ! j = j"
      using that pj(1,6) ne j by (cases "j = i") (auto simp: nth_update)
    show "rank j < rank ((parent[i := ?g]) ! j)" if "(parent[i := ?g]) ! j \<noteq> j"
      using that pj(1,7) up j by (cases "j = i") (auto simp: nth_update)
  qed (use pi(1) in simp)
qed

lemma find_root_correct:
  assumes "forest n rep rank parent" and "i < n"
  shows "\<exists>parent'. find_root parent i = Some (parent', rep i) \<and> forest n rep rank parent'"
  using assms
proof (induction "Max (rank ` {..<n}) - rank i" arbitrary: parent i rule: less_induct)
  case less
  note pi = forestD [OF less.prems]
  show ?case
  proof (cases "parent ! i = i")
    case True
    with less.prems(1) pi(6) show ?thesis by (simp add: find_root.simps)
  next
    case False
    let ?g = "parent ! (parent ! i)" and ?p = "parent[i := parent ! (parent ! i)]"
    have g: "?g < n" "rep ?g = rep i" using forestD [OF less.prems(1) pi(2)] pi(5) by simp_all
    have "rank i < rank ?g" using pi(7) [OF False] forest_rank_mono [OF less.prems(1) pi(2)] by simp
    moreover have "rank ?g \<le> Max (rank ` {..<n})" using g(1) by simp
    ultimately have "Max (rank ` {..<n}) - rank ?g < Max (rank ` {..<n}) - rank i" by simp
    from less.hyps [OF this forest_halve [OF less.prems False] g(1)] obtain parent' where
      "find_root ?p ?g = Some (parent', rep i)" "forest n rep rank parent'" using g(2) by auto
    moreover have "?p ! i = ?g" using less.prems(2) pi(1) by simp
    ultimately show ?thesis using False by (simp add: find_root.simps [of parent i] Let_def)
  qed
qed

lemma forest_union:
  assumes f: "forest n rep rank parent" and a: "a < n" and j: "j < n" and ne: "rep a \<noteq> rep j"
  shows "forest n (\<lambda>x. if rep x = rep j then rep a else rep x)
    (\<lambda>x. if rep x = rep a then rank x + rank (rep j) + 1 else rank x) (parent[rep j := rep a])"
  unfolding forest_def
proof (intro conjI allI impI)
  note pa = forestD [OF f a]
  note pj = forestD [OF f j]
  show "length (parent[rep j := rep a]) = n" using pa(1) by simp
  fix x assume x: "x < n"
  note px = forestD [OF f x]
  show "(parent[rep j := rep a]) ! x < n" "(if rep x = rep j then rep a else rep x) < n"
    using px(2,3) pa(3) by (simp_all add: nth_update)
  show "(parent[rep j := rep a]) ! (if rep x = rep j then rep a else rep x) = (if rep x = rep j then rep a else rep x)"
    using px pa pj ne by (cases "rep x = rep j") auto
  show "(if rep ((parent[rep j := rep a]) ! x) = rep j then rep a else rep ((parent[rep j := rep a]) ! x))
      = (if rep x = rep j then rep a else rep x)"
    using px pa pj by (cases "x = rep j") auto
  show "(if rep x = rep j then rep a else rep x) = x" if "(parent[rep j := rep a]) ! x = x"
  proof (cases "x = rep j")
    case True
    with that px(1) pj(3) have "rep a = rep j" by (simp add: nth_list_update)
    with ne show ?thesis by simp
  next
    case False
    with that have "parent ! x = x" by simp
    with px(6) False pj(8) show ?thesis by auto
  qed
  show "(if rep x = rep a then rank x + rank (rep j) + 1 else rank x)
      < (if rep ((parent[rep j := rep a]) ! x) = rep a
         then rank ((parent[rep j := rep a]) ! x) + rank (rep j) + 1 else rank ((parent[rep j := rep a]) ! x))"
    if "(parent[rep j := rep a]) ! x \<noteq> x"
    using that px pa pj ne by (cases "x = rep j") auto
qed

lemma join_roots_correct:
  assumes "forest n rep rank parent" and "a < n" and "j < n"
  shows "\<exists>parent' rank'. join_roots a j parent = Some parent' \<and>
    forest n (\<lambda>x. if rep x = rep j then rep a else rep x) rank' parent'"
proof -
  from find_root_correct [OF assms(1,2)] obtain p1 where
    p1: "find_root parent a = Some (p1, rep a)" "forest n rep rank p1" by blast
  from find_root_correct [OF p1(2) assms(3)] obtain p2 where
    p2: "find_root p1 j = Some (p2, rep j)" "forest n rep rank p2" by blast
  show ?thesis
  proof (cases "rep a = rep j")
    case True
    then have "(\<lambda>x. if rep x = rep j then rep a else rep x) = rep" by auto
    with True p1(1) p2 show ?thesis by (auto simp: join_roots_def)
  next
    case False
    with forest_union [OF p2(2) assms(2,3) False] p1(1) p2(1) show ?thesis
      by (auto simp: join_roots_def)
  qed
qed

section \<open>Clusters\<close>

definition linked :: "(nat \<times> nat) set \<Rightarrow> nat \<Rightarrow> nat \<Rightarrow> bool" where
  "linked E = (\<lambda>x y. (x, y) \<in> E \<or> (y, x) \<in> E)\<^sup>*\<^sup>*"

lemma linked_refl [simp]: "linked E x x" by (simp add: linked_def)

lemma linked_trans: "linked E x y \<Longrightarrow> linked E y z \<Longrightarrow> linked E x z"
  unfolding linked_def by (rule rtranclp_trans)

lemma linked_sym: "linked E x y \<Longrightarrow> linked E y x"
  unfolding linked_def
  by (induction rule: rtranclp_induct) (auto intro: converse_rtranclp_into_rtranclp)

lemma linked_edge: "(x, y) \<in> E \<Longrightarrow> linked E x y"
  unfolding linked_def by auto

lemma linked_mono: "E \<subseteq> F \<Longrightarrow> linked E x y \<Longrightarrow> linked F x y"
  unfolding linked_def by (rule rtranclp_mono [THEN predicate2D, rotated]) auto

lemma linked_empty [simp]: "linked {} x y \<longleftrightarrow> x = y"
  unfolding linked_def by (auto elim: converse_rtranclpE)

lemma linked_insert:
  "linked (insert (a, b) E) x y \<longleftrightarrow>
     linked E x y \<or> (linked E x a \<and> linked E b y) \<or> (linked E x b \<and> linked E a y)"
proof
  assume "linked (insert (a, b) E) x y"
  then show "linked E x y \<or> (linked E x a \<and> linked E b y) \<or> (linked E x b \<and> linked E a y)"
    unfolding linked_def [of "insert (a, b) E"]
  proof (induction rule: rtranclp_induct)
    case (step y z)
    from step.hyps(2) consider "(y, z) = (a, b)" | "(z, y) = (a, b)" | "linked E y z"
      by (auto intro: linked_edge linked_sym)
    then show ?case
      by cases (use step.IH in \<open>auto intro: linked_trans\<close>)
  qed simp
next
  have ab: "linked (insert (a, b) E) a b" by (rule linked_edge) simp
  have up: "linked E u v \<Longrightarrow> linked (insert (a, b) E) u v" for u v by (rule linked_mono) auto
  assume "linked E x y \<or> (linked E x a \<and> linked E b y) \<or> (linked E x b \<and> linked E a y)"
  then show "linked (insert (a, b) E) x y"
    using up ab linked_sym [OF ab] linked_trans by meson
qed

text \<open>The pairs the code joins: a real piece and any other island within the gap.\<close>

definition close_pairs :: "island list \<Rightarrow> nat \<Rightarrow> (nat \<times> nat) set \<Rightarrow> (nat \<times> nat) set" where
  "close_pairs ils gap P = {(a, j) \<in> P. j \<noteq> a \<and> near (ils ! a) (ils ! j) gap}"

definition same_class :: "nat \<Rightarrow> (nat \<Rightarrow> nat) \<Rightarrow> (nat \<times> nat) set \<Rightarrow> bool" where
  "same_class n rep E \<longleftrightarrow> (\<forall>x<n. \<forall>y<n. rep x = rep y \<longleftrightarrow> linked E x y)"

lemma same_class_union:
  assumes "same_class n rep E" and "a < n" and "j < n"
  shows "same_class n (\<lambda>x. if rep x = rep j then rep a else rep x) (insert (a, j) E)"
  unfolding same_class_def linked_insert
proof (intro allI impI)
  fix x y assume xy: "x < n" "y < n"
  have eq: "linked E u v \<longleftrightarrow> rep u = rep v" if "u < n" "v < n" for u v
    using assms(1) that by (simp add: same_class_def)
  show "((if rep x = rep j then rep a else rep x) = (if rep y = rep j then rep a else rep y)) \<longleftrightarrow>
      linked E x y \<or> linked E x a \<and> linked E j y \<or> linked E x j \<and> linked E a y"
    unfolding eq [OF xy] eq [OF xy(1) assms(2)] eq [OF assms(3) xy(2)] eq [OF xy(1) assms(3)] eq [OF assms(2) xy(2)]
    by metis
qed

lemma join_near_correct:
  "forest n rep rank parent \<Longrightarrow> same_class n rep E \<Longrightarrow> set ps \<subseteq> {..<n} \<times> {..<n} \<Longrightarrow>
    \<exists>rep' rank' parent'. join_near ils gap ps parent = Some parent' \<and> forest n rep' rank' parent' \<and>
      same_class n rep' (E \<union> close_pairs ils gap (set ps))"
proof (induction ps arbitrary: rep rank parent E)
  case Nil
  then show ?case by (auto simp: close_pairs_def)
next
  case (Cons p ps)
  obtain a j where p: "p = (a, j)" by (metis surj_pair)
  have aj: "a < n" "j < n" using Cons.prems(3) p by auto
  show ?case
  proof (cases "j \<noteq> a \<and> near (ils ! a) (ils ! j) gap")
    case True
    from join_roots_correct [OF Cons.prems(1) aj] obtain parent1 rank1 where
      j: "join_roots a j parent = Some parent1"
        "forest n (\<lambda>x. if rep x = rep j then rep a else rep x) rank1 parent1" by blast
    have E: "E \<union> close_pairs ils gap (set (p # ps)) = insert (a, j) E \<union> close_pairs ils gap (set ps)"
      using True by (auto simp: close_pairs_def p)
    from Cons.IH [OF j(2) same_class_union [OF Cons.prems(2) aj]] Cons.prems(3) True j(1) show ?thesis
      unfolding E by (simp add: p)
  next
    case False
    then have "close_pairs ils gap (set (p # ps)) = close_pairs ils gap (set ps)"
      by (auto simp: close_pairs_def p)
    with Cons.IH [OF Cons.prems(1,2)] Cons.prems(3) False show ?thesis by (auto simp: p)
  qed
qed

text \<open>The groups made of some nodes: one per representative, its members in order.\<close>

definition groups_of :: "(nat \<Rightarrow> nat) \<Rightarrow> nat list \<Rightarrow> nat list \<Rightarrow> (nat \<times> nat list) list" where
  "groups_of rep is rs = map (\<lambda>r. (r, filter (\<lambda>i. rep i = r) is)) rs"

lemma add_to_group:
  "distinct rs \<Longrightarrow> (rep i \<notin> set rs \<Longrightarrow> rep i \<notin> rep ` set is) \<Longrightarrow>
    add_to_group (rep i) i (groups_of rep is rs) =
      groups_of rep (is @ [i]) (if rep i \<in> set rs then rs else rs @ [rep i])"
proof (induction rs)
  case Nil
  then have "filter (\<lambda>k. rep k = rep i) is = []" by (auto simp: filter_empty_conv image_iff)
  then show ?case by (simp add: groups_of_def)
next
  case (Cons r rs)
  show ?case
  proof (cases "r = rep i")
    case True
    with Cons.prems(1) show ?thesis by (auto simp: groups_of_def)
  next
    case False
    have "add_to_group (rep i) i (groups_of rep is rs) =
      groups_of rep (is @ [i]) (if rep i \<in> set rs then rs else rs @ [rep i])"
      by (rule Cons.IH) (use Cons.prems False in auto)
    with False show ?thesis by (simp add: groups_of_def)
  qed
qed

lemma collect_groups_correct:
  "forest n rep rank parent \<Longrightarrow> set is \<subseteq> {..<n} \<Longrightarrow> distinct rs \<Longrightarrow> set rs = rep ` set seen \<Longrightarrow>
    \<exists>rs'. collect_groups is parent (groups_of rep seen rs) = Some (groups_of rep (seen @ is) rs') \<and>
      distinct rs' \<and> set rs' = rep ` set (seen @ is)"
proof (induction "is" arbitrary: parent "seen" rs)
  case Nil
  then show ?case by auto
next
  case (Cons i "is")
  from find_root_correct [OF Cons.prems(1), of i] Cons.prems(2) obtain parent' where
    f: "find_root parent i = Some (parent', rep i)" "forest n rep rank parent'" by auto
  let ?rs = "if rep i \<in> set rs then rs else rs @ [rep i]"
  have a: "add_to_group (rep i) i (groups_of rep seen rs) = groups_of rep (seen @ [i]) ?rs"
    by (rule add_to_group) (use Cons.prems in auto)
  have "\<exists>rs'. collect_groups is parent' (groups_of rep (seen @ [i]) ?rs) =
      Some (groups_of rep ((seen @ [i]) @ is) rs') \<and> distinct rs' \<and> set rs' = rep ` set ((seen @ [i]) @ is)"
    by (rule Cons.IH [OF f(2)]) (use Cons.prems in auto)
  with f(1) a show ?case by simp
qed

definition clustered :: "island list \<Rightarrow> nat list \<Rightarrow> nat \<Rightarrow> nat \<Rightarrow> nat \<Rightarrow> bool" where
  "clustered ils big gap = linked (close_pairs ils gap (set big \<times> {..<length ils}))"

lemma clustered_refl [simp]: "clustered ils big gap i i"
  by (simp add: clustered_def)

lemma clustered_sym: "clustered ils big gap i j \<Longrightarrow> clustered ils big gap j i"
  unfolding clustered_def by (rule linked_sym)

lemma clustered_trans: "clustered ils big gap i j \<Longrightarrow> clustered ils big gap j k \<Longrightarrow> clustered ils big gap i k"
  unfolding clustered_def by (rule linked_trans)

lemma set_all_pairs: "set (all_pairs big n) = set big \<times> {..<n}"
  by (auto simp: all_pairs_def)

text \<open>The groups kept: the clusters with a real piece in them, disjoint, each listed once and in order.\<close>

lemma group_islands_correct:
  assumes "set big \<subseteq> {..<length ils}"
  obtains gs where "group_islands ils big gap = Some gs"
    and "\<And>ms i. ms \<in> set gs \<Longrightarrow> i \<in> set ms \<Longrightarrow> set ms = {j. j < length ils \<and> clustered ils big gap i j}"
    and "\<And>ms. ms \<in> set gs \<Longrightarrow> (\<exists>i\<in>set ms. i \<in> set big) \<and> sorted ms \<and> distinct ms \<and> set ms \<subseteq> {..<length ils}"
    and "\<And>i b. i < length ils \<Longrightarrow> b \<in> set big \<Longrightarrow> clustered ils big gap i b \<Longrightarrow> \<exists>ms\<in>set gs. i \<in> set ms"
    and "distinct (concat gs)"
proof -
  let ?n = "length ils"
  have "same_class ?n (\<lambda>i. i) {}" "set (all_pairs big ?n) \<subseteq> {..<?n} \<times> {..<?n}"
    using assms by (auto simp: same_class_def set_all_pairs)
  from join_near_correct [OF forest_start this, of ils gap] obtain rep rank parent where
    j: "join_near ils gap (all_pairs big ?n) [0..<?n] = Some parent" "forest ?n rep rank parent"
      "same_class ?n rep (close_pairs ils gap (set big \<times> {..<?n}))"
    by (auto simp: set_all_pairs)
  have same: "rep x = rep y \<longleftrightarrow> clustered ils big gap x y" if "x < ?n" "y < ?n" for x y
    using j(3) that by (simp add: same_class_def clustered_def)
  from collect_groups_correct [OF j(2), of "[0..<?n]" "[]" "[]"] obtain rs where
    c: "collect_groups [0..<?n] parent [] = Some (groups_of rep [0..<?n] rs)" "distinct rs"
      "set rs = rep ` {..<?n}"
    by (auto simp: groups_of_def lessThan_atLeast0)
  let ?mem = "\<lambda>r. filter (\<lambda>i. rep i = r) [0..<?n]"
  define gs where "gs = map ?mem (filter (\<lambda>r. list_ex (\<lambda>i. i \<in> set big) (?mem r)) rs)"
  have gs: "group_islands ils big gap = Some gs"
    by (simp add: group_islands_def j(1) c(1) groups_of_def gs_def filter_map comp_def case_prod_beta)
  have mem: "\<exists>r. r \<in> set rs \<and> ms = ?mem r \<and> (\<exists>i\<in>set ms. i \<in> set big)" if "ms \<in> set gs" for ms
    using that by (fastforce simp: gs_def list_ex_iff)
  show ?thesis
  proof (rule that [OF gs])
    show "set ms = {j. j < ?n \<and> clustered ils big gap i j}" if "ms \<in> set gs" "i \<in> set ms" for ms i
    proof -
      from mem [OF that(1)] obtain r where "ms = ?mem r" by blast
      with that(2) same show ?thesis by (auto intro: clustered_sym)
    qed
    show "(\<exists>i\<in>set ms. i \<in> set big) \<and> sorted ms \<and> distinct ms \<and> set ms \<subseteq> {..<?n}" if "ms \<in> set gs" for ms
    proof -
      from mem [OF that] obtain r where r: "ms = ?mem r" "\<exists>i\<in>set ms. i \<in> set big" by blast
      have "sorted (?mem r)" by (intro sorted_wrt_filter) simp
      with r show ?thesis by auto
    qed
    show "\<exists>ms\<in>set gs. i \<in> set ms" if "i < ?n" "b \<in> set big" "clustered ils big gap i b" for i b
    proof -
      have b: "b < ?n" "rep b = rep i" using that assms same [of b i] by (auto intro: clustered_sym)
      have "?mem (rep i) \<in> set gs"
        unfolding gs_def using c(3) that b by (auto simp: list_ex_iff)
      then show ?thesis by (rule bexI [rotated]) (simp add: that(1))
    qed
    have d: "distinct (map ?mem rs')" if "distinct rs'" "\<forall>r\<in>set rs'. ?mem r \<noteq> []" for rs'
    proof -
      have "r = s" if rs: "r \<in> set rs'" "?mem r = ?mem s" for r s
      proof -
        from that \<open>\<forall>r\<in>set rs'. ?mem r \<noteq> []\<close> obtain i where i: "i \<in> set (?mem r)"
          using last_in_set by blast
        then have "i \<in> set (?mem s)" using rs(2) by simp
        with i show "r = s" by simp
      qed
      then show ?thesis using that(1) by (simp add: distinct_map inj_on_def)
    qed
    show "distinct (concat gs)"
    proof (rule distinct_concat)
      show "distinct gs" unfolding gs_def by (rule d) (use c(2) in \<open>auto simp: list_ex_iff filter_empty_conv\<close>)
      show "distinct ms" if "ms \<in> set gs" for ms using mem [OF that] by auto
      show "set ms \<inter> set ms' = {}" if "ms \<in> set gs" "ms' \<in> set gs" "ms \<noteq> ms'" for ms ms'
        using mem [OF that(1)] mem [OF that(2)] that(3) by auto
    qed
  qed
qed

end
