(* ===== verification/Sheet_Pieces_Props.thy ===== *)
theory Sheet_Pieces_Props
  imports Sheet_Join_Props "HOL-Library.Multiset"
begin

text \<open>
  The rest of \<open>image_gen/split.rs\<close>: the separable filters are the square ones and their opening never
  adds a pixel, counting lobes always ends, the reading order is a permutation, and the pieces cut
  from a sheet show every real island exactly once.
\<close>

section \<open>Erosion and dilation\<close>

definition mask_at :: "bool list \<Rightarrow> nat \<Rightarrow> nat \<Rightarrow> nat \<Rightarrow> nat \<Rightarrow> bool" where
  "mask_at m w h x y \<longleftrightarrow> x < w \<and> y < h \<and> m ! (y * w + x)"

lemma nth_row_major:
  assumes "x < w" and "y < h"
  shows "row_major w h ! (y * w + x) = (x, y)" "y * w + x < length (row_major w h)"
proof -
  have len: "length (row_major w k) = k * w" for k
    by (induction k) (simp_all add: row_major_def)
  have "y * w + x < Suc y * w" using assms(1) by simp
  also have "\<dots> \<le> h * w" using assms(2) by (intro mult_le_mono1) simp
  finally show "y * w + x < length (row_major w h)" by (simp add: len)
  show "row_major w h ! (y * w + x) = (x, y)"
    using assms(2)
  proof (induction h)
    case (Suc h)
    have split: "row_major w (Suc h) = row_major w h @ map (\<lambda>x. (x, h)) [0..<w]"
      by (simp add: row_major_def)
    show ?case
    proof (cases "y = h")
      case True
      then show ?thesis using assms(1) by (simp add: split nth_append len)
    next
      case False
      with Suc.prems have y: "y < h" by simp
      have "y * w + x < Suc y * w" using assms(1) by simp
      also have "\<dots> \<le> h * w" using y by (intro mult_le_mono1) simp
      finally have "y * w + x < h * w" .
      then show ?thesis using Suc.IH [OF y] by (simp add: split nth_append len)
    qed
  qed simp
qed

lemma set_window: "p < len \<Longrightarrow> set [lo..<Suc (min (p + r) (len - Suc 0))] = {i. lo \<le> i \<and> i \<le> p + r \<and> i < len}"
  by auto

lemma filter_rows:
  assumes "x < w" and "y < h"
  shows "mask_at (filter_1d m w h r True True) w h x y \<longleftrightarrow>
      r \<le> x \<and> x + r < w \<and> (\<forall>i. x - r \<le> i \<and> i \<le> x + r \<longrightarrow> mask_at m w h i y)" (is ?A)
    and "mask_at (filter_1d m w h r True False) w h x y \<longleftrightarrow>
      (\<exists>i. x - r \<le> i \<and> i \<le> x + r \<and> mask_at m w h i y)" (is ?E)
proof -
  note at = nth_row_major [OF assms]
  show ?A
    using assms by (auto simp: mask_at_def filter_1d_def at Let_def list_all_iff not_less not_le)
  show ?E
    using assms by (auto simp: mask_at_def filter_1d_def at Let_def list_ex_iff set_window simp del: upt_Suc set_upt)
qed

lemma filter_columns:
  assumes "x < w" and "y < h"
  shows "mask_at (filter_1d m w h r False True) w h x y \<longleftrightarrow>
      r \<le> y \<and> y + r < h \<and> (\<forall>i. y - r \<le> i \<and> i \<le> y + r \<longrightarrow> mask_at m w h x i)" (is ?A)
    and "mask_at (filter_1d m w h r False False) w h x y \<longleftrightarrow>
      (\<exists>i. y - r \<le> i \<and> i \<le> y + r \<and> mask_at m w h x i)" (is ?E)
proof -
  note at = nth_row_major [OF assms]
  show ?A
    using assms by (auto simp: mask_at_def filter_1d_def at Let_def list_all_iff not_less not_le)
  show ?E
    using assms by (auto simp: mask_at_def filter_1d_def at Let_def list_ex_iff set_window simp del: upt_Suc set_upt)
qed

text \<open>The separable filters are the square ones.  A pixel survives an erosion by \<open>r\<close> exactly when the
  whole square of side \<open>2 r + 1\<close> around it lies in the image and is set; it is set by a dilation exactly
  when some pixel of the square is.  So opening a mask, eroding and dilating it, never sets a pixel.\<close>

theorem opening_never_adds:
  assumes "x < w" and "y < h"
  shows "(mask_at (erode m w h r) w h x y \<longleftrightarrow>
      r \<le> x \<and> x + r < w \<and> r \<le> y \<and> y + r < h \<and>
      (\<forall>i j. chebyshev (i, j) (x, y) \<le> r \<longrightarrow> mask_at m w h i j)) \<and>
    (mask_at (dilate m w h r) w h x y \<longleftrightarrow> (\<exists>i j. chebyshev (i, j) (x, y) \<le> r \<and> mask_at m w h i j)) \<and>
    (mask_at (dilate (erode m w h r) w h r) w h x y \<longrightarrow> mask_at m w h x y)"
proof -
  have in_square: "chebyshev (i, j) (a, b) \<le> r \<longleftrightarrow> a - r \<le> i \<and> i \<le> a + r \<and> b - r \<le> j \<and> j \<le> b + r" for i j a b
    by (auto simp: chebyshev_def abs_diff_def)
  have in_range: "mask_at m w h i j \<Longrightarrow> i < w \<and> j < h" for m i j by (simp add: mask_at_def)
  have e: "mask_at (erode m w h r) w h a b \<longleftrightarrow>
      r \<le> a \<and> a + r < w \<and> r \<le> b \<and> b + r < h \<and> (\<forall>i j. chebyshev (i, j) (a, b) \<le> r \<longrightarrow> mask_at m w h i j)"
    if "a < w" "b < h" for a b
  proof -
    have row: "mask_at (filter_1d m w h r True True) w h a j \<longleftrightarrow>
        r \<le> a \<and> a + r < w \<and> (\<forall>i. a - r \<le> i \<and> i \<le> a + r \<longrightarrow> mask_at m w h i j)" if "j < h" for j
      using filter_rows(1) [OF \<open>a < w\<close> that] .
    show ?thesis
      unfolding erode_def filter_columns(1) [OF that] in_square
    proof (cases "r \<le> b \<and> b + r < h")
      case True
      then have "(\<forall>j. b - r \<le> j \<and> j \<le> b + r \<longrightarrow> mask_at (filter_1d m w h r True True) w h a j) \<longleftrightarrow>
          (\<forall>j. b - r \<le> j \<and> j \<le> b + r \<longrightarrow> r \<le> a \<and> a + r < w \<and>
             (\<forall>i. a - r \<le> i \<and> i \<le> a + r \<longrightarrow> mask_at m w h i j))" using row by auto
      also have "\<dots> \<longleftrightarrow> r \<le> a \<and> a + r < w \<and>
          (\<forall>i j. a - r \<le> i \<and> i \<le> a + r \<and> b - r \<le> j \<and> j \<le> b + r \<longrightarrow> mask_at m w h i j)" by auto
      finally show "(r \<le> b \<and> b + r < h \<and>
          (\<forall>i. b - r \<le> i \<and> i \<le> b + r \<longrightarrow> mask_at (filter_1d m w h r True True) w h a i)) =
        (r \<le> a \<and> a + r < w \<and> r \<le> b \<and> b + r < h \<and>
          (\<forall>i j. a - r \<le> i \<and> i \<le> a + r \<and> b - r \<le> j \<and> j \<le> b + r \<longrightarrow> mask_at m w h i j))"
        using True by blast
    qed blast
  qed
  have d: "mask_at (dilate m w h r) w h a b \<longleftrightarrow> (\<exists>i j. chebyshev (i, j) (a, b) \<le> r \<and> mask_at m w h i j)"
    if "a < w" "b < h" for a b m
  proof -
    have row: "mask_at (filter_1d m w h r True False) w h a j \<longleftrightarrow>
        (\<exists>i. a - r \<le> i \<and> i \<le> a + r \<and> mask_at m w h i j)" for j
    proof (cases "j < h")
      case True
      then show ?thesis using filter_rows(2) [OF \<open>a < w\<close>] by blast
    next
      case False
      then show ?thesis by (auto simp: mask_at_def)
    qed
    show ?thesis unfolding dilate_def filter_columns(2) [OF that] row in_square by blast
  qed
  have "mask_at m w h x y" if "mask_at (dilate (erode m w h r) w h r) w h x y"
  proof -
    from that d [OF assms] obtain i j where ij: "chebyshev (i, j) (x, y) \<le> r" "mask_at (erode m w h r) w h i j"
      by blast
    have "chebyshev (x, y) (i, j) \<le> r" using ij(1) by (simp add: chebyshev_sym)
    with ij(2) e [of i j] in_range [OF ij(2)] show ?thesis by blast
  qed
  with e [OF assms] d [OF assms] show ?thesis by blast
qed

section \<open>Counting lobes ends\<close>

definition unseen :: "bool list \<Rightarrow> nat" where
  "unseen seen = length (filter Not seen)"

lemma unseen_mark: "j < length seen \<Longrightarrow> \<not> seen ! j \<Longrightarrow> Suc (unseen (seen[j := True])) = unseen seen"
proof (induction seen arbitrary: j)
  case (Cons b bs)
  then show ?case by (cases j) (auto simp: unseen_def)
qed simp

lemma fold_lobe_visit:
  "length seen = w * h \<Longrightarrow> fold (lobe_visit opened w h) ns (seen, stack) = (seen', stack') \<Longrightarrow>
    length seen' = w * h \<and> unseen seen' + length stack' = unseen seen + length stack"
proof (induction ns arbitrary: seen stack)
  case Nil
  then show ?case by auto
next
  case (Cons n ns)
  obtain nx ny where n: "n = (nx, ny)" by (metis surj_pair)
  obtain seen1 stack1 where v: "lobe_visit opened w h n (seen, stack) = (seen1, stack1)" by (metis surj_pair)
  have step: "length seen1 = w * h \<and> unseen seen1 + length stack1 = unseen seen + length stack"
  proof (cases "nx < 0 \<or> ny < 0 \<or> int w \<le> nx \<or> int h \<le> ny")
    case True
    with v Cons.prems(1) show ?thesis by (auto simp: lobe_visit_def n)
  next
    case False
    then have "nat nx < w" "nat ny < h" by auto
    then have "nat ny * w + nat nx < w * h"
      using nth_row_major(2) [of "nat nx" w "nat ny" h] in_img_less [of "\<lparr>img_w = w, img_h = h, img_px = []\<rparr>" "(nat nx, nat ny)"]
      by (simp add: in_img_def)
    with False v Cons.prems(1) unseen_mark [of "nat ny * w + nat nx" seen] show ?thesis
      by (auto simp: lobe_visit_def n Let_def split: if_splits)
  qed
  with Cons.IH [of seen1 stack1] Cons.prems(2) v show ?case by simp
qed

lemma lobe_fill_ends:
  "length seen = w * h \<Longrightarrow> \<exists>seen' n. lobe_fill opened w h seen stack k = Some (seen', n) \<and> length seen' = w * h"
proof (induction "unseen seen + length stack" arbitrary: seen stack k rule: less_induct)
  case less
  show ?case
  proof (cases stack)
    case Nil
    with less.prems show ?thesis by (simp add: lobe_fill.simps)
  next
    case (Cons i rest)
    obtain seen' stack' where
      f: "fold (lobe_visit opened w h) (lobe_neighbours w i) (seen, rest) = (seen', stack')" by (metis surj_pair)
    note r = fold_lobe_visit [OF less.prems f]
    with less.hyps [of seen' stack' "k + 1"] Cons show ?thesis
      by (simp add: lobe_fill.simps [of opened w h seen "i # rest"] f)
  qed
qed

lemma count_lobes_ends:
  "length seen = w * h \<Longrightarrow> \<exists>k. count_lobes opened w h least is seen n = Some k"
proof (induction "is" arbitrary: seen n)
  case (Cons i "is")
  show ?case
  proof (cases "\<not> opened ! i \<or> seen ! i")
    case True
    with Cons show ?thesis by simp
  next
    case False
    from lobe_fill_ends [of "seen[i := True]" w h opened "[i]" 0] Cons.prems obtain seen' k where
      "lobe_fill opened w h (seen[i := True]) [i] 0 = Some (seen', k)" "length seen' = w * h" by auto
    with Cons.IH [of seen'] False show ?thesis by simp
  qed
qed simp

lemma lobes_ends: "\<exists>n. lobes fl img = Some n"
  using count_lobes_ends [of "replicate (img_w img * img_h img) False" "img_w img" "img_h img"]
  by (simp add: lobes_def Let_def)

section \<open>Reading order\<close>

lemma mset_map_sort_key: "mset (map f (sort_key k xs)) = mset (map f xs)"
  by (simp only: mset_map mset_sort)

lemma mset_reading_order: "mset (reading_order fl ps) = mset ps"
proof (cases "ps = []")
  case False
  let ?qs = "sort_key p_cy ps"
  have "map (\<lambda>(_, _, i). ?qs ! i) (map (\<lambda>i. (f i, g i, i)) [0..<length ?qs]) = ?qs"
    for f :: "nat \<Rightarrow> nat" and g :: "nat \<Rightarrow> 'a"
    using map_nth [of ?qs] by (simp only: map_map comp_def prod.case)
  then show ?thesis
    unfolding reading_order_def Let_def using False
    by (simp only: if_False mset_map_sort_key mset_sort)
qed (simp add: reading_order_def)

section \<open>Cutting a piece out\<close>

lemma index_inj:
  assumes "(x :: nat) < w" and "y < h" and "x' < w" and "y' < h"
  shows "y * w + x = y' * w + x' \<longleftrightarrow> x = x' \<and> y = y'"
  using nth_row_major(1) [OF assms(1,2)] nth_row_major(1) [OF assms(3,4)] by (metis Pair_inject)

definition member_pixel :: "image \<Rightarrow> nat list \<Rightarrow> nat list \<Rightarrow> nat \<times> nat \<Rightarrow> bool" where
  "member_pixel img lab ms p \<longleftrightarrow> label_of img lab p \<noteq> u32_max \<and> label_of img lab p \<in> set ms"

definition sized :: "nat \<Rightarrow> nat \<Rightarrow> image \<Rightarrow> bool" where
  "sized w h im \<longleftrightarrow> img_w im = w \<and> img_h im = h \<and> length (img_px im) = w * h"

lemma get_put_pixel:
  assumes "sized w h im" and "x < w" and "y < h" and "x' < w" and "y' < h"
  shows "get_pixel (put_pixel x y c im) x' y' = (if x' = x \<and> y' = y then c else get_pixel im x' y')"
proof -
  have "y * w + x < w * h" using in_img_less [of "\<lparr>img_w = w, img_h = h, img_px = []\<rparr>" "(x, y)"] assms(2,3)
    by (simp add: in_img_def)
  then show ?thesis
    using assms(1) index_inj [OF assms(2,3,4,5)] by (auto simp: sized_def get_pixel_def put_pixel_def nth_list_update)
qed

lemma fold_copy_pixel:
  "sized w h im \<Longrightarrow> (\<forall>p\<in>set ps. left \<le> fst p \<and> fst p < left + w \<and> up \<le> snd p \<and> snd p < up + h) \<Longrightarrow>
    sized w h (fold (copy_pixel img lab ms left up) ps im) \<and>
    (\<forall>x<w. \<forall>y<h. get_pixel (fold (copy_pixel img lab ms left up) ps im) x y =
      (if (x + left, y + up) \<in> set ps \<and> member_pixel img lab ms (x + left, y + up)
       then get_pixel img (x + left) (y + up) else get_pixel im x y))"
proof (induction ps arbitrary: im)
  case (Cons p ps)
  obtain a b where p: "p = (a, b)" by (metis surj_pair)
  have box: "left \<le> a" "a - left < w" "up \<le> b" "b - up < h" using Cons.prems(2) by (auto simp: p)
  let ?im = "copy_pixel img lab ms left up p im"
  have s: "sized w h ?im" using Cons.prems(1) by (simp add: copy_pixel_def Let_def put_pixel_def sized_def)
  have g: "get_pixel ?im x y = (if (x + left, y + up) = p \<and> member_pixel img lab ms (x + left, y + up)
       then get_pixel img (x + left) (y + up) else get_pixel im x y)" if "x < w" "y < h" for x y
    using get_put_pixel [OF Cons.prems(1) box(2,4) that] box
    by (auto simp: copy_pixel_def Let_def member_pixel_def p)
  show ?case using Cons.IH [OF s] Cons.prems(2) g by auto
qed simp

lemma crop_pixel:
  assumes "left \<le> right" and "up \<le> bottom" and "x \<le> right - left" and "y \<le> bottom - up"
  shows "get_pixel (crop img lab ms left up right bottom) x y =
    (if member_pixel img lab ms (x + left, y + up) then get_pixel img (x + left) (y + up) else (0, 0, 0, 0))"
proof -
  let ?w = "right - left + 1" and ?h = "bottom - up + 1"
  let ?ps = "concat (map (\<lambda>y. map (\<lambda>x. (x, y)) [left..<Suc right]) [up..<Suc bottom])"
  have ps: "set ?ps = {p. left \<le> fst p \<and> fst p \<le> right \<and> up \<le> snd p \<and> snd p \<le> bottom}"
    by (auto simp: image_iff)
  have s: "sized ?w ?h (from_pixel ?w ?h (0, 0, 0, 0))" by (simp add: sized_def from_pixel_def)
  have "\<forall>p\<in>set ?ps. left \<le> fst p \<and> fst p < left + ?w \<and> up \<le> snd p \<and> snd p < up + ?h"
    unfolding ps using assms(1,2) by auto
  from fold_copy_pixel [OF s this, of img lab ms] assms(3,4)
  have "get_pixel (crop img lab ms left up right bottom) x y =
    (if (x + left, y + up) \<in> set ?ps \<and> member_pixel img lab ms (x + left, y + up)
     then get_pixel img (x + left) (y + up) else get_pixel (from_pixel ?w ?h (0, 0, 0, 0)) x y)"
    by (simp add: crop_def del: upt_Suc)
  moreover have "(x + left, y + up) \<in> set ?ps" unfolding ps using assms by auto
  moreover have "y * ?w + x < ?w * ?h"
    using in_img_less [of "\<lparr>img_w = ?w, img_h = ?h, img_px = []\<rparr>" "(x, y)"] assms(3,4)
    by (simp add: in_img_def)
  then have "get_pixel (from_pixel ?w ?h (0, 0, 0, 0)) x y = (0, 0, 0, 0)"
    by (simp only: get_pixel_def from_pixel_def image.select_convs nth_replicate)
  ultimately show ?thesis by presburger
qed

lemma min_or_0_Min: "xs \<noteq> [] \<Longrightarrow> min_or_0 xs = Min (set xs)"
  by (cases xs) (simp_all add: fold_min_Min)

lemma max_or_0_Max: "xs \<noteq> [] \<Longrightarrow> max_or_0 xs = Max (set xs)"
  by (cases xs) (simp_all add: max_or_0_def fold_max_Max)

text \<open>The pixels of the sheet a piece shows: those not transparent in its image.\<close>

definition shown :: "'f piece \<Rightarrow> (nat \<times> nat) set" where
  "shown P = {p. p_x P \<le> fst p \<and> fst p < p_x P + p_width P \<and> p_y P \<le> snd p \<and> snd p < p_y P + p_height P \<and>
     alpha (get_pixel (p_image P) (fst p - p_x P) (snd p - p_y P)) \<noteq> 0}"

text \<open>A piece cut for a set of pixels shows them, unchanged, and counts and frames them.\<close>

definition cut_for :: "image \<Rightarrow> 'f piece \<Rightarrow> (nat \<times> nat) set \<Rightarrow> bool" where
  "cut_for img P C \<longleftrightarrow> shown P = C \<and> p_area P = card C \<and>
     (\<forall>p\<in>C. get_pixel (p_image P) (fst p - p_x P) (snd p - p_y P) = get_pixel img (fst p) (snd p)) \<and>
     p_x P = Min (fst ` C) \<and> p_x P + p_width P = Max (fst ` C) + 1 \<and>
     p_y P = Min (snd ` C) \<and> p_y P + p_height P = Max (snd ` C) + 1"

lemma Min_boxes:
  fixes f :: "'a \<Rightarrow> nat" and C :: "'i \<Rightarrow> 'a set"
  assumes "finite I" and "I \<noteq> {}" and "\<And>i. i \<in> I \<Longrightarrow> finite (C i) \<and> C i \<noteq> {}"
  shows "Min ((\<lambda>i. Min (f ` C i)) ` I) = Min (f ` (\<Union>i\<in>I. C i))"
    and "Max ((\<lambda>i. Max (f ` C i)) ` I) = Max (f ` (\<Union>i\<in>I. C i))"
  using assms
proof (induction I rule: finite_ne_induct)
  case (insert i I)
  {
    case 1
    with insert show ?case by (simp add: image_Un Min_Un)
  next
    case 2
    with insert show ?case by (simp add: image_Un Max_Un)
  }
qed simp_all

lemma piece_of_correct:
  assumes ok: "sheet_ok img"
    and lab: "\<And>p. in_img img p \<Longrightarrow> label_of img lab p = u32_max \<longleftrightarrow> \<not> opaque img p"
    and desc: "\<And>k. k < length ils \<Longrightarrow> describes img (ils ! k) (island_pixels img lab k)"
    and comp: "\<And>k. k < length ils \<Longrightarrow> \<exists>p. opaque img p \<and> island_pixels img lab k = component img p"
    and ms: "ms \<noteq> []" "distinct ms" "set ms \<subseteq> {..<length ils}"
  shows "\<exists>P. piece_of fl img lab ils ms = Some P \<and> cut_for img P (\<Union>i\<in>set ms. island_pixels img lab i)"
proof -
  let ?C = "\<Union>i\<in>set ms. island_pixels img lab i"
  have fin: "finite (island_pixels img lab k)" for k
    by (rule finite_subset [OF _ finite_in_img [of img]]) (auto simp: island_pixels_def)
  have d: "describes img (ils ! i) (island_pixels img lab i)" if "i \<in> set ms" for i
    using desc ms(3) that by blast
  have ne: "finite (island_pixels img lab i) \<and> island_pixels img lab i \<noteq> {}" if "i \<in> set ms" for i
    using d [OF that] fin by (simp add: describes_def)
  have "set ms \<noteq> {}" using ms(1) by simp
  note boxes = Min_boxes [OF finite_set this ne]
  let ?left = "min_or_0 (map (\<lambda>i. x0 (ils ! i)) ms)" and ?up = "min_or_0 (map (\<lambda>i. y0 (ils ! i)) ms)"
  let ?right = "max_or_0 (map (\<lambda>i. x1 (ils ! i)) ms)" and ?bottom = "max_or_0 (map (\<lambda>i. y1 (ils ! i)) ms)"
  have frame: "?left = Min (fst ` ?C)" "?up = Min (snd ` ?C)" "?right = Max (fst ` ?C)" "?bottom = Max (snd ` ?C)"
    using boxes [where f = fst] boxes [where f = snd] d ms(1)
    by (simp_all add: min_or_0_Min max_or_0_Max describes_def cong: image_cong)
  have C: "finite ?C" "?C \<noteq> {}" using ne ms(1) by auto
  have member: "member_pixel img lab ms p \<longleftrightarrow> p \<in> ?C" if "in_img img p" for p
  proof -
    have "k \<noteq> u32_max" if "k \<in> set ms" "label_of img lab p = k" for k
    proof -
      from comp [of k] ms(3) that(1) obtain q where
        q: "opaque img q" "island_pixels img lab k = component img q" by blast
      have "q \<in> island_pixels img lab k" unfolding q(2) by simp
      then have "in_img img q" "label_of img lab q = k" by (simp_all add: island_pixels_def)
      with lab [of q] q(1) show ?thesis by simp
    qed
    with that show ?thesis by (auto simp: member_pixel_def island_pixels_def)
  qed
  have bounds: "?left \<le> fst p" "fst p \<le> ?right" "?up \<le> snd p" "snd p \<le> ?bottom" if "p \<in> ?C" for p
    unfolding frame using C(1) that by simp_all
  obtain p0 where p0: "p0 \<in> ?C" using C(2) by blast
  have le: "?left \<le> ?right" "?up \<le> ?bottom" using bounds [OF p0] by simp_all
  have "Max (f ` ?C) \<in> f ` ?C" for f :: "nat \<times> nat \<Rightarrow> nat"
    using C by (intro Max_in) simp_all
  then have "\<exists>p\<in>?C. fst p = ?right" "\<exists>p\<in>?C. snd p = ?bottom"
    unfolding frame by (metis imageE)+
  then have inside: "in_img img p" if "fst p \<le> ?right" "snd p \<le> ?bottom" for p
    using that by (fastforce simp: island_pixels_def in_img_def)
  let ?im = "crop img lab ms ?left ?up ?right ?bottom"
  have px: "get_pixel ?im (fst p - ?left) (snd p - ?up) =
      (if p \<in> ?C then get_pixel img (fst p) (snd p) else (0, 0, 0, 0))"
    if "?left \<le> fst p" "fst p \<le> ?right" "?up \<le> snd p" "snd p \<le> ?bottom" for p
    using crop_pixel [OF le, of "fst p - ?left" "snd p - ?up" img lab ms] that member [OF inside, of p] by simp
  obtain n where n: "lobes fl ?im = Some n" using lobes_ends by blast
  have op: "alpha (get_pixel img (fst p) (snd p)) \<noteq> 0" if "p \<in> ?C" for p
  proof -
    from that obtain k where k: "k \<in> set ms" "p \<in> island_pixels img lab k" by blast
    with comp [of k] ms(3) obtain q where "opaque img q" "p \<in> component img q" by blast
    from component_opaque [OF this] show ?thesis by (simp add: opaque_def)
  qed
  have sum: "sum_list (map (\<lambda>i. area (ils ! i)) ms) = card ?C"
  proof -
    have "card ?C = (\<Sum>i\<in>set ms. card (island_pixels img lab i))"
      by (rule card_UN_disjoint) (use fin in \<open>auto simp: island_pixels_def\<close>)
    also have "\<dots> = (\<Sum>i\<in>set ms. area (ils ! i))"
      by (rule sum.cong) (use d in \<open>auto simp: describes_def\<close>)
    finally show ?thesis using ms(2) by (simp add: sum_list_distinct_conv_sum_set)
  qed
  show ?thesis
  proof (intro exI conjI)
    show "piece_of fl img lab ils ms = Some \<lparr>p_x = ?left, p_y = ?up, p_width = ?right - ?left + 1,
        p_height = ?bottom - ?up + 1, p_cx = centre fl (sum_list (map (\<lambda>i. sum_x (ils ! i)) ms)) (max (card ?C) 1),
        p_cy = centre fl (sum_list (map (\<lambda>i. sum_y (ils ! i)) ms)) (max (card ?C) 1), p_area = card ?C,
        p_lobes = n, p_image = ?im\<rparr>" (is "_ = Some ?P")
      by (simp only: piece_of_def Let_def n sum option.map)
    have box: "p \<in> shown ?P \<longleftrightarrow> ?left \<le> fst p \<and> fst p \<le> ?right \<and> ?up \<le> snd p \<and> snd p \<le> ?bottom \<and>
        alpha (get_pixel ?im (fst p - ?left) (snd p - ?up)) \<noteq> 0" for p
      using le by (simp add: shown_def less_Suc_eq_le)
    have "shown ?P = ?C"
    proof (intro equalityI subsetI)
      fix p assume "p \<in> shown ?P"
      then have b: "?left \<le> fst p" "fst p \<le> ?right" "?up \<le> snd p" "snd p \<le> ?bottom"
        and a: "alpha (get_pixel ?im (fst p - ?left) (snd p - ?up)) \<noteq> 0" unfolding box by blast+
      from a show "p \<in> ?C" unfolding px [OF b] by (rule contrapos_np) (simp add: alpha_def)
    next
      fix p assume p: "p \<in> ?C"
      from op [OF p] show "p \<in> shown ?P" unfolding box px [OF bounds [OF p]] using bounds [OF p] p by simp
    qed
    moreover have "get_pixel ?im (fst p - ?left) (snd p - ?up) = get_pixel img (fst p) (snd p)" if "p \<in> ?C" for p
      using px [OF bounds [OF that]] that by simp
    ultimately show "cut_for img ?P ?C"
      using le unfolding cut_for_def frame [symmetric] by simp
  qed
qed

section \<open>The sheet\<close>

lemma finite_island_pixels: "finite (island_pixels img lab k)"
  by (rule finite_subset [OF _ finite_in_img [of img]]) (auto simp: island_pixels_def)

lemma island_pixels_set:
  assumes "island_pixels img lab k = component img p" and "opaque img p"
  shows "island_set img (island_pixels img lab k)"
  unfolding island_set_def
proof (intro conjI ballI allI impI)
  show "finite (island_pixels img lab k)" by (rule finite_island_pixels)
  show "opaque img q" if "q \<in> island_pixels img lab k" for q
    using component_opaque [OF assms(2)] that assms(1) by simp
  show "r \<in> island_pixels img lab k" if "q \<in> island_pixels img lab k" "touches img q r" for q r
    using component_step that assms(1) by blast
qed

text \<open>Two islands are close when one of them is a real piece and two of their pixels lie within the gap.\<close>

definition close_islands :: "image \<Rightarrow> nat list \<Rightarrow> nat \<Rightarrow> nat list \<Rightarrow> nat \<Rightarrow> nat \<Rightarrow> nat \<Rightarrow> bool" where
  "close_islands img lab n big gap i j \<longleftrightarrow> i < n \<and> j < n \<and> i \<noteq> j \<and> (i \<in> set big \<or> j \<in> set big) \<and>
     (\<exists>p\<in>island_pixels img lab i. \<exists>q\<in>island_pixels img lab j. chebyshev p q \<le> gap)"

text \<open>The groups the union-find leaves are exactly the clusters: two islands are in one group when a
  chain of islands leads from one to the other, each step between islands some two pixels of which lie
  within the gap and one of which is a real piece.  A group is kept exactly when a real piece is in it,
  every island is in at most one, and the loops of the union-find always end.\<close>

theorem groups_are_clusters:
  assumes "sheet_ok img" and "islands img = Some (lab, ils)" and "set big \<subseteq> {..<length ils}"
  shows "\<exists>gs. group_islands ils big gap = Some gs \<and> distinct (concat gs) \<and>
    (\<forall>ms\<in>set gs. (\<exists>i\<in>set ms. i \<in> set big) \<and>
       (\<forall>i\<in>set ms. set ms = {j. (close_islands img lab (length ils) big gap)\<^sup>*\<^sup>* i j})) \<and>
    (\<forall>b\<in>set big. \<exists>ms\<in>set gs. b \<in> set ms)"
proof (rule islands_correct [OF assms(1)])
  fix lab' ils'
  assume "islands img = Some (lab', ils')"
    and desc': "\<And>k. k < length ils' \<Longrightarrow> describes img (ils' ! k) (island_pixels img lab' k)"
    and comp': "\<And>k. k < length ils' \<Longrightarrow> \<exists>p. opaque img p \<and> island_pixels img lab' k = component img p"
  then have eq: "lab' = lab" "ils' = ils" using assms(2) by simp_all
  note desc = desc' [unfolded eq] and comp = comp' [unfolded eq]
  let ?n = "length ils" and ?close = "close_islands img lab (length ils) big gap"
  have near: "near (ils ! i) (ils ! j) gap \<longleftrightarrow>
      (\<exists>p\<in>island_pixels img lab i. \<exists>q\<in>island_pixels img lab j. chebyshev p q \<le> gap)"
    if ij: "i < ?n" "j < ?n" "i \<noteq> j" for i j
  proof -
    from comp [OF ij(1)] comp [OF ij(2)] have "island_set img (island_pixels img lab i)" "island_set img (island_pixels img lab j)"
      using island_pixels_set by blast+
    moreover have "island_pixels img lab i \<inter> island_pixels img lab j = {}"
      using ij(3) by (auto simp: island_pixels_def)
    ultimately show ?thesis using near_islands desc ij by blast
  qed
  have close_sym: "?close i j \<Longrightarrow> ?close j i" for i j
    unfolding close_islands_def by (metis chebyshev_sym)
  have pair: "(i, j) \<in> close_pairs ils gap (set big \<times> {..<?n}) \<longleftrightarrow> i \<in> set big \<and> ?close i j" for i j
    using near [of i j] assms(3) by (auto simp: close_pairs_def close_islands_def)
  have edges: "(i, j) \<in> close_pairs ils gap (set big \<times> {..<?n}) \<or>
      (j, i) \<in> close_pairs ils gap (set big \<times> {..<?n}) \<longleftrightarrow> ?close i j" for i j
  proof -
    have "?close i j \<Longrightarrow> i \<in> set big \<or> j \<in> set big" by (simp add: close_islands_def)
    then show ?thesis unfolding pair using close_sym by blast
  qed
  have clustered: "clustered ils big gap i j \<longleftrightarrow> ?close\<^sup>*\<^sup>* i j" for i j
    unfolding clustered_def linked_def edges ..
  have below: "j < ?n" if "?close\<^sup>*\<^sup>* i j" "i < ?n" for i j
    using that by (induction rule: rtranclp_induct) (auto simp: close_islands_def)
  show ?thesis
  proof (rule group_islands_correct [OF assms(3), of gap])
    fix gs
    assume g: "group_islands ils big gap = Some gs"
      "\<And>ms i. ms \<in> set gs \<Longrightarrow> i \<in> set ms \<Longrightarrow> set ms = {j. j < ?n \<and> clustered ils big gap i j}"
      "\<And>ms. ms \<in> set gs \<Longrightarrow> (\<exists>i\<in>set ms. i \<in> set big) \<and> sorted ms \<and> distinct ms \<and> set ms \<subseteq> {..<?n}"
      "\<And>i b. i < ?n \<Longrightarrow> b \<in> set big \<Longrightarrow> clustered ils big gap i b \<Longrightarrow> \<exists>ms\<in>set gs. i \<in> set ms"
      "distinct (concat gs)"
    have "set ms = {j. ?close\<^sup>*\<^sup>* i j}" if "ms \<in> set gs" "i \<in> set ms" for ms i
    proof -
      have "i < ?n" using g(3) [OF that(1)] that(2) by blast
      then show ?thesis using g(2) [OF that] below by (auto simp: clustered)
    qed
    moreover have "\<exists>ms\<in>set gs. b \<in> set ms" if "b \<in> set big" for b
      using g(4) [of b b] that assms(3) by auto
    ultimately show ?thesis using g(1,3,5) by (intro exI [of _ gs] conjI ballI) simp_all
  qed
qed

lemma sequence_opt_map:
  "\<forall>x\<in>set xs. \<exists>y. f x = Some y \<and> R x y \<Longrightarrow> \<exists>ys. sequence_opt (map f xs) = Some ys \<and> list_all2 R xs ys"
  by (induction xs) auto

definition real_piece :: "'f sheet_floats \<Rightarrow> image \<Rightarrow> (nat \<times> nat) set \<Rightarrow> bool" where
  "real_piece fl img C \<longleftrightarrow> is_piece fl (img_w img) (img_h img) (card C)"

text \<open>Disjoint groups of islands cut into pieces: each shows its islands, and no two share a pixel.\<close>

lemma cut_groups:
  assumes ok: "sheet_ok img"
    and lab: "\<And>p. in_img img p \<Longrightarrow> label_of img lab p = u32_max \<longleftrightarrow> \<not> opaque img p"
    and desc: "\<And>k. k < length ils \<Longrightarrow> describes img (ils ! k) (island_pixels img lab k)"
    and comp: "\<And>k. k < length ils \<Longrightarrow> \<exists>p. opaque img p \<and> island_pixels img lab k = component img p"
    and gs: "\<And>ms. ms \<in> set gs \<Longrightarrow> ms \<noteq> [] \<and> distinct ms \<and> set ms \<subseteq> {..<length ils}" "distinct (concat gs)"
  shows "\<exists>ps. sequence_opt (map (piece_of fl img lab ils) gs) = Some ps \<and> distinct ps \<and>
    (\<forall>P\<in>set ps. \<exists>ms\<in>set gs. cut_for img P (\<Union>i\<in>set ms. island_pixels img lab i)) \<and>
    (\<forall>ms\<in>set gs. \<exists>P\<in>set ps. cut_for img P (\<Union>i\<in>set ms. island_pixels img lab i)) \<and>
    (\<forall>P\<in>set ps. \<forall>Q\<in>set ps. P \<noteq> Q \<longrightarrow> shown P \<inter> shown Q = {})"
proof -
  let ?C = "\<lambda>ms. \<Union>i\<in>set ms. island_pixels img lab i"
  have "\<forall>ms\<in>set gs. \<exists>P. piece_of fl img lab ils ms = Some P \<and> cut_for img P (?C ms)"
    using piece_of_correct [OF ok lab desc comp] gs(1) by blast
  from sequence_opt_map [OF this] obtain ps where ps: "sequence_opt (map (piece_of fl img lab ils) gs) = Some ps"
    "list_all2 (\<lambda>ms P. cut_for img P (?C ms)) gs ps" by blast
  have len: "length ps = length gs" using ps(2) by (simp add: list_all2_lengthD)
  have cut: "cut_for img (ps ! k) (?C (gs ! k))" if "k < length gs" for k
    using ps(2) that by (simp add: list_all2_conv_all_nth)
  have ne: "shown (ps ! k) \<noteq> {}" if k: "k < length gs" for k
  proof -
    have "gs ! k \<in> set gs" using k by simp
    from gs(1) [OF this] have m: "hd (gs ! k) \<in> set (gs ! k)" "hd (gs ! k) < length ils"
      using hd_in_set [of "gs ! k"] by blast+
    then have "island_pixels img lab (hd (gs ! k)) \<noteq> {}" using desc by (simp add: describes_def)
    with m(1) cut [OF k] show ?thesis by (auto simp: cut_for_def)
  qed
  have disjoint: "shown (ps ! k) \<inter> shown (ps ! l) = {}" if "k < length gs" "l < length gs" "k \<noteq> l" for k l
  proof -
    have "[] \<notin> set gs" using gs(1) by blast
    then have "distinct gs" using gs(2) by (simp add: distinct_concat_iff removeAll_id)
    with that have "gs ! k \<noteq> gs ! l" "gs ! k \<in> set gs" "gs ! l \<in> set gs" by (simp_all add: nth_eq_iff_index_eq)
    with gs(2) have "set (gs ! k) \<inter> set (gs ! l) = {}" unfolding distinct_concat_iff by blast
    then have "?C (gs ! k) \<inter> ?C (gs ! l) = {}" by (auto simp: island_pixels_def)
    with cut that show ?thesis by (simp add: cut_for_def)
  qed
  have "distinct ps"
    unfolding distinct_conv_nth using disjoint ne len by (metis inf.idem)
  moreover have "\<forall>P\<in>set ps. \<exists>ms\<in>set gs. cut_for img P (?C ms)"
    using cut len by (metis in_set_conv_nth)
  moreover have "\<forall>ms\<in>set gs. \<exists>P\<in>set ps. cut_for img P (?C ms)"
    using cut len by (metis in_set_conv_nth)
  moreover have "\<forall>P\<in>set ps. \<forall>Q\<in>set ps. P \<noteq> Q \<longrightarrow> shown P \<inter> shown Q = {}"
    using disjoint len by (metis in_set_conv_nth)
  ultimately show ?thesis using ps(1) by blast
qed

lemma piece_whole:
  assumes own: "\<And>p. opaque img p \<Longrightarrow> island_pixels img lab (label_of img lab p) = component img p"
    and opq: "\<And>p k. p \<in> island_pixels img lab k \<Longrightarrow> k < n \<Longrightarrow> opaque img p"
    and C: "S = (\<Union>i\<in>set ms. island_pixels img lab i)" and ms: "set ms \<subseteq> {..<n}"
    and b: "b \<in> set ms" "real_piece fl img (island_pixels img lab b)" "island_pixels img lab b \<noteq> {}"
  shows "(\<forall>p\<in>S. opaque img p \<and> component img p \<subseteq> S) \<and> (\<exists>p\<in>S. real_piece fl img (component img p))"
proof -
  have o: "opaque img p" if "p \<in> S" for p using that C opq ms by blast
  have whole: "component img p \<subseteq> S" if p: "p \<in> S" for p
  proof -
    from p C obtain k where "k \<in> set ms" "p \<in> island_pixels img lab k" by blast
    then have "k \<in> set ms" "label_of img lab p = k" by (simp_all add: island_pixels_def)
    with own [OF o [OF p]] C show ?thesis by blast
  qed
  obtain q where q: "q \<in> island_pixels img lab b" using b(3) by blast
  have "b < n" using b(1) ms by blast
  then have "component img q = island_pixels img lab b" using own [OF opq [OF q]] q by (simp add: island_pixels_def)
  then have "real_piece fl img (component img q)" using b(2) by simp
  moreover have "q \<in> S" using b(1) q C by blast
  ultimately show ?thesis using o whole by blast
qed

text \<open>C29. Cutting a sheet ends on every sheet and loses nothing that is a sprite.  Every piece shows its
  pixels unchanged, counts them, and its box is the least one around them; an island shows wholly in
  one piece or not at all; no two pieces share a pixel; every piece has a real island in it, and every
  real island is in a piece.\<close>

theorem split_shows_islands_once:
  assumes "sheet_ok img"
  shows "\<exists>ps. split_sheet fl img = Some ps \<and> distinct ps \<and>
    (\<forall>P\<in>set ps. cut_for img P (shown P) \<and> (\<forall>p\<in>shown P. opaque img p \<and> component img p \<subseteq> shown P) \<and>
       (\<exists>p\<in>shown P. real_piece fl img (component img p))) \<and>
    (\<forall>P\<in>set ps. \<forall>Q\<in>set ps. P \<noteq> Q \<longrightarrow> shown P \<inter> shown Q = {}) \<and>
    (\<forall>p. opaque img p \<longrightarrow> real_piece fl img (component img p) \<longrightarrow> (\<exists>P\<in>set ps. p \<in> shown P))"
proof (rule islands_correct [OF assms])
  fix lab ils
  assume i: "islands img = Some (lab, ils)"
    and lab: "\<And>p. in_img img p \<Longrightarrow> label_of img lab p = u32_max \<longleftrightarrow> \<not> opaque img p"
    and lt: "\<And>p. opaque img p \<Longrightarrow> label_of img lab p < length ils"
    and desc: "\<And>k. k < length ils \<Longrightarrow> describes img (ils ! k) (island_pixels img lab k)"
    and comp: "\<And>k. k < length ils \<Longrightarrow> \<exists>p. opaque img p \<and> island_pixels img lab k = component img p"
  let ?n = "length ils"
  let ?big = "filter (\<lambda>k. is_piece fl (img_w img) (img_h img) (area (ils ! k))) [0..<?n]"
  have own: "island_pixels img lab (label_of img lab p) = component img p" if p: "opaque img p" for p
  proof -
    from comp [OF lt [OF p]] obtain q where q: "island_pixels img lab (label_of img lab p) = component img q" by blast
    have "p \<in> component img q" unfolding q [symmetric] using p opaque_in_img by (simp add: island_pixels_def)
    from component_eq [OF this] q show ?thesis by simp
  qed
  have big: "k \<in> set ?big \<longleftrightarrow> k < ?n \<and> real_piece fl img (island_pixels img lab k)" for k
    using desc by (auto simp: real_piece_def describes_def)
  have opq: "opaque img p" if "p \<in> island_pixels img lab k" "k < ?n" for p k
    using comp [OF that(2)] that(1) component_opaque by blast
  show ?thesis
  proof (cases "?big = []")
    case True
    then have none: "\<not> real_piece fl img (component img p)" if "opaque img p" for p
      using big lt [OF that] own [OF that] by (metis list.set(1) empty_iff)
    have "split_sheet fl img = Some []" using i True by (simp add: split_sheet_def)
    with none show ?thesis by simp
  next
    case False
    then have ne: "ils \<noteq> []" by auto
    define gap where "gap = join_gap fl (sort (map (\<lambda>i. area (ils ! i)) ?big) ! (length ?big div 2))"
    have sub: "set ?big \<subseteq> {..<?n}" by auto
    show ?thesis
    proof (rule group_islands_correct [OF sub, of gap])
      fix gs
      assume g: "group_islands ils ?big gap = Some gs"
        "\<And>ms i. ms \<in> set gs \<Longrightarrow> i \<in> set ms \<Longrightarrow> set ms = {j. j < ?n \<and> clustered ils ?big gap i j}"
        "\<And>ms. ms \<in> set gs \<Longrightarrow> (\<exists>i\<in>set ms. i \<in> set ?big) \<and> sorted ms \<and> distinct ms \<and> set ms \<subseteq> {..<?n}"
        "\<And>i b. i < ?n \<Longrightarrow> b \<in> set ?big \<Longrightarrow> clustered ils ?big gap i b \<Longrightarrow> \<exists>ms\<in>set gs. i \<in> set ms"
        "distinct (concat gs)"
      have ok: "ms \<noteq> [] \<and> distinct ms \<and> set ms \<subseteq> {..<?n}" if "ms \<in> set gs" for ms
        using g(3) [OF that] by auto
      from cut_groups [OF assms lab desc comp ok g(5), of fl] obtain ps where
        ps: "sequence_opt (map (piece_of fl img lab ils) gs) = Some ps" "distinct ps"
          "\<forall>P\<in>set ps. \<exists>ms\<in>set gs. cut_for img P (\<Union>i\<in>set ms. island_pixels img lab i)"
          "\<forall>ms\<in>set gs. \<exists>P\<in>set ps. cut_for img P (\<Union>i\<in>set ms. island_pixels img lab i)"
          "\<forall>P\<in>set ps. \<forall>Q\<in>set ps. P \<noteq> Q \<longrightarrow> shown P \<inter> shown Q = {}" by blast
      have split: "split_sheet fl img = Some (reading_order fl ps)"
        using i ne False g(1) ps(1) by (simp add: split_sheet_def gap_def)
      have perm: "set (reading_order fl ps) = set ps" "distinct (reading_order fl ps)"
        using mset_reading_order [of fl ps] ps(2) by (metis mset_eq_setD, metis distinct_count_atmost_1 mset_eq_setD)
      have piece: "cut_for img P (shown P) \<and> (\<forall>p\<in>shown P. opaque img p \<and> component img p \<subseteq> shown P) \<and>
          (\<exists>p\<in>shown P. real_piece fl img (component img p))" if "P \<in> set ps" for P
      proof -
        from ps(3) that obtain ms where ms: "ms \<in> set gs" "cut_for img P (\<Union>i\<in>set ms. island_pixels img lab i)" by blast
        then have C: "shown P = (\<Union>i\<in>set ms. island_pixels img lab i)" by (simp add: cut_for_def)
        from g(3) [OF ms(1)] obtain b where b: "b \<in> set ms" "b \<in> set ?big" by blast
        then have r: "b < ?n" "real_piece fl img (island_pixels img lab b)" using big by blast+
        have "island_pixels img lab b \<noteq> {}" using desc [OF r(1)] by (simp add: describes_def)
        from piece_whole [OF own opq C _ b(1) r(2) this] show ?thesis using ms(2) C ok [OF ms(1)] by simp
      qed
      have found: "\<exists>P\<in>set ps. p \<in> shown P" if p: "opaque img p" "real_piece fl img (component img p)" for p
      proof -
        let ?k = "label_of img lab p"
        have "?k \<in> set ?big" using p own [OF p(1)] lt [OF p(1)] big by simp
        from g(4) [OF lt [OF p(1)] this clustered_refl] obtain ms where ms: "ms \<in> set gs" "?k \<in> set ms" by blast
        with ps(4) obtain P where "P \<in> set ps" "cut_for img P (\<Union>i\<in>set ms. island_pixels img lab i)" by blast
        moreover have "p \<in> island_pixels img lab ?k" using p(1) opaque_in_img by (simp add: island_pixels_def)
        ultimately show ?thesis using ms(2) by (auto simp: cut_for_def)
      qed
      show ?thesis
        by (rule exI [of _ "reading_order fl ps"]) (use split perm ps(5) piece found in simp)
    qed
  qed
qed

section \<open>Examples\<close>

text \<open>A sheet one pixel high: two opaque pixels, a gap, an opaque pixel.\<close>

definition small_sheet :: image where
  "small_sheet = \<lparr>img_w = 4, img_h = 1, img_px = [(1, 1, 1, 255), (2, 2, 2, 255), (0, 0, 0, 0), (3, 3, 3, 255)]\<rparr>"

definition plain_floats :: "nat sheet_floats" where
  "plain_floats = \<lparr>is_piece = (\<lambda>w h a. 2 \<le> a), join_gap = (\<lambda>m. 0), centre = (\<lambda>s n. s div n),
     below_row = (\<lambda>m c s. s + m < c), opening_kernel = (\<lambda>n. 2), least_lobe = (\<lambda>n. 1)\<rparr>"

lemma small_sheet_ok: "sheet_ok small_sheet"
  by (simp add: sheet_ok_def small_sheet_def u32_max_def)

lemma small_opaque: "opaque small_sheet p \<longleftrightarrow> snd p = 0 \<and> fst p \<in> {0, 1, 3}"
  by (cases p) (auto simp: opaque_def in_img_def small_sheet_def get_pixel_def alpha_def less_Suc_eq numeral_eq_Suc)

lemma small_component: "component small_sheet (0, 0) = {(0, 0), (1, 0)}"
proof
  show "component small_sheet (0, 0) \<subseteq> {(0, 0), (1, 0)}"
    by (rule component_closed) (auto simp: touches_def small_opaque beside_def abs_diff_def)
  have "touches small_sheet (0, 0) (1, 0)" by (simp add: touches_def small_opaque beside_def abs_diff_def)
  from component_step [OF component_self this] show "{(0, 0), (1, 0)} \<subseteq> component small_sheet (0, 0)" by simp
qed

lemma split_shows_islands_once_witness:
  "\<exists>ps. split_sheet plain_floats small_sheet = Some ps \<and>
     (\<exists>P\<in>set ps. (0, 0) \<in> shown P \<and> (1, 0) \<in> shown P \<and> (2, 0) \<notin> shown P)"
proof -
  have o: "opaque small_sheet (0, 0)" "\<not> opaque small_sheet (2, 0)" by (simp_all add: small_opaque)
  have r: "real_piece plain_floats small_sheet (component small_sheet (0, 0))"
    by (simp add: small_component real_piece_def plain_floats_def)
  from split_shows_islands_once [OF small_sheet_ok, of plain_floats] obtain ps where
    ps: "split_sheet plain_floats small_sheet = Some ps"
      "\<forall>P\<in>set ps. cut_for small_sheet P (shown P) \<and>
         (\<forall>p\<in>shown P. opaque small_sheet p \<and> component small_sheet p \<subseteq> shown P) \<and>
         (\<exists>p\<in>shown P. real_piece plain_floats small_sheet (component small_sheet p))"
      "\<forall>p. opaque small_sheet p \<longrightarrow> real_piece plain_floats small_sheet (component small_sheet p) \<longrightarrow>
         (\<exists>P\<in>set ps. p \<in> shown P)" by (elim exE conjE) blast
  from ps(3) o(1) r obtain P where P: "P \<in> set ps" "(0, 0) \<in> shown P" by blast
  with ps(2) have "component small_sheet (0, 0) \<subseteq> shown P" "(2, 0) \<notin> shown P" using o(2) by blast+
  with P ps(1) show ?thesis by (auto simp: small_component)
qed

lemma groups_are_clusters_witness:
  "\<exists>lab ils gs. islands small_sheet = Some (lab, ils) \<and>
     group_islands ils [label_of small_sheet lab (0, 0)] 2 = Some gs \<and>
     (\<exists>ms\<in>set gs. label_of small_sheet lab (0, 0) \<in> set ms \<and> label_of small_sheet lab (3, 0) \<in> set ms)"
proof (rule islands_correct [OF small_sheet_ok])
  fix lab ils
  assume i: "islands small_sheet = Some (lab, ils)"
    and lt: "\<And>p. opaque small_sheet p \<Longrightarrow> label_of small_sheet lab p < length ils"
    and same: "\<And>p q. opaque small_sheet p \<Longrightarrow> opaque small_sheet q \<Longrightarrow>
      label_of small_sheet lab p = label_of small_sheet lab q \<longleftrightarrow> (touches small_sheet)\<^sup>*\<^sup>* p q"
  let ?a = "label_of small_sheet lab (0, 0)" and ?b = "label_of small_sheet lab (3, 0)"
  have o: "opaque small_sheet (0, 0)" "opaque small_sheet (1, 0)" "opaque small_sheet (3, 0)"
    by (simp_all add: small_opaque)
  have c: "(1, 0) \<in> component small_sheet (0, 0)" "(3, 0) \<notin> component small_sheet (0, 0)"
    by (simp_all add: small_component)
  have "label_of small_sheet lab (1, 0) = ?a" "?b \<noteq> ?a"
    using same [OF o(1,2)] same [OF o(1,3)] c by (simp_all add: component_def)
  then have "(1, 0) \<in> island_pixels small_sheet lab ?a" "(3, 0) \<in> island_pixels small_sheet lab ?b" "?a \<noteq> ?b"
    using o opaque_in_img by (simp_all add: island_pixels_def)
  moreover have "chebyshev (1, 0) (3, 0) \<le> 2" by (simp add: chebyshev_def abs_diff_def)
  ultimately have close: "close_islands small_sheet lab (length ils) [?a] 2 ?a ?b"
    using lt o unfolding close_islands_def by auto
  have "set [?a] \<subseteq> {..<length ils}" using lt [OF o(1)] by simp
  from groups_are_clusters [OF small_sheet_ok i this, of 2] obtain gs where
    g: "group_islands ils [?a] 2 = Some gs"
      "\<forall>ms\<in>set gs. (\<exists>i\<in>set ms. i \<in> set [?a]) \<and>
         (\<forall>i\<in>set ms. set ms = {j. (close_islands small_sheet lab (length ils) [?a] 2)\<^sup>*\<^sup>* i j})"
      "\<forall>b\<in>set [?a]. \<exists>ms\<in>set gs. b \<in> set ms" by (elim exE conjE) blast
  from g(3) obtain ms where ms: "ms \<in> set gs" "?a \<in> set ms" by auto
  with g(2) close have "?b \<in> set ms" by blast
  with i g(1) ms show ?thesis by blast
qed

lemma opening_never_adds_witness:
  "mask_at (erode [True, True, True, True, True, True, True, True, False] 3 3 1) 3 3 1 1 = False"
proof -
  have m: "\<not> mask_at [True, True, True, True, True, True, True, True, False] 3 3 2 2"
    by (simp add: mask_at_def numeral_eq_Suc)
  have "chebyshev (2, 2) (1, 1) \<le> 1" by (simp add: chebyshev_def abs_diff_def)
  with m show ?thesis
    using opening_never_adds [of 1 3 1 3 "[True, True, True, True, True, True, True, True, False]" 1] by auto
qed

end
