(* ===== verification/Code_Folders.thy ===== *)
theory Code_Folders
  imports Interfaces Rust_Bytes "HOL-Library.Product_Lexorder"
begin

text \<open>
  \<open>code_tools/folders.rs\<close> and \<open>db/code_notices.rs\<close>: the writer lease on a folder that Code sessions
  share, and the notices of changed files they leave each other.  The table of notices is a list in
  the order of its row ids; every SQL statement may fail; the JSON of a row's files is \<open>serde_json\<close>'s,
  an argument.  Times are the code's \<open>i64\<close> milliseconds as integers, with the one saturating addition
  written out.
\<close>

section \<open>Folders as keys\<close>

definition i64_max :: int where "i64_max = 9223372036854775807"
definition i64_min :: int where "i64_min = -9223372036854775808"

abbreviation SLASH :: rchar where "SLASH \<equiv> 47"
abbreviation DOT :: rchar where "DOT \<equiv> 46"
abbreviation COLON :: rchar where "COLON \<equiv> 58"

text \<open>\<open>Path::components\<close> off Windows: repeated slashes and inner dots are skipped.\<close>

datatype component = RootDir | CurDir | Segment rstr

definition path_components :: "rstr \<Rightarrow> component list" where
  "path_components s =
    (let segs = split_char SLASH s;
         inner = (\<lambda>ps. map Segment (filter (\<lambda>p. p \<noteq> [] \<and> p \<noteq> [DOT]) ps))
     in if prefix [SLASH] s then RootDir # inner segs
        else if hd segs = [DOT] then CurDir # inner (tl segs)
        else inner segs)"

definition path_starts_with :: "rstr \<Rightarrow> rstr \<Rightarrow> bool" where
  "path_starts_with a b \<longleftrightarrow> prefix (path_components b) (path_components a)"

definition linux_within :: "rstr \<Rightarrow> rstr \<Rightarrow> bool" where
  "linux_within p dir \<longleftrightarrow> dir = [SLASH] \<or> p = dir \<or>
     (case strip_prefix dir p of None \<Rightarrow> False | Some r \<Rightarrow> prefix [SLASH] r)"

definition wsl_key :: "rstr \<Rightarrow> rstr \<Rightarrow> rstr" where
  "wsl_key distro p =
    (let p = trim_end_matches (\<lambda>c. c = SLASH) p
     in lit ''wsl:'' @ distro @ [COLON] @ (if p = [] then [SLASH] else p))"

definition split_wsl_key :: "rstr \<Rightarrow> (rstr \<times> rstr) option" where
  "split_wsl_key k = Option.bind (strip_prefix (lit ''wsl:'') k) (split_once COLON)"

definition overlaps :: "rstr \<Rightarrow> rstr \<Rightarrow> bool" where
  "overlaps a b \<longleftrightarrow> (case (split_wsl_key a, split_wsl_key b) of
     (Some (da, pa), Some (db, pb)) \<Rightarrow> da = db \<and> (linux_within pa pb \<or> linux_within pb pa)
   | (None, None) \<Rightarrow> path_starts_with a b \<or> path_starts_with b a
   | _ \<Rightarrow> False)"

text \<open>\<open>key\<close>: \<open>canonicalize\<close> answers for the file system.\<close>

definition folder_key :: "(rstr \<Rightarrow> rstr option) \<Rightarrow> rstr \<Rightarrow> rstr option \<Rightarrow> rstr" where
  "folder_key canonicalize folder wsl_distro = (case wsl_distro of
     Some d \<Rightarrow> wsl_key d folder
   | None \<Rightarrow> (case canonicalize folder of Some p \<Rightarrow> p | None \<Rightarrow> folder))"

section \<open>The writer lease\<close>

record lease =
  l_folder :: rstr
  l_title :: rstr
  l_window :: rstr

record folders =
  leases :: "(rstr \<times> lease) list"
  clock :: int

definition folders_default :: folders where
  "folders_default = \<lparr>leases = [], clock = 0\<rparr>"

definition take_lease ::
  "rstr \<Rightarrow> rstr \<Rightarrow> rstr \<Rightarrow> rstr \<Rightarrow> (rstr \<Rightarrow> bool) \<Rightarrow> folders \<Rightarrow> (rstr + unit) \<times> folders" where
  "take_lease folder session title window alive f =
    (let f = f\<lparr>leases := store_retain (\<lambda>_ l. alive (l_window l)) (leases f)\<rparr>
     in case List.find (\<lambda>(i, l). i \<noteq> session \<and> overlaps (l_folder l) folder) (leases f) of
          Some (_, l) \<Rightarrow> (Inl (l_title l), f)
        | None \<Rightarrow> (Inr (), f\<lparr>leases := AList.update session
            \<lparr>l_folder = folder, l_title = title, l_window = window\<rparr> (leases f)\<rparr>))"

definition release_lease :: "rstr \<Rightarrow> folders \<Rightarrow> folders" where
  "release_lease session f = f\<lparr>leases := AList.delete session (leases f)\<rparr>"

definition release_window :: "rstr \<Rightarrow> folders \<Rightarrow> folders" where
  "release_window label f = f\<lparr>leases := store_retain (\<lambda>_ l. l_window l \<noteq> label) (leases f)\<rparr>"

text \<open>\<open>code_lease_take\<close>: \<open>None\<close> when the lease is ours, else the title of its holder.\<close>

definition code_lease_take ::
  "(rstr \<Rightarrow> rstr option) \<Rightarrow> rstr \<Rightarrow> (rstr \<Rightarrow> bool) \<Rightarrow> rstr \<Rightarrow> rstr option \<Rightarrow> rstr \<Rightarrow> rstr \<Rightarrow> folders
     \<Rightarrow> rstr option \<times> folders" where
  "code_lease_take canonicalize window alive folder wsl_distro session title f =
    (case take_lease (folder_key canonicalize folder wsl_distro) session title window alive f of
       (Inl holder, f) \<Rightarrow> (Some holder, f)
     | (Inr (), f) \<Rightarrow> (None, f))"

section \<open>The table of notices\<close>

record notice_row =
  row_id :: int
  row_folder :: rstr
  row_session :: rstr
  row_title :: rstr
  row_files :: rstr
  row_at :: int

record stored_notice =
  n_id :: int
  n_folder :: rstr
  n_session :: rstr
  n_title :: rstr
  n_files :: "rstr list"
  n_at :: int

record seen_mark =
  m_id :: rstr
  m_root :: rstr
  m_wsl_distro :: "rstr option"
  m_seen :: int

record notices_db =
  rows :: "notice_row list"
  next_row :: int
  marks :: "seen_mark list"

text \<open>The statements of one call, each of which may fail, and the JSON of a list of files.\<close>

datatype statement = ReadRows | ReadRowsToPrune | ReadMarks | InsertRow | PrepareDelete | DeleteRow int

record file_json =
  to_json :: "rstr list \<Rightarrow> rstr"
  of_json :: "rstr \<Rightarrow> rstr list option"

datatype db_error = SavingFailed | ReadingFailed | DroppingFailed | ReadingSessionsFailed

definition insert_code_notice ::
  "(statement \<Rightarrow> bool) \<Rightarrow> file_json \<Rightarrow> rstr \<Rightarrow> rstr \<Rightarrow> rstr \<Rightarrow> rstr list \<Rightarrow> int \<Rightarrow> notices_db
     \<Rightarrow> (db_error + unit) \<times> notices_db" where
  "insert_code_notice runs js folder session title files at db =
    (if \<not> runs InsertRow then (Inl SavingFailed, db)
     else (Inr (), db\<lparr>rows := rows db @ [\<lparr>row_id = next_row db, row_folder = folder, row_session = session,
             row_title = title, row_files = to_json js files, row_at = at\<rparr>],
           next_row := next_row db + 1\<rparr>))"

definition stored_of_row :: "file_json \<Rightarrow> notice_row \<Rightarrow> stored_notice" where
  "stored_of_row js r = \<lparr>n_id = row_id r, n_folder = row_folder r, n_session = row_session r,
     n_title = row_title r,
     n_files = (case of_json js (row_files r) of Some fs \<Rightarrow> fs | None \<Rightarrow> []), n_at = row_at r\<rparr>"

definition code_notices ::
  "(statement \<Rightarrow> bool) \<Rightarrow> statement \<Rightarrow> file_json \<Rightarrow> notices_db \<Rightarrow> db_error + stored_notice list" where
  "code_notices runs st js db =
    (if \<not> runs st then Inl ReadingFailed
     else Inr (map (stored_of_row js) (sort_key (\<lambda>r. (row_at r, row_id r)) (rows db))))"

fun delete_rows :: "(statement \<Rightarrow> bool) \<Rightarrow> int list \<Rightarrow> notices_db \<Rightarrow> (db_error + unit) \<times> notices_db" where
  "delete_rows runs [] db = (Inr (), db)"
| "delete_rows runs (i # is) db =
    (if \<not> runs (DeleteRow i) then (Inl DroppingFailed, db)
     else delete_rows runs is (db\<lparr>rows := filter (\<lambda>r. row_id r \<noteq> i) (rows db)\<rparr>))"

definition delete_code_notices ::
  "(statement \<Rightarrow> bool) \<Rightarrow> int list \<Rightarrow> notices_db \<Rightarrow> (db_error + unit) \<times> notices_db" where
  "delete_code_notices runs ids db =
    (if ids = [] then (Inr (), db)
     else if \<not> runs PrepareDelete then (Inl DroppingFailed, db) else delete_rows runs ids db)"

definition code_session_seen_marks :: "(statement \<Rightarrow> bool) \<Rightarrow> notices_db \<Rightarrow> db_error + seen_mark list" where
  "code_session_seen_marks runs db = (if \<not> runs ReadMarks then Inl ReadingSessionsFailed else Inr (marks db))"

section \<open>Recording and taking notices\<close>

definition NOTICE_MAX_AGE_MS :: int where "NOTICE_MAX_AGE_MS = 24 * 60 * 60 * 1000"
definition NOTICE_CAP :: nat where "NOTICE_CAP = 200"

record file_notice =
  f_session_id :: rstr
  f_title :: rstr
  f_files :: "rstr list"
  f_at :: int

definition file_notice :: "stored_notice \<Rightarrow> file_notice" where
  "file_notice n = \<lparr>f_session_id = n_session n, f_title = n_title n, f_files = n_files n, f_at = n_at n\<rparr>"

definition mark_root :: "seen_mark \<Rightarrow> rstr" where
  "mark_root m = (case m_wsl_distro m of Some d \<Rightarrow> wsl_key d (m_root m) | None \<Rightarrow> m_root m)"

definition heard_by_all :: "seen_mark list \<Rightarrow> stored_notice \<Rightarrow> bool" where
  "heard_by_all ms n \<longleftrightarrow>
     list_all (\<lambda>m. n_at n \<le> m_seen m)
       (filter (\<lambda>m. m_id m \<noteq> n_session n \<and> overlaps (mark_root m) (n_folder n)) ms)"

definition prune :: "(statement \<Rightarrow> bool) \<Rightarrow> file_json \<Rightarrow> int \<Rightarrow> notices_db \<Rightarrow> (db_error + unit) \<times> notices_db" where
  "prune runs js now db = (case code_notices runs ReadRowsToPrune js db of
     Inl e \<Rightarrow> (Inl e, db)
   | Inr stored \<Rightarrow>
      if stored = [] then (Inr (), db)
      else (case code_session_seen_marks runs db of
        Inl e \<Rightarrow> (Inl e, db)
      | Inr ms \<Rightarrow>
         (let keep_from = length stored - NOTICE_CAP;
              finished = map (\<lambda>(_, n). n_id n)
                (filter (\<lambda>(i, n). i < keep_from \<or> NOTICE_MAX_AGE_MS \<le> now - n_at n \<or> heard_by_all ms n)
                  (List.enumerate 0 stored))
          in delete_code_notices runs finished db)))"

definition tick :: "int \<Rightarrow> folders \<Rightarrow> int \<times> folders" where
  "tick now f = (let c = max now (clock f + 1) in (c, f\<lparr>clock := c\<rparr>))"

definition saturating_succ :: "int \<Rightarrow> int" where
  "saturating_succ n = min i64_max (n + 1)"

fun greatest :: "int list \<Rightarrow> int option" where
  "greatest [] = None"
| "greatest (x # xs) = Some (fold max xs x)"

definition record_notice ::
  "(statement \<Rightarrow> bool) \<Rightarrow> file_json \<Rightarrow> rstr \<Rightarrow> rstr \<Rightarrow> rstr \<Rightarrow> rstr list \<Rightarrow> int \<Rightarrow> folders \<times> notices_db
     \<Rightarrow> (db_error + unit) \<times> folders \<times> notices_db" where
  "record_notice runs js folder session title files now s = (case s of (f, db) \<Rightarrow>
    if files = [] then (Inr (), f, db)
    else (case code_notices runs ReadRows js db of
      Inl e \<Rightarrow> (Inl e, f, db)
    | Inr stored \<Rightarrow>
       (let earliest = greatest (map (\<lambda>n. saturating_succ (n_at n)) stored);
            (at, f) = tick (case earliest of None \<Rightarrow> now | Some e \<Rightarrow> max now e) f
        in case insert_code_notice runs js folder session title files at db of
             (Inl e, db) \<Rightarrow> (Inl e, f, db)
           | (Inr (), db) \<Rightarrow> (case prune runs js now db of (res, db) \<Rightarrow> (res, f, db)))))"

definition take_notices ::
  "(statement \<Rightarrow> bool) \<Rightarrow> file_json \<Rightarrow> rstr \<Rightarrow> rstr \<Rightarrow> int \<Rightarrow> int \<Rightarrow> folders \<times> notices_db
     \<Rightarrow> (db_error + file_notice list \<times> int) \<times> folders \<times> notices_db" where
  "take_notices runs js folder session since now s = (case s of (f, db) \<Rightarrow>
    (case code_notices runs ReadRows js db of
      Inl e \<Rightarrow> (Inl e, f, db)
    | Inr stored \<Rightarrow>
       (let notices = map file_notice
              (filter (\<lambda>n. since < n_at n \<and> n_session n \<noteq> session \<and> overlaps (n_folder n) folder) stored);
            newest = (case greatest (map n_at stored) of Some t \<Rightarrow> t | None \<Rightarrow> i64_min);
            f = f\<lparr>clock := max (max now (clock f)) newest\<rparr>
        in case prune runs js now db of
             (Inl e, db) \<Rightarrow> (Inl e, f, db)
           | (Inr (), db) \<Rightarrow> (Inr (notices, clock f), f, db))))"

end
