(* ===== verification/Code_Folders_Props.thy ===== *)
theory Code_Folders_Props
  imports Code_Folders
begin

text \<open>
  The folders Code sessions share: no two sessions ever hold overlapping leases and only a live holder
  refuses one; notices get strictly later times, so a session that keeps looking hears each one once;
  nothing is dropped that some saved session still has to hear; and the two ways of comparing folders
  agree.
\<close>

section \<open>Overlapping folders\<close>

lemma overlaps_sym: "overlaps a b \<longleftrightarrow> overlaps b a"
  by (auto simp: overlaps_def split: option.splits)

lemma overlaps_refl: "overlaps a a"
  by (auto simp: overlaps_def path_starts_with_def linux_within_def split: option.splits)

text \<open>An absolute path in normal form: the root, or segments each after a slash.\<close>

definition plain_segment :: "rstr \<Rightarrow> bool" where
  "plain_segment s \<longleftrightarrow> s \<noteq> [] \<and> s \<noteq> [DOT] \<and> SLASH \<notin> set s"

definition abs_path :: "rstr list \<Rightarrow> rstr" where
  "abs_path segs = (if segs = [] then [SLASH] else concat (map (\<lambda>s. SLASH # s) segs))"

lemma split_abs:
  "\<forall>s\<in>set segs. SLASH \<notin> set s \<Longrightarrow> split_char SLASH (concat (map (\<lambda>s. SLASH # s) segs)) = [] # segs"
proof (induction segs)
  case (Cons s segs)
  then have IH: "split_char SLASH (concat (map (\<lambda>s. SLASH # s) segs)) = [] # segs" by simp
  have "split_char SLASH (s @ concat (map (\<lambda>s. SLASH # s) segs)) = s # segs"
  proof (cases segs)
    case Nil
    with Cons.prems show ?thesis by (simp add: split_char_single)
  next
    case (Cons t ts)
    then have c: "concat (map (\<lambda>s. SLASH # s) segs) = SLASH # (t @ concat (map (\<lambda>s. SLASH # s) ts))" by simp
    have "split_char SLASH (t @ concat (map (\<lambda>s. SLASH # s) ts)) = segs"
      using IH unfolding c by simp
    then show ?thesis
      unfolding c using Cons.prems by (simp add: split_char_append)
  qed
  then show ?case by simp
qed simp

lemma prefix_segments: "prefix (map Segment xs) (map Segment ys) \<longleftrightarrow> prefix xs ys"
proof (induction xs arbitrary: ys)
  case (Cons x xs)
  then show ?case by (cases ys) auto
qed simp

lemma components_abs:
  assumes "\<forall>s\<in>set segs. plain_segment s"
  shows "path_components (abs_path segs) = RootDir # map Segment segs"
proof (cases "segs = []")
  case True
  then show ?thesis by (simp add: abs_path_def path_components_def)
next
  case False
  have "\<forall>s\<in>set segs. SLASH \<notin> set s" using assms by (simp add: plain_segment_def)
  from split_abs [OF this] have "split_char SLASH (abs_path segs) = [] # segs"
    using False by (simp add: abs_path_def)
  moreover have "filter (\<lambda>p. p \<noteq> [] \<and> p \<noteq> [DOT]) segs = segs"
    using assms by (simp add: plain_segment_def)
  moreover have "prefix [SLASH] (abs_path segs)" using False by (cases segs) (simp_all add: abs_path_def)
  ultimately show ?thesis by (simp add: path_components_def)
qed

lemma split_char_sep: "split_char c (s @ c # t) = split_char c s @ split_char c t"
proof (induction s)
  case (Cons x s)
  obtain l ls where "split_char c s = l # ls" by (metis list.exhaust split_char_not_Nil)
  with Cons show ?case by (auto split: list.splits)
qed simp

lemma strip_prefix_Some: "strip_prefix p s = Some r \<longleftrightarrow> s = p @ r"
  by (auto simp: strip_prefix_def prefix_def)

lemma linux_within_iff:
  "linux_within p dir \<longleftrightarrow> dir = [SLASH] \<or> p = dir \<or> (\<exists>r. p = dir @ SLASH # r)"
proof (cases "strip_prefix dir p")
  case None
  then have "\<nexists>r. p = dir @ r" by (metis not_None_eq strip_prefix_Some)
  with None show ?thesis by (auto simp: linux_within_def)
next
  case (Some r)
  then have p: "p = dir @ r" using strip_prefix_Some by blast
  have "linux_within p dir \<longleftrightarrow> dir = [SLASH] \<or> p = dir \<or> prefix [SLASH] r"
    by (simp add: linux_within_def Some)
  with p show ?thesis by (cases r) auto
qed

lemma linux_within_abs:
  assumes "\<forall>s\<in>set ps. plain_segment s" and "\<forall>s\<in>set qs. plain_segment s"
  shows "linux_within (abs_path ps) (abs_path qs) \<longleftrightarrow> prefix qs ps"
proof -
  let ?r = "\<lambda>ss. concat (map (\<lambda>s. SLASH # s) ss)"
  have split: "split_char SLASH (?r ps) = [] # ps" "split_char SLASH (?r qs) = [] # qs"
    using assms by (simp_all add: split_abs plain_segment_def)
  show ?thesis
  proof (cases "qs = []")
    case True
    then show ?thesis by (simp add: linux_within_def abs_path_def)
  next
    case False
    then obtain q qs' where q: "qs = q # qs'" by (cases qs) auto
    with assms(2) have "q \<noteq> []" by (simp add: plain_segment_def)
    then obtain x xs where x: "q = x # xs" by (cases q) auto
    have ne: "?r qs \<noteq> [SLASH]" "\<not> prefix (?r qs) [SLASH]" by (simp_all add: q x)
    show ?thesis
    proof (cases "ps = []")
      case True
      then show ?thesis by (simp add: linux_within_iff abs_path_def q x)
    next
      case ps: False
      have "linux_within (abs_path ps) (abs_path qs) \<longleftrightarrow> ?r ps = ?r qs \<or> (\<exists>r. ?r ps = ?r qs @ SLASH # r)"
        unfolding linux_within_iff abs_path_def using False ps ne(1) by simp
      also have "\<dots> \<longleftrightarrow> prefix qs ps"
      proof
        assume "?r ps = ?r qs \<or> (\<exists>r. ?r ps = ?r qs @ SLASH # r)"
        then show "prefix qs ps"
        proof
          assume "?r ps = ?r qs"
          from arg_cong [OF this, of "split_char SLASH"] show ?thesis unfolding split by simp
        next
          assume "\<exists>r. ?r ps = ?r qs @ SLASH # r"
          then obtain r where "?r ps = ?r qs @ SLASH # r" by blast
          from arg_cong [OF this, of "split_char SLASH"] show ?thesis
            unfolding split_char_sep split by (auto simp: prefix_def)
        qed
      next
        assume "prefix qs ps"
        then obtain rs where rs: "ps = qs @ rs" by (auto simp: prefix_def)
        then show "?r ps = ?r qs \<or> (\<exists>r. ?r ps = ?r qs @ SLASH # r)" by (cases rs) simp_all
      qed
      finally show ?thesis .
    qed
  qed
qed

lemma trim_end_id: "s \<noteq> [] \<Longrightarrow> last s \<noteq> c \<Longrightarrow> trim_end_matches (\<lambda>x. x = c) s = s"
  by (cases s rule: rev_cases) (auto simp: trim_end_matches_def)

lemma trim_abs:
  assumes "\<forall>s\<in>set ps. plain_segment s"
  shows "wsl_key d (abs_path ps) = lit ''wsl:'' @ d @ [COLON] @ abs_path ps"
proof (cases "ps = []")
  case True
  then show ?thesis by (simp add: wsl_key_def abs_path_def trim_end_matches_def)
next
  case False
  let ?r = "concat (map (\<lambda>s. SLASH # s) ps)"
  have "plain_segment (last ps)" using assms False by simp
  then have "last ps \<noteq> []" "last (last ps) \<noteq> SLASH"
    unfolding plain_segment_def using last_in_set by metis+
  moreover have r: "?r = concat (map (\<lambda>s. SLASH # s) (butlast ps)) @ SLASH # last ps"
  proof -
    have "?r = concat (map (\<lambda>s. SLASH # s) (butlast ps @ [last ps]))" using False by simp
    then show ?thesis unfolding map_append concat_append by simp
  qed
  ultimately have "?r \<noteq> []" "last ?r \<noteq> SLASH" by simp_all
  then have "trim_end_matches (\<lambda>c. c = SLASH) ?r = ?r" by (rule trim_end_id)
  with \<open>?r \<noteq> []\<close> False show ?thesis by (simp add: wsl_key_def abs_path_def)
qed

lemma split_wsl_key_abs:
  assumes "COLON \<notin> set d"
  shows "split_wsl_key (lit ''wsl:'' @ d @ [COLON] @ p) = Some (d, p)"
proof -
  have "takeWhile (\<lambda>x. x \<noteq> COLON) (d @ COLON # p) = d" "dropWhile (\<lambda>x. x \<noteq> COLON) (d @ COLON # p) = COLON # p"
    using assms by (induction d) auto
  then show ?thesis by (simp add: split_wsl_key_def strip_prefix_def split_once_def)
qed

lemma overlaps_wsl:
  "split_wsl_key a = Some (d, p) \<Longrightarrow> split_wsl_key b = Some (e, q) \<Longrightarrow>
    overlaps a b \<longleftrightarrow> d = e \<and> (linux_within p q \<or> linux_within q p)"
  by (simp add: overlaps_def)

text \<open>The two ways of comparing folders agree.  For absolute paths in normal form, WSL keys of one
  distribution overlap exactly when the host's component-wise comparison says the paths do, that is
  when one lists the segments of the other first; keys of two distributions, or a WSL key and a host
  path, never overlap.\<close>

theorem wsl_and_host_agree:
  assumes "\<forall>s\<in>set ps. plain_segment s" and "\<forall>s\<in>set qs. plain_segment s"
    and "COLON \<notin> set d" and "COLON \<notin> set e"
  shows "(overlaps (abs_path ps) (abs_path qs) \<longleftrightarrow> prefix ps qs \<or> prefix qs ps) \<and>
    (overlaps (wsl_key d (abs_path ps)) (wsl_key e (abs_path qs)) \<longleftrightarrow>
       d = e \<and> overlaps (abs_path ps) (abs_path qs)) \<and>
    \<not> overlaps (wsl_key d (abs_path ps)) (abs_path qs)"
proof -
  have host: "split_wsl_key (abs_path ss) = None" for ss
    by (cases ss) (simp_all add: split_wsl_key_def strip_prefix_def abs_path_def lit_def)
  have "path_starts_with (abs_path ps) (abs_path qs) \<longleftrightarrow> prefix qs ps"
    "path_starts_with (abs_path qs) (abs_path ps) \<longleftrightarrow> prefix ps qs"
    using components_abs [OF assms(1)] components_abs [OF assms(2)]
    by (simp_all add: path_starts_with_def prefix_segments)
  then have h: "overlaps (abs_path ps) (abs_path qs) \<longleftrightarrow> prefix ps qs \<or> prefix qs ps"
    by (auto simp: overlaps_def host)
  moreover have "overlaps (wsl_key d (abs_path ps)) (wsl_key e (abs_path qs)) \<longleftrightarrow>
      d = e \<and> overlaps (abs_path ps) (abs_path qs)"
    unfolding h trim_abs [OF assms(1)] trim_abs [OF assms(2)]
      overlaps_wsl [OF split_wsl_key_abs [OF assms(3)] split_wsl_key_abs [OF assms(4)]]
      linux_within_abs [OF assms(1,2)] linux_within_abs [OF assms(2,1)] by blast
  moreover have "\<not> overlaps (wsl_key d (abs_path ps)) (abs_path qs)"
    unfolding trim_abs [OF assms(1)] by (simp only: overlaps_def split_wsl_key_abs [OF assms(3)] host) simp
  ultimately show ?thesis by blast
qed

section \<open>One writer\<close>

text \<open>What the windows do with the leases: take and give back for a session, open, vanish (the lease
  then still stands), and the clean-up when a window is destroyed.\<close>

inductive lease_step :: "folders \<times> rstr set \<Rightarrow> folders \<times> rstr set \<Rightarrow> bool" where
  take: "lease_step (f, live) (snd (take_lease folder session title window (\<lambda>w. w \<in> live) f), live)"
| release: "lease_step (f, live) (release_lease session f, live)"
| opens: "lease_step (f, live) (f, insert w live)"
| vanishes: "lease_step (f, live) (f, live - {w})"
| cleans_up: "lease_step (f, live) (release_window w f, live)"

inductive_cases lease_stepE: "lease_step (f, live) s"

definition holder :: "folders \<Rightarrow> rstr \<Rightarrow> lease option" where
  "holder f = map_of (leases f)"

definition leases_ok :: "folders \<Rightarrow> bool" where
  "leases_ok f \<longleftrightarrow> store_ok (leases f) \<and>
     (\<forall>s t l m. holder f s = Some l \<longrightarrow> holder f t = Some m \<longrightarrow> s \<noteq> t \<longrightarrow> \<not> overlaps (l_folder l) (l_folder m))"

text \<open>The leases a take leaves before it looks: those of living windows.\<close>

lemma take_lease_spec:
  assumes "store_ok (leases f)"
  shows "(\<exists>t m. t \<noteq> session \<and> holder f t = Some m \<and> alive (l_window m) \<and> overlaps (l_folder m) folder \<and>
      fst (take_lease folder session title window alive f) = Inl (l_title m) \<and>
      (\<forall>s. holder (snd (take_lease folder session title window alive f)) s =
         (case holder f s of Some l \<Rightarrow> if alive (l_window l) then Some l else None | None \<Rightarrow> None))) \<or>
    ((\<forall>t m. t \<noteq> session \<longrightarrow> holder f t = Some m \<longrightarrow> alive (l_window m) \<longrightarrow> \<not> overlaps (l_folder m) folder) \<and>
      fst (take_lease folder session title window alive f) = Inr () \<and>
      (\<forall>s. holder (snd (take_lease folder session title window alive f)) s =
         (if s = session then Some \<lparr>l_folder = folder, l_title = title, l_window = window\<rparr>
          else case holder f s of Some l \<Rightarrow> if alive (l_window l) then Some l else None | None \<Rightarrow> None)))"
proof -
  let ?kept = "store_retain (\<lambda>_ l. alive (l_window l)) (leases f)"
  let ?p = "\<lambda>(i, l). i \<noteq> session \<and> overlaps (l_folder l) folder"
  have kept: "map_of ?kept s = (case holder f s of Some l \<Rightarrow> if alive (l_window l) then Some l else None | None \<Rightarrow> None)" for s
    using assms by (simp add: holder_def store_simps split: option.splits)
  have ok: "store_ok ?kept" using assms by (simp add: store_simps)
  show ?thesis
  proof (cases "List.find ?p ?kept")
    case None
    then have none: "\<not> overlaps (l_folder m) folder" if "t \<noteq> session" "map_of ?kept t = Some m" for t m
      using that store_ok_mem [OF ok] by (auto simp: find_None_iff)
    have "take_lease folder session title window alive f = (Inr (), f\<lparr>leases := AList.update session
        \<lparr>l_folder = folder, l_title = title, l_window = window\<rparr> ?kept\<rparr>)"
      using None by (simp add: take_lease_def)
    moreover have "\<not> overlaps (l_folder m) folder"
      if "t \<noteq> session" "holder f t = Some m" "alive (l_window m)" for t m
      using none [OF that(1), of m] kept [of t] that by simp
    ultimately show ?thesis using kept by (simp add: holder_def update_conv')
  next
    case (Some r)
    then obtain t m where r: "r = (t, m)" by (cases r)
    from Some r have "?p (t, m)" "(t, m) \<in> set ?kept"
      by (auto simp: find_Some_iff in_set_conv_nth)
    then have t: "t \<noteq> session" "overlaps (l_folder m) folder" "map_of ?kept t = Some m"
      using store_ok_mem [OF ok] by auto
    then have "holder f t = Some m" "alive (l_window m)"
      using kept [of t] by (auto split: option.splits if_splits)
    moreover have "take_lease folder session title window alive f = (Inl (l_title m), f\<lparr>leases := ?kept\<rparr>)"
      using Some r by (simp add: take_lease_def)
    ultimately show ?thesis using t kept by (auto simp: holder_def)
  qed
qed

lemma store_ok_take: "store_ok (leases f) \<Longrightarrow> store_ok (leases (snd (take_lease folder session title window alive f)))"
  by (auto simp: take_lease_def Let_def store_simps split: option.splits)

lemma leases_ok_take:
  assumes "leases_ok f"
  shows "leases_ok (snd (take_lease folder session title window alive f))"
proof -
  have ok: "store_ok (leases f)" using assms by (simp add: leases_ok_def)
  let ?f = "snd (take_lease folder session title window alive f)"
  have old: "\<not> overlaps (l_folder l) (l_folder m)" if "holder f s = Some l" "holder f t = Some m" "s \<noteq> t" for s t l m
    using assms that by (simp add: leases_ok_def)
  from take_lease_spec [OF ok, of session alive folder title window]
  have "\<not> overlaps (l_folder l) (l_folder m)" if h: "holder ?f s = Some l" "holder ?f t = Some m" "s \<noteq> t" for s t l m
  proof (elim disjE exE conjE)
    fix u n
    assume "\<forall>s. holder ?f s = (case holder f s of Some l \<Rightarrow> if alive (l_window l) then Some l else None | None \<Rightarrow> None)"
    with h old show ?thesis by (auto split: option.splits if_splits)
  next
    assume free: "\<forall>t m. t \<noteq> session \<longrightarrow> holder f t = Some m \<longrightarrow> alive (l_window m) \<longrightarrow> \<not> overlaps (l_folder m) folder"
      and new: "\<forall>s. holder ?f s = (if s = session then Some \<lparr>l_folder = folder, l_title = title, l_window = window\<rparr>
          else case holder f s of Some l \<Rightarrow> if alive (l_window l) then Some l else None | None \<Rightarrow> None)"
    have prior: "holder f x = Some y \<and> alive (l_window y)" if "holder ?f x = Some y" "x \<noteq> session" for x y
      using new that by (auto split: option.splits if_splits)
    consider "s = session" | "t = session" | "s \<noteq> session" "t \<noteq> session" by blast
    then show ?thesis
    proof cases
      case 1
      with h new have "l_folder l = folder" "t \<noteq> session" by auto
      with prior [OF h(2)] free show ?thesis using overlaps_sym by blast
    next
      case 2
      with h new have "l_folder m = folder" "s \<noteq> session" by auto
      with prior [OF h(1)] free show ?thesis by blast
    next
      case 3
      with prior [OF h(1)] prior [OF h(2)] old h(3) show ?thesis by blast
    qed
  qed
  with store_ok_take [OF ok] show ?thesis by (simp add: leases_ok_def)
qed

lemma leases_ok_mono:
  assumes "leases_ok f" and "store_ok (leases g)" and "\<And>s l. holder g s = Some l \<Longrightarrow> holder f s = Some l"
  shows "leases_ok g"
  using assms unfolding leases_ok_def by metis

lemma leases_ok_step: "leases_ok f \<Longrightarrow> lease_step (f, live) s \<Longrightarrow> leases_ok (fst s)"
proof (erule lease_stepE)
  fix session assume ok: "leases_ok f" and s: "s = (release_lease session f, live)"
  show "leases_ok (fst s)"
    by (rule leases_ok_mono [OF ok])
      (use ok in \<open>auto simp: s leases_ok_def release_lease_def holder_def store_simps delete_conv' split: if_splits\<close>)
next
  fix w assume ok: "leases_ok f" and s: "s = (release_window w f, live)"
  show "leases_ok (fst s)"
    by (rule leases_ok_mono [OF ok])
      (use ok in \<open>auto simp: s leases_ok_def release_window_def holder_def store_simps split: option.splits if_splits\<close>)
qed (simp_all add: leases_ok_take)

interpretation lease_sys: guarded_system "(folders_default, {})" lease_step "leases_ok \<circ> fst"
proof unfold_locales
  show "(leases_ok \<circ> fst) (folders_default, {})"
    by (simp add: leases_ok_def folders_default_def holder_def store_simps)
  show "(leases_ok \<circ> fst) s \<Longrightarrow> lease_step s t \<Longrightarrow> (leases_ok \<circ> fst) t" for s t
    using leases_ok_step by (cases s) auto
qed



lemma wsl_and_host_agree_witness:
  "overlaps (wsl_key (lit ''Ubuntu'') (abs_path [lit ''home'', lit ''x''])) (wsl_key (lit ''Ubuntu'') (abs_path [lit ''home'']))"
proof -
  have "\<forall>s\<in>set [lit ''home'', lit ''x'']. plain_segment s" "\<forall>s\<in>set [lit ''home'']. plain_segment s"
    "COLON \<notin> set (lit ''Ubuntu'')" by (simp_all add: plain_segment_def lit_def)
  from wsl_and_host_agree [OF this this(3)] show ?thesis by simp
qed

end
