(* ===== verification/Code_Notices_Props.thy ===== *)
theory Code_Notices_Props
  imports Code_Folders
begin

text \<open>
  The notices of \<open>code_tools/folders.rs\<close>: their times strictly increase, pruning drops exactly the rows
  nobody needs, and a session that keeps looking hears every notice once.
\<close>

section \<open>The table\<close>

definition table_ok :: "notices_db \<Rightarrow> bool" where
  "table_ok db \<longleftrightarrow>
    sorted_wrt (\<lambda>r s. row_id r < row_id s \<and> row_at r < row_at s) (rows db) \<and>
    (\<forall>r\<in>set (rows db). row_id r < next_row db \<and> row_at r < i64_max)"

lemma table_ok_sorted:
  assumes "table_ok db" shows "sort_key (\<lambda>r. (row_at r, row_id r)) (rows db) = rows db"
proof -
  have "sorted_wrt (\<lambda>r s. (row_at r, row_id r) \<le> (row_at s, row_id s)) (rows db)"
    by (rule sorted_wrt_mono_rel [OF _ conjunct1 [OF assms [unfolded table_ok_def]]]) auto
  then show ?thesis by (simp add: sort_key_id_if_sorted sorted_map)
qed

lemma code_notices_rows:
  "table_ok db \<Longrightarrow> code_notices runs st js db =
     (if runs st then Inr (map (stored_of_row js) (rows db)) else Inl ReadingFailed)"
  by (simp add: code_notices_def table_ok_sorted)

lemma table_ok_filter:
  assumes "table_ok db" and "rows db' = filter p (rows db)" and "next_row db' = next_row db"
  shows "table_ok db'"
  using assms by (auto simp: table_ok_def sorted_wrt_filter)

lemma stored_select [simp]:
  "n_id (stored_of_row js r) = row_id r" "n_at (stored_of_row js r) = row_at r"
  "n_folder (stored_of_row js r) = row_folder r" "n_session (stored_of_row js r) = row_session r"
  by (simp_all add: stored_of_row_def)

section \<open>Pruning\<close>

text \<open>Some saved session that the notice is news to has not heard it.\<close>

definition unheard :: "seen_mark list \<Rightarrow> notice_row \<Rightarrow> bool" where
  "unheard ms r \<longleftrightarrow> (\<exists>m\<in>set ms. m_id m \<noteq> row_session r \<and> overlaps (mark_root m) (row_folder r) \<and> m_seen m < row_at r)"

definition newer :: "notices_db \<Rightarrow> notice_row \<Rightarrow> notice_row list" where
  "newer db r = filter (\<lambda>s. row_id r < row_id s) (rows db)"

definition needed :: "int \<Rightarrow> notices_db \<Rightarrow> notice_row \<Rightarrow> bool" where
  "needed now db r \<longleftrightarrow> now - row_at r < NOTICE_MAX_AGE_MS \<and> length (newer db r) < NOTICE_CAP \<and> unheard (marks db) r"

lemma heard_by_all_iff: "heard_by_all ms (stored_of_row js r) \<longleftrightarrow> \<not> unheard ms r"
  by (auto simp: heard_by_all_def unheard_def list_all_iff)

lemma delete_rows_spec:
  "delete_rows runs is db = (res, db') \<Longrightarrow>
    \<exists>D. D \<subseteq> set is \<and> rows db' = filter (\<lambda>r. row_id r \<notin> D) (rows db) \<and> next_row db' = next_row db \<and>
      marks db' = marks db \<and> (res = Inr () \<longrightarrow> D = set is)"
proof (induction runs "is" db rule: delete_rows.induct)
  case (1 runs db)
  then show ?case by (intro exI [of _ "{}"]) auto
next
  case (2 runs i "is" db)
  show ?case
  proof (cases "runs (DeleteRow i)")
    case True
    with 2 obtain D where D: "D \<subseteq> set is"
      "rows db' = filter (\<lambda>r. row_id r \<notin> D) (filter (\<lambda>r. row_id r \<noteq> i) (rows db))"
      "next_row db' = next_row db" "marks db' = marks db" "res = Inr () \<longrightarrow> D = set is" by auto
    have "rows db' = filter (\<lambda>r. row_id r \<notin> insert i D) (rows db)"
      unfolding D(2) filter_filter by (rule filter_cong) auto
    with D show ?thesis by (intro exI [of _ "insert i D"]) auto
  next
    case False
    with 2(2) show ?thesis by (intro exI [of _ "{}"]) auto
  qed
qed

lemma length_newer:
  assumes "table_ok db" and "i < length (rows db)"
  shows "length (newer db (rows db ! i)) = length (rows db) - Suc i"
proof -
  let ?rs = "rows db"
  have s: "sorted_wrt (\<lambda>r s. row_id r < row_id s) ?rs"
    by (rule sorted_wrt_mono_rel [OF _ conjunct1 [OF assms(1) [unfolded table_ok_def]]]) auto
  then have less: "row_id (?rs ! j) < row_id (?rs ! k)" if "j < k" "k < length ?rs" for j k
    using that by (simp add: sorted_wrt_iff_nth_less)
  have "filter (\<lambda>s. row_id (?rs ! i) < row_id s) (take (Suc i) ?rs) = []"
  proof -
    have "\<not> row_id (?rs ! i) < row_id r" if "r \<in> set (take (Suc i) ?rs)" for r
    proof -
      from that assms(2) obtain j where j: "j \<le> i" "r = ?rs ! j" by (auto simp: in_set_conv_nth less_Suc_eq_le)
      then show ?thesis using less [of j i] assms(2) by (cases "j = i") auto
    qed
    then show ?thesis by (simp add: filter_empty_conv)
  qed
  moreover have "filter (\<lambda>s. row_id (?rs ! i) < row_id s) (drop (Suc i) ?rs) = drop (Suc i) ?rs"
  proof (rule filter_True, rule ballI)
    fix r assume "r \<in> set (drop (Suc i) ?rs)"
    then obtain j where "j < length ?rs - Suc i" "r = ?rs ! (Suc i + j)" by (auto simp: in_set_conv_nth)
    then show "row_id (?rs ! i) < row_id r" using less [of i "Suc i + j"] by simp
  qed
  moreover have "newer db (?rs ! i) = filter (\<lambda>s. row_id (?rs ! i) < row_id s) (take (Suc i) ?rs) @
      filter (\<lambda>s. row_id (?rs ! i) < row_id s) (drop (Suc i) ?rs)"
    unfolding newer_def filter_append [symmetric] append_take_drop_id ..
  ultimately have "newer db (?rs ! i) = drop (Suc i) ?rs" by simp
  then show ?thesis by simp
qed

text \<open>The ids a prune deletes are those of the rows not needed.\<close>

lemma finished_ids:
  assumes "table_ok db" and "r \<in> set (rows db)"
  shows "row_id r \<in> set (map (\<lambda>(_, n). n_id n)
      (filter (\<lambda>(i, n). i < length (rows db) - NOTICE_CAP \<or> NOTICE_MAX_AGE_MS \<le> now - n_at n \<or> heard_by_all (marks db) n)
        (List.enumerate 0 (map (stored_of_row js) (rows db))))) \<longleftrightarrow> \<not> needed now db r"
proof -
  let ?rs = "rows db"
  let ?q = "\<lambda>i r. i < length ?rs - NOTICE_CAP \<or> NOTICE_MAX_AGE_MS \<le> now - row_at r \<or> \<not> unheard (marks db) r"
  obtain i where i: "i < length ?rs" "r = ?rs ! i" using assms(2) by (auto simp: in_set_conv_nth)
  have inj: "row_id (?rs ! j) = row_id (?rs ! i) \<longleftrightarrow> j = i" if "j < length ?rs" for j
  proof -
    have "sorted_wrt (\<lambda>r s. row_id r < row_id s) ?rs"
      by (rule sorted_wrt_mono_rel [OF _ conjunct1 [OF assms(1) [unfolded table_ok_def]]]) auto
    then have "row_id (?rs ! j) < row_id (?rs ! k)" if "j < k" "k < length ?rs" for j k
      using that by (simp add: sorted_wrt_iff_nth_less)
    from this [of i j] this [of j i] show ?thesis using that i(1) by (metis less_irrefl linorder_neqE_nat)
  qed
  have "(row_id r \<in> set (map (\<lambda>(_, n). n_id n)
      (filter (\<lambda>(i, n). i < length ?rs - NOTICE_CAP \<or> NOTICE_MAX_AGE_MS \<le> now - n_at n \<or> heard_by_all (marks db) n)
        (List.enumerate 0 (map (stored_of_row js) ?rs))))) \<longleftrightarrow>
      (\<exists>j<length ?rs. ?q j (?rs ! j) \<and> row_id (?rs ! j) = row_id r)"
    by (auto simp: in_set_enumerate_eq heard_by_all_iff image_iff)
  also have "\<dots> \<longleftrightarrow> ?q i r" using inj i by blast
  also have "\<dots> \<longleftrightarrow> \<not> needed now db r"
    using length_newer [OF assms(1) i(1)] i by (auto simp: needed_def NOTICE_CAP_def)
  finally show ?thesis .
qed

lemma prune_spec:
  assumes "table_ok db" and "prune runs js now db = (res, db')"
  shows "\<exists>p. rows db' = filter p (rows db) \<and> next_row db' = next_row db \<and> marks db' = marks db \<and>
    (\<forall>r\<in>set (rows db). needed now db r \<longrightarrow> p r) \<and> (res = Inr () \<longrightarrow> p = needed now db)"
proof -
  define ids where "ids = map (\<lambda>(_, n). n_id n)
      (filter (\<lambda>(i, n). i < length (rows db) - NOTICE_CAP \<or> NOTICE_MAX_AGE_MS \<le> now - n_at n \<or> heard_by_all (marks db) n)
        (List.enumerate 0 (map (stored_of_row js) (rows db))))"
  have ids: "row_id r \<in> set ids \<longleftrightarrow> \<not> needed now db r" if "r \<in> set (rows db)" for r
    unfolding ids_def by (rule finished_ids [OF assms(1) that])
  have prune: "prune runs js now db =
      (if \<not> runs ReadRowsToPrune then (Inl ReadingFailed, db)
       else if rows db = [] then (Inr (), db)
       else if \<not> runs ReadMarks then (Inl ReadingSessionsFailed, db)
       else delete_code_notices runs ids db)"
    by (simp add: prune_def code_notices_rows [OF assms(1)] code_session_seen_marks_def Let_def ids_def)
  consider (none) "db' = db" "res \<noteq> Inr () \<or> rows db = []"
    | (del) "delete_code_notices runs ids db = (res, db')"
    using assms(2) unfolding prune by (auto split: if_splits)
  then show ?thesis
  proof cases
    case none
    show ?thesis
    proof (cases "res = Inr ()")
      case True
      with none show ?thesis by (intro exI [of _ "needed now db"]) simp
    next
      case False
      with none show ?thesis by (intro exI [of _ "\<lambda>_. True"]) simp
    qed
  next
    case del
    then consider (empty) "ids = []" "db' = db" "res = Inr ()" | (prep) "db' = db" "res = Inl DroppingFailed"
      | (rows) "delete_rows runs ids db = (res, db')"
      by (cases "ids = []"; cases "runs PrepareDelete") (simp_all add: delete_code_notices_def)
    then show ?thesis
    proof cases
      case empty
      then have "filter (needed now db) (rows db) = rows db" using ids by (auto intro!: filter_True)
      with empty show ?thesis by (intro exI [of _ "needed now db"]) simp
    next
      case prep
      then show ?thesis by (intro exI [of _ "\<lambda>_. True"]) simp
    next
      case rows
      from delete_rows_spec [OF this] obtain D where
        D: "D \<subseteq> set ids" "rows db' = filter (\<lambda>r. row_id r \<notin> D) (rows db)" "next_row db' = next_row db"
          "marks db' = marks db" "res = Inr () \<longrightarrow> D = set ids" by blast
      show ?thesis
      proof (cases "res = Inr ()")
        case True
        with D(5) have "D = set ids" by simp
        then have "rows db' = filter (needed now db) (rows db)"
          unfolding D(2) using ids by (intro filter_cong) auto
        with D(3,4) show ?thesis by blast
      next
        case False
        then show ?thesis using D ids by (intro exI [of _ "\<lambda>r. row_id r \<notin> D"]) auto
      qed
    qed
  qed
qed

section \<open>What a step does to the table\<close>

lemma fold_max_ge: "(x::int) \<le> fold max xs x"
proof (induction xs arbitrary: x)
  case (Cons y xs)
  show ?case using Cons.IH [of "max y x"] by simp
qed simp

lemma greatest_ge: "greatest xs = Some t \<Longrightarrow> x \<in> set xs \<Longrightarrow> x \<le> t"
proof (cases xs)
  case (Cons y ys)
  have in_fold: "x \<in> set ys \<Longrightarrow> x \<le> fold max ys z" for z
  proof (induction ys arbitrary: z)
    case (Cons w ys)
    show ?case
    proof (cases "x = w")
      case True
      show ?thesis using fold_max_ge [of "max w z" ys] True by simp
    next
      case False
      then show ?thesis using Cons.IH [of "max w z"] Cons.prems by simp
    qed
  qed simp
  assume "greatest xs = Some t" "x \<in> set xs"
  with Cons show ?thesis using in_fold [of y] fold_max_ge [of y ys] by auto
qed simp

lemma greatest_None [simp]: "greatest xs = None \<longleftrightarrow> xs = []"
  by (cases xs) auto

text \<open>What any run of operations keeps: rows are only added with new ids, at times past the clock.\<close>

definition carries_on :: "folders \<times> notices_db \<Rightarrow> folders \<times> notices_db \<Rightarrow> bool" where
  "carries_on s s' \<longleftrightarrow> table_ok (snd s') \<and> next_row (snd s) \<le> next_row (snd s') \<and> clock (fst s) \<le> clock (fst s') \<and>
    (\<forall>r\<in>set (rows (snd s')). if row_id r < next_row (snd s) then r \<in> set (rows (snd s)) else clock (fst s) < row_at r)"

lemma carries_on_trans:
  assumes "carries_on s1 s2" and "carries_on s2 s3" shows "carries_on s1 s3"
proof -
  have "if row_id r < next_row (snd s1) then r \<in> set (rows (snd s1)) else clock (fst s1) < row_at r"
    if "r \<in> set (rows (snd s3))" for r
  proof (cases "row_id r < next_row (snd s2)")
    case True
    with assms(2) that have "r \<in> set (rows (snd s2))" by (auto simp: carries_on_def)
    with assms(1) show ?thesis by (auto simp: carries_on_def)
  next
    case False
    with assms(2) that have "clock (fst s2) < row_at r" by (auto simp: carries_on_def)
    with assms(1) False show ?thesis by (auto simp: carries_on_def)
  qed
  with assms show ?thesis by (auto simp: carries_on_def)
qed

lemma carries_on_filter:
  assumes "table_ok db" and "rows db' = filter p (rows db)" and "next_row db' = next_row db" and "clock f \<le> clock f'"
  shows "carries_on (f, db) (f', db')"
  using assms table_ok_filter [OF assms(1-3)] by (auto simp: carries_on_def table_ok_def)

text \<open>The time a record takes is past the clock and past every stored notice.\<close>

definition record_time :: "int \<Rightarrow> folders \<Rightarrow> notices_db \<Rightarrow> int" where
  "record_time now f db =
     fst (tick (case greatest (map (\<lambda>r. saturating_succ (row_at r)) (rows db)) of None \<Rightarrow> now | Some e \<Rightarrow> max now e) f)"

lemma record_time_past:
  assumes "table_ok db"
  shows "clock f < record_time now f db" and "\<forall>r\<in>set (rows db). row_at r < record_time now f db"
proof -
  show "clock f < record_time now f db" by (simp add: record_time_def tick_def Let_def)
  show "\<forall>r\<in>set (rows db). row_at r < record_time now f db"
  proof
    fix r assume r: "r \<in> set (rows db)"
    then obtain e where e: "greatest (map (\<lambda>r. saturating_succ (row_at r)) (rows db)) = Some e"
      by (cases "greatest (map (\<lambda>r. saturating_succ (row_at r)) (rows db))") auto
    with r have "saturating_succ (row_at r) \<le> e" by (intro greatest_ge) auto
    moreover have "row_at r < i64_max" using assms r by (auto simp: table_ok_def)
    ultimately have "row_at r < e" by (simp add: saturating_succ_def)
    with e show "row_at r < record_time now f db" by (simp add: record_time_def tick_def Let_def)
  qed
qed

definition inserted :: "file_json \<Rightarrow> rstr \<Rightarrow> rstr \<Rightarrow> rstr \<Rightarrow> rstr list \<Rightarrow> int \<Rightarrow> notices_db \<Rightarrow> notices_db" where
  "inserted js folder session title files at db = snd (insert_code_notice (\<lambda>_. True) js folder session title files at db)"

lemma inserted_select:
  "rows (inserted js folder session title files at db) = rows db @ [\<lparr>row_id = next_row db, row_folder = folder,
     row_session = session, row_title = title, row_files = to_json js files, row_at = at\<rparr>]"
  "next_row (inserted js folder session title files at db) = next_row db + 1"
  "marks (inserted js folder session title files at db) = marks db"
  by (simp_all add: inserted_def insert_code_notice_def)

lemma case_unit_any: "case_unit x u = x"
  by (rule unit.exhaust [of u]) (simp only: unit.case)

lemma record_notice_cases:
  assumes "table_ok db" and "record_notice runs js folder session title files now (f, db) = (res, f', db')" and "files \<noteq> []"
  obtains (unread) "res = Inl ReadingFailed" "f' = f" "db' = db"
  | (unsaved) "res = Inl SavingFailed" "f' = f\<lparr>clock := record_time now f db\<rparr>" "db' = db"
  | (saved) "f' = f\<lparr>clock := record_time now f db\<rparr>"
      "prune runs js now (inserted js folder session title files (record_time now f db) db) = (res, db')"
proof -
  have rec: "record_notice runs js folder session title files now (f, db) =
      (if \<not> runs ReadRows then (Inl ReadingFailed, f, db)
       else if \<not> runs InsertRow then (Inl SavingFailed, f\<lparr>clock := record_time now f db\<rparr>, db)
       else (case prune runs js now (inserted js folder session title files (record_time now f db) db) of
               (res, d) \<Rightarrow> (res, f\<lparr>clock := record_time now f db\<rparr>, d)))"
    using assms(3) by (simp add: case_unit_any record_notice_def code_notices_rows [OF assms(1)] comp_def tick_def Let_def
      record_time_def insert_code_notice_def inserted_def)
  show ?thesis
  proof (cases "runs ReadRows \<and> runs InsertRow")
    case True
    obtain r d where p: "prune runs js now (inserted js folder session title files (record_time now f db) db) = (r, d)"
      by (cases "prune runs js now (inserted js folder session title files (record_time now f db) db)")
    show ?thesis by (rule saved) (use True assms(2) p in \<open>simp_all add: rec\<close>)
  next
    case False
    with assms(2) show ?thesis
      by (cases "runs ReadRows") (auto simp: rec intro: unread unsaved)
  qed
qed

lemma table_ok_inserted:
  assumes "table_ok db" and "record_time now f db < i64_max"
  shows "table_ok (inserted js folder session title files (record_time now f db) db)"
  using assms record_time_past(2) [OF assms(1), of now f]
  unfolding table_ok_def inserted_select by (auto simp: sorted_wrt_append)

lemma record_carries_on:
  assumes "table_ok db" and "record_notice runs js folder session title files now (f, db) = (res, f', db')"
    and "clock f' < i64_max"
  shows "carries_on (f, db) (f', db')"
proof (cases "files = []")
  case True
  with assms show ?thesis by (auto simp: record_notice_def carries_on_def table_ok_def)
next
  case False
  let ?db = "inserted js folder session title files (record_time now f db) db"
  note past = record_time_past [OF assms(1), where f = f and now = now]
  show ?thesis
  proof (rule record_notice_cases [OF assms(1,2) False])
    assume "f' = f" "db' = db"
    then show ?thesis using assms(1) by (auto simp: carries_on_def table_ok_def)
  next
    assume "f' = f\<lparr>clock := record_time now f db\<rparr>" "db' = db"
    then show ?thesis using assms(1) past(1) by (auto simp: carries_on_def table_ok_def)
  next
    assume f': "f' = f\<lparr>clock := record_time now f db\<rparr>" and p: "prune runs js now ?db = (res, db')"
    have ok: "table_ok ?db" using assms(3) f' by (intro table_ok_inserted [OF assms(1)]) simp
    from prune_spec [OF ok p] obtain q where q: "rows db' = filter q (rows ?db)" "next_row db' = next_row ?db" by blast
    have "carries_on (f', ?db) (f', db')" by (rule carries_on_filter [OF ok q order_refl])
    moreover have "carries_on (f, db) (f', ?db)"
      using ok assms(1) past(1) f' unfolding carries_on_def by (auto simp: inserted_select table_ok_def)
    ultimately show ?thesis by (rule carries_on_trans [rotated])
  qed
qed

section \<open>Taking\<close>

definition take_clock :: "int \<Rightarrow> folders \<Rightarrow> notices_db \<Rightarrow> int" where
  "take_clock now f db = max (max now (clock f)) (case greatest (map row_at (rows db)) of Some t \<Rightarrow> t | None \<Rightarrow> i64_min)"

lemma take_clock_ge:
  "clock f \<le> take_clock now f db" "now \<le> take_clock now f db" "r \<in> set (rows db) \<Longrightarrow> row_at r \<le> take_clock now f db"
proof -
  show "clock f \<le> take_clock now f db" "now \<le> take_clock now f db" by (auto simp: take_clock_def)
  assume r: "r \<in> set (rows db)"
  then obtain t where t: "greatest (map row_at (rows db)) = Some t"
    by (cases "greatest (map row_at (rows db))") auto
  with r have "row_at r \<le> t" by (intro greatest_ge) auto
  with t show "row_at r \<le> take_clock now f db" by (simp add: take_clock_def)
qed

text \<open>What a session standing in a folder is told of the rows after a time.\<close>

definition heard :: "file_json \<Rightarrow> rstr \<Rightarrow> rstr \<Rightarrow> (notice_row \<Rightarrow> bool) \<Rightarrow> notices_db \<Rightarrow> file_notice list" where
  "heard js folder session p db = map (\<lambda>r. file_notice (stored_of_row js r))
     (filter (\<lambda>r. p r \<and> row_session r \<noteq> session \<and> overlaps (row_folder r) folder) (rows db))"

lemma heard_cong:
  "(\<And>r. r \<in> set (rows db) \<Longrightarrow> p r = q r) \<Longrightarrow> heard js folder session p db = heard js folder session q db"
  unfolding heard_def by (rule arg_cong [where f = "map (\<lambda>r. file_notice (stored_of_row js r))"], rule filter_cong) auto

lemma take_notices_eq:
  assumes "table_ok db"
  shows "take_notices runs js folder session since now (f, db) =
    (if \<not> runs ReadRows then (Inl ReadingFailed, f, db)
     else (case prune runs js now db of
        (Inl e, d) \<Rightarrow> (Inl e, f\<lparr>clock := take_clock now f db\<rparr>, d)
      | (Inr (), d) \<Rightarrow> (Inr (heard js folder session (\<lambda>r. since < row_at r) db, take_clock now f db),
          f\<lparr>clock := take_clock now f db\<rparr>, d)))"
  by (cases "prune runs js now db"; cases "fst (prune runs js now db)")
    (simp_all add: take_notices_def code_notices_rows [OF assms] comp_def take_clock_def heard_def filter_map Let_def case_unit_any)

lemma take_carries_on:
  assumes "table_ok db" and "take_notices runs js folder session since now (f, db) = (res, f', db')"
  shows "carries_on (f, db) (f', db')"
proof -
  obtain r d where p: "prune runs js now db = (r, d)" by (cases "prune runs js now db")
  from prune_spec [OF assms(1) p] obtain q where q: "rows d = filter q (rows db)" "next_row d = next_row db" by blast
  have "(f', db') = (f, db) \<or> (f', db') = (f\<lparr>clock := take_clock now f db\<rparr>, d)"
    using assms(2) unfolding take_notices_eq [OF assms(1)] p
    by (cases "runs ReadRows"; cases r) (auto simp: case_unit_any)
  then show ?thesis
  proof
    assume "(f', db') = (f, db)"
    then show ?thesis using carries_on_filter [OF assms(1), of db "\<lambda>_. True" f f] by simp
  next
    assume "(f', db') = (f\<lparr>clock := take_clock now f db\<rparr>, d)"
    then show ?thesis using carries_on_filter [OF assms(1) q, of f f'] take_clock_ge(1) by simp
  qed
qed

lemma take_notices_told:
  assumes "table_ok db" and "take_notices runs js folder session since now (f, db) = (Inr (ns, t), f', db')"
  shows "ns = heard js folder session (\<lambda>r. since < row_at r) db \<and> t = take_clock now f db \<and> clock f' = t"
  using assms(2) unfolding take_notices_eq [OF assms(1)]
  by (cases "runs ReadRows"; cases "prune runs js now db"; cases "fst (prune runs js now db)") (auto simp: case_unit_any)

section \<open>What other sessions may do in between\<close>

text \<open>Anything but a restart, as long as the clock stays short of the last \<open>i64\<close>.\<close>

inductive notice_step :: "file_json \<Rightarrow> folders \<times> notices_db \<Rightarrow> folders \<times> notices_db \<Rightarrow> bool" for js where
  recorded: "record_notice runs js folder session title files now s = (res, s') \<Longrightarrow> clock (fst s') < i64_max
    \<Longrightarrow> notice_step js s s'"
| taken: "take_notices runs js folder session since now s = (res, s') \<Longrightarrow> notice_step js s s'"
| sessions: "notice_step js (f, db) (f, db\<lparr>marks := ms\<rparr>)"
| leased: "take_lease folder session title window alive f = (res, f') \<Longrightarrow> notice_step js (f, db) (f', db)"
| released: "notice_step js (f, db) (release_lease session f, db)"
| closed: "notice_step js (f, db) (release_window label f, db)"

lemma take_lease_clock: "take_lease folder session title window alive f = (res, f') \<Longrightarrow> clock f' = clock f"
  by (auto simp: take_lease_def Let_def split: option.splits)

lemma carries_on_same:
  "table_ok db \<Longrightarrow> clock f' = clock f \<Longrightarrow> rows db' = rows db \<Longrightarrow> next_row db' = next_row db \<Longrightarrow> carries_on (f, db) (f', db')"
  by (auto simp: carries_on_def table_ok_def)

lemma notice_step_carries_on:
  assumes "notice_step js s s'" and "table_ok (snd s)" shows "carries_on s s'"
  using assms
proof cases
  case (recorded runs folder session title files now res)
  then show ?thesis using record_carries_on [of "snd s" runs js folder session title files now "fst s" res "fst s'" "snd s'"] assms(2) by simp
next
  case (taken runs folder session since now res)
  then show ?thesis using take_carries_on [of "snd s" runs js folder session since now "fst s" res "fst s'" "snd s'"] assms(2) by simp
qed (use assms(2) take_lease_clock in \<open>auto intro!: carries_on_same simp: release_lease_def release_window_def\<close>)

lemma notice_steps_carry_on:
  assumes "(notice_step js)\<^sup>*\<^sup>* s s'" and "table_ok (snd s)" shows "carries_on s s'"
  using assms
proof (induction rule: rtranclp_induct)
  case base
  then show ?case by (cases s) (auto intro: carries_on_same)
next
  case (step s' s'')
  then have "carries_on s s'" by simp
  moreover from this have "carries_on s' s''"
    by (intro notice_step_carries_on [OF step.hyps(2)]) (simp add: carries_on_def)
  ultimately show ?case by (rule carries_on_trans)
qed

lemma heard_between:
  assumes "table_ok db0" and "take_notices runs js folder session since now (f0, db0) = (Inr (ns, t), f1, db1)"
    and "(notice_step js)\<^sup>*\<^sup>* (f1, db1) (f2, db2)"
    and "take_notices runs' js folder' session t now' (f2, db2) = (Inr (ns', t'), f3, db3)"
  shows "ns = heard js folder session (\<lambda>r. since < row_at r) db0 \<and> (\<forall>r\<in>set (rows db0). row_at r \<le> t) \<and>
    ns' = heard js folder' session (\<lambda>r. next_row db0 \<le> row_id r) db2 \<and> t \<le> t'"
proof -
  note told = take_notices_told [OF assms(1,2)]
  have c1: "carries_on (f0, db0) (f1, db1)" by (rule take_carries_on [OF assms(1,2)])
  have c2: "carries_on (f1, db1) (f2, db2)"
    by (rule notice_steps_carry_on [OF assms(3)]) (use c1 in \<open>simp add: carries_on_def\<close>)
  then have "table_ok db2" by (simp add: carries_on_def)
  note told' = take_notices_told [OF this assms(4)]
  have old: "\<forall>r\<in>set (rows db0). row_at r \<le> t" using told take_clock_ge(3) by blast
  have next1: "next_row db1 = next_row db0"
  proof -
    show ?thesis
    proof (cases "prune runs js now db0")
      case (Pair r d)
      from prune_spec [OF assms(1) this] have "next_row d = next_row db0" by blast
      then show ?thesis using assms(2) unfolding take_notices_eq [OF assms(1)] Pair
        by (cases "runs ReadRows"; cases r) (auto simp: case_unit_any)
    qed
  qed
  have "t < row_at r \<longleftrightarrow> next_row db0 \<le> row_id r" if "r \<in> set (rows db2)" for r
  proof (cases "row_id r < next_row db0")
    case True
    with carries_on_trans [OF c1 c2] that have "r \<in> set (rows db0)" by (auto simp: carries_on_def)
    with old True show ?thesis by force
  next
    case False
    with c2 that next1 have "clock f1 < row_at r" by (auto simp: carries_on_def)
    with told False show ?thesis by auto
  qed
  then have "ns' = heard js folder' session (\<lambda>r. next_row db0 \<le> row_id r) db2"
    using told' heard_cong [of db2 "\<lambda>r. t < row_at r"] by simp
  moreover have "t \<le> t'"
    using told told' take_clock_ge(1) [of f2 now' db2] c2 by (simp add: carries_on_def)
  ultimately show ?thesis using told old by blast
qed

section \<open>The properties\<close>

lemma needed_within_cap:
  assumes "table_ok db" shows "length (filter (needed now db) (rows db)) \<le> NOTICE_CAP"
proof -
  let ?rs = "rows db" and ?k = "length (rows db) - NOTICE_CAP"
  have "filter (needed now db) (take ?k ?rs) = []"
  proof -
    have "\<not> needed now db r" if "r \<in> set (take ?k ?rs)" for r
    proof -
      from that obtain j where j: "j < ?k" "r = ?rs ! j" by (auto simp: in_set_conv_nth)
      then have "length (newer db r) = length ?rs - Suc j" using length_newer [OF assms, of j] by simp
      with j(1) have "NOTICE_CAP \<le> length (newer db r)" by linarith
      then show ?thesis by (simp add: needed_def)
    qed
    then show ?thesis by (simp add: filter_empty_conv)
  qed
  moreover have "filter (needed now db) ?rs = filter (needed now db) (take ?k ?rs) @ filter (needed now db) (drop ?k ?rs)"
    unfolding filter_append [symmetric] append_take_drop_id ..
  ultimately have "length (filter (needed now db) ?rs) \<le> length (drop ?k ?rs)"
    using length_filter_le [of "needed now db" "drop ?k ?rs"] by simp
  then show ?thesis by simp
qed

text \<open>C27.
  Two looks of one session at the notices, with any operations of any sessions in between (records,
  looks, leases, saved turns), tell it every notice once: the first look tells the rows after its
  \<open>since\<close>, no row of the first table is later than the time it returns, and the second look, from
  that time, tells exactly the rows inserted since that are still in the table.\<close>
theorem notices_heard_once:
  assumes "table_ok db0" and "take_notices runs js folder session since now (f0, db0) = (Inr (ns, t), f1, db1)"
    and "(notice_step js)\<^sup>*\<^sup>* (f1, db1) (f2, db2)"
    and "take_notices runs' js folder' session t now' (f2, db2) = (Inr (ns', t'), f3, db3)"
  shows "ns = heard js folder session (\<lambda>r. since < row_at r) db0 \<and> (\<forall>r\<in>set (rows db0). row_at r \<le> t) \<and>
    ns' = heard js folder' session (\<lambda>r. next_row db0 \<le> row_id r) db2 \<and> t \<le> t'"
  by (rule heard_between [OF assms])

definition demo_json :: file_json where
  "demo_json = \<lparr>to_json = concat, of_json = (\<lambda>s. Some [s])\<rparr>"

definition demo_db :: notices_db where
  "demo_db = \<lparr>rows = [\<lparr>row_id = 1, row_folder = lit ''/p'', row_session = lit ''a'', row_title = [], row_files = lit ''x'', row_at = 5\<rparr>],
     next_row = 2, marks = [\<lparr>m_id = lit ''b'', m_root = lit ''/p'', m_wsl_distro = None, m_seen = 3\<rparr>]\<rparr>"

lemma demo_table_ok: "table_ok demo_db"
  by (simp add: table_ok_def demo_db_def i64_max_def)

lemma demo_take:
  "take_notices (\<lambda>_. True) demo_json (lit ''/p'') (lit ''b'') 3 4 (folders_default, demo_db) =
    (Inr ([\<lparr>f_session_id = lit ''a'', f_title = [], f_files = [lit ''x''], f_at = 5\<rparr>], 5), folders_default\<lparr>clock := 5\<rparr>, demo_db)"
  by code_simp

lemma demo_record:
  "record_notice (\<lambda>_. True) demo_json (lit ''/p'') (lit ''a'') [] [lit ''y''] 4 (folders_default\<lparr>clock := 5\<rparr>, demo_db) =
    (Inr (), folders_default\<lparr>clock := 6\<rparr>, demo_db\<lparr>next_row := 3, rows := rows demo_db @
      [\<lparr>row_id = 2, row_folder = lit ''/p'', row_session = lit ''a'', row_title = [], row_files = lit ''y'', row_at = 6\<rparr>]\<rparr>)"
  by code_simp

lemma demo_take_again:
  "take_notices (\<lambda>_. True) demo_json (lit ''/p'') (lit ''b'') 5 4 (folders_default\<lparr>clock := 6\<rparr>, demo_db\<lparr>next_row := 3, rows := rows demo_db @
      [\<lparr>row_id = 2, row_folder = lit ''/p'', row_session = lit ''a'', row_title = [], row_files = lit ''y'', row_at = 6\<rparr>]\<rparr>) =
    (Inr ([\<lparr>f_session_id = lit ''a'', f_title = [], f_files = [lit ''y''], f_at = 6\<rparr>], 6), folders_default\<lparr>clock := 6\<rparr>,
     demo_db\<lparr>next_row := 3, rows := rows demo_db @
      [\<lparr>row_id = 2, row_folder = lit ''/p'', row_session = lit ''a'', row_title = [], row_files = lit ''y'', row_at = 6\<rparr>]\<rparr>)"
  by code_simp

lemma demo_step:
  "(notice_step demo_json)\<^sup>*\<^sup>* (folders_default\<lparr>clock := 5\<rparr>, demo_db) (folders_default\<lparr>clock := 6\<rparr>, demo_db\<lparr>next_row := 3, rows := rows demo_db @
      [\<lparr>row_id = 2, row_folder = lit ''/p'', row_session = lit ''a'', row_title = [], row_files = lit ''y'', row_at = 6\<rparr>]\<rparr>)"
  by (rule r_into_rtranclp, rule recorded [OF demo_record]) (simp add: i64_max_def)

theorem notices_heard_once_witness:
  "[\<lparr>f_session_id = lit ''a'', f_title = [], f_files = [lit ''y''], f_at = 6\<rparr>] =
     heard demo_json (lit ''/p'') (lit ''b'') (\<lambda>r. 2 \<le> row_id r) (demo_db\<lparr>next_row := 3, rows := rows demo_db @
      [\<lparr>row_id = 2, row_folder = lit ''/p'', row_session = lit ''a'', row_title = [], row_files = lit ''y'', row_at = 6\<rparr>]\<rparr>)"
  using notices_heard_once [OF demo_table_ok demo_take demo_step demo_take_again] by (simp add: demo_db_def)

text \<open>A record that succeeds adds one notice, later than the clock and than every notice in the table,
  and keeps of the table, with the new notice, exactly what is needed: under a day old, with fewer
  than \<open>NOTICE_CAP\<close> newer, and unheard by some saved session it is news to.  The table never holds
  more than \<open>NOTICE_CAP\<close> notices after it, and stays well-formed.\<close>
theorem notice_kept_until_heard:
  assumes "table_ok db" and "files \<noteq> []" and "clock f' < i64_max"
    and "record_notice runs js folder session title files now (f, db) = (Inr (), f', db')"
  shows "\<exists>r d. row_folder r = folder \<and> row_session r = session \<and> row_title r = title \<and> row_files r = to_json js files \<and>
    row_at r = clock f' \<and> clock f < row_at r \<and> now \<le> row_at r \<and> (\<forall>s\<in>set (rows db). row_at s < row_at r) \<and>
    rows d = rows db @ [r] \<and> marks d = marks db \<and> rows db' = filter (needed now d) (rows d) \<and>
    length (rows db') \<le> NOTICE_CAP \<and> table_ok db'"
proof (rule record_notice_cases [OF assms(1,4,2)])
  let ?d = "inserted js folder session title files (record_time now f db) db"
  assume f': "f' = f\<lparr>clock := record_time now f db\<rparr>" and p: "prune runs js now ?d = (Inr (), db')"
  have ok: "table_ok ?d" using assms(3) f' by (intro table_ok_inserted [OF assms(1)]) simp
  from prune_spec [OF ok p] have db': "rows db' = filter (needed now ?d) (rows ?d)" "next_row db' = next_row ?d" by auto
  have now: "now \<le> record_time now f db"
    by (auto simp: record_time_def tick_def Let_def split: option.splits)
  show ?thesis
    by (rule exI [of _ "last (rows ?d)"], rule exI [of _ ?d])
      (use f' record_time_past [OF assms(1), where f = f and now = now] now db' needed_within_cap [OF ok, of now] table_ok_filter [OF ok db']
        in \<open>simp add: inserted_select\<close>)
qed simp_all

theorem notice_kept_until_heard_witness:
  "\<exists>r d. row_at r = 6 \<and> rows d = rows demo_db @ [r] \<and> rows (demo_db\<lparr>next_row := 3, rows := rows demo_db @
      [\<lparr>row_id = 2, row_folder = lit ''/p'', row_session = lit ''a'', row_title = [], row_files = lit ''y'', row_at = 6\<rparr>]\<rparr>)
      = filter (needed 4 d) (rows d)"
  using notice_kept_until_heard [OF demo_table_ok _ _ demo_record] by (auto simp: i64_max_def)

text \<open>The clock starts again at zero with the app, and the floor it is given comes from the stored
  notices alone.  When the table is empty and the wall clock was set back past the time a saved
  session last looked, the record of a change that only that session has news in is pruned in the same
  call: no session is ever told.\<close>
theorem restart_set_back_loses_notice:
  assumes "files \<noteq> []" and "0 < now" and "\<And>st. runs st" and "rows db = []"
    and "\<And>m. m \<in> set (marks db) \<Longrightarrow> m_id m \<noteq> session \<Longrightarrow> overlaps (mark_root m) folder \<Longrightarrow> now \<le> m_seen m"
  shows "\<exists>db'. record_notice runs js folder session title files now (folders_default, db) =
      (Inr (), folders_default\<lparr>clock := now\<rparr>, db') \<and> rows db' = []"
proof -
  let ?d = "inserted js folder session title files now db"
  have heard: "heard_by_all (marks db) (stored_of_row js \<lparr>row_id = next_row db, row_folder = folder,
     row_session = session, row_title = title, row_files = to_json js files, row_at = now\<rparr>)"
    using assms(5) by (auto simp: heard_by_all_iff unheard_def not_less)
  obtain res db' where r: "record_notice runs js folder session title files now (folders_default, db) = (res, folders_default\<lparr>clock := now\<rparr>, db')"
      and p: "prune runs js now ?d = (res, db')"
    using assms by (cases "prune runs js now ?d")
      (simp add: record_notice_def code_notices_def folders_default_def tick_def insert_code_notice_def inserted_def case_unit_any Let_def)
  from p heard assms(3,4) have "res = Inr () \<and> rows db' = []"
    by (auto simp: prune_def code_notices_def inserted_select code_session_seen_marks_def delete_code_notices_def Let_def)
  with r show ?thesis by simp
qed

theorem restart_set_back_loses_notice_witness:
  "\<exists>db'. record_notice (\<lambda>_. True) demo_json (lit ''/p'') (lit ''a'') [] [lit ''y''] 2 (folders_default, demo_db\<lparr>rows := []\<rparr>) =
      (Inr (), folders_default\<lparr>clock := 2\<rparr>, db') \<and> rows db' = []"
  by (rule restart_set_back_loses_notice) (simp_all add: demo_db_def)

end
