(* ===== verification/Text_Util.thy ===== *)
theory Text_Util
  imports Rust_Bytes
begin

text \<open>
  \<open>text_util.rs\<close>: cutting text at a byte count, and keeping secrets out of what leaves a process.
  Strings are lists of characters; where the code slices at a byte offset, the slice is an option,
  \<open>None\<close> for the panic.  \<open>reqwest::Url::parse\<close> is an argument.
\<close>

section \<open>Cutting\<close>

text \<open>Byte offset \<open>i\<close> of \<open>s\<close> lies between two characters, and the slice up to it.\<close>

definition is_char_boundary :: "rstr \<Rightarrow> nat \<Rightarrow> bool" where
  "is_char_boundary s i \<longleftrightarrow> list_ex (\<lambda>k. utf8_len (take k s) = i) [0..<Suc (length s)]"

definition slice_to :: "rstr \<Rightarrow> nat \<Rightarrow> rstr option" where
  "slice_to s i = map_option (\<lambda>k. take k s) (List.find (\<lambda>k. utf8_len (take k s) = i) [0..<Suc (length s)])"

fun back_to_boundary :: "rstr \<Rightarrow> nat \<Rightarrow> nat" where
  "back_to_boundary s e = (if is_char_boundary s e \<or> e = 0 then e else back_to_boundary s (e - 1))"

declare back_to_boundary.simps [simp del]

definition truncate_at_char_boundary :: "rstr \<Rightarrow> nat \<Rightarrow> rstr option" where
  "truncate_at_char_boundary s max_bytes =
    (if utf8_len s \<le> max_bytes then Some s else slice_to s (back_to_boundary s max_bytes))"

definition MAX_EXTRACTED_TEXT_CHARS :: nat where "MAX_EXTRACTED_TEXT_CHARS = 500000"

text \<open>The outer option is the panic of the slice, the inner one the code's.\<close>

definition truncate_with_note :: "rstr \<Rightarrow> nat \<Rightarrow> rstr option option" where
  "truncate_with_note s max_bytes =
    (if utf8_len s \<le> max_bytes then Some None
     else map_option (\<lambda>t. Some (t @ [NL, NL] @ lit ''[... truncated: '' @ decimal (utf8_len s) @
        lit '' characters total, showing first '' @ decimal max_bytes @ lit '']''))
       (truncate_at_char_boundary s max_bytes))"

definition truncate_chars :: "rstr \<Rightarrow> nat \<Rightarrow> rstr \<Rightarrow> rstr" where
  "truncate_chars s max_chars marker = (if max_chars < length s then take max_chars s @ marker else s)"

section \<open>Redacting\<close>

definition redacted :: "rstr \<Rightarrow> rstr" where
  "redacted secret = (if secret = [] then lit ''<empty>'' else lit ''<redacted>'')"

record parsed_url =
  scheme :: rstr
  host_str :: "rstr option"

definition url_for_log :: "(rstr \<Rightarrow> parsed_url option) \<Rightarrow> rstr \<Rightarrow> rstr" where
  "url_for_log parse url = (case parse url of
     Some u \<Rightarrow> (case host_str u of Some host \<Rightarrow> scheme u @ lit ''://'' @ host | None \<Rightarrow> scheme u @ lit '':'')
   | None \<Rightarrow> lit ''<unparsable url>'')"

definition REDACTED :: rstr where "REDACTED = lit ''[redacted]''"

definition SECRET_KEY_WORDS :: "rstr list" where
  "SECRET_KEY_WORDS = map lit [''token'', ''secret'', ''password'', ''passwd'', ''apikey'', ''api_key'',
     ''api-key'', ''authorization'', ''auth'', ''credential'', ''cookie'']"

definition TOKEN_PREFIXES :: "rstr list" where
  "TOKEN_PREFIXES = map lit [''ghp_'', ''gho_'', ''ghu_'', ''ghs_'', ''ghr_'', ''github_pat_'', ''sk-'',
     ''sk_live_'', ''xoxb-'', ''xoxp-'', ''xoxa-'', ''xoxs-'', ''glpat-'', ''AKIA'', ''hf_'', ''ya29.'', ''hsx_'']"

abbreviation QUOTE :: rchar where "QUOTE \<equiv> 34"
abbreviation APOSTROPHE :: rchar where "APOSTROPHE \<equiv> 39"
abbreviation BACKQUOTE :: rchar where "BACKQUOTE \<equiv> 96"

definition scheme_mark :: rstr where "scheme_mark = lit ''://''"

definition ends_authority :: "rchar \<Rightarrow> bool" where
  "ends_authority c \<longleftrightarrow> is_whitespace c \<or> c = 47 \<or> c = QUOTE \<or> c = APOSTROPHE"

definition redact_rest :: "rstr \<Rightarrow> rstr \<times> rstr" where
  "redact_rest rest =
    (let auth = takeWhile (\<lambda>c. \<not> ends_authority c) rest in
     case rposition (\<lambda>c. c = 64) auth of
       Some at \<Rightarrow> if 58 \<in> set (take at rest) then (REDACTED, drop at rest) else ([], rest)
     | None \<Rightarrow> ([], rest))"

lemma redact_rest_le: "length (snd (redact_rest rest)) \<le> length rest"
  by (auto simp: redact_rest_def Let_def split: option.splits)

function redact_userinfo :: "rstr \<Rightarrow> rstr" where
  "redact_userinfo s = (case str_find scheme_mark s of
     None \<Rightarrow> s
   | Some i \<Rightarrow> take (i + 3) s @ fst (redact_rest (drop (i + 3) s)) @
       redact_userinfo (snd (redact_rest (drop (i + 3) s))))"
  by pat_completeness auto
termination
proof (relation "measure length")
  fix s i assume "str_find scheme_mark s = Some i"
  from str_find_SomeD [OF this] have s: "s = take i s @ scheme_mark @ drop (i + length scheme_mark) s" by simp
  have "3 \<le> length s" by (subst s) (simp add: scheme_mark_def lit_def)
  then show "(snd (redact_rest (drop (i + 3) s)), s) \<in> measure length"
    using redact_rest_le [of "drop (i + 3) s"] by auto
qed simp

declare redact_userinfo.simps [simp del]

definition names_a_secret :: "rstr \<Rightarrow> bool" where
  "names_a_secret key =
    (let key = to_ascii_lowercase (trim_matches (\<lambda>c. c \<in> {QUOTE, APOSTROPHE, BACKQUOTE}) key);
         tail = after_last (\<lambda>c. c \<in> {63, 38, 46, 47, QUOTE, APOSTROPHE}) key
     in list_ex (\<lambda>w. contains w tail) SECRET_KEY_WORDS)"

definition word_punctuation :: "rchar \<Rightarrow> bool" where
  "word_punctuation c \<longleftrightarrow> c \<in> set (QUOTE # APOSTROPHE # BACKQUOTE # lit '',;()[]{}<>'')"

definition bare_word :: "rstr \<Rightarrow> rstr" where
  "bare_word word = trim_matches word_punctuation word"

definition redact_word :: "rstr \<Rightarrow> bool \<Rightarrow> rstr \<times> bool" where
  "redact_word word is_value =
    (let bare = bare_word word in
     if eq_ignore_ascii_case bare (lit ''bearer'') \<or> eq_ignore_ascii_case bare (lit ''basic'') then (word, True)
     else if is_value \<and> bare \<noteq> [] then (replace_first bare REDACTED word, False)
     else if list_ex (\<lambda>p. prefix p bare) TOKEN_PREFIXES \<and> 16 \<le> utf8_len bare then (replace_first bare REDACTED word, False)
     else (case rposition (\<lambda>c. c = 61 \<or> c = 58) bare of
       Some i \<Rightarrow>
         (let key = take i bare; val = drop (i + 1) bare in
          if names_a_secret key then
            if val = [] then (word, True)
            else if \<not> prefix (lit ''//'') val then (replace_first val REDACTED word, False)
            else (word, False)
          else (word, False))
     | None \<Rightarrow> (word, False)))"

fun redact_pieces :: "rstr list \<Rightarrow> bool \<Rightarrow> rstr" where
  "redact_pieces [] redact_next = []"
| "redact_pieces (piece # ps) redact_next =
    (let word = trim_end_matches is_whitespace piece; space = drop (length word) piece in
     if word = [] then piece @ redact_pieces ps redact_next
     else (case redact_word word redact_next of (r, then_next) \<Rightarrow> r @ space @ redact_pieces ps then_next))"

definition redact_secrets :: "rstr \<Rightarrow> rstr list \<Rightarrow> rstr" where
  "redact_secrets s known =
    redact_pieces (split_inclusive is_whitespace
      (redact_userinfo (fold (\<lambda>k out. replace k REDACTED out) (filter (\<lambda>k. 6 \<le> length k) known) s))) False"

definition upstream_message :: "rstr \<Rightarrow> nat \<Rightarrow> rstr" where
  "upstream_message s max_chars =
    (let flat = join [32] (filter (\<lambda>w. w \<noteq> []) (split_char 32 (map (\<lambda>c. if is_whitespace c \<or> is_control c then 32 else c) s)))
     in truncate_chars (redact_secrets flat []) max_chars [0x2026])"

section \<open>Queries of URLs\<close>

definition ends_url :: "rchar \<Rightarrow> bool" where
  "ends_url c \<longleftrightarrow> c \<in> set (QUOTE # APOSTROPHE # BACKQUOTE # 92 # lit '')]>,'')"

definition url_without_query :: "rstr \<Rightarrow> rstr" where
  "url_without_query word = (case str_find scheme_mark word of
     None \<Rightarrow> word
   | Some start \<Rightarrow>
      (let stop = (case position ends_url (drop start word) of None \<Rightarrow> length word | Some i \<Rightarrow> start + i) in
       case position (\<lambda>c. c = 63 \<or> c = 35) (drop start (take stop word)) of
         Some q \<Rightarrow> take (start + q) word @ drop stop word
       | None \<Rightarrow> word))"

definition strip_url_queries :: "rstr \<Rightarrow> rstr" where
  "strip_url_queries s = concat (map (\<lambda>piece.
     let word = trim_end_matches is_whitespace piece
     in url_without_query word @ drop (length word) piece) (split_inclusive is_whitespace s))"

end
