(* ===== verification/Text_Util_Props.thy ===== *)
theory Text_Util_Props
  imports Text_Util
begin

text \<open>
  The cuts and redactions of \<open>text_util.rs\<close>: the longest prefix that fits, no credentials in any URL,
  what a redacted word looks like and when a secret survives, the query of a word's first URL.
\<close>

section \<open>Cutting\<close>

lemma utf8_len_take_less:
  assumes "k < length s" shows "utf8_len (take k s) < utf8_len (take (Suc k) s)"
proof -
  have "take (Suc k) s = take k s @ [s ! k]" using assms by (simp add: take_Suc_conv_app_nth)
  then show ?thesis by (simp add: utf8_len_def utf8_len_char_def)
qed

lemma utf8_len_take_mono: "j \<le> k \<Longrightarrow> utf8_len (take j s) \<le> utf8_len (take k s)"
proof -
  assume "j \<le> k"
  then have "take k s = take j s @ take (k - j) (drop j s)" by (metis add_diff_inverse_nat linorder_not_less take_add)
  then show ?thesis by simp
qed

lemma is_char_boundary_iff: "is_char_boundary s i \<longleftrightarrow> (\<exists>k\<le>length s. utf8_len (take k s) = i)"
  by (auto simp: is_char_boundary_def list_ex_iff less_Suc_eq_le simp del: upt_Suc)

lemma slice_to_boundary:
  assumes "k \<le> length s" and "utf8_len (take k s) = i" shows "slice_to s i = Some (take k s)"
proof -
  have uniq: "j = k" if "j \<le> length s" "utf8_len (take j s) = i" for j
  proof (rule ccontr)
    assume "j \<noteq> k"
    then consider "j < k" | "k < j" by linarith
    then show False
    proof cases
      case 1
      then show False using utf8_len_take_less [of j s] utf8_len_take_mono [of "Suc j" k s] assms that by simp
    next
      case 2
      then show False using utf8_len_take_less [of k s] utf8_len_take_mono [of "Suc k" j s] assms that by simp
    qed
  qed
  show ?thesis
  proof (cases "List.find (\<lambda>k. utf8_len (take k s) = i) [0..<Suc (length s)]")
    case None
    with assms show ?thesis by (auto simp: find_None_iff less_Suc_eq_le simp del: upt_Suc)
  next
    case (Some j)
    then have "j \<le> length s" "utf8_len (take j s) = i"
      by (auto simp: find_Some_iff less_Suc_eq_le simp del: upt_Suc)
    with uniq Some show ?thesis by (simp add: slice_to_def del: upt_Suc)
  qed
qed

lemma back_to_boundary:
  "\<exists>k\<le>length s. utf8_len (take k s) = back_to_boundary s e \<and> back_to_boundary s e \<le> e \<and>
     (\<forall>i. back_to_boundary s e < i \<longrightarrow> i \<le> e \<longrightarrow> \<not> is_char_boundary s i)"
proof (induction s e rule: back_to_boundary.induct)
  case (1 s e)
  show ?case
  proof (cases "is_char_boundary s e \<or> e = 0")
    case True
    moreover have "is_char_boundary s 0" unfolding is_char_boundary_iff by (rule exI [of _ 0]) (simp add: utf8_len_def)
    ultimately have "is_char_boundary s e" by auto
    then obtain k where "k \<le> length s" "utf8_len (take k s) = e" unfolding is_char_boundary_iff by blast
    with True show ?thesis by (subst (1 2 3) back_to_boundary.simps) auto
  next
    case False
    from 1 [OF this] obtain k where k: "k \<le> length s" "utf8_len (take k s) = back_to_boundary s (e - 1)"
      "back_to_boundary s (e - 1) \<le> e - 1"
      "\<forall>i. back_to_boundary s (e - 1) < i \<longrightarrow> i \<le> e - 1 \<longrightarrow> \<not> is_char_boundary s i" by blast
    have eq: "back_to_boundary s e = back_to_boundary s (e - 1)" using False by (subst back_to_boundary.simps) simp
    have "\<not> is_char_boundary s i" if "back_to_boundary s (e - 1) < i" "i \<le> e" for i
      using k(4) that False by (cases "i = e") auto
    with k show ?thesis unfolding eq by (intro exI [of _ k]) auto
  qed
qed

lemma truncation_maximal_aux:
  "\<exists>k\<le>length s. truncate_at_char_boundary s m = Some (take k s) \<and> utf8_len (take k s) \<le> m \<and>
     (k < length s \<longrightarrow> m < utf8_len (take (Suc k) s))"
proof (cases "utf8_len s \<le> m")
  case True
  then show ?thesis by (intro exI [of _ "length s"]) (simp add: truncate_at_char_boundary_def)
next
  case False
  from back_to_boundary [of s m] obtain k where k: "k \<le> length s" "utf8_len (take k s) = back_to_boundary s m"
    "back_to_boundary s m \<le> m" "\<forall>i. back_to_boundary s m < i \<longrightarrow> i \<le> m \<longrightarrow> \<not> is_char_boundary s i" by blast
  have "m < utf8_len (take (Suc k) s)" if "k < length s"
  proof (rule ccontr)
    assume "\<not> m < utf8_len (take (Suc k) s)"
    moreover have "is_char_boundary s (utf8_len (take (Suc k) s))" using that unfolding is_char_boundary_iff by (intro exI [of _ "Suc k"]) simp
    ultimately show False using k(2,4) utf8_len_take_less [OF that] by auto
  qed
  with k False show ?thesis
    by (intro exI [of _ k]) (simp add: truncate_at_char_boundary_def slice_to_boundary)
qed

section \<open>Searching\<close>

lemma str_find_least:
  "str_find pat s = Some i \<longleftrightarrow> prefix pat (drop i s) \<and> i \<le> length s \<and> (\<forall>j<i. \<not> prefix pat (drop j s))"
proof (induction s arbitrary: i)
  case Nil
  then show ?case by auto
next
  case (Cons c s)
  show ?case
  proof (cases "prefix pat (c # s)")
    case True
    then show ?thesis by (cases i) auto
  next
    case False
    show ?thesis
    proof (cases i)
      case 0
      with False show ?thesis by auto
    next
      case (Suc k)
      with False Cons.IH [of k] show ?thesis by (auto simp: less_Suc_eq_0_disj)
    qed
  qed
qed

lemma str_find_none: "pat \<noteq> [] \<Longrightarrow> str_find pat s = None \<longleftrightarrow> (\<forall>j. \<not> prefix pat (drop j s))"
proof
  assume "pat \<noteq> []" "str_find pat s = None"
  show "\<forall>j. \<not> prefix pat (drop j s)"
  proof (intro allI notI)
    fix j assume "prefix pat (drop j s)"
    then obtain b where b: "drop j s = pat @ b" by (auto simp: prefix_def)
    have "s = take j s @ pat @ b" unfolding b [symmetric] by simp
    from str_find_ex [OF this] \<open>str_find pat s = None\<close> show False by simp
  qed
next
  assume n: "\<forall>j. \<not> prefix pat (drop j s)"
  show "str_find pat s = None"
  proof (cases "str_find pat s")
    case (Some i)
    with n show ?thesis by (simp add: str_find_least)
  qed simp
qed

lemma scheme_mark_eq: "scheme_mark = [58, 47, 47]"
  by (simp add: scheme_mark_def lit_def)

text \<open>Only the text up to the end of the match matters to the first match.\<close>

lemma str_find_take:
  assumes "str_find pat s = Some i" and "take (i + length pat) r = take (i + length pat) s"
  shows "str_find pat r = Some i"
proof -
  have at: "prefix pat (drop j r) \<longleftrightarrow> prefix pat (drop j s)" if "j \<le> i" for j
  proof -
    have "take (length pat) (drop j x) = take (length pat) (drop j (take (i + length pat) x))" for x :: rstr
      using that by (simp add: take_drop min_def)
    then have "take (length pat) (drop j r) = take (length pat) (drop j s)" using assms(2) by metis
    then show ?thesis by (metis append_eq_conv_conj prefix_def)
  qed
  have "length pat \<le> length (drop i s)" using assms(1) unfolding str_find_least by (blast dest: prefix_length_le)
  then have "i + length pat \<le> length s \<or> pat = []" using assms(1) by (auto simp: str_find_least)
  moreover have "min (length r) (i + length pat) = min (length s) (i + length pat)"
    using arg_cong [OF assms(2), of length] by simp
  ultimately have "i \<le> length r" using assms(1) by (auto simp: str_find_least min_def split: if_splits)
  then show ?thesis using assms(1) at unfolding str_find_least by auto
qed

section \<open>User information in URLs\<close>

text \<open>The part of a text after \<open>://\<close> up to the end of the host names a user with a password.\<close>

definition authority :: "rstr \<Rightarrow> rstr" where
  "authority b = takeWhile (\<lambda>c. \<not> ends_authority c) b"

definition has_credentials :: "rstr \<Rightarrow> bool" where
  "has_credentials b \<longleftrightarrow> (\<exists>u p. authority b = u @ 64 # p \<and> 58 \<in> set u \<and> 64 \<notin> set p)"

lemma rposition_at:
  "rposition (\<lambda>c. c = x) xs = Some i \<Longrightarrow> xs = take i xs @ x # drop (Suc i) xs \<and> x \<notin> set (drop (Suc i) xs)"
  by (frule rposition_SomeD) (auto simp: in_set_conv_nth id_take_nth_drop)

lemma last_split_unique:
  "u @ x # p = u' @ x # p' \<Longrightarrow> x \<notin> set p \<Longrightarrow> x \<notin> set p' \<Longrightarrow> u = u'"
  by (auto simp: append_eq_append_conv2 Cons_eq_append_conv append_eq_Cons_conv)

lemma find_mark:
  assumes "str_find scheme_mark s = Some i"
  shows "i + 3 \<le> length s" and "take (i + 3) s = take i s @ [58, 47, 47]"
proof -
  from str_find_SomeD [OF assms]
  have s: "i \<le> length s" "s = take i s @ [58, 47, 47] @ drop (i + 3) s" by (simp_all add: scheme_mark_eq numeral_3_eq_3)
  from arg_cong [OF s(2), of length] s(1) show "i + 3 \<le> length s" by simp
  have "take (i + 3) (take i s @ [58, 47, 47] @ drop (i + 3) s) = take i s @ [58, 47, 47]"
    using s(1) by (simp add: min_def)
  with s(2) show "take (i + 3) s = take i s @ [58, 47, 47]" by simp
qed

lemma takeWhile_take: "i \<le> length (takeWhile P s) \<Longrightarrow> take i s = take i (takeWhile P s)"
  by (metis append_take_drop_id takeWhile_dropWhile_id take_append diff_is_0_eq' take0 append_Nil2)

lemma redact_rest_cases:
  obtains (creds) at where "redact_rest b = (REDACTED, drop at b)" "has_credentials b"
      "authority b = take at b @ 64 # drop (Suc at) (authority b)" "64 \<notin> set (drop (Suc at) (authority b))"
  | (plain) "redact_rest b = ([], b)" "\<not> has_credentials b"
proof (cases "rposition (\<lambda>c. c = 64) (authority b)")
  case None
  then have "\<not> has_credentials b" by (auto simp: has_credentials_def rposition_None)
  then show ?thesis using plain None by (simp add: redact_rest_def authority_def Let_def)
next
  case (Some at)
  then have lt: "at < length (authority b)" by (auto dest: rposition_SomeD)
  note split = rposition_at [OF Some]
  have take: "take at b = take at (authority b)"
    using lt takeWhile_take [of at "\<lambda>c. \<not> ends_authority c" b] by (simp add: authority_def)
  have "has_credentials b \<longleftrightarrow> 58 \<in> set (take at b)"
  proof
    assume "has_credentials b"
    then obtain u p where "authority b = u @ 64 # p" "58 \<in> set u" "64 \<notin> set p" by (auto simp: has_credentials_def)
    with split last_split_unique [of u 64 p "take at (authority b)" "drop (Suc at) (authority b)"] take show "58 \<in> set (take at b)"
      by (metis append.assoc)
  next
    assume "58 \<in> set (take at b)"
    with split take show "has_credentials b" unfolding has_credentials_def by metis
  qed
  then show ?thesis using Some split take creds [of at] plain
    by (cases "58 \<in> set (take at b)") (simp_all add: redact_rest_def authority_def Let_def)
qed

text \<open>What the redaction leaves of the text before its first slash, quote or blank.\<close>

lemma authority_append:
  "c \<in> set a \<Longrightarrow> ends_authority c \<Longrightarrow> authority (a @ b) = authority a"
  by (auto simp: authority_def takeWhile_append1)

lemma authority_redact_userinfo: "authority (redact_userinfo s) = authority s"
proof (cases "str_find scheme_mark s")
  case None
  then show ?thesis by (subst redact_userinfo.simps) simp
next
  case (Some i)
  let ?a = "take (i + 3) s"
  from find_mark [OF Some] have "?a = take i s @ [58, 47, 47]" by simp
  then have slash: "47 \<in> set ?a" by simp
  have "authority (redact_userinfo s) = authority ?a"
    using Some slash by (subst redact_userinfo.simps) (simp add: authority_append [where c = 47] ends_authority_def)
  also have "\<dots> = authority (?a @ drop (i + 3) s)"
    using slash by (simp add: authority_append [where c = 47] ends_authority_def del: append_take_drop_id)
  finally show ?thesis by simp
qed

lemma REDACTED_chars: "c \<in> set REDACTED \<Longrightarrow> \<not> ends_authority c \<and> c \<noteq> 58 \<and> c \<noteq> 64"
  by (auto simp: REDACTED_def lit_def ends_authority_def is_whitespace_def)

lemma authority_drop:
  assumes "authority b = take at b @ x # q" shows "authority (drop at b) = x # q"
proof -
  have le: "at \<le> length b"
  proof (rule ccontr)
    assume "\<not> at \<le> length b"
    then have "length b < length (authority b)" using assms by simp
    then show False using length_takeWhile_le [of "\<lambda>c. \<not> ends_authority c" b] by (simp add: authority_def)
  qed
  have "\<forall>c\<in>set (take at b). \<not> ends_authority c"
  proof
    fix c assume "c \<in> set (take at b)"
    then have "c \<in> set (authority b)" using assms by simp
    then show "\<not> ends_authority c" unfolding authority_def by (rule conjunct2 [OF set_takeWhileD])
  qed
  then have "authority (take at b @ drop at b) = take at b @ authority (drop at b)"
    unfolding authority_def by (subst takeWhile_append2) auto
  with assms show ?thesis by simp
qed

lemma no_credentials_after_redaction: "\<not> has_credentials (fst (redact_rest b) @ redact_userinfo (snd (redact_rest b)))"
proof (rule redact_rest_cases [of b])
  fix at assume r: "redact_rest b = (REDACTED, drop at b)"
    and split: "authority b = take at b @ 64 # drop (Suc at) (authority b)" "64 \<notin> set (drop (Suc at) (authority b))"
  have "authority (REDACTED @ redact_userinfo (drop at b)) = REDACTED @ authority (redact_userinfo (drop at b))"
    unfolding authority_def using REDACTED_chars by (subst takeWhile_append2) auto
  also have "\<dots> = REDACTED @ 64 # drop (Suc at) (authority b)"
    unfolding authority_redact_userinfo using authority_drop [OF split(1)] by simp
  finally have a: "authority (REDACTED @ redact_userinfo (drop at b)) = REDACTED @ 64 # drop (Suc at) (authority b)" .
  show ?thesis unfolding r fst_conv snd_conv has_credentials_def a
  proof (intro notI, elim exE conjE)
    fix u p :: rstr
    assume "REDACTED @ 64 # drop (Suc at) (authority b) = u @ 64 # p" "58 \<in> set u" "64 \<notin> set p"
    with last_split_unique [of REDACTED 64 _ u p] split(2) REDACTED_chars show False by blast
  qed
next
  assume "redact_rest b = ([], b)" "\<not> has_credentials b"
  then show ?thesis by (simp add: has_credentials_def authority_redact_userinfo)
qed

lemma mark_past:
  "x @ y = a @ 58 # r \<Longrightarrow> 58 \<notin> set x \<Longrightarrow> \<exists>a'. a = x @ a' \<and> y = a' @ (58::nat) # r"
  by (auto simp: append_eq_append_conv2 Cons_eq_append_conv append_eq_Cons_conv)

lemma mark_meets:
  fixes c :: rstr
  assumes "c @ [58, 47, 47] = a @ us" and "us @ y = [58, 47, 47] @ b" and "us \<noteq> []"
  shows "us = [58, 47, 47] \<or> (\<exists>v. us = [58, 47, 47] @ v \<and> v \<noteq> [])"
proof -
  from assms(2,3) obtain u1 where u1: "us = 58 # u1" "u1 @ y = 47 # 47 # b" by (cases us) auto
  have "u1 \<noteq> []" using arg_cong [OF assms(1), of last] u1(1) by auto
  with u1(2) obtain u2 where u2: "u1 = 47 # u2" "u2 @ y = 47 # b" by (cases u1) auto
  have "u2 \<noteq> []" using arg_cong [OF assms(1), of "\<lambda>x. last (butlast x)"] u1(1) u2(1) by (auto simp: butlast_append)
  with u2(2) obtain v where "u2 = 47 # v" by (cases u2) auto
  then show ?thesis using u1(1) u2(1) by auto
qed

lemma redacted_userinfo_safe: "redact_userinfo s = a @ scheme_mark @ b \<Longrightarrow> \<not> has_credentials b"
proof (induction s arbitrary: a rule: redact_userinfo.induct)
  case (1 s)
  show ?case
  proof (cases "str_find scheme_mark s")
    case None
    with "1.prems" have "s = a @ scheme_mark @ b" by (simp add: redact_userinfo.simps [of s])
    from str_find_ex [OF this] None show ?thesis by simp
  next
    case (Some i)
    define pre tail where "pre = fst (redact_rest (drop (i + 3) s))" and "tail = redact_userinfo (snd (redact_rest (drop (i + 3) s)))"
    note mark = find_mark [OF Some]
    have out: "redact_userinfo s = (take i s @ [58, 47, 47]) @ pre @ tail"
      by (subst redact_userinfo.simps) (simp add: Some mark(2) pre_def tail_def)
    have pre: "58 \<notin> set pre"
      unfolding pre_def by (rule redact_rest_cases [of "drop (i + 3) s"]) (use REDACTED_chars in auto)
    from "1.prems" [unfolded out scheme_mark_eq] consider
        (later) a' where "pre @ tail = a' @ [58, 47, 47] @ b"
      | (here) us where "take i s @ [58, 47, 47] = a @ us" "us @ pre @ tail = [58, 47, 47] @ b" "us \<noteq> []"
      unfolding append_eq_append_conv2 [of "take i s @ [58, 47, 47]"] by (metis append_Nil)
    then show ?thesis
    proof cases
      case (later a')
      then obtain a'' where "tail = a'' @ [58, 47, 47] @ b" using mark_past [of pre tail a' "[47, 47] @ b"] pre by auto
      with "1.IH" [OF Some] show ?thesis unfolding tail_def scheme_mark_eq by blast
    next
      case (here us)
      have "us = [58, 47, 47]"
      proof (rule ccontr)
        assume "us \<noteq> [58, 47, 47]"
        with mark_meets [OF here] obtain v where v: "us = [58, 47, 47] @ v" "v \<noteq> []" by blast
        have "length a + length us = i + 3" using arg_cong [OF here(1), of length] mark(1) by simp
        with v have "length a < i" by (cases v) auto
        moreover have "prefix scheme_mark (drop (length a) (take (i + 3) s))" unfolding mark(2) here(1) v(1) scheme_mark_eq by simp
        then have "prefix scheme_mark (take (i + 3 - length a) (drop (length a) s))" by (simp add: drop_take)
        then have "prefix scheme_mark (drop (length a) s)" by (rule prefix_order.trans [OF _ take_is_prefix])
        ultimately show False using Some unfolding str_find_least by blast
      qed
      with here(2) have "b = pre @ tail" by simp
      then show ?thesis unfolding pre_def tail_def by (simp add: no_credentials_after_redaction)
    qed
  qed
qed

section \<open>Queries\<close>

lemma position_takeWhile:
  "position p s = (if length (takeWhile (\<lambda>c. \<not> p c) s) < length s then Some (length (takeWhile (\<lambda>c. \<not> p c) s)) else None)"
  by (induction s) auto

lemma take_length_takeWhile: "take (length (takeWhile P s)) s = takeWhile P s"
  by (metis append_eq_conv_conj takeWhile_dropWhile_id)

lemma drop_length_takeWhile: "drop (length (takeWhile P s)) s = dropWhile P s"
  by (metis append_eq_conv_conj takeWhile_dropWhile_id)

lemma takeWhile_takeWhile: "takeWhile P (takeWhile Q s) = takeWhile (\<lambda>c. Q c \<and> P c) s"
  by (induction s) auto

lemma url_without_query_eq:
  assumes "str_find scheme_mark w = Some i"
  shows "url_without_query w =
    take i w @ takeWhile (\<lambda>c. \<not> ends_url c \<and> \<not> (c = 63 \<or> c = 35)) (drop i w) @ dropWhile (\<lambda>c. \<not> ends_url c) (drop i w)"
proof -
  let ?t = "drop i w" and ?q = "\<lambda>c::rchar. c = 63 \<or> c = 35"
  let ?url = "takeWhile (\<lambda>c. \<not> ends_url c) ?t"
  let ?stop = "case position ends_url ?t of None \<Rightarrow> length w | Some k \<Rightarrow> i + k"
  have i: "i \<le> length w" using find_mark(1) [OF assms] by simp
  have stop: "?stop = i + length ?url"
    using i length_takeWhile_le [of "\<lambda>c. \<not> ends_url c" ?t] by (auto simp: position_takeWhile)
  have url: "drop i (take (i + length ?url) w) = ?url" by (simp add: drop_take take_length_takeWhile)
  have rest: "drop (i + length ?url) w = dropWhile (\<lambda>c. \<not> ends_url c) ?t"
    by (metis add.commute drop_drop drop_length_takeWhile)
  have eq: "url_without_query w = (case position ?q ?url of
      Some q \<Rightarrow> take (i + q) w @ dropWhile (\<lambda>c. \<not> ends_url c) ?t | None \<Rightarrow> w)"
    unfolding url_without_query_def assms Let_def option.case stop url rest ..
  show ?thesis
  proof (cases "position ?q ?url")
    case None
    then have "\<forall>c\<in>set ?url. \<not> ?q c" by (simp add: position_None)
    then have "takeWhile (\<lambda>c. \<not> ?q c) ?url = ?url" by (simp add: takeWhile_eq_all_conv)
    then have u: "takeWhile (\<lambda>c. \<not> ends_url c \<and> \<not> ?q c) ?t = ?url" by (simp only: takeWhile_takeWhile)
    have "w = take i w @ ?url @ dropWhile (\<lambda>c. \<not> ends_url c) ?t" by simp
    with None eq u show ?thesis by simp
  next
    case (Some q)
    then have q: "q = length (takeWhile (\<lambda>c. \<not> ?q c) ?url)" "q \<le> length ?url"
      by (auto simp: position_takeWhile split: if_splits)
    have "take (i + q) w = take i w @ take q ?t" by (rule take_add)
    also have "take q ?t = take q ?url" using q(2) by (rule takeWhile_take)
    also have "take q ?url = takeWhile (\<lambda>c. \<not> ?q c) ?url" unfolding q(1) by (rule take_length_takeWhile)
    also have "\<dots> = takeWhile (\<lambda>c. \<not> ends_url c \<and> \<not> ?q c) ?t" by (rule takeWhile_takeWhile)
    finally show ?thesis using Some eq by simp
  qed
qed

lemma find_mark_without_query:
  assumes "str_find scheme_mark w = Some i"
  shows "str_find scheme_mark (url_without_query w) = Some i"
    and "takeWhile (\<lambda>c. \<not> ends_url c) (drop i (url_without_query w)) = takeWhile (\<lambda>c. \<not> ends_url c \<and> \<not> (c = 63 \<or> c = 35)) (drop i w)"
proof -
  let ?kept = "takeWhile (\<lambda>c. \<not> ends_url c \<and> \<not> (c = 63 \<or> c = 35)) (drop i w)"
  note eq = url_without_query_eq [OF assms]
  note mark = find_mark [OF assms]
  have "w = (take i w @ [58, 47, 47]) @ drop (i + 3) w" unfolding mark(2) [symmetric] by simp
  then have "drop i w = [58, 47, 47] @ drop (i + 3) w" using mark(1)
    by (metis append.assoc append_eq_conv_conj append_take_drop_id same_append_eq)
  then obtain k where k: "?kept = [58, 47, 47] @ k" by (simp add: ends_url_def lit_def)
  have "take (i + length scheme_mark) (url_without_query w) = take (i + length scheme_mark) w"
    unfolding eq k scheme_mark_eq using mark by (simp add: min_def numeral_3_eq_3)
  then show "str_find scheme_mark (url_without_query w) = Some i" by (rule str_find_take [OF assms])
  have drop: "drop i (url_without_query w) = ?kept @ dropWhile (\<lambda>c. \<not> ends_url c) (drop i w)"
    unfolding eq using mark(1) by simp
  have "\<forall>c\<in>set ?kept. \<not> ends_url c" by (auto dest: set_takeWhileD)
  then have "takeWhile (\<lambda>c. \<not> ends_url c) (?kept @ dropWhile (\<lambda>c. \<not> ends_url c) (drop i w)) =
      ?kept @ takeWhile (\<lambda>c. \<not> ends_url c) (dropWhile (\<lambda>c. \<not> ends_url c) (drop i w))"
    by (subst takeWhile_append2) auto
  also have "takeWhile (\<lambda>c. \<not> ends_url c) (dropWhile (\<lambda>c. \<not> ends_url c) s) = []" for s
    by (induction s) auto
  finally show "takeWhile (\<lambda>c. \<not> ends_url c) (drop i (url_without_query w)) = ?kept" unfolding drop by simp
qed

lemma takeWhile_stop: "\<not> P c \<Longrightarrow> takeWhile P (x @ c # b) = takeWhile P x"
  by (induction x) auto

lemma later_url_kept:
  assumes "ends_url c" and "str_find scheme_mark a = Some i" and "\<forall>x\<in>set (drop i a). \<not> ends_url x"
  shows "url_without_query (a @ c # b) = url_without_query a @ c # b"
proof -
  note mark = find_mark [OF assms(2)]
  have f: "str_find scheme_mark (a @ c # b) = Some i"
    by (rule str_find_take [OF assms(2)]) (use mark(1) in \<open>simp add: scheme_mark_eq\<close>)
  have d: "drop i (a @ c # b) = drop i a @ c # b" "take i (a @ c # b) = take i a" using mark(1) by simp_all
  have t: "takeWhile P (drop i a @ c # b) = takeWhile P (drop i a)" if "\<not> P c" for P
    using that by (rule takeWhile_stop)
  have all: "dropWhile (\<lambda>c. \<not> ends_url c) (drop i a) = []" using assms(3) by simp
  have "dropWhile (\<lambda>c. \<not> ends_url c) (drop i a @ c # b) = c # b"
    using assms(1,3) by (subst dropWhile_append2) auto
  with assms(1) show ?thesis
    unfolding url_without_query_eq [OF f] url_without_query_eq [OF assms(2)] d all by (simp add: t)
qed

section \<open>Redacted words\<close>

lemma trim_matches_split:
  obtains l r where "s = l @ trim_matches p s @ r" "\<forall>c\<in>set l \<union> set r. p c"
    "trim_matches p s \<noteq> [] \<Longrightarrow> \<not> p (hd (trim_matches p s)) \<and> \<not> p (last (trim_matches p s))"
proof -
  define t where "t = dropWhile p s"
  define b where "b = rev (dropWhile p (rev t))"
  have s: "s = takeWhile p s @ t" by (simp add: t_def)
  have t: "t = b @ rev (takeWhile p (rev t))"
    unfolding b_def by (metis rev_append rev_rev_ident takeWhile_dropWhile_id)
  have b: "b = trim_matches p s" by (simp add: b_def t_def trim_matches_def trim_end_matches_def trim_start_matches_def)
  have "\<not> p (hd b)" if "b \<noteq> []"
  proof -
    have "hd b = hd t" using that t by (metis hd_append2)
    moreover have "t \<noteq> []" using that t by auto
    ultimately show ?thesis unfolding t_def using hd_dropWhile [of p s] by simp
  qed
  moreover have "\<not> p (last b)" if "b \<noteq> []"
    using that hd_dropWhile [of p "rev t"] by (simp add: b_def last_rev)
  moreover have "s = takeWhile p s @ b @ rev (takeWhile p (rev t))" using s t by simp
  ultimately show ?thesis
    using that [of "takeWhile p s" "rev (takeWhile p (rev t))"] b by (auto dest: set_takeWhileD)
qed

lemma replace_first_at:
  assumes "str_find pat s = Some (length a)" and "s = a @ pat @ b" shows "replace_first pat new s = a @ new @ b"
  using assms by (simp add: replace_first_def)

lemma bare_word_found:
  assumes "word = l @ bare @ r" and "bare \<noteq> []" and "\<forall>c\<in>set l. p c" and "\<not> p (hd bare)"
  shows "str_find bare word = Some (length l)"
  unfolding str_find_least
proof (intro conjI allI impI notI)
  show "prefix bare (drop (length l) word)" "length l \<le> length word" using assms(1) by simp_all
next
  fix j assume j: "j < length l" and "prefix bare (drop j word)"
  then have "hd bare = word ! j" using assms(1,2)
    by (metis append_is_Nil_conv drop_eq_Nil hd_append2 hd_drop_conv_nth linorder_not_le prefix_def)
  also have "\<dots> = l ! j" using j assms(1) by (simp add: nth_append)
  finally show False using assms(3,4) j by simp
qed

definition passes_on :: "rstr \<Rightarrow> bool" where
  "passes_on bare \<longleftrightarrow> eq_ignore_ascii_case bare (lit ''bearer'') \<or> eq_ignore_ascii_case bare (lit ''basic'')"

definition token_shaped :: "rstr \<Rightarrow> bool" where
  "token_shaped bare \<longleftrightarrow> list_ex (\<lambda>p. prefix p bare) TOKEN_PREFIXES \<and> 16 \<le> utf8_len bare"

lemma redact_word_eq:
  "redact_word word is_value =
    (let bare = bare_word word in
     if passes_on bare then (word, True)
     else if is_value \<and> bare \<noteq> [] \<or> token_shaped bare then (replace_first bare REDACTED word, False)
     else (case rposition (\<lambda>c. c = 61 \<or> c = 58) bare of
       Some i \<Rightarrow>
         (let key = take i bare; val = drop (i + 1) bare in
          if names_a_secret key then
            if val = [] then (word, True)
            else if \<not> prefix (lit ''//'') val then (replace_first val REDACTED word, False)
            else (word, False)
          else (word, False))
     | None \<Rightarrow> (word, False)))"
  by (simp add: redact_word_def passes_on_def token_shaped_def Let_def)

lemma token_shaped_Cons: "token_shaped bare \<Longrightarrow> bare \<noteq> []"
  by (auto simp: token_shaped_def utf8_len_def)

lemma rposition_sep:
  assumes "p c" and "\<forall>x\<in>set val. \<not> p x" shows "rposition p (key @ c # val) = Some (length key)"
proof (induction key)
  case Nil
  have "rposition p val = None" using assms(2) by (simp add: rposition_None)
  then show ?case using assms(1) by simp
qed simp

lemma redact_pair:
  assumes "bare_word word = key @ sep # val" and "sep = 61 \<or> sep = 58" and "61 \<notin> set val" and "58 \<notin> set val"
    and "\<not> passes_on (key @ sep # val)" and "\<not> token_shaped (key @ sep # val)"
    and "names_a_secret key" and "val \<noteq> []" and "\<not> prefix (lit ''//'') val"
  shows "redact_word word False = (replace_first val REDACTED word, False)"
proof -
  have "rposition (\<lambda>c. c = 61 \<or> c = 58) (key @ sep # val) = Some (length key)"
    using assms(2-4) by (intro rposition_sep) auto
  with assms show ?thesis by (simp add: redact_word_eq)
qed

section \<open>What leaves the process\<close>

lemma set_replace_first: "set (replace_first a b s) \<subseteq> set s \<union> set b"
  by (auto simp: replace_first_def split: option.splits dest: in_set_takeD in_set_dropD)

lemma set_trim_matches: "set (trim_matches p s) \<subseteq> set s"
  by (auto simp: trim_matches_def trim_end_matches_def trim_start_matches_def dest!: set_dropWhileD)

lemma set_redact_userinfo: "set (redact_userinfo s) \<subseteq> set s \<union> set REDACTED"
proof (induction s rule: redact_userinfo.induct)
  case (1 s)
  show ?case
  proof (cases "str_find scheme_mark s")
    case None
    then show ?thesis by (simp add: redact_userinfo.simps [of s])
  next
    case (Some i)
    have "set (fst (redact_rest b)) \<union> set (snd (redact_rest b)) \<subseteq> set REDACTED \<union> set b" for b
      by (rule redact_rest_cases [of b]) (auto dest: in_set_dropD)
    from this [of "drop (i + 3) s"] 1 [OF Some] set_drop_subset [of "i + 3" s] set_take_subset [of "i + 3" s]
    show ?thesis by (simp add: redact_userinfo.simps [of s] Some) blast
  qed
qed

lemma set_redact_word: "set (fst (redact_word word v)) \<subseteq> set word \<union> set REDACTED"
  using set_replace_first by (auto simp: redact_word_eq Let_def split: option.splits)

lemma set_redact_pieces: "set (redact_pieces ps v) \<subseteq> set (concat ps) \<union> set REDACTED"
proof (induction ps arbitrary: v)
  case (Cons p ps)
  let ?w = "trim_end_matches is_whitespace p"
  have "set ?w \<subseteq> set p" by (auto simp: trim_end_matches_def dest!: set_dropWhileD)
  with set_redact_word [of ?w v] set_drop_subset [of "length ?w" p] Cons.IH [of v] Cons.IH [of "snd (redact_word ?w v)"]
  show ?case by (cases "redact_word ?w v") (auto simp: Let_def)
qed simp

lemma set_redact_secrets: "set (redact_secrets s []) \<subseteq> set s \<union> set REDACTED"
  using set_redact_pieces [of "split_inclusive is_whitespace (redact_userinfo s)" False] set_redact_userinfo [of s]
  by (auto simp: redact_secrets_def)

lemma all_join: "\<forall>l\<in>set ls. \<forall>c\<in>set l. P c \<Longrightarrow> \<forall>c\<in>set sep. P c \<Longrightarrow> \<forall>c\<in>set (join sep ls). P c"
  by (induction sep ls rule: join.induct) auto

lemma set_split_char: "l \<in> set (split_char c s) \<Longrightarrow> set l \<subseteq> set s"
  by (induction s arbitrary: l) (fastforce split: list.splits if_splits)+

definition plain_char :: "rchar \<Rightarrow> bool" where
  "plain_char c \<longleftrightarrow> \<not> is_control c \<and> (is_whitespace c = (c = 32))"

lemma upstream_plain: "list_all plain_char (upstream_message s n)"
proof -
  let ?m = "map (\<lambda>c. if is_whitespace c \<or> is_control c then 32 else c) s"
  let ?flat = "join [32] (filter (\<lambda>w. w \<noteq> []) (split_char 32 ?m))"
  have p: "plain_char 32" "plain_char 0x2026" by (simp_all add: plain_char_def is_control_def is_whitespace_def)
  have r: "\<forall>c\<in>set REDACTED. plain_char c"
    by (simp add: REDACTED_def lit_def plain_char_def is_control_def is_whitespace_def)
  have "\<forall>c\<in>set ?m. plain_char c" using p by (auto simp: plain_char_def is_whitespace_def)
  then have "\<forall>l\<in>set (split_char 32 ?m). \<forall>c\<in>set l. plain_char c" using set_split_char by blast
  then have "\<forall>c\<in>set ?flat. plain_char c"
    using p(1) by (intro all_join) auto
  with r have "\<forall>c\<in>set (redact_secrets ?flat []). plain_char c" using set_redact_secrets [of ?flat] by auto
  then have "\<forall>c\<in>set (upstream_message s n). plain_char c"
    using p(2) by (auto simp: upstream_message_def truncate_chars_def Let_def dest: in_set_takeD)
  then show ?thesis by (simp add: list_all_iff)
qed

section \<open>The properties\<close>

text \<open>Cutting at a byte count never slices inside a character: it returns the longest run of leading
  characters whose encoding fits.\<close>
theorem truncation_maximal:
  "\<exists>k\<le>length s. truncate_at_char_boundary s m = Some (take k s) \<and> utf8_len (take k s) \<le> m \<and>
     (k < length s \<longrightarrow> m < utf8_len (take (Suc k) s))"
  by (rule truncation_maximal_aux)

theorem truncation_maximal_witness:
  "truncate_at_char_boundary [97, 0xE9, 98] 2 = Some [97]"
proof -
  define s :: rstr where "s = [97, 0xE9, 98]"
  obtain k where k: "k \<le> length s" "truncate_at_char_boundary s 2 = Some (take k s)"
    "utf8_len (take k s) \<le> 2" "k < length s \<longrightarrow> 2 < utf8_len (take (Suc k) s)"
    using truncation_maximal [of s 2] by blast
  from k(1) consider "k = 0" | "k = 1" | "k = 2" | "k = 3" by (auto simp: s_def) linarith
  then show ?thesis using k by cases (simp_all add: s_def utf8_len_def utf8_len_char_def)
qed

text \<open>C31.
  Wherever \<open>://\<close> stands in a text after the redaction of user information, what follows it up to the
  next slash, quote or blank names no user with a password: there is no \<open>@\<close> with a colon before the
  last one.\<close>
theorem no_credentials_in_urls:
  assumes "redact_userinfo s = a @ scheme_mark @ b"
  shows "\<not> has_credentials b"
  by (rule redacted_userinfo_safe [OF assms])

theorem no_credentials_in_urls_witness:
  "redact_userinfo (lit ''x://u:p@h/y'') = lit ''x://[redacted]@h/y'' \<and> \<not> has_credentials (lit ''[redacted]@h/y'')"
proof
  show r: "redact_userinfo (lit ''x://u:p@h/y'') = lit ''x://[redacted]@h/y''"
    by (simp add: redact_userinfo.simps [of "lit ''x://u:p@h/y''"] redact_userinfo.simps [of "lit ''@h/y''"])
      (simp add: lit_def scheme_mark_def redact_rest_def ends_authority_def is_whitespace_def REDACTED_def
        redact_userinfo.simps)
  show "\<not> has_credentials (lit ''[redacted]@h/y'')"
    by (rule no_credentials_in_urls [of "lit ''x://u:p@h/y''" "lit ''x''"]) (unfold r, simp add: lit_def scheme_mark_def)
qed

text \<open>A word that follows \<open>Bearer\<close> or a secret's key, or has the shape of a known token, loses everything
  between its punctuation; a word that is a secret's key, a separator and a value loses the value, as
  long as the value does not already occur before its own place.\<close>
theorem secret_words_redacted:
  assumes "\<not> passes_on (bare_word word)"
  shows "\<exists>l r. word = l @ bare_word word @ r \<and> (\<forall>c\<in>set l \<union> set r. word_punctuation c) \<and>
    (bare_word word \<noteq> [] \<longrightarrow> redact_word word True = (l @ REDACTED @ r, False)) \<and>
    (token_shaped (bare_word word) \<longrightarrow> redact_word word False = (l @ REDACTED @ r, False)) \<and>
    (\<forall>key sep val. bare_word word = key @ sep # val \<longrightarrow> sep = 61 \<or> sep = 58 \<longrightarrow> 61 \<notin> set val \<longrightarrow> 58 \<notin> set val \<longrightarrow>
       \<not> token_shaped (bare_word word) \<longrightarrow> names_a_secret key \<longrightarrow> val \<noteq> [] \<longrightarrow> \<not> prefix (lit ''//'') val \<longrightarrow>
       str_find val word = Some (length l + length key + 1) \<longrightarrow>
       redact_word word False = (l @ key @ sep # REDACTED @ r, False))"
proof -
  obtain l r where lr: "word = l @ bare_word word @ r" "\<forall>c\<in>set l \<union> set r. word_punctuation c"
    "bare_word word \<noteq> [] \<Longrightarrow> \<not> word_punctuation (hd (bare_word word))"
    unfolding bare_word_def by (rule trim_matches_split [of word word_punctuation]) blast
  have bare: "replace_first (bare_word word) REDACTED word = l @ REDACTED @ r" if "bare_word word \<noteq> []"
    using bare_word_found [OF lr(1) that, of word_punctuation] lr that by (intro replace_first_at) auto
  have pair: "redact_word word False = (l @ key @ sep # REDACTED @ r, False)"
    if "bare_word word = key @ sep # val" "sep = 61 \<or> sep = 58" "61 \<notin> set val" "58 \<notin> set val"
      "\<not> token_shaped (bare_word word)" "names_a_secret key" "val \<noteq> []" "\<not> prefix (lit ''//'') val"
      "str_find val word = Some (length l + length key + 1)" for key sep val
  proof -
    have "redact_word word False = (replace_first val REDACTED word, False)"
      using redact_pair [OF that(1-4) _ _ that(6-8)] assms that(1,5) by simp
    also have "replace_first val REDACTED word = (l @ key @ [sep]) @ REDACTED @ r"
      by (rule replace_first_at) (use that(1,9) lr(1) in simp_all)
    finally show ?thesis by simp
  qed
  have "bare_word word \<noteq> [] \<Longrightarrow> redact_word word True = (l @ REDACTED @ r, False)"
    using assms bare by (simp add: redact_word_eq)
  moreover have "token_shaped (bare_word word) \<Longrightarrow> redact_word word False = (l @ REDACTED @ r, False)"
    using assms bare token_shaped_Cons by (simp add: redact_word_eq)
  ultimately show ?thesis using lr(1,2) pair by (intro exI [of _ l] exI [of _ r]) blast
qed

lemma demo_bare: "bare_word (lit ''tok:s1,'') = lit ''tok:s1''"
  by (simp add: bare_word_def lit_def trim_matches_def trim_end_matches_def trim_start_matches_def word_punctuation_def)

theorem secret_words_redacted_witness:
  "redact_word (lit ''tok:s1,'') True = (lit ''[redacted],'', False)"
proof -
  have np: "\<not> passes_on (bare_word (lit ''tok:s1,''))"
    unfolding demo_bare by (simp add: passes_on_def eq_ignore_ascii_case_def to_ascii_lowercase_def lit_def to_ascii_lowercase_char_def)
  from secret_words_redacted [OF np, unfolded demo_bare] obtain l r where
    w: "lit ''tok:s1,'' = l @ lit ''tok:s1'' @ r" "\<forall>c\<in>set l \<union> set r. word_punctuation c"
      "redact_word (lit ''tok:s1,'') True = (l @ REDACTED @ r, False)"
    by (elim exE conjE) (auto simp: lit_def)
  have "l = []" using w(1,2) by (cases l) (auto simp: lit_def word_punctuation_def)
  then have "r = lit '',''" using w(1) by (simp add: lit_def)
  with w(3) \<open>l = []\<close> show ?thesis by (simp add: REDACTED_def lit_def)
qed

text \<open>In a word made of a secret's key and its value the replacement is looked for from the start of the
  word, not of the value: a value that already occurs in the key is cut out of the key and the
  secret itself is left standing.\<close>
theorem repeated_secret_leaks:
  assumes "bare_word word = word" and "word = key @ sep # val" and "sep = 61 \<or> sep = 58" and "61 \<notin> set val" and "58 \<notin> set val"
    and "\<not> passes_on word" and "\<not> token_shaped word" and "names_a_secret key" and "val \<noteq> []"
    and "\<not> prefix (lit ''//'') val" and "key = a @ val @ b" and "str_find val word = Some (length a)"
  shows "redact_word word False = (a @ REDACTED @ b @ sep # val, False)"
proof -
  have "redact_word word False = (replace_first val REDACTED word, False)"
    by (rule redact_pair) (use assms in simp_all)
  also have "replace_first val REDACTED word = a @ REDACTED @ (b @ sep # val)"
    by (rule replace_first_at) (use assms(2,11,12) in simp_all)
  finally show ?thesis by simp
qed

theorem repeated_secret_leaks_witness:
  "redact_word (lit ''password=word'') False = (lit ''pass[redacted]=word'', False)"
proof -
  have "redact_word (lit ''password=word'') False = (lit ''pass'' @ REDACTED @ [] @ 61 # lit ''word'', False)"
  proof (rule repeated_secret_leaks [where key = "lit ''password''" and val = "lit ''word''"])
    show "names_a_secret (lit ''password'')"
      by (simp add: names_a_secret_def lit_def SECRET_KEY_WORDS_def trim_matches_def trim_end_matches_def trim_start_matches_def
        to_ascii_lowercase_def to_ascii_lowercase_char_def after_last_def contains_def)
    show "\<not> token_shaped (lit ''password=word'')"
      by (simp add: token_shaped_def utf8_len_def lit_def utf8_len_char_def)
  qed (simp_all add: lit_def bare_word_def trim_matches_def trim_end_matches_def trim_start_matches_def word_punctuation_def
      passes_on_def eq_ignore_ascii_case_def to_ascii_lowercase_def to_ascii_lowercase_char_def)
  then show ?thesis by (simp add: REDACTED_def lit_def)
qed

text \<open>A message from another server comes out without control characters, with no blank but the single
  space character, and no longer than asked (and the mark of the cut).\<close>
theorem upstream_message_plain:
  "list_all plain_char (upstream_message s n) \<and> length (upstream_message s n) \<le> n + 1"
  by (simp add: upstream_plain) (simp add: upstream_message_def truncate_chars_def Let_def)

text \<open>Dropping the query of a word keeps everything before its first \<open>://\<close>, of the URL there what stands
  before the first \<open>?\<close> or \<open>#\<close>, and everything from the end of that URL on; doing it twice changes nothing
  more.  So a second URL of the same word keeps its query: a word of two URLs with a comma or a quote
  between them is stripped only in the first.\<close>
theorem first_url_loses_query:
  assumes "str_find scheme_mark a = Some i"
  shows "url_without_query a = take i a @ takeWhile (\<lambda>c. \<not> ends_url c \<and> \<not> (c = 63 \<or> c = 35)) (drop i a) @
      dropWhile (\<lambda>c. \<not> ends_url c) (drop i a) \<and>
    url_without_query (url_without_query a) = url_without_query a \<and>
    (\<forall>c b. ends_url c \<longrightarrow> (\<forall>x\<in>set (drop i a). \<not> ends_url x) \<longrightarrow> url_without_query (a @ c # b) = url_without_query a @ c # b)"
proof (intro conjI allI impI)
  show eq: "url_without_query a = take i a @ takeWhile (\<lambda>c. \<not> ends_url c \<and> \<not> (c = 63 \<or> c = 35)) (drop i a) @
      dropWhile (\<lambda>c. \<not> ends_url c) (drop i a)" by (rule url_without_query_eq [OF assms])
  let ?r = "url_without_query a"
  note f = find_mark_without_query [OF assms]
  let ?kept = "takeWhile (\<lambda>c. \<not> ends_url c \<and> \<not> (c = 63 \<or> c = 35)) (drop i a)"
  have d: "drop i ?r = ?kept @ dropWhile (\<lambda>c. \<not> ends_url c) (drop i a)" "take i ?r = take i a"
    unfolding eq using find_mark(1) [OF assms] by simp_all
  have "takeWhile (\<lambda>c. \<not> ends_url c \<and> \<not> (c = 63 \<or> c = 35)) (drop i ?r) = takeWhile (\<lambda>c. \<not> (c = 63 \<or> c = 35)) ?kept"
    unfolding f(2) [symmetric] by (rule takeWhile_takeWhile [symmetric])
  also have "\<dots> = ?kept" by (auto simp: takeWhile_eq_all_conv dest: set_takeWhileD)
  finally have k: "takeWhile (\<lambda>c. \<not> ends_url c \<and> \<not> (c = 63 \<or> c = 35)) (drop i ?r) = ?kept" .
  have "drop i ?r = ?kept @ dropWhile (\<lambda>c. \<not> ends_url c) (drop i ?r)" unfolding f(2) [symmetric] by simp
  with d(1) have "dropWhile (\<lambda>c. \<not> ends_url c) (drop i ?r) = dropWhile (\<lambda>c. \<not> ends_url c) (drop i a)"
    by (metis same_append_eq)
  then show "url_without_query ?r = ?r"
    unfolding url_without_query_eq [OF f(1)] k d(2) unfolding eq by simp
next
  fix c b
  assume "ends_url c" "\<forall>x\<in>set (drop i a). \<not> ends_url x"
  then show "url_without_query (a @ c # b) = url_without_query a @ c # b" by (intro later_url_kept [OF _ assms])
qed

theorem first_url_loses_query_witness:
  "url_without_query (lit ''a://x?k=1'' @ 44 # lit ''b://y?token=2'') = lit ''a://x,b://y?token=2''"
proof -
  have f: "str_find scheme_mark (lit ''a://x?k=1'') = Some 1" by (simp add: lit_def scheme_mark_def)
  from first_url_loses_query [OF f] have
    "url_without_query (lit ''a://x?k=1'' @ 44 # lit ''b://y?token=2'') = url_without_query (lit ''a://x?k=1'') @ 44 # lit ''b://y?token=2''"
    "url_without_query (lit ''a://x?k=1'') = take 1 (lit ''a://x?k=1'') @
      takeWhile (\<lambda>c. \<not> ends_url c \<and> \<not> (c = 63 \<or> c = 35)) (drop 1 (lit ''a://x?k=1'')) @ dropWhile (\<lambda>c. \<not> ends_url c) (drop 1 (lit ''a://x?k=1''))"
    by (simp_all add: lit_def ends_url_def)
  then show ?thesis by (simp add: lit_def ends_url_def)
qed

end
