(* ===== verification/Vcard.thy ===== *)
theory Vcard
  imports Rust_Bytes
begin

text \<open>
  \<open>integrations/dav/vcard.rs\<close>: vCard documents to contacts.  A panic (the byte slice of the
  quoted-printable decoder) is \<open>None\<close> of the outermost option of every function that reaches it.
  \<open>str::to_lowercase\<close>, which needs the Unicode tables, is an argument of \<open>matches\<close>.
\<close>

abbreviation SEMICOLON :: rchar where "SEMICOLON \<equiv> 59"
abbreviation BACKSLASH :: rchar where "BACKSLASH \<equiv> 92"
abbreviation DQUOTE :: rchar where "DQUOTE \<equiv> 34"
abbreviation EQUALS :: rchar where "EQUALS \<equiv> 61"

definition to_ascii_uppercase :: "rstr \<Rightarrow> rstr" where
  "to_ascii_uppercase s = map (\<lambda>c. if 97 \<le> c \<and> c \<le> 122 then c - 32 else c) s"

record typed_value =
  kind :: "rstr option"
  tv_value :: rstr

record contact =
  account_id :: rstr
  account_label :: rstr
  address_book :: rstr
  uid :: rstr
  full_name :: rstr
  first_name :: "rstr option"
  last_name :: "rstr option"
  emails :: "typed_value list"
  phones :: "typed_value list"
  addresses :: "typed_value list"
  organization :: "rstr option"
  title :: "rstr option"
  note_text :: "rstr option"
  birthday :: "rstr option"
  has_photo :: bool

record contact_source =
  src_account_id :: rstr
  src_account_label :: rstr
  src_address_book :: rstr

section \<open>Cards and lines\<close>

definition card_step :: "rstr \<Rightarrow> rstr list \<times> rstr option \<Rightarrow> rstr list \<times> rstr option" where
  "card_step line st = (case st of (cards, current) \<Rightarrow>
    if eq_ignore_ascii_case (trim line) (lit ''BEGIN:VCARD'') then
      (case current of Some crd \<Rightarrow> (cards @ [crd], Some []) | None \<Rightarrow> (cards, Some []))
    else if eq_ignore_ascii_case (trim line) (lit ''END:VCARD'') then
      (case current of Some crd \<Rightarrow> (cards @ [crd], None) | None \<Rightarrow> (cards, None))
    else (case current of Some crd \<Rightarrow> (cards, Some (crd @ line @ [NL])) | None \<Rightarrow> (cards, None)))"

definition split_cards :: "rstr \<Rightarrow> rstr list" where
  "split_cards vcf = (case fold card_step (rust_lines vcf) ([], None) of
     (cards, Some crd) \<Rightarrow> cards @ [crd] | (cards, None) \<Rightarrow> cards)"

record vline =
  v_name :: rstr
  v_params :: "(rstr \<times> rstr list) list"
  v_value :: rstr

definition type_words :: "vline \<Rightarrow> rstr list" where
  "type_words l = map (\<lambda>w. to_ascii_lowercase (trim w))
     (concat (map (\<lambda>(k, vs). if eq_ignore_ascii_case k (lit ''TYPE'') then vs else if vs = [] then [k] else []) (v_params l)))"

definition has_param_word :: "rstr \<Rightarrow> rstr \<Rightarrow> vline \<Rightarrow> bool" where
  "has_param_word key word l \<longleftrightarrow> list_ex (\<lambda>(k, vs).
     (eq_ignore_ascii_case k key \<and> list_ex (\<lambda>v. eq_ignore_ascii_case v word) vs) \<or>
     (vs = [] \<and> eq_ignore_ascii_case k word)) (v_params l)"

definition looks_quoted_printable :: "rstr \<Rightarrow> bool" where
  "looks_quoted_printable line =
     contains (lit ''QUOTED-PRINTABLE'') (to_ascii_uppercase (takeWhile (\<lambda>c. c \<noteq> 58) line))"

definition continues_qp :: "rstr list \<Rightarrow> bool" where
  "continues_qp out \<longleftrightarrow> out \<noteq> [] \<and> last out \<noteq> [] \<and> last (last out) = EQUALS \<and> looks_quoted_printable (last out)"

definition is_folded :: "rstr \<Rightarrow> bool" where
  "is_folded raw \<longleftrightarrow> prefix [32] raw \<or> prefix [9] raw"

definition unfold_step :: "rstr \<Rightarrow> rstr list \<Rightarrow> rstr list" where
  "unfold_step raw out =
    (if is_folded raw \<and> out \<noteq> [] then butlast out @ [last out @ drop 1 raw]
     else if continues_qp out then butlast out @ [butlast (last out) @ raw]
     else if trim raw = [] then out
     else out @ [raw])"

definition unfold_lines :: "rstr \<Rightarrow> rstr list" where
  "unfold_lines crd = fold unfold_step (split_char NL (replace [CR, NL] [NL] crd)) []"

fun split_at_value_from :: "bool \<Rightarrow> rstr \<Rightarrow> (rstr \<times> rstr) option" where
  "split_at_value_from quoted [] = None"
| "split_at_value_from quoted (c # s) =
    (if c = DQUOTE then map_option (apfst ((#) c)) (split_at_value_from (\<not> quoted) s)
     else if c = 58 \<and> \<not> quoted then Some ([], s)
     else map_option (apfst ((#) c)) (split_at_value_from quoted s))"

definition split_at_value :: "rstr \<Rightarrow> (rstr \<times> rstr) option" where
  "split_at_value line = split_at_value_from False line"

definition push_first :: "rchar \<Rightarrow> rstr list \<Rightarrow> rstr list" where
  "push_first c ps = (case ps of [] \<Rightarrow> [[c]] | p # ps \<Rightarrow> (c # p) # ps)"

fun split_params_from :: "bool \<Rightarrow> rstr \<Rightarrow> rstr list" where
  "split_params_from quoted [] = [[]]"
| "split_params_from quoted (c # s) =
    (if c = DQUOTE then push_first c (split_params_from (\<not> quoted) s)
     else if c = SEMICOLON \<and> \<not> quoted then [] # split_params_from quoted s
     else push_first c (split_params_from quoted s))"

definition split_params :: "rstr \<Rightarrow> rstr list" where
  "split_params head = split_params_from False head"

definition parse_param :: "rstr \<Rightarrow> rstr \<times> rstr list" where
  "parse_param p = (case split_once EQUALS p of
     Some (key, vs) \<Rightarrow> (trim key,
       filter (\<lambda>v. v \<noteq> []) (map (\<lambda>v. trim_matches (\<lambda>c. c = DQUOTE) (trim v)) (split_char 44 vs)))
   | None \<Rightarrow> (trim p, []))"

definition parse_line :: "rstr \<Rightarrow> vline option" where
  "parse_line line = (case split_at_value line of
     None \<Rightarrow> None
   | Some (head, val) \<Rightarrow>
      (let parts = split_params head; name = trim (hd parts) in
       if name = [] then None
       else Some \<lparr>v_name = after_last (\<lambda>c. c = 46) name,
          v_params = map parse_param (filter (\<lambda>p. trim p \<noteq> []) (tl parts)), v_value = val\<rparr>))"

definition read_lines :: "rstr \<Rightarrow> vline list" where
  "read_lines crd = List.map_filter parse_line (unfold_lines crd)"

section \<open>Values\<close>

text \<open>\<open>u8::from_str_radix(.., 16)\<close> on two bytes; a plus sign is taken as one.\<close>

definition hex_value :: "nat \<Rightarrow> nat option" where
  "hex_value b = (if 48 \<le> b \<and> b \<le> 57 then Some (b - 48) else if 65 \<le> b \<and> b \<le> 70 then Some (b - 55)
     else if 97 \<le> b \<and> b \<le> 102 then Some (b - 87) else None)"

definition from_hex :: "nat \<Rightarrow> nat \<Rightarrow> nat option" where
  "from_hex a b = (if a = 43 then hex_value b
     else Option.bind (hex_value a) (\<lambda>x. map_option (\<lambda>y. x * 16 + y) (hex_value b)))"

text \<open>The loop of \<open>decode_quoted_printable\<close> over the bytes; the slice \<open>value[i + 1..i + 3]\<close> panics when an
  end of it is a continuation byte.\<close>

fun decode_qp_bytes :: "nat list \<Rightarrow> nat list option" where
  "decode_qp_bytes (c # a # b # r) =
    (if c = EQUALS then
       if cont a \<or> (r \<noteq> [] \<and> cont (hd r)) then None
       else (case from_hex a b of
         Some x \<Rightarrow> map_option ((#) x) (decode_qp_bytes r)
       | None \<Rightarrow> map_option ((#) c) (decode_qp_bytes (a # b # r)))
     else map_option ((#) c) (decode_qp_bytes (a # b # r)))"
| "decode_qp_bytes bs = Some bs"

definition decode_quoted_printable :: "rstr \<Rightarrow> rstr option" where
  "decode_quoted_printable v = map_option from_utf8_lossy (decode_qp_bytes (utf8_encode v))"

definition decode_value :: "vline \<Rightarrow> rstr option" where
  "decode_value l = (if has_param_word (lit ''ENCODING'') (lit ''QUOTED-PRINTABLE'') l
     then decode_quoted_printable (v_value l) else Some (v_value l))"

fun unescape :: "rstr \<Rightarrow> rstr" where
  "unescape [] = []"
| "unescape [c] = [c]"
| "unescape (c # d # s) =
    (if c \<noteq> BACKSLASH then c # unescape (d # s)
     else (if d = 110 \<or> d = 78 then NL else d) # unescape s)"

fun split_structured :: "rstr \<Rightarrow> rstr list" where
  "split_structured [] = [[]]"
| "split_structured [c] = (if c = BACKSLASH then [[]] else if c = SEMICOLON then [[], []] else [[c]])"
| "split_structured (c # d # s) =
    (if c = BACKSLASH then push_first c (push_first d (split_structured s))
     else if c = SEMICOLON then [] # split_structured (d # s)
     else push_first c (split_structured (d # s)))"

definition non_empty :: "rstr \<Rightarrow> rstr option" where
  "non_empty v = (if trim v \<noteq> [] then Some (trim v) else None)"

definition part :: "rstr list \<Rightarrow> nat \<Rightarrow> rstr" where
  "part ps i = (if i < length ps then unescape (ps ! i) else [])"

definition assemble_name :: "rstr list \<Rightarrow> rstr" where
  "assemble_name ps = join [32] (filter (\<lambda>s. s \<noteq> []) (map trim [part ps 3, part ps 1, part ps 2, part ps 0, part ps 4]))"

definition format_address :: "rstr list \<Rightarrow> rstr" where
  "format_address ps = join (lit '', '') (filter (\<lambda>s. s \<noteq> []) (map (\<lambda>p. trim (unescape p)) ps))"

definition NOISE_TYPES :: "rstr list" where
  "NOISE_TYPES = map lit [''internet'', ''voice'', ''pref'', ''other'', ''x-internet'']"

definition plain_kind :: "rstr list \<Rightarrow> rstr option" where
  "plain_kind ws = List.find (\<lambda>w. w \<notin> set NOISE_TYPES) ws"

definition email_kind :: "rstr list \<Rightarrow> rstr option" where
  "email_kind ws = plain_kind ws"

definition phone_kind :: "rstr list \<Rightarrow> rstr option" where
  "phone_kind ws = map_option (\<lambda>k. if k = lit ''cell'' \<or> k = lit ''iphone'' then lit ''mobile'' else k) (plain_kind ws)"

definition push_typed :: "typed_value list \<Rightarrow> vline \<Rightarrow> rstr \<Rightarrow> (rstr list \<Rightarrow> rstr option) \<Rightarrow> typed_value list" where
  "push_typed into l v knd =
    (let v = trim v in if v = [] then into else into @ [\<lparr>kind = knd (type_words l), tv_value = v\<rparr>])"

definition normalize_birthday :: "rstr \<Rightarrow> rstr" where
  "normalize_birthday v =
    (let date = takeWhile (\<lambda>c. c \<noteq> 84 \<and> c \<noteq> 116) (trim v) in
     if utf8_len date = 8 \<and> list_all is_ascii_digit date
     then take 4 date @ [45] @ take 2 (drop 4 date) @ [45] @ take 2 (drop 6 date) else date)"

fun first_nonempty :: "rstr list \<Rightarrow> rstr option" where
  "first_nonempty [] = None"
| "first_nonempty (p # ps) = (case non_empty (unescape p) of Some v \<Rightarrow> Some v | None \<Rightarrow> first_nonempty ps)"

section \<open>A card\<close>

definition set_property :: "vline \<Rightarrow> rstr \<Rightarrow> contact \<times> rstr list option \<Rightarrow> contact \<times> rstr list option" where
  "set_property l v st = (case st of (c, structured) \<Rightarrow>
    (let name = to_ascii_uppercase (v_name l) in
     if name = lit ''UID'' then (c\<lparr>uid := trim v\<rparr>, structured)
     else if name = lit ''FN'' then (c\<lparr>full_name := trim (unescape v)\<rparr>, structured)
     else if name = lit ''N'' then (c, Some (split_structured v))
     else if name = lit ''EMAIL'' then (c\<lparr>emails := push_typed (emails c) l (unescape v) email_kind\<rparr>, structured)
     else if name = lit ''TEL'' then (c\<lparr>phones := push_typed (phones c) l (unescape v) phone_kind\<rparr>, structured)
     else if name = lit ''ADR'' then
       (c\<lparr>addresses := push_typed (addresses c) l (format_address (split_structured v)) plain_kind\<rparr>, structured)
     else if name = lit ''ORG'' then (c\<lparr>organization := first_nonempty (split_structured v)\<rparr>, structured)
     else if name = lit ''TITLE'' \<or> name = lit ''ROLE'' then
       (c\<lparr>title := (case title c of Some t \<Rightarrow> Some t | None \<Rightarrow> Some (trim (unescape v)))\<rparr>, structured)
     else if name = lit ''NOTE'' then (c\<lparr>note_text := non_empty (unescape v)\<rparr>, structured)
     else if name = lit ''BDAY'' then (c\<lparr>birthday := non_empty (normalize_birthday v)\<rparr>, structured)
     else if name = lit ''PHOTO'' then (c\<lparr>has_photo := trim v \<noteq> []\<rparr>, structured)
     else (c, structured)))"

fun read_card :: "vline list \<Rightarrow> contact \<times> rstr list option \<Rightarrow> (contact \<times> rstr list option) option" where
  "read_card [] st = Some st"
| "read_card (l # ls) st = Option.bind (decode_value l) (\<lambda>v. read_card ls (set_property l v st))"

definition contact_default :: contact where
  "contact_default = \<lparr>account_id = [], account_label = [], address_book = [], uid = [], full_name = [],
     first_name = None, last_name = None, emails = [], phones = [], addresses = [], organization = None,
     title = None, note_text = None, birthday = None, has_photo = False\<rparr>"

definition name_parts :: "rstr list option \<Rightarrow> contact \<Rightarrow> contact" where
  "name_parts structured c = (case structured of
     None \<Rightarrow> c
   | Some ps \<Rightarrow>
      (let c = c\<lparr>last_name := (case ps of [] \<Rightarrow> None | p # _ \<Rightarrow> non_empty (unescape p)),
                first_name := (if 1 < length ps then non_empty (unescape (ps ! 1)) else None)\<rparr>
       in if full_name c = [] then c\<lparr>full_name := assemble_name ps\<rparr> else c))"

definition name_fallback :: "contact \<Rightarrow> contact" where
  "name_fallback c = (if full_name c = []
     then c\<lparr>full_name := (case emails c of e # _ \<Rightarrow> tv_value e
       | [] \<Rightarrow> (case organization c of Some x \<Rightarrow> x | None \<Rightarrow> []))\<rparr> else c)"

definition identifiable :: "contact \<Rightarrow> bool" where
  "identifiable c \<longleftrightarrow> full_name c \<noteq> [] \<or> emails c \<noteq> [] \<or> phones c \<noteq> []"

definition parse_lines :: "vline list \<Rightarrow> contact_source \<Rightarrow> rstr \<Rightarrow> contact option option" where
  "parse_lines ls src href =
    map_option (\<lambda>(c, structured).
        let c = name_fallback (name_parts structured c);
            c = (if uid c = [] then c\<lparr>uid := href\<rparr> else c)
        in if identifiable c then Some c else None)
      (read_card ls (contact_default\<lparr>account_id := src_account_id src, account_label := src_account_label src,
         address_book := src_address_book src\<rparr>, None))"

definition parse_card :: "rstr \<Rightarrow> contact_source \<Rightarrow> rstr \<Rightarrow> contact option option" where
  "parse_card crd src href = parse_lines (read_lines crd) src href"

fun parse_each :: "rstr list \<Rightarrow> contact_source \<Rightarrow> rstr \<Rightarrow> contact list option" where
  "parse_each [] src href = Some []"
| "parse_each (crd # cards) src href = (case parse_card crd src href of
     None \<Rightarrow> None
   | Some None \<Rightarrow> parse_each cards src href
   | Some (Some c) \<Rightarrow> map_option ((#) c) (parse_each cards src href))"

definition parse_contacts :: "rstr \<Rightarrow> contact_source \<Rightarrow> rstr \<Rightarrow> contact list option" where
  "parse_contacts vcf src href = parse_each (split_cards vcf) src href"

section \<open>Searching\<close>

definition digits :: "rstr \<Rightarrow> rstr" where
  "digits v = filter is_ascii_digit v"

definition matches :: "(rstr \<Rightarrow> rstr) \<Rightarrow> contact \<Rightarrow> rstr \<Rightarrow> bool" where
  "matches to_lowercase c needle =
    (let needle = to_lowercase (trim needle);
         has = (\<lambda>s. contains needle (to_lowercase s));
         has_opt = (\<lambda>t. case t of Some s \<Rightarrow> has s | None \<Rightarrow> False);
         wanted = digits needle;
         by_number = (\<lambda>p. wanted \<noteq> [] \<and> contains wanted (digits (tv_value p)))
     in needle = [] \<or> has (full_name c) \<or> has_opt (organization c) \<or> has_opt (title c) \<or> has_opt (note_text c) \<or>
        list_ex (\<lambda>e. has (tv_value e)) (emails c) \<or> list_ex (\<lambda>a. has (tv_value a)) (addresses c) \<or>
        list_ex (\<lambda>p. has (tv_value p) \<or> by_number p) (phones c))"

end
