(* ===== verification/Vcard_Props.thy ===== *)
theory Vcard_Props
  imports Vcard
begin

text \<open>
  vCards: what is written escaped is read back, a document's cards are found whatever is missing at
  their ends, an unreadable line costs itself, and the one input that costs everything, an escape
  whose second character is not ASCII.
\<close>

section \<open>Quoted-printable\<close>

lemma decode_qp_plain: "c \<noteq> EQUALS \<Longrightarrow> decode_qp_bytes (c # s) = map_option ((#) c) (decode_qp_bytes s)"
  by (cases s rule: decode_qp_bytes.cases) simp_all

lemma decode_qp_plain_prefix: "EQUALS \<notin> set p \<Longrightarrow> decode_qp_bytes (p @ q) = map_option ((@) p) (decode_qp_bytes q)"
  by (induction p) (cases "decode_qp_bytes q"; auto simp: decode_qp_plain)+

definition hex_digit :: "nat \<Rightarrow> nat" where
  "hex_digit n = (if n < 10 then 48 + n else 55 + n)"

definition qp_encode :: "rstr \<Rightarrow> rstr" where
  "qp_encode s = concat (map (\<lambda>b. [EQUALS, hex_digit (b div 16), hex_digit (b mod 16)]) (utf8_encode s))"

lemma hex_value_digit: "n < 16 \<Longrightarrow> hex_value (hex_digit n) = Some n"
  by (auto simp: hex_value_def hex_digit_def)

lemma hex_digit_ascii: "n < 16 \<Longrightarrow> 47 < hex_digit n \<and> hex_digit n < 0x80"
  by (auto simp: hex_digit_def)

lemma decode_qp_encoded:
  assumes "\<forall>b\<in>set bs. b < 256"
  shows "decode_qp_bytes (concat (map (\<lambda>b. [EQUALS, hex_digit (b div 16), hex_digit (b mod 16)]) bs)) = Some bs"
  using assms
proof (induction bs)
  case (Cons b bs)
  let ?r = "concat (map (\<lambda>b. [EQUALS, hex_digit (b div 16), hex_digit (b mod 16)]) bs)"
  have b: "b div 16 < 16" "b mod 16 < 16" using Cons.prems by auto
  have "\<not> cont (hex_digit (b div 16))" using hex_digit_ascii [OF b(1)] by (simp add: cont_def)
  moreover have "\<not> (?r \<noteq> [] \<and> cont (hd ?r))" by (cases bs) (simp_all add: cont_def)
  moreover have "from_hex (hex_digit (b div 16)) (hex_digit (b mod 16)) = Some b"
    using hex_digit_ascii [OF b(1)] by (simp add: from_hex_def hex_value_digit [OF b(1)] hex_value_digit [OF b(2)])
  ultimately show ?case using Cons by simp
qed simp

lemma utf8_encode_byte: "scalar c \<Longrightarrow> b \<in> set (utf8_encode_char c) \<Longrightarrow> b < 256"
  by (auto simp: utf8_encode_char_def scalar_def split: if_splits)

lemma utf8_encode_ascii: "\<forall>c\<in>set s. c < 0x80 \<Longrightarrow> utf8_encode s = s"
  by (induction s) (simp_all add: utf8_encode_def utf8_encode_char_def)

lemma utf8_encode_append: "utf8_encode (a @ b) = utf8_encode a @ utf8_encode b"
  by (simp add: utf8_encode_def)

lemma utf8_encode_no_ascii: "x < 0x80 \<Longrightarrow> x \<notin> set s \<Longrightarrow> x \<notin> set (utf8_encode s)"
  by (auto simp: utf8_encode_def utf8_encode_char_def split: if_splits)

lemma multibyte:
  assumes "0x80 \<le> c" obtains c0 c1 r where "utf8_encode_char c = c0 # c1 # r" "cont c1" "\<not> cont c0"
proof -
  have m: "m mod 64 \<le> 63" for m :: nat using mod_less_divisor [of 64 m] by linarith
  consider "c < 0x800" | "0x800 \<le> c" "c < 0x10000" | "0x10000 \<le> c" by linarith
  then show ?thesis
  proof cases
    case 1
    show ?thesis by (rule that [of "0xC0 + c div 64" "0x80 + c mod 64" "[]"]) (use 1 assms m in \<open>simp_all add: utf8_encode_char_def cont_def\<close>)
  next
    case 2
    show ?thesis by (rule that [of "0xE0 + c div 4096" "0x80 + c div 64 mod 64" "[0x80 + c mod 64]"])
        (use 2 m in \<open>simp_all add: utf8_encode_char_def cont_def\<close>)
  next
    case 3
    show ?thesis by (rule that [of "0xF0 + c div 262144" "0x80 + c div 4096 mod 64" "[0x80 + c div 64 mod 64, 0x80 + c mod 64]"])
        (use 3 m in \<open>simp_all add: utf8_encode_char_def cont_def\<close>)
  qed
qed

lemma decode_escape_split:
  assumes "0x80 \<le> c" and "x < 0x80" and "EQUALS \<notin> set a"
  shows "decode_quoted_printable (a @ EQUALS # x # c # b) = None"
proof -
  obtain c0 c1 r where c: "utf8_encode_char c = c0 # c1 # r" "cont c1" "\<not> cont c0"
    by (rule multibyte [OF assms(1)])
  have "utf8_encode (EQUALS # x # c # b) = EQUALS # x # c0 # c1 # r @ utf8_encode b"
    using c(1) assms(2) by (simp add: utf8_encode_Cons) (simp add: utf8_encode_char_def)
  moreover have "decode_qp_bytes (EQUALS # x # c0 # c1 # r @ utf8_encode b) = None" using c(2) by simp
  ultimately show ?thesis using utf8_encode_no_ascii [OF _ assms(3)]
    by (simp add: decode_quoted_printable_def utf8_encode_append decode_qp_plain_prefix)
qed

section \<open>Structured values\<close>

definition escape :: "rstr \<Rightarrow> rstr" where
  "escape s = concat (map (\<lambda>c. if c = NL then [BACKSLASH, 110]
     else if c = BACKSLASH \<or> c = SEMICOLON \<or> c = 44 then [BACKSLASH, c] else [c]) s)"

lemma unescape_plain: "c \<noteq> BACKSLASH \<Longrightarrow> unescape (c # s) = c # unescape s"
  by (cases s) simp_all

lemma unescape_escape: "unescape (escape s) = s"
  by (induction s) (auto simp: escape_def unescape_plain)

lemma split_structured_plain: "c \<noteq> BACKSLASH \<Longrightarrow> c \<noteq> SEMICOLON \<Longrightarrow> split_structured (c # s) = push_first c (split_structured s)"
  by (cases s) (simp_all add: push_first_def)

lemma split_structured_sep: "split_structured (SEMICOLON # s) = [] # split_structured s"
  by (cases s) simp_all

lemma split_structured_escaped:
  "split_structured t = q # qs \<Longrightarrow> split_structured (escape p @ t) = (escape p @ q) # qs"
  by (induction p) (auto simp: escape_def split_structured_plain push_first_def)

lemma split_structured_join:
  "ps \<noteq> [] \<Longrightarrow> split_structured (join [SEMICOLON] (map escape ps)) = map escape ps"
proof (induction ps rule: list_nonempty_induct)
  case (single p)
  have "split_structured [] = [] # []" by simp
  from split_structured_escaped [OF this, of p] show ?case by simp
next
  case (cons p ps)
  have "split_structured (SEMICOLON # join [SEMICOLON] (map escape ps)) = [] # map escape ps"
    using cons.IH by (simp add: split_structured_sep)
  from split_structured_escaped [OF this, of p] cons.hyps show ?case by (simp add: join_Cons)
qed

section \<open>Cards\<close>

definition text_of :: "rstr list \<Rightarrow> rstr" where
  "text_of ls = concat (map (\<lambda>l. l @ [NL]) ls)"

lemma split_text_of: "\<forall>l\<in>set ls. NL \<notin> set l \<Longrightarrow> split_char NL (text_of ls) = ls @ [[]]"
  by (induction ls) (simp_all add: text_of_def split_char_append)

lemma rust_lines_text_of:
  assumes "\<forall>l\<in>set ls. NL \<notin> set l \<and> CR \<notin> set l" shows "rust_lines (text_of ls) = ls"
proof -
  have "drop_cr l = l" if "l \<in> set ls" for l
    using assms that last_in_set [of l] by (fastforce simp: drop_cr_def)
  then show ?thesis using assms by (simp add: rust_lines_def split_text_of Let_def map_idI)
qed

definition is_begin :: "rstr \<Rightarrow> bool" where "is_begin l \<longleftrightarrow> eq_ignore_ascii_case (trim l) (lit ''BEGIN:VCARD'')"
definition is_end :: "rstr \<Rightarrow> bool" where "is_end l \<longleftrightarrow> eq_ignore_ascii_case (trim l) (lit ''END:VCARD'')"

text \<open>A card as written: its lines, and whether the line that ends it is there.\<close>

definition card_lines :: "rstr list \<times> bool \<Rightarrow> rstr list" where
  "card_lines = (\<lambda>(ls, closed). [lit ''BEGIN:VCARD''] @ ls @ (if closed then [lit ''END:VCARD''] else []))"

lemma begin_marks: "is_begin (lit ''BEGIN:VCARD'')" "\<not> is_begin (lit ''END:VCARD'')" "is_end (lit ''END:VCARD'')"
  by (simp_all add: is_begin_def is_end_def lit_def trim_def trim_matches_def trim_end_matches_def trim_start_matches_def
    is_whitespace_def eq_ignore_ascii_case_def to_ascii_lowercase_def to_ascii_lowercase_char_def)

lemma card_step_eq:
  "is_begin l \<Longrightarrow> card_step l (cards, cur) = (cards @ (case cur of Some c \<Rightarrow> [c] | None \<Rightarrow> []), Some [])"
  "\<not> is_begin l \<Longrightarrow> is_end l \<Longrightarrow> card_step l (cards, cur) = (cards @ (case cur of Some c \<Rightarrow> [c] | None \<Rightarrow> []), None)"
  "\<not> is_begin l \<Longrightarrow> \<not> is_end l \<Longrightarrow> card_step l (cards, cur) = (cards, map_option (\<lambda>c. c @ l @ [NL]) cur)"
  by (auto simp: card_step_def is_begin_def is_end_def split: option.splits)

lemma card_body:
  "\<forall>l\<in>set ls. \<not> is_begin l \<and> \<not> is_end l \<Longrightarrow> fold card_step ls (cards, Some c) = (cards, Some (c @ text_of ls))"
  by (induction ls arbitrary: c) (simp_all add: card_step_eq text_of_def)

lemma card_read:
  assumes "\<forall>l\<in>set ls. \<not> is_begin l \<and> \<not> is_end l"
  shows "fold card_step (card_lines (ls, closed)) (cards, cur) =
    (let cards = cards @ (case cur of Some c \<Rightarrow> [c] | None \<Rightarrow> [])
     in if closed then (cards @ [text_of ls], None) else (cards, Some (text_of ls)))"
  using card_body [OF assms] by (simp add: card_lines_def card_step_eq begin_marks Let_def)

lemma cards_read:
  "\<forall>(ls, closed)\<in>set items. \<forall>l\<in>set ls. \<not> is_begin l \<and> \<not> is_end l \<Longrightarrow>
    (case fold card_step (concat (map card_lines items)) (cards, cur) of
       (cards, Some c) \<Rightarrow> cards @ [c] | (cards, None) \<Rightarrow> cards) =
    cards @ (case cur of Some c \<Rightarrow> [c] | None \<Rightarrow> []) @ map (\<lambda>(ls, _). text_of ls) items"
proof (induction items arbitrary: cards cur)
  case Nil
  then show ?case by (simp split: option.splits)
next
  case (Cons item items)
  obtain ls closed where item: "item = (ls, closed)" by (cases item)
  with Cons.prems have ls: "\<forall>l\<in>set ls. \<not> is_begin l \<and> \<not> is_end l" by auto
  have items: "\<forall>(ls, closed)\<in>set items. \<forall>l\<in>set ls. \<not> is_begin l \<and> \<not> is_end l" using Cons.prems by auto
  show ?case
  proof (cases closed)
    case True
    then show ?thesis by (simp add: item card_read [OF ls] Let_def Cons.IH [OF items])
  next
    case False
    then show ?thesis by (simp add: item card_read [OF ls] Let_def Cons.IH [OF items])
  qed
qed

section \<open>Unreadable lines\<close>

lemma unfold_step_last:
  assumes "x \<noteq> []" shows "unfold_step raw (p @ x) = p @ unfold_step raw x" and "unfold_step raw x \<noteq> []"
  using assms by (simp_all add: unfold_step_def continues_qp_def butlast_append)

lemma unfold_steps_last: "x \<noteq> [] \<Longrightarrow> fold unfold_step ls (p @ x) = p @ fold unfold_step ls x"
proof (induction ls arbitrary: x)
  case (Cons l ls)
  show ?case using Cons.IH [OF unfold_step_last(2) [OF Cons.prems, of l]] by (simp add: unfold_step_last(1) [OF Cons.prems])
qed simp

lemma replace_absent: "c \<notin> set s \<Longrightarrow> replace (c # p) new s = s"
  by (induction s) (simp_all add: replace_eval)

lemma unfold_text_of:
  assumes "\<forall>l\<in>set ls. NL \<notin> set l \<and> CR \<notin> set l"
  shows "unfold_lines (text_of ls) = fold unfold_step (ls @ [[]]) []"
proof -
  have "CR \<notin> set (text_of ls)" using assms by (auto simp: text_of_def)
  then show ?thesis using assms by (simp add: unfold_lines_def replace_absent split_text_of)
qed

text \<open>A line on its own: not the continuation of one, and nothing that the next could continue.\<close>

definition stands_alone :: "rstr \<Rightarrow> bool" where
  "stands_alone l \<longleftrightarrow> \<not> is_folded l \<and> trim l \<noteq> [] \<and> \<not> continues_qp [l]"

lemma bad_line_dropped:
  assumes "stands_alone bad" and "parse_line bad = None" and "\<not> continues_qp out"
    and "case ys of [] \<Rightarrow> True | y # _ \<Rightarrow> \<not> is_folded y \<and> trim y \<noteq> []"
  shows "List.map_filter parse_line (fold unfold_step (bad # ys @ [[]]) out) = List.map_filter parse_line (fold unfold_step (ys @ [[]]) out)"
proof -
  have bad: "unfold_step bad out = out @ [bad]" "\<not> continues_qp (out @ [bad])"
  proof -
    have "continues_qp (out @ [bad]) = continues_qp [bad]" by (simp add: continues_qp_def)
    then show "unfold_step bad out = out @ [bad]" "\<not> continues_qp (out @ [bad])"
      using assms(1,3) by (simp_all add: unfold_step_def stands_alone_def)
  qed
  have split: "List.map_filter f (a @ b) = List.map_filter f a @ List.map_filter f b" for f :: "rstr \<Rightarrow> vline option" and a b
    by (simp add: List.map_filter_def)
  have one: "List.map_filter parse_line [bad] = []" using assms(2) by (simp add: List.map_filter_def)
  show ?thesis
  proof (cases ys)
    case Nil
    have "unfold_step [] x = x" if "\<not> continues_qp x" for x
      using that by (simp add: unfold_step_def is_folded_def trim_def trim_matches_def trim_end_matches_def trim_start_matches_def)
    from this [OF bad(2)] this [OF assms(3)] bad(1) Nil show ?thesis by (simp only: split one fold_simps append_Nil append_Nil2 id_apply)
  next
    case (Cons y zs)
    have y: "unfold_step y x = x @ [y]" if "\<not> continues_qp x" for x
      using that assms(4) Cons by (simp add: unfold_step_def)
    have "fold unfold_step (bad # ys @ [[]]) out = fold unfold_step (zs @ [[]]) ((out @ [bad]) @ [y])"
      using Cons bad y [OF bad(2)] by simp
    also have "\<dots> = out @ [bad] @ fold unfold_step (zs @ [[]]) [y]"
      using unfold_steps_last [of "[y]" "zs @ [[]]" "out @ [bad]"] by simp
    finally have "List.map_filter parse_line (fold unfold_step (bad # ys @ [[]]) out) =
        List.map_filter parse_line out @ List.map_filter parse_line (fold unfold_step (zs @ [[]]) [y])"
      by (simp only: split one append_Nil)
    moreover have "fold unfold_step (ys @ [[]]) out = out @ fold unfold_step (zs @ [[]]) [y]"
      using Cons y [OF assms(3)] unfold_steps_last [of "[y]" "zs @ [[]]" out] by simp
    ultimately show ?thesis by (simp only: split)
  qed
qed

section \<open>What a contact is\<close>

lemma dropWhile_id: "s = [] \<or> \<not> p (hd s) \<Longrightarrow> dropWhile p s = s"
  by (cases s) auto

lemma trim_trim: "trim (trim s) = trim s"
proof -
  define t where "t = dropWhile is_whitespace s"
  define b where "b = rev (dropWhile is_whitespace (rev t))"
  have b: "trim s = b" by (simp add: trim_def trim_matches_def trim_end_matches_def trim_start_matches_def b_def t_def)
  have "prefix b t" unfolding b_def by (metis prefixI rev_append rev_rev_ident takeWhile_dropWhile_id)
  then obtain zs where t: "t = b @ zs" by (auto simp: prefix_def)
  have "b = [] \<or> \<not> is_whitespace (hd b)"
  proof (rule disjCI)
    assume "\<not> \<not> is_whitespace (hd b)"
    show "b = []"
    proof (rule ccontr)
      assume "b \<noteq> []"
      then have "t \<noteq> []" "hd b = hd t" by (simp_all add: t)
      then show False using hd_dropWhile [of is_whitespace s] \<open>\<not> \<not> is_whitespace (hd b)\<close> unfolding t_def by metis
    qed
  qed
  moreover have "rev b = [] \<or> \<not> is_whitespace (hd (rev b))"
    using hd_dropWhile [of is_whitespace "rev t"] by (auto simp: b_def)
  ultimately have "trim b = b"
    by (simp add: trim_def trim_matches_def trim_end_matches_def trim_start_matches_def dropWhile_id)
  then show ?thesis by (simp add: b)
qed

definition tidy :: "typed_value \<Rightarrow> bool" where
  "tidy t \<longleftrightarrow> tv_value t \<noteq> [] \<and> trim (tv_value t) = tv_value t \<and> (case kind t of Some k \<Rightarrow> k \<notin> set NOISE_TYPES | None \<Rightarrow> True)"

definition contact_ok :: "contact_source \<Rightarrow> contact \<Rightarrow> bool" where
  "contact_ok src c \<longleftrightarrow> account_id c = src_account_id src \<and> account_label c = src_account_label src \<and>
     address_book c = src_address_book src \<and> list_all tidy (emails c @ phones c @ addresses c)"

lemma plain_kind_quiet: "plain_kind ws = Some k \<Longrightarrow> k \<notin> set NOISE_TYPES"
  by (auto simp: plain_kind_def find_Some_iff)

lemma phone_kind_quiet: "phone_kind ws = Some k \<Longrightarrow> k \<notin> set NOISE_TYPES"
proof -
  have "lit ''mobile'' \<notin> set NOISE_TYPES" by (simp add: NOISE_TYPES_def lit_def)
  then show "phone_kind ws = Some k \<Longrightarrow> k \<notin> set NOISE_TYPES"
    using plain_kind_quiet by (auto simp: phone_kind_def split: if_splits)
qed

lemma push_typed_tidy:
  "list_all tidy xs \<Longrightarrow> (\<And>ws k. knd ws = Some k \<Longrightarrow> k \<notin> set NOISE_TYPES) \<Longrightarrow> list_all tidy (push_typed xs l v knd)"
  by (auto simp: push_typed_def Let_def tidy_def trim_trim split: option.splits)

lemma set_property_ok: "contact_ok src c \<Longrightarrow> set_property l v (c, structured) = (c', structured') \<Longrightarrow> contact_ok src c'"
  using push_typed_tidy [where knd = email_kind] push_typed_tidy [where knd = phone_kind] push_typed_tidy [where knd = plain_kind]
    plain_kind_quiet phone_kind_quiet
  by (auto simp: set_property_def contact_ok_def email_kind_def Let_def split: if_splits)

lemma read_card_ok:
  "read_card ls (c, structured) = Some (c', structured') \<Longrightarrow> contact_ok src c \<Longrightarrow> contact_ok src c'"
proof (induction ls arbitrary: c structured)
  case (Cons l ls)
  then obtain v where v: "decode_value l = Some v" by (cases "decode_value l") auto
  obtain d sd where d: "set_property l v (c, structured) = (d, sd)" by (cases "set_property l v (c, structured)")
  with Cons v show ?case using set_property_ok by fastforce
qed simp

lemma naming_ok: "contact_ok src c \<Longrightarrow> contact_ok src (name_fallback (name_parts structured c))"
  by (auto simp: contact_ok_def name_fallback_def name_parts_def Let_def split: option.splits)

lemma parse_lines_ok:
  assumes "parse_lines ls src href = Some (Some c)"
  shows "contact_ok src c \<and> identifiable c \<and> (href \<noteq> [] \<longrightarrow> uid c \<noteq> [])"
proof -
  let ?c0 = "contact_default\<lparr>account_id := src_account_id src, account_label := src_account_label src, address_book := src_address_book src\<rparr>"
  obtain d structured where r: "read_card ls (?c0, None) = Some (d, structured)"
    using assms by (auto simp: parse_lines_def)
  have "contact_ok src ?c0" by (simp add: contact_ok_def contact_default_def)
  from naming_ok [OF read_card_ok [OF r this], of structured] assms r show ?thesis
    by (auto simp: parse_lines_def Let_def contact_ok_def identifiable_def split: if_splits)
qed

lemma parse_each_ok:
  "parse_each cards src href = Some cs \<Longrightarrow> c \<in> set cs \<Longrightarrow> \<exists>crd\<in>set cards. parse_card crd src href = Some (Some c)"
  by (induction cards arbitrary: cs) (auto split: option.splits)

lemma read_card_panics: "l \<in> set ls \<Longrightarrow> decode_value l = None \<Longrightarrow> read_card ls st = None"
proof (induction ls arbitrary: st)
  case (Cons a ls)
  obtain c d where st: "set_property a (the (decode_value a)) st = (c, d)"
    by (cases "set_property a (the (decode_value a)) st")
  show ?case
  proof (cases "decode_value a")
    case (Some v)
    with Cons st show ?thesis by auto
  qed simp
qed simp

lemma parse_each_panics: "crd \<in> set cards \<Longrightarrow> parse_card crd src href = None \<Longrightarrow> parse_each cards src href = None"
  by (induction cards) (auto split: option.splits)

section \<open>The properties\<close>



text \<open>A document of cards, each between its \<open>BEGIN\<close> line and, if it is there, its \<open>END\<close> line, is split
  into exactly the cards' lines, in order: a card whose end is missing does not swallow the next.\<close>
theorem cards_found:
  assumes "\<forall>(ls, closed)\<in>set items. \<forall>l\<in>set ls. NL \<notin> set l \<and> CR \<notin> set l \<and> \<not> is_begin l \<and> \<not> is_end l"
  shows "split_cards (text_of (concat (map card_lines items))) = map (\<lambda>(ls, _). text_of ls) items"
proof -
  have marks: "NL \<notin> set (lit ''BEGIN:VCARD'')" "CR \<notin> set (lit ''BEGIN:VCARD'')" "NL \<notin> set (lit ''END:VCARD'')" "CR \<notin> set (lit ''END:VCARD'')"
    by (simp_all add: lit_def)
  have "\<forall>l\<in>set (concat (map card_lines items)). NL \<notin> set l \<and> CR \<notin> set l"
    using assms marks by (auto simp: card_lines_def split: if_splits)
  then have lines: "rust_lines (text_of (concat (map card_lines items))) = concat (map card_lines items)"
    by (rule rust_lines_text_of)
  have "\<forall>(ls, closed)\<in>set items. \<forall>l\<in>set ls. \<not> is_begin l \<and> \<not> is_end l" using assms by auto
  from cards_read [OF this, of "[]" None] show ?thesis unfolding split_cards_def lines by simp
qed

theorem cards_found_witness:
  "split_cards (text_of [lit ''BEGIN:VCARD'', lit ''FN:A'', lit ''BEGIN:VCARD'', lit ''FN:B'', lit ''END:VCARD'']) =
     [text_of [lit ''FN:A''], text_of [lit ''FN:B'']]"
proof -
  have l: "\<not> is_begin (lit ''FN:A'')" "\<not> is_end (lit ''FN:A'')" "\<not> is_begin (lit ''FN:B'')" "\<not> is_end (lit ''FN:B'')"
    by (simp_all add: is_begin_def is_end_def lit_def trim_def trim_matches_def trim_end_matches_def trim_start_matches_def
      is_whitespace_def eq_ignore_ascii_case_def to_ascii_lowercase_def to_ascii_lowercase_char_def)
  have nl: "NL \<notin> set (lit ''FN:A'')" "CR \<notin> set (lit ''FN:A'')" "NL \<notin> set (lit ''FN:B'')" "CR \<notin> set (lit ''FN:B'')"
    by (simp_all add: lit_def)
  show ?thesis using cards_found [of "[([lit ''FN:A''], False), ([lit ''FN:B''], True)]"] l nl by (simp add: card_lines_def)
qed

text \<open>A line of a card that cannot be read costs that line: with or without it the card's other lines are
  the same, and so is the contact, when the line stands alone, does not end an open quoted-printable
  line, and is followed by a line that is not folded.\<close>
theorem bad_line_costs_itself:
  assumes "stands_alone bad" and "parse_line bad = None"
    and "\<forall>l\<in>set (xs @ bad # ys). NL \<notin> set l \<and> CR \<notin> set l"
    and "\<not> continues_qp (fold unfold_step xs [])"
    and "case ys of [] \<Rightarrow> True | y # _ \<Rightarrow> \<not> is_folded y \<and> trim y \<noteq> []"
  shows "read_lines (text_of (xs @ bad # ys)) = read_lines (text_of (xs @ ys)) \<and>
    parse_card (text_of (xs @ bad # ys)) src href = parse_card (text_of (xs @ ys)) src href"
proof -
  have "\<forall>l\<in>set (xs @ ys). NL \<notin> set l \<and> CR \<notin> set l" using assms(3) by auto
  from unfold_text_of [OF this] unfold_text_of [OF assms(3)]
  have "unfold_lines (text_of (xs @ ys)) = fold unfold_step (ys @ [[]]) (fold unfold_step xs [])"
    "unfold_lines (text_of (xs @ bad # ys)) = fold unfold_step (bad # ys @ [[]]) (fold unfold_step xs [])" by simp_all
  with bad_line_dropped [OF assms(1,2,4,5)] show ?thesis by (simp only: parse_card_def read_lines_def)
qed

theorem bad_line_costs_itself_witness:
  "read_lines (text_of [lit ''no colon'', lit ''FN:A'']) = read_lines (text_of [lit ''FN:A''])"
proof -
  have a: "stands_alone (lit ''no colon'')"
    by (simp add: stands_alone_def is_folded_def continues_qp_def lit_def trim_def trim_matches_def trim_end_matches_def
      trim_start_matches_def is_whitespace_def)
  have b: "parse_line (lit ''no colon'') = None" by (simp add: parse_line_def split_at_value_def lit_def)
  have c: "\<forall>l\<in>set ([] @ lit ''no colon'' # [lit ''FN:A'']). NL \<notin> set l \<and> CR \<notin> set l" by (simp add: lit_def)
  have d: "\<not> continues_qp (fold unfold_step [] [])" by (simp add: continues_qp_def)
  have e: "case [lit ''FN:A''] of [] \<Rightarrow> True | y # _ \<Rightarrow> \<not> is_folded y \<and> trim y \<noteq> []"
    by (simp add: is_folded_def lit_def trim_def trim_matches_def trim_end_matches_def trim_start_matches_def is_whitespace_def)
  from bad_line_costs_itself [OF a b c d e] show ?thesis by simp
qed

text \<open>An escape whose second character is not ASCII costs every contact of the document: the decoder slices
  the text inside that character and panics, whatever the property the line belongs to.\<close>
theorem split_escape_loses_all:
  assumes "crd \<in> set (split_cards vcf)" and "l \<in> set (read_lines crd)"
    and "has_param_word (lit ''ENCODING'') (lit ''QUOTED-PRINTABLE'') l"
    and "v_value l = a @ EQUALS # x # c # b" and "EQUALS \<notin> set a" and "x < 0x80" and "0x80 \<le> c"
  shows "parse_contacts vcf src href = None"
proof -
  have "decode_value l = None" using decode_escape_split [OF assms(7,6,5)] assms(3,4) by (simp add: decode_value_def)
  from read_card_panics [OF assms(2) this] have "parse_card crd src href = None"
    by (simp add: parse_card_def parse_lines_def)
  from parse_each_panics [OF assms(1) this] show ?thesis by (simp add: parse_contacts_def)
qed

definition demo_source :: contact_source where
  "demo_source = \<lparr>src_account_id = [], src_account_label = [], src_address_book = []\<rparr>"

definition demo_card :: rstr where
  "demo_card = text_of [lit ''FN:A'', lit ''NOTE;QUOTED-PRINTABLE:=a'' @ [0xE9]]"

lemma demo_read:
  "read_lines demo_card = [\<lparr>v_name = lit ''FN'', v_params = [], v_value = lit ''A''\<rparr>,
     \<lparr>v_name = lit ''NOTE'', v_params = [(lit ''QUOTED-PRINTABLE'', [])], v_value = lit ''=a'' @ [0xE9]\<rparr>]"
proof -
  have p: "\<forall>l\<in>set [lit ''FN:A'', lit ''NOTE;QUOTED-PRINTABLE:=a'' @ [0xE9]]. NL \<notin> set l \<and> CR \<notin> set l" by (simp add: lit_def)
  have u: "unfold_lines demo_card = [lit ''FN:A'', lit ''NOTE;QUOTED-PRINTABLE:=a'' @ [0xE9]]"
    unfolding demo_card_def unfold_text_of [OF p]
    by (simp add: unfold_step_def is_folded_def continues_qp_def lit_def trim_def trim_matches_def trim_end_matches_def
      trim_start_matches_def is_whitespace_def)
  show ?thesis unfolding read_lines_def u
    by (simp add: List.map_filter_def parse_line_def split_at_value_def split_params_def push_first_def lit_def trim_def trim_matches_def
      trim_end_matches_def trim_start_matches_def is_whitespace_def after_last_def parse_param_def split_once_def)
qed

theorem split_escape_loses_all_witness:
  "parse_contacts (text_of (card_lines ([lit ''FN:A'', lit ''NOTE;QUOTED-PRINTABLE:=a'' @ [0xE9]], True))) demo_source [] = None"
proof (rule split_escape_loses_all)
  have l: "\<forall>(ls, closed)\<in>set [([lit ''FN:A'', lit ''NOTE;QUOTED-PRINTABLE:=a'' @ [0xE9]], True)].
      \<forall>l\<in>set ls. \<not> is_begin l \<and> \<not> is_end l"
    by (simp add: is_begin_def is_end_def lit_def trim_def trim_matches_def trim_end_matches_def trim_start_matches_def
      is_whitespace_def eq_ignore_ascii_case_def to_ascii_lowercase_def to_ascii_lowercase_char_def)
  have n: "\<forall>l\<in>set (card_lines ([lit ''FN:A'', lit ''NOTE;QUOTED-PRINTABLE:=a'' @ [0xE9]], True)). NL \<notin> set l \<and> CR \<notin> set l"
    by (simp add: card_lines_def lit_def)
  show "demo_card \<in> set (split_cards (text_of (card_lines ([lit ''FN:A'', lit ''NOTE;QUOTED-PRINTABLE:=a'' @ [0xE9]], True))))"
    using cards_read [OF l, of "[]" None] by (simp add: split_cards_def rust_lines_text_of [OF n] demo_card_def)
  show "\<lparr>v_name = lit ''NOTE'', v_params = [(lit ''QUOTED-PRINTABLE'', [])], v_value = lit ''=a'' @ [0xE9]\<rparr> \<in> set (read_lines demo_card)"
    by (simp add: demo_read)
  show "has_param_word (lit ''ENCODING'') (lit ''QUOTED-PRINTABLE'')
      \<lparr>v_name = lit ''NOTE'', v_params = [(lit ''QUOTED-PRINTABLE'', [])], v_value = lit ''=a'' @ [0xE9]\<rparr>"
    by (simp add: has_param_word_def eq_ignore_ascii_case_def)
  show "v_value \<lparr>v_name = lit ''NOTE'', v_params = [(lit ''QUOTED-PRINTABLE'', [])], v_value = lit ''=a'' @ [0xE9]\<rparr> = [] @ EQUALS # 97 # 0xE9 # []"
    by (simp add: lit_def)
qed simp_all

text \<open>C33.
  Every contact a document gives carries the account it came from, has a name, an e-mail or a phone
  and, when the resource has a path, a \<open>uid\<close>; its e-mails, phones and addresses are not empty, have no
  blanks around them and no kind that says nothing.\<close>
theorem contacts_identified:
  assumes "parse_contacts vcf src href = Some cs" and "c \<in> set cs"
  shows "account_id c = src_account_id src \<and> account_label c = src_account_label src \<and> address_book c = src_address_book src \<and>
    list_all tidy (emails c @ phones c @ addresses c) \<and> (full_name c \<noteq> [] \<or> emails c \<noteq> [] \<or> phones c \<noteq> []) \<and>
    (href \<noteq> [] \<longrightarrow> uid c \<noteq> [])"
proof -
  from parse_each_ok [OF assms [unfolded parse_contacts_def]] obtain crd where "parse_card crd src href = Some (Some c)" by blast
  from parse_lines_ok [OF this [unfolded parse_card_def]] show ?thesis by (simp add: contact_ok_def identifiable_def)
qed

theorem contacts_identified_witness:
  "\<exists>c. parse_contacts (text_of (card_lines ([lit ''FN:A''], True))) demo_source (lit ''x'') = Some [c] \<and> uid c \<noteq> []"
proof -
  have l: "\<forall>(ls, closed)\<in>set [([lit ''FN:A''], True)]. \<forall>l\<in>set ls. \<not> is_begin l \<and> \<not> is_end l"
    by (simp add: is_begin_def is_end_def lit_def trim_def trim_matches_def trim_end_matches_def trim_start_matches_def
      is_whitespace_def eq_ignore_ascii_case_def to_ascii_lowercase_def to_ascii_lowercase_char_def)
  have n: "\<forall>l\<in>set (card_lines ([lit ''FN:A''], True)). NL \<notin> set l \<and> CR \<notin> set l" by (simp add: card_lines_def lit_def)
  have p: "\<forall>l\<in>set [lit ''FN:A'']. NL \<notin> set l \<and> CR \<notin> set l" by (simp add: lit_def)
  have s: "split_cards (text_of (card_lines ([lit ''FN:A''], True))) = [text_of [lit ''FN:A'']]"
    using cards_read [OF l, of "[]" None] by (simp add: split_cards_def rust_lines_text_of [OF n])
  have u: "unfold_lines (text_of [lit ''FN:A'']) = [lit ''FN:A'']" unfolding unfold_text_of [OF p]
    by (simp add: unfold_step_def is_folded_def continues_qp_def lit_def trim_def trim_matches_def trim_end_matches_def
      trim_start_matches_def is_whitespace_def)
  have r: "read_lines (text_of [lit ''FN:A'']) = [\<lparr>v_name = lit ''FN'', v_params = [], v_value = lit ''A''\<rparr>]"
    unfolding read_lines_def u
    by (simp add: List.map_filter_def parse_line_def split_at_value_def split_params_def push_first_def lit_def trim_def trim_matches_def
      trim_end_matches_def trim_start_matches_def is_whitespace_def after_last_def)
  obtain c where c: "parse_contacts (text_of (card_lines ([lit ''FN:A''], True))) demo_source (lit ''x'') = Some [c]"
    unfolding parse_contacts_def s parse_each.simps parse_card_def r
    by (simp add: parse_lines_def decode_value_def has_param_word_def set_property_def Let_def
      to_ascii_uppercase_def name_parts_def name_fallback_def contact_default_def identifiable_def lit_def trim_def trim_matches_def
      trim_end_matches_def trim_start_matches_def is_whitespace_def)
  with contacts_identified [OF c, of c] show ?thesis by (simp add: lit_def)
qed

end
