(* ===== verification/Relay.thy ===== *)
theory Relay
  imports Interfaces Rust_Bytes "HOL-Library.List_Lexorder"
begin

text \<open>
  \<open>remote/relay.rs\<close>: the broker between the guests' streams and the webview that runs their turns.
  A session's broadcast channel is the list of the events sent on it; \<open>Instant\<close>s are milliseconds of
  a monotonic clock; the hash maps are association lists.  The reader's side (\<open>event_stream\<close> of
  \<open>remote/server.rs\<close>) takes tokio's \<open>Receiver::recv\<close> as an argument.
\<close>

definition CHANNEL_CAPACITY :: nat where "CHANNEL_CAPACITY = 256"
definition MAX_SESSIONS :: nat where "MAX_SESSIONS = 8"
definition MAX_TURNS_PER_MINUTE :: nat where "MAX_TURNS_PER_MINUTE = 20"
definition ORPHAN_GRACE :: nat where "ORPHAN_GRACE = 90 * 1000"
definition IDLE_TIMEOUT :: nat where "IDLE_TIMEOUT = 15 * 60 * 1000"
definition MAX_STEPS :: nat where "MAX_STEPS = 20"
definition MAX_SESSION_ID_LEN :: nat where "MAX_SESSION_ID_LEN = 64"
definition MAX_LABEL_LEN :: nat where "MAX_LABEL_LEN = 40"

section \<open>Data\<close>

datatype turn_status = Waiting | Running | Done | Failed | Cancelled
datatype step_status = StepRunning | StepDone | StepFailed

record step =
  st_id :: rstr
  st_label :: rstr
  st_status :: step_status

record question_option =
  o_label :: rstr
  o_description :: "rstr option"
  o_recommended :: bool

record question =
  q_id :: rstr
  q_question :: rstr
  q_options :: "question_option list"
  q_allow_multiple :: bool

record answer =
  a_question_id :: rstr
  a_labels :: "rstr list"
  a_text :: "rstr option"

datatype remote_event =
    Snapshot "rstr option" rstr "turn_status option" "rstr option" "step list" "question option"
  | Delta rstr rstr
  | DoneEvent rstr rstr
  | ErrorEvent rstr rstr
  | StateEvent rstr turn_status
  | StepEvent rstr step
  | QuestionEvent rstr question
  | QuestionCleared rstr

datatype relay_error = Busy | TooManySessions | RateLimited | UnknownTurn | BadSessionId

definition relay_message :: "relay_error \<Rightarrow> rstr" where
  "relay_message e = (case e of
     Busy \<Rightarrow> lit ''a turn is already running in this session''
   | TooManySessions \<Rightarrow> lit ''too many people are connected right now''
   | RateLimited \<Rightarrow> lit ''too many messages '' @ [0x2014] @ lit '' slow down a moment''
   | UnknownTurn \<Rightarrow> lit ''unknown turn''
   | BadSessionId \<Rightarrow> lit ''invalid session id'')"

record turn =
  t_id :: rstr
  t_text :: rstr
  t_status :: turn_status
  t_message :: "rstr option"
  t_steps :: "step list"
  t_question :: "question option"

record session =
  sent :: "remote_event list"
  s_turn :: "turn option"
  subscribers :: nat
  last_seen :: nat

record relay =
  sessions :: "(rstr \<times> session) list"
  turns :: "(rstr \<times> rstr) list"
  recent_turns :: "nat list"
  counter :: nat

record session_info =
  i_session_id :: rstr
  i_subscribers :: nat
  i_busy :: bool

record prompt_request =
  r_session_id :: rstr
  r_turn_id :: rstr
  r_message :: rstr
  r_client_label :: "rstr option"

definition relay_new :: relay where
  "relay_new = \<lparr>sessions = [], turns = [], recent_turns = [], counter = 0\<rparr>"

definition session_new :: "nat \<Rightarrow> session" where
  "session_new now = \<lparr>sent = [], s_turn = None, subscribers = 0, last_seen = now\<rparr>"

definition running_status :: "turn_status \<Rightarrow> bool" where
  "running_status st \<longleftrightarrow> st = Waiting \<or> st = Running"

definition in_flight :: "session \<Rightarrow> bool" where
  "in_flight s \<longleftrightarrow> (case s_turn s of Some t \<Rightarrow> running_status (t_status t) | None \<Rightarrow> False)"

definition session_snapshot :: "session \<Rightarrow> remote_event" where
  "session_snapshot s = (case s_turn s of
     Some t \<Rightarrow> Snapshot (Some (t_id t)) (t_text t) (Some (t_status t)) (t_message t) (t_steps t) (t_question t)
   | None \<Rightarrow> Snapshot None [] None None [] None)"

text \<open>\<open>tx.send\<close>.\<close>

definition send :: "remote_event \<Rightarrow> session \<Rightarrow> session" where
  "send e s = s\<lparr>sent := sent s @ [e]\<rparr>"

definition put_session :: "rstr \<Rightarrow> session \<Rightarrow> relay \<Rightarrow> relay" where
  "put_session sid s r = r\<lparr>sessions := AList.update sid s (sessions r)\<rparr>"

section \<open>Sessions\<close>

definition valid_session_id :: "rstr \<Rightarrow> bool" where
  "valid_session_id i \<longleftrightarrow> i \<noteq> [] \<and> utf8_len i \<le> MAX_SESSION_ID_LEN \<and>
     list_all (\<lambda>c. is_ascii_alphabetic c \<or> is_ascii_digit c \<or> c = 45 \<or> c = 95) i"

text \<open>The receiver of a new subscriber starts at the end of what was sent.\<close>

definition subscribe :: "rstr \<Rightarrow> nat \<Rightarrow> relay \<Rightarrow> (relay_error + nat \<times> remote_event) \<times> relay" where
  "subscribe sid now r =
    (if \<not> valid_session_id sid then (Inl BadSessionId, r)
     else if map_of (sessions r) sid = None \<and> MAX_SESSIONS \<le> length (sessions r) then (Inl TooManySessions, r)
     else
       (let s = (case map_of (sessions r) sid of Some s \<Rightarrow> s | None \<Rightarrow> session_new now);
            s = s\<lparr>subscribers := subscribers s + 1, last_seen := now\<rparr>
        in (Inr (length (sent s), session_snapshot s), put_session sid s r)))"

definition unsubscribe :: "rstr \<Rightarrow> nat \<Rightarrow> relay \<Rightarrow> relay" where
  "unsubscribe sid now r = (case map_of (sessions r) sid of
     None \<Rightarrow> r
   | Some s \<Rightarrow> put_session sid (s\<lparr>subscribers := subscribers s - 1, last_seen := now\<rparr>) r)"

definition snapshot :: "rstr \<Rightarrow> relay \<Rightarrow> remote_event option" where
  "snapshot sid r = map_option session_snapshot (map_of (sessions r) sid)"

section \<open>Turns\<close>

definition sanitise_label :: "rstr \<Rightarrow> rstr option" where
  "sanitise_label label =
    (let cleaned = trim (map (\<lambda>c. if is_control c then 32 else c) label) in
     if cleaned = [] then None else Some (trim (take MAX_LABEL_LEN cleaned)))"

definition turn_id_of :: "rstr \<Rightarrow> nat \<Rightarrow> rstr" where
  "turn_id_of sid n = sid @ [35] @ decimal n"

definition turn_new :: "rstr \<Rightarrow> turn" where
  "turn_new tid = \<lparr>t_id = tid, t_text = [], t_status = Waiting, t_message = None, t_steps = [], t_question = None\<rparr>"

definition begin_turn :: "rstr \<Rightarrow> rstr \<Rightarrow> rstr option \<Rightarrow> nat \<Rightarrow> relay \<Rightarrow> (relay_error + prompt_request) \<times> relay" where
  "begin_turn sid message label now r =
    (if \<not> valid_session_id sid then (Inl BadSessionId, r)
     else
       (let r = r\<lparr>recent_turns := filter (\<lambda>t. now - t < 60 * 1000) (recent_turns r)\<rparr> in
        if MAX_TURNS_PER_MINUTE \<le> length (recent_turns r) then (Inl RateLimited, r)
        else if map_of (sessions r) sid = None \<and> MAX_SESSIONS \<le> length (sessions r) then (Inl TooManySessions, r)
        else
          (let tid = turn_id_of sid (counter r);
               r = r\<lparr>counter := counter r + 1\<rparr>;
               s = (case map_of (sessions r) sid of Some s \<Rightarrow> s | None \<Rightarrow> session_new now)
           in if in_flight s then (Inl Busy, put_session sid s r)
              else
                (let s = send (StateEvent tid Waiting) (s\<lparr>last_seen := now, s_turn := Some (turn_new tid)\<rparr>);
                     r = put_session sid s r
                 in (Inr \<lparr>r_session_id = sid, r_turn_id = tid, r_message = message,
                          r_client_label = Option.bind label sanitise_label\<rparr>,
                     r\<lparr>recent_turns := recent_turns r @ [now], turns := AList.update tid sid (turns r)\<rparr>)))))"

text \<open>\<open>turn_mut\<close>, and the same lookup where the code writes it out: the session and its turn.\<close>

definition turn_mut :: "rstr \<Rightarrow> relay \<Rightarrow> relay_error + (rstr \<times> session \<times> turn)" where
  "turn_mut tid r = (case map_of (turns r) tid of
     None \<Rightarrow> Inl UnknownTurn
   | Some sid \<Rightarrow> (case map_of (sessions r) sid of
       None \<Rightarrow> Inl UnknownTurn
     | Some s \<Rightarrow> (case s_turn s of
         None \<Rightarrow> Inl UnknownTurn
       | Some t \<Rightarrow> if t_id t = tid then Inr (sid, s, t) else Inl UnknownTurn)))"

definition push_text :: "rstr \<Rightarrow> rstr \<Rightarrow> relay \<Rightarrow> (relay_error + unit) \<times> relay" where
  "push_text tid full_text r = (case turn_mut tid r of
     Inl e \<Rightarrow> (Inl e, r)
   | Inr (sid, s, t) \<Rightarrow>
      if full_text = t_text t then (Inr (), r)
      else (case strip_prefix (t_text t) full_text of
        Some delta \<Rightarrow>
          (let t = t\<lparr>t_text := full_text, t_status := (if t_status t = Waiting then Running else t_status t)\<rparr>
           in (Inr (), put_session sid (send (Delta tid delta) (s\<lparr>s_turn := Some t\<rparr>)) r))
      | None \<Rightarrow>
          (let s = s\<lparr>s_turn := Some (t\<lparr>t_text := full_text\<rparr>)\<rparr>
           in (Inr (), put_session sid (send (session_snapshot s) s) r))))"

fun set_step :: "step \<Rightarrow> step list \<Rightarrow> step list option" where
  "set_step x [] = None"
| "set_step x (y # ys) = (if st_id y = st_id x then Some (x # ys) else map_option ((#) y) (set_step x ys))"

definition push_step :: "rstr \<Rightarrow> step \<Rightarrow> relay \<Rightarrow> (relay_error + unit) \<times> relay" where
  "push_step tid x r = (case turn_mut tid r of
     Inl e \<Rightarrow> (Inl e, r)
   | Inr (sid, s, t) \<Rightarrow>
      (let steps = (case set_step x (t_steps t) of
             Some xs \<Rightarrow> xs
           | None \<Rightarrow> if length (t_steps t) < MAX_STEPS then t_steps t @ [x] else t_steps t)
       in (Inr (), put_session sid (send (StepEvent tid x) (s\<lparr>s_turn := Some (t\<lparr>t_steps := steps\<rparr>)\<rparr>)) r)))"

definition ask :: "rstr \<Rightarrow> question \<Rightarrow> relay \<Rightarrow> (relay_error + unit) \<times> relay" where
  "ask tid q r = (case turn_mut tid r of
     Inl e \<Rightarrow> (Inl e, r)
   | Inr (sid, s, t) \<Rightarrow>
      (Inr (), put_session sid (send (QuestionEvent tid q) (s\<lparr>s_turn := Some (t\<lparr>t_question := Some q\<rparr>)\<rparr>)) r))"

definition answer_turn :: "rstr \<Rightarrow> answer \<Rightarrow> relay \<Rightarrow> (relay_error + rstr) \<times> relay" where
  "answer_turn sid a r = (case map_of (sessions r) sid of
     None \<Rightarrow> (Inl UnknownTurn, r)
   | Some s \<Rightarrow> (case s_turn s of
       None \<Rightarrow> (Inl UnknownTurn, r)
     | Some t \<Rightarrow> (case t_question t of
         None \<Rightarrow> (Inl UnknownTurn, r)
       | Some pending \<Rightarrow>
          if q_id pending \<noteq> a_question_id a then (Inl UnknownTurn, r)
          else (Inr (t_id t), put_session sid (send (QuestionCleared (t_id t)) (s\<lparr>s_turn := Some (t\<lparr>t_question := None\<rparr>)\<rparr>)) r))))"

definition clear_question :: "rstr \<Rightarrow> relay \<Rightarrow> (relay_error + unit) \<times> relay" where
  "clear_question tid r = (case turn_mut tid r of
     Inl e \<Rightarrow> (Inl e, r)
   | Inr (sid, s, t) \<Rightarrow>
      (Inr (), put_session sid (send (QuestionCleared tid) (s\<lparr>s_turn := Some (t\<lparr>t_question := None\<rparr>)\<rparr>)) r))"

definition set_status :: "rstr \<Rightarrow> turn_status \<Rightarrow> relay \<Rightarrow> (relay_error + unit) \<times> relay" where
  "set_status tid st r = (case turn_mut tid r of
     Inl e \<Rightarrow> (Inl e, r)
   | Inr (sid, s, t) \<Rightarrow>
      (Inr (), put_session sid (send (StateEvent tid st) (s\<lparr>s_turn := Some (t\<lparr>t_status := st\<rparr>)\<rparr>)) r))"

definition terminate :: "rstr \<Rightarrow> turn_status \<Rightarrow> rstr \<Rightarrow> rstr option \<Rightarrow> nat \<Rightarrow> relay \<Rightarrow> (relay_error + unit) \<times> relay" where
  "terminate tid st txt message now r =
    (let known = turn_mut tid r;
         r = (if map_of (turns r) tid = None then r else r\<lparr>turns := AList.delete tid (turns r)\<rparr>)
     in case known of
       Inl e \<Rightarrow> (Inl e, r)
     | Inr (sid, s, t) \<Rightarrow>
        (let t = t\<lparr>t_status := st, t_message := message, t_text := (if st = Done then txt else t_text t)\<rparr>;
             event = (if st = Done then DoneEvent tid txt
               else (case message of Some msg \<Rightarrow> ErrorEvent tid msg | None \<Rightarrow> StateEvent tid st))
         in (Inr (), put_session sid (send event (s\<lparr>s_turn := Some t, last_seen := now\<rparr>)) r)))"

definition finish :: "rstr \<Rightarrow> rstr \<Rightarrow> nat \<Rightarrow> relay \<Rightarrow> (relay_error + unit) \<times> relay" where
  "finish tid txt now r = terminate tid Done txt None now r"

definition fail :: "rstr \<Rightarrow> rstr \<Rightarrow> nat \<Rightarrow> relay \<Rightarrow> (relay_error + unit) \<times> relay" where
  "fail tid message now r = terminate tid Failed [] (Some message) now r"

definition in_flight_turn :: "rstr \<Rightarrow> relay \<Rightarrow> rstr option" where
  "in_flight_turn sid r = (case map_of (sessions r) sid of
     Some s \<Rightarrow> if in_flight s then map_option t_id (s_turn s) else None
   | None \<Rightarrow> None)"

section \<open>Leaving\<close>

definition orphaned :: "nat \<Rightarrow> session \<Rightarrow> rstr list" where
  "orphaned now s = (if subscribers s = 0 \<and> in_flight s \<and> ORPHAN_GRACE < now - last_seen s
     then (case s_turn s of Some t \<Rightarrow> [t_id t] | None \<Rightarrow> []) else [])"

definition reap :: "nat \<Rightarrow> relay \<Rightarrow> rstr list \<times> relay" where
  "reap now r =
    (let orphans = concat (map (\<lambda>(_, s). orphaned now s) (sessions r));
         seen = map (\<lambda>(sid, s). (sid, if 0 < subscribers s then s\<lparr>last_seen := now\<rparr> else s)) (sessions r);
         kept = store_retain (\<lambda>_ s. 0 < subscribers s \<or> now - last_seen s \<le> IDLE_TIMEOUT) seen
     in (orphans, r\<lparr>sessions := kept, turns := store_retain (\<lambda>_ sid. sid \<in> fst ` set kept) (turns r)\<rparr>))"

definition disconnect :: "rstr \<Rightarrow> relay \<Rightarrow> rstr option \<times> relay" where
  "disconnect sid r = (case map_of (sessions r) sid of
     None \<Rightarrow> (None, r)
   | Some s \<Rightarrow>
      (case s_turn s of Some t \<Rightarrow> if running_status (t_status t) then Some (t_id t) else None | None \<Rightarrow> None,
       r\<lparr>sessions := AList.delete sid (sessions r), turns := store_retain (\<lambda>_ x. x \<noteq> sid) (turns r)\<rparr>))"

definition session_infos :: "relay \<Rightarrow> session_info list" where
  "session_infos r = sort_key (\<lambda>i. utf8_encode (i_session_id i))
     (map (\<lambda>(sid, s). \<lparr>i_session_id = sid, i_subscribers = subscribers s, i_busy = in_flight s\<rparr>) (sessions r))"

definition clear_relay :: "relay \<Rightarrow> relay" where
  "clear_relay r = r\<lparr>sessions := [], turns := []\<rparr>"

definition session_count :: "relay \<Rightarrow> nat" where
  "session_count r = length (sessions r)"

section \<open>The stream of a guest\<close>

text \<open>\<open>event_stream\<close>: the receiver's place in what was sent, and the snapshot to send first.  \<open>recv\<close> is
  tokio's \<open>Receiver::recv\<close> on the history of the channel; \<open>Nothing\<close> waits.\<close>

datatype recv_result = Got remote_event nat | Lagged nat | Closed | Nothing

record stream_state =
  cursor :: nat
  pending :: "remote_event option"

datatype frame = Frame remote_event | Ended | Waits

definition stream_next ::
  "(remote_event list \<Rightarrow> nat \<Rightarrow> recv_result) \<Rightarrow> remote_event list \<Rightarrow> remote_event option \<Rightarrow> stream_state
     \<Rightarrow> frame \<times> stream_state" where
  "stream_next recv history now_snapshot st = (case pending st of
     Some e \<Rightarrow> (Frame e, st\<lparr>pending := None\<rparr>)
   | None \<Rightarrow> (case recv history (cursor st) of
       Got e n \<Rightarrow> (Frame e, st\<lparr>cursor := n\<rparr>)
     | Lagged n \<Rightarrow> (case now_snapshot of
         None \<Rightarrow> (Ended, st\<lparr>cursor := n, pending := None\<rparr>)
       | Some e \<Rightarrow> (Frame e, st\<lparr>cursor := n, pending := None\<rparr>))
     | Closed \<Rightarrow> (Ended, st)
     | Nothing \<Rightarrow> (Waits, st)))"

end
