(* ===== verification/Relay_Props.thy ===== *)
theory Relay_Props
  imports Relay
begin

text \<open>
  The broker of \<open>remote/relay.rs\<close>: what holds in every reachable state, that the events sent on a session
  are exactly what a reader needs to keep up with its turn, that an ended turn stays ended, and the
  limit on turns per minute.
\<close>

section \<open>Turn ids\<close>

lemma valid_no_hash: "valid_session_id sid \<Longrightarrow> 35 \<notin> set sid"
  by (auto simp: valid_session_id_def list_all_iff is_ascii_alphabetic_def is_ascii_digit_def)

lemma turn_id_inj:
  assumes "turn_id_of a m = turn_id_of b n" and "valid_session_id a" and "valid_session_id b"
  shows "a = b \<and> m = n"
proof -
  have e: "a @ 35 # decimal m = b @ 35 # decimal n" using assms(1) by (simp add: turn_id_of_def)
  then have "takeWhile (\<lambda>c. c \<noteq> 35) (a @ 35 # decimal m) = takeWhile (\<lambda>c. c \<noteq> 35) (b @ 35 # decimal n)" by simp
  moreover have "takeWhile (\<lambda>c. c \<noteq> 35) (x @ 35 # y) = x" if "35 \<notin> set x" for x y :: rstr
    using that by (induction x) auto
  ultimately have "a = b" using valid_no_hash assms(2,3) by metis
  with e show ?thesis by (auto dest: decimal_inj)
qed

section \<open>The invariant\<close>

text \<open>The turn of a session: an id of this session's, not too many steps, registered while it runs, and
  without a message while it is registered.\<close>

definition turn_ok :: "rstr \<Rightarrow> turn \<Rightarrow> relay \<Rightarrow> bool" where
  "turn_ok sid t r \<longleftrightarrow> (\<exists>n<counter r. t_id t = turn_id_of sid n) \<and> length (t_steps t) \<le> MAX_STEPS \<and>
     (running_status (t_status t) \<longrightarrow> map_of (turns r) (t_id t) = Some sid) \<and>
     (map_of (turns r) (t_id t) \<noteq> None \<longrightarrow> t_message t = None)"

definition session_ok :: "rstr \<Rightarrow> session \<Rightarrow> relay \<Rightarrow> bool" where
  "session_ok sid s r \<longleftrightarrow> valid_session_id sid \<and> (\<forall>t. s_turn s = Some t \<longrightarrow> turn_ok sid t r)"

definition entry_ok :: "rstr \<Rightarrow> rstr \<Rightarrow> relay \<Rightarrow> bool" where
  "entry_ok tid sid r \<longleftrightarrow> map_of (sessions r) sid \<noteq> None \<and> valid_session_id sid \<and> (\<exists>n<counter r. tid = turn_id_of sid n)"

definition relay_ok :: "relay \<Rightarrow> bool" where
  "relay_ok r \<longleftrightarrow> store_ok (sessions r) \<and> store_ok (turns r) \<and> length (sessions r) \<le> MAX_SESSIONS \<and>
     length (recent_turns r) \<le> MAX_TURNS_PER_MINUTE \<and>
     (\<forall>sid s. map_of (sessions r) sid = Some s \<longrightarrow> session_ok sid s r) \<and>
     (\<forall>tid sid. map_of (turns r) tid = Some sid \<longrightarrow> entry_ok tid sid r)"

lemma relay_okD:
  assumes "relay_ok r"
  shows "store_ok (sessions r)" "store_ok (turns r)" "length (sessions r) \<le> MAX_SESSIONS"
    "map_of (sessions r) sid = Some s \<Longrightarrow> session_ok sid s r" "map_of (turns r) tid = Some sid \<Longrightarrow> entry_ok tid sid r"
  using assms by (simp_all add: relay_ok_def)

lemma length_update:
  "length (AList.update k v m) = (if k \<in> fst ` set m then length m else Suc (length m))"
  by (induction m) auto

lemma put_session_select [simp]:
  "turns (put_session sid s r) = turns r" "recent_turns (put_session sid s r) = recent_turns r"
  "counter (put_session sid s r) = counter r" "sessions (put_session sid s r) = AList.update sid s (sessions r)"
  by (simp_all add: put_session_def)

lemma session_ok_put [simp]: "session_ok x t (put_session sid s r) = session_ok x t r"
  by (simp add: session_ok_def turn_ok_def)

lemma put_session_ok:
  assumes "relay_ok r" and "session_ok sid s r"
    and "map_of (sessions r) sid = None \<Longrightarrow> length (sessions r) < MAX_SESSIONS"
  shows "relay_ok (put_session sid s r)"
proof -
  have "length (AList.update sid s (sessions r)) \<le> MAX_SESSIONS"
    using assms(3) relay_okD(3) [OF assms(1)] by (auto simp: length_update map_of_eq_None_iff)
  moreover have "entry_ok tid x (put_session sid s r)" if "map_of (turns r) tid = Some x" for tid x
    using relay_okD(5) [OF assms(1) that] by (simp add: entry_ok_def update_conv')
  ultimately show ?thesis using assms(1,2)
    by (simp add: relay_ok_def store_simps update_conv')
qed

lemma turn_mutD:
  assumes "turn_mut tid r = Inr (sid, s, t)"
  shows "map_of (turns r) tid = Some sid" "map_of (sessions r) sid = Some s" "s_turn s = Some t" "t_id t = tid"
  using assms by (auto simp: turn_mut_def split: option.splits if_splits)

lemma turn_mut_ok:
  assumes "relay_ok r" and "turn_mut tid r = Inr (sid, s, t)"
  shows "valid_session_id sid" "turn_ok sid t r"
  using relay_okD(4) [OF assms(1) turn_mutD(2) [OF assms(2)]] turn_mutD(3) [OF assms(2)] by (simp_all add: session_ok_def)

text \<open>A change of the found turn that keeps its id, its message and a bounded number of steps.\<close>

lemma put_turn_ok:
  assumes "relay_ok r" and "turn_mut tid r = Inr (sid, s, t)" and "t_id t' = tid" and "length (t_steps t') \<le> MAX_STEPS"
    and "t_message t' = t_message t" and "s_turn s' = Some t'"
  shows "relay_ok (put_session sid s' r)"
proof (rule put_session_ok [OF assms(1)])
  note m = turn_mutD [OF assms(2)] and ok = turn_mut_ok [OF assms(1,2)]
  show "session_ok sid s' r"
    using ok m assms(3-6) by (simp add: session_ok_def turn_ok_def)
  show "map_of (sessions r) sid = None \<Longrightarrow> length (sessions r) < MAX_SESSIONS" using m(2) by simp
qed

section \<open>One call\<close>

text \<open>The calls of the server, the driver and the timer, at a time of the clock; the list holds the time of
  an accepted turn.\<close>

inductive relay_step :: "nat \<Rightarrow> nat list \<Rightarrow> relay \<Rightarrow> relay \<Rightarrow> bool" where
  subscribed: "subscribe sid now r = (res, r') \<Longrightarrow> relay_step now [] r r'"
| unsubscribed: "relay_step now [] r (unsubscribe sid now r)"
| accepted: "begin_turn sid m l now r = (Inr p, r') \<Longrightarrow> relay_step now [now] r r'"
| refused: "begin_turn sid m l now r = (Inl e, r') \<Longrightarrow> relay_step now [] r r'"
| texted: "push_text tid txt r = (res, r') \<Longrightarrow> relay_step now [] r r'"
| stepped: "push_step tid x r = (res, r') \<Longrightarrow> relay_step now [] r r'"
| asked: "ask tid q r = (res, r') \<Longrightarrow> relay_step now [] r r'"
| answered: "answer_turn sid a r = (res, r') \<Longrightarrow> relay_step now [] r r'"
| unasked: "clear_question tid r = (res, r') \<Longrightarrow> relay_step now [] r r'"
| moved: "set_status tid st r = (res, r') \<Longrightarrow> relay_step now [] r r'"
| finished: "finish tid txt now r = (res, r') \<Longrightarrow> relay_step now [] r r'"
| failed: "fail tid msg now r = (res, r') \<Longrightarrow> relay_step now [] r r'"
| reaped: "reap now r = (tids, r') \<Longrightarrow> relay_step now [] r r'"
| disconnected: "disconnect sid r = (t, r') \<Longrightarrow> relay_step now [] r r'"
| cleared: "relay_step now [] r (clear_relay r)"

lemma session_new_ok: "valid_session_id sid \<Longrightarrow> session_ok sid (session_new now) r"
  by (simp add: session_ok_def session_new_def)

lemma subscribe_ok: "relay_ok r \<Longrightarrow> subscribe sid now r = (res, r') \<Longrightarrow> relay_ok r'"
proof -
  assume ok: "relay_ok r" and s: "subscribe sid now r = (res, r')"
  let ?s = "case map_of (sessions r) sid of Some s \<Rightarrow> s | None \<Rightarrow> session_new now"
  show ?thesis
  proof (cases "\<not> valid_session_id sid \<or> map_of (sessions r) sid = None \<and> MAX_SESSIONS \<le> length (sessions r)")
    case True
    with ok s show ?thesis by (cases "valid_session_id sid") (simp_all add: subscribe_def)
  next
    case False
    then have r': "r' = put_session sid (?s\<lparr>subscribers := subscribers ?s + 1, last_seen := now\<rparr>) r"
      using s by (auto simp: subscribe_def Let_def)
    have "session_ok sid ?s r"
      using False session_new_ok relay_okD(4) [OF ok, of sid] by (auto split: option.split)
    then show ?thesis unfolding r' using False by (intro put_session_ok [OF ok]) (auto simp: session_ok_def)
  qed
qed

lemma unsubscribe_ok: "relay_ok r \<Longrightarrow> relay_ok (unsubscribe sid now r)"
  using relay_okD(4) [of r sid]
  by (auto simp: unsubscribe_def session_ok_def split: option.split intro!: put_session_ok)

lemma relay_ok_counter: "relay_ok r \<Longrightarrow> relay_ok (r\<lparr>counter := Suc (counter r)\<rparr>)"
  unfolding relay_ok_def session_ok_def turn_ok_def entry_ok_def by (simp add: less_Suc_eq) blast

lemma relay_ok_recent: "relay_ok r \<Longrightarrow> length ts \<le> MAX_TURNS_PER_MINUTE \<Longrightarrow> relay_ok (r\<lparr>recent_turns := ts\<rparr>)"
  by (simp add: relay_ok_def session_ok_def turn_ok_def entry_ok_def)

text \<open>A state in which old turns may be forgotten and the counter has moved.\<close>

definition pruned :: "nat \<Rightarrow> relay \<Rightarrow> relay" where
  "pruned now r = r\<lparr>recent_turns := filter (\<lambda>t. now - t < 60 * 1000) (recent_turns r)\<rparr>"

definition session_at :: "rstr \<Rightarrow> nat \<Rightarrow> relay \<Rightarrow> session" where
  "session_at sid now r = (case map_of (sessions r) sid of Some s \<Rightarrow> s | None \<Rightarrow> session_new now)"

definition begun :: "rstr \<Rightarrow> nat \<Rightarrow> relay \<Rightarrow> session" where
  "begun sid now r = (let tid = turn_id_of sid (counter r)
     in send (StateEvent tid Waiting) ((session_at sid now r)\<lparr>last_seen := now, s_turn := Some (turn_new tid)\<rparr>))"

lemma pruned_select [simp]:
  "sessions (pruned now r) = sessions r" "turns (pruned now r) = turns r" "counter (pruned now r) = counter r"
  "recent_turns (pruned now r) = filter (\<lambda>t. now - t < 60 * 1000) (recent_turns r)"
  by (simp_all add: pruned_def)

lemma begin_turn_cases:
  assumes "begin_turn sid m l now r = (res, r')"
  obtains (kept) e where "res = Inl e" "r' = r \<or> r' = pruned now r"
  | (busy) s where "res = Inl Busy" "map_of (sessions r) sid = Some s" "in_flight s"
      "r' = put_session sid s ((pruned now r)\<lparr>counter := counter r + 1\<rparr>)"
  | (begun) p where "res = Inr p" "r_turn_id p = turn_id_of sid (counter r)" "valid_session_id sid"
      "\<not> (map_of (sessions r) sid = None \<and> MAX_SESSIONS \<le> length (sessions r))" "\<not> in_flight (session_at sid now r)"
      "length (recent_turns (pruned now r)) < MAX_TURNS_PER_MINUTE"
      "r' = (put_session sid (begun sid now r) ((pruned now r)\<lparr>counter := counter r + 1\<rparr>))
        \<lparr>recent_turns := recent_turns (pruned now r) @ [now], turns := AList.update (turn_id_of sid (counter r)) sid (turns r)\<rparr>"
proof -
  let ?p = "pruned now r" and ?s = "session_at sid now r" and ?tid = "turn_id_of sid (counter r)"
  have eq: "begin_turn sid m l now r =
    (if \<not> valid_session_id sid then (Inl BadSessionId, r)
     else if MAX_TURNS_PER_MINUTE \<le> length (recent_turns ?p) then (Inl RateLimited, ?p)
     else if map_of (sessions r) sid = None \<and> MAX_SESSIONS \<le> length (sessions r) then (Inl TooManySessions, ?p)
     else if in_flight ?s then (Inl Busy, put_session sid ?s (?p\<lparr>counter := counter r + 1\<rparr>))
     else (Inr \<lparr>r_session_id = sid, r_turn_id = ?tid, r_message = m, r_client_label = Option.bind l sanitise_label\<rparr>,
       (put_session sid (begun sid now r) (?p\<lparr>counter := counter r + 1\<rparr>))
        \<lparr>recent_turns := recent_turns ?p @ [now], turns := AList.update ?tid sid (turns r)\<rparr>))"
    by (simp add: begin_turn_def Let_def pruned_def session_at_def begun_def put_session_def)
  consider "\<not> valid_session_id sid" | "valid_session_id sid" "MAX_TURNS_PER_MINUTE \<le> length (recent_turns ?p)"
    | "valid_session_id sid" "length (recent_turns ?p) < MAX_TURNS_PER_MINUTE" "map_of (sessions r) sid = None \<and> MAX_SESSIONS \<le> length (sessions r)"
    | "valid_session_id sid" "length (recent_turns ?p) < MAX_TURNS_PER_MINUTE" "\<not> (map_of (sessions r) sid = None \<and> MAX_SESSIONS \<le> length (sessions r))" "in_flight ?s"
    | "valid_session_id sid" "length (recent_turns ?p) < MAX_TURNS_PER_MINUTE" "\<not> (map_of (sessions r) sid = None \<and> MAX_SESSIONS \<le> length (sessions r))" "\<not> in_flight ?s"
    by linarith
  then show ?thesis
  proof cases
    case 4
    have "map_of (sessions r) sid = Some ?s" using 4(4)
      by (auto simp: session_at_def in_flight_def session_new_def split: option.splits)
    with 4 assms eq show ?thesis by (intro busy [of ?s]) auto
  next
    case 5
    with assms eq show ?thesis by (intro begun) auto
  qed (use assms eq kept in auto)
qed

lemma pruned_ok: "relay_ok r \<Longrightarrow> relay_ok (pruned now r)"
  unfolding pruned_def by (rule relay_ok_recent) (auto simp: relay_ok_def intro: order_trans [OF length_filter_le])

lemma fresh_turn: "relay_ok r \<Longrightarrow> valid_session_id sid \<Longrightarrow> map_of (turns r) (turn_id_of sid (counter r)) = None"
proof (rule ccontr)
  assume "relay_ok r" "valid_session_id sid" "map_of (turns r) (turn_id_of sid (counter r)) \<noteq> None"
  then obtain x where "entry_ok (turn_id_of sid (counter r)) x r" using relay_okD(5) by blast
  with \<open>valid_session_id sid\<close> show False using turn_id_inj by (fastforce simp: entry_ok_def)
qed

lemma session_at_ok: "relay_ok r \<Longrightarrow> valid_session_id sid \<Longrightarrow> session_ok sid (session_at sid now r) r"
  using relay_okD(4) [of r sid] by (auto simp: session_at_def session_new_ok split: option.split)

lemma begin_turn_ok:
  assumes "relay_ok r" and "begin_turn sid m l now r = (res, r')" shows "relay_ok r'"
proof (rule begin_turn_cases [OF assms(2)])
  fix e assume "r' = r \<or> r' = pruned now r"
  then show ?thesis using assms(1) pruned_ok by auto
next
  fix s assume s: "map_of (sessions r) sid = Some s" and r': "r' = put_session sid s ((pruned now r)\<lparr>counter := counter r + 1\<rparr>)"
  have ok: "relay_ok ((pruned now r)\<lparr>counter := counter r + 1\<rparr>)"
    using relay_ok_counter [OF pruned_ok [OF assms(1)]] by simp
  show ?thesis unfolding r' using relay_okD(4) [OF ok, of sid s] s by (intro put_session_ok [OF ok]) auto
next
  let ?tid = "turn_id_of sid (counter r)"
  assume v: "valid_session_id sid" and room: "\<not> (map_of (sessions r) sid = None \<and> MAX_SESSIONS \<le> length (sessions r))"
    and rate: "length (recent_turns (pruned now r)) < MAX_TURNS_PER_MINUTE"
    and r': "r' = (put_session sid (begun sid now r) ((pruned now r)\<lparr>counter := counter r + 1\<rparr>))
        \<lparr>recent_turns := recent_turns (pruned now r) @ [now], turns := AList.update ?tid sid (turns r)\<rparr>"
  note fresh = fresh_turn [OF assms(1) v]
  have select: "sessions r' = AList.update sid (begun sid now r) (sessions r)" "turns r' = AList.update ?tid sid (turns r)"
    "counter r' = Suc (counter r)" "recent_turns r' = recent_turns (pruned now r) @ [now]" by (simp_all add: r')
  have begun_ok: "session_ok sid (begun sid now r) r'"
    using v by (auto simp: session_ok_def turn_ok_def begun_def send_def turn_new_def select update_conv' Let_def)
  have "session_ok x s r'" if "map_of (sessions r') x = Some s" for x s
  proof (cases "x = sid")
    case True
    with that begun_ok show ?thesis by (simp add: select update_conv')
  next
    case False
    with that have s: "map_of (sessions r) x = Some s" by (simp add: select update_conv')
    have ok: "session_ok x s r" by (rule relay_okD(4) [OF assms(1) s])
    have "t_id t \<noteq> ?tid" if "s_turn s = Some t" for t
      using ok that False v turn_id_inj by (fastforce simp: session_ok_def turn_ok_def)
    with ok show ?thesis unfolding session_ok_def turn_ok_def select by (simp add: update_conv' less_Suc_eq) blast
  qed
  moreover have "entry_ok tid x r'" if "map_of (turns r') tid = Some x" for tid x
  proof (cases "tid = ?tid")
    case True
    with that v show ?thesis by (auto simp: select update_conv' entry_ok_def)
  next
    case False
    with that have "entry_ok tid x r" using relay_okD(5) [OF assms(1)] by (simp add: select update_conv')
    then show ?thesis by (auto simp: entry_ok_def select update_conv' less_Suc_eq)
  qed
  moreover have "length (sessions r') \<le> MAX_SESSIONS"
    using room relay_okD(3) [OF assms(1)] by (auto simp: select length_update map_of_eq_None_iff)
  ultimately show ?thesis using assms(1) rate
    unfolding relay_ok_def by (simp add: select store_simps)
qed

section \<open>A reader of the events\<close>

text \<open>What a guest's page holds: the turn it shows and its text.  A snapshot replaces it, a delta is added
  to the text of its turn, the end of a turn brings the text or the message; an event of another turn
  starts an empty one.\<close>

record reader =
  rd_turn :: "rstr option"
  rd_text :: rstr

definition text_for :: "rstr \<Rightarrow> reader \<Rightarrow> rstr" where
  "text_for tid rd = (if rd_turn rd = Some tid then rd_text rd else [])"

fun hear :: "remote_event \<Rightarrow> reader \<Rightarrow> reader" where
  "hear (Snapshot tid txt st msg steps q) rd = (case tid of None \<Rightarrow> rd
     | Some i \<Rightarrow> \<lparr>rd_turn = Some i, rd_text = (case msg of Some m \<Rightarrow> if st = Some Failed then m else txt | None \<Rightarrow> txt)\<rparr>)"
| "hear (Delta tid txt) rd = \<lparr>rd_turn = Some tid, rd_text = text_for tid rd @ txt\<rparr>"
| "hear (DoneEvent tid txt) rd = \<lparr>rd_turn = Some tid, rd_text = txt\<rparr>"
| "hear (ErrorEvent tid msg) rd = \<lparr>rd_turn = Some tid, rd_text = msg\<rparr>"
| "hear (StateEvent tid st) rd = \<lparr>rd_turn = Some tid, rd_text = text_for tid rd\<rparr>"
| "hear (StepEvent tid x) rd = \<lparr>rd_turn = Some tid, rd_text = text_for tid rd\<rparr>"
| "hear (QuestionEvent tid q) rd = \<lparr>rd_turn = Some tid, rd_text = text_for tid rd\<rparr>"
| "hear (QuestionCleared tid) rd = \<lparr>rd_turn = Some tid, rd_text = text_for tid rd\<rparr>"

definition shown :: "turn \<Rightarrow> rstr" where
  "shown t = (case t_message t of Some m \<Rightarrow> if t_status t = Failed then m else t_text t | None \<Rightarrow> t_text t)"

definition view :: "session \<Rightarrow> reader" where
  "view s = (case s_turn s of Some t \<Rightarrow> \<lparr>rd_turn = Some (t_id t), rd_text = shown t\<rparr> | None \<Rightarrow> \<lparr>rd_turn = None, rd_text = []\<rparr>)"

lemma view_snapshot: "hear (session_snapshot s) rd = (if s_turn s = None then rd else view s)"
  by (auto simp: session_snapshot_def view_def shown_def split: option.split)

section \<open>What one call does to a session\<close>

definition spoke :: "session \<Rightarrow> session \<Rightarrow> bool" where
  "spoke s s' \<longleftrightarrow> (\<exists>es. sent s' = sent s @ es \<and> view s' = fold hear es (view s))"

text \<open>The turn stays, or is still registered and changes, or loses its question, or is a new one.\<close>

definition turn_moves :: "relay \<Rightarrow> rstr \<Rightarrow> session \<Rightarrow> session \<Rightarrow> bool" where
  "turn_moves r sid s s' \<longleftrightarrow> s_turn s' = s_turn s \<or>
     (\<exists>t t'. s_turn s = Some t \<and> s_turn s' = Some t' \<and> t_id t' = t_id t \<and>
        (map_of (turns r) (t_id t) \<noteq> None \<or> t' = t\<lparr>t_question := None\<rparr>)) \<or>
     (valid_session_id sid \<and> (\<exists>t'. s_turn s' = Some t' \<and> t_id t' = turn_id_of sid (counter r)))"

definition carries :: "relay \<Rightarrow> relay \<Rightarrow> bool" where
  "carries r r' \<longleftrightarrow> counter r \<le> counter r' \<and>
     (\<forall>tid sid. map_of (turns r') tid = Some sid \<longrightarrow> map_of (turns r) tid \<noteq> None \<or>
        (valid_session_id sid \<and> tid = turn_id_of sid (counter r))) \<and>
     (\<forall>sid s'. map_of (sessions r') sid = Some s' \<longrightarrow>
        (case map_of (sessions r) sid of Some s \<Rightarrow> spoke s s' \<and> turn_moves r sid s s'
         | None \<Rightarrow> s_turn s' = None \<or> (valid_session_id sid \<and> (\<exists>t'. s_turn s' = Some t' \<and> t_id t' = turn_id_of sid (counter r)))))"

lemma carries_old:
  "carries r r' \<Longrightarrow> map_of (sessions r') sid = Some s' \<Longrightarrow> map_of (sessions r) sid = Some s \<Longrightarrow> spoke s s' \<and> turn_moves r sid s s'"
proof -
  assume a: "carries r r'" "map_of (sessions r') sid = Some s'" "map_of (sessions r) sid = Some s"
  from a(1,2) have "case map_of (sessions r) sid of Some s \<Rightarrow> spoke s s' \<and> turn_moves r sid s s'
    | None \<Rightarrow> s_turn s' = None \<or> (valid_session_id sid \<and> (\<exists>t'. s_turn s' = Some t' \<and> t_id t' = turn_id_of sid (counter r)))"
    unfolding carries_def by blast
  with a(3) show ?thesis by simp
qed

lemma carries_new:
  "carries r r' \<Longrightarrow> map_of (sessions r') sid = Some s' \<Longrightarrow> map_of (sessions r) sid = None \<Longrightarrow>
    s_turn s' = None \<or> (valid_session_id sid \<and> (\<exists>t'. s_turn s' = Some t' \<and> t_id t' = turn_id_of sid (counter r)))"
proof -
  assume a: "carries r r'" "map_of (sessions r') sid = Some s'" "map_of (sessions r) sid = None"
  from a(1,2) have "case map_of (sessions r) sid of Some s \<Rightarrow> spoke s s' \<and> turn_moves r sid s s'
    | None \<Rightarrow> s_turn s' = None \<or> (valid_session_id sid \<and> (\<exists>t'. s_turn s' = Some t' \<and> t_id t' = turn_id_of sid (counter r)))"
    unfolding carries_def by blast
  with a(3) show ?thesis by simp
qed

lemma spoke_refl: "sent s' = sent s \<Longrightarrow> s_turn s' = s_turn s \<Longrightarrow> spoke s s'"
  by (auto simp: spoke_def view_def)

lemma spoke_send:
  "sent s' = sent s @ [e] \<Longrightarrow> view s' = hear e (view s) \<Longrightarrow> spoke s s'"
  by (auto simp: spoke_def)

lemma carries_put:
  assumes "map_of (sessions r) sid = Some s" and "spoke s s'" and "turn_moves r sid s s'"
    and "sessions r' = AList.update sid s' (sessions r)" and "counter r \<le> counter r'"
    and "\<And>tid x. map_of (turns r') tid = Some x \<Longrightarrow> map_of (turns r) tid = Some x"
  shows "carries r r'"
  using assms by (auto simp: carries_def update_conv' spoke_refl turn_moves_def split: option.split)

lemma carries_fewer:
  assumes "\<And>sid s'. map_of (sessions r') sid = Some s' \<Longrightarrow> \<exists>s. map_of (sessions r) sid = Some s \<and> sent s' = sent s \<and> s_turn s' = s_turn s"
    and "counter r \<le> counter r'" and "\<And>tid x. map_of (turns r') tid = Some x \<Longrightarrow> map_of (turns r) tid = Some x"
  shows "carries r r'"
  unfolding carries_def
proof (intro conjI allI impI)
  fix sid s' assume "map_of (sessions r') sid = Some s'"
  from assms(1) [OF this] obtain s where "map_of (sessions r) sid = Some s" "sent s' = sent s" "s_turn s' = s_turn s" by blast
  then show "case map_of (sessions r) sid of Some s \<Rightarrow> spoke s s' \<and> turn_moves r sid s s'
         | None \<Rightarrow> s_turn s' = None \<or> (valid_session_id sid \<and> (\<exists>t'. s_turn s' = Some t' \<and> t_id t' = turn_id_of sid (counter r)))"
    by (simp add: spoke_refl turn_moves_def)
qed (use assms in auto)

lemma carries_refl: "carries r r"
  by (rule carries_fewer) auto

text \<open>The calls that change the found turn and say so.\<close>

lemma turn_call:
  assumes "relay_ok r" and "turn_mut tid r = Inr (sid, s, t)" and "t_id t' = tid" and "length (t_steps t') \<le> MAX_STEPS"
    and "t_message t' = t_message t" and "s' = send e (s\<lparr>s_turn := Some t'\<rparr>)"
    and "hear e \<lparr>rd_turn = Some tid, rd_text = t_text t\<rparr> = \<lparr>rd_turn = Some tid, rd_text = t_text t'\<rparr>"
  shows "relay_ok (put_session sid s' r) \<and> carries r (put_session sid s' r)"
proof
  note m = turn_mutD [OF assms(2)] and ok = turn_mut_ok [OF assms(1,2)]
  show "relay_ok (put_session sid s' r)" by (rule put_turn_ok [OF assms(1-5)]) (simp add: assms(6) send_def)
  have msg: "t_message t = None" using ok(2) m by (simp add: turn_ok_def)
  then have "spoke s s'" using assms(3,5,7) m
    by (intro spoke_send [of _ _ e]) (simp_all add: assms(6) send_def view_def shown_def)
  moreover have "turn_moves r sid s s'" using m assms(3) by (auto simp: turn_moves_def assms(6) send_def)
  ultimately show "carries r (put_session sid s' r)" by (intro carries_put [OF m(2)]) auto
qed

lemma set_step_length: "set_step x ys = Some zs \<Longrightarrow> length zs = length ys"
  by (induction ys arbitrary: zs) (auto split: if_splits)

lemma turn_steps_le: "relay_ok r \<Longrightarrow> turn_mut tid r = Inr (sid, s, t) \<Longrightarrow> length (t_steps t) \<le> MAX_STEPS"
  using turn_mut_ok(2) by (auto simp: turn_ok_def)

lemma push_text_ok: "relay_ok r \<Longrightarrow> push_text tid txt r = (res, r') \<Longrightarrow> relay_ok r' \<and> carries r r'"
proof (cases "turn_mut tid r")
  case (Inr a)
  obtain sid s t where a: "a = (sid, s, t)" by (cases a)
  note tm = Inr [unfolded a]
  assume ok: "relay_ok r" and p: "push_text tid txt r = (res, r')"
  note id = turn_mutD(4) [OF tm] and len = turn_steps_le [OF ok tm]
  have msg: "t_message t = None" using turn_mut_ok(2) [OF ok tm] turn_mutD [OF tm] by (simp add: turn_ok_def)
  show ?thesis
  proof (cases "txt = t_text t")
    case True
    with p tm ok show ?thesis by (auto simp: push_text_def carries_refl)
  next
    case False
    show ?thesis
    proof (cases "strip_prefix (t_text t) txt")
      case None
      have "r' = put_session sid (send (session_snapshot (s\<lparr>s_turn := Some (t\<lparr>t_text := txt\<rparr>)\<rparr>)) (s\<lparr>s_turn := Some (t\<lparr>t_text := txt\<rparr>)\<rparr>)) r"
        using False None p tm by (simp add: push_text_def Let_def)
      then show ?thesis using turn_call [OF ok tm, of "t\<lparr>t_text := txt\<rparr>"] id len msg
        by (simp add: session_snapshot_def)
    next
      case (Some d)
      then have full: "txt = t_text t @ d" by (auto simp: strip_prefix_def prefix_def split: if_splits)
      let ?t = "t\<lparr>t_text := txt, t_status := (if t_status t = Waiting then Running else t_status t)\<rparr>"
      have "r' = put_session sid (send (Delta tid d) (s\<lparr>s_turn := Some ?t\<rparr>)) r"
        using False Some p tm by (simp add: push_text_def Let_def)
      then show ?thesis using turn_call [OF ok tm, of ?t _ "Delta tid d"] id len full
        by (simp add: text_for_def)
    qed
  qed
qed (auto simp: push_text_def carries_refl)

lemma push_step_ok: "relay_ok r \<Longrightarrow> push_step tid x r = (res, r') \<Longrightarrow> relay_ok r' \<and> carries r r'"
proof (cases "turn_mut tid r")
  case (Inr a)
  obtain sid s t where a: "a = (sid, s, t)" by (cases a)
  note tm = Inr [unfolded a]
  assume ok: "relay_ok r" and p: "push_step tid x r = (res, r')"
  let ?steps = "case set_step x (t_steps t) of Some xs \<Rightarrow> xs | None \<Rightarrow> if length (t_steps t) < MAX_STEPS then t_steps t @ [x] else t_steps t"
  have "length ?steps \<le> MAX_STEPS" using turn_steps_le [OF ok tm] by (auto dest: set_step_length split: option.split)
  moreover have "r' = put_session sid (send (StepEvent tid x) (s\<lparr>s_turn := Some (t\<lparr>t_steps := ?steps\<rparr>)\<rparr>)) r"
    using p tm by (simp add: push_step_def Let_def)
  ultimately show ?thesis
    using turn_call [OF ok tm, of "t\<lparr>t_steps := ?steps\<rparr>" _ "StepEvent tid x"] turn_mutD(4) [OF tm] by (simp add: text_for_def)
qed (auto simp: push_step_def carries_refl)

lemma ask_ok: "relay_ok r \<Longrightarrow> ask tid q r = (res, r') \<Longrightarrow> relay_ok r' \<and> carries r r'"
proof (cases "turn_mut tid r")
  case (Inr a)
  obtain sid s t where a: "a = (sid, s, t)" by (cases a)
  note tm = Inr [unfolded a]
  assume ok: "relay_ok r" and p: "ask tid q r = (res, r')"
  have "r' = put_session sid (send (QuestionEvent tid q) (s\<lparr>s_turn := Some (t\<lparr>t_question := Some q\<rparr>)\<rparr>)) r"
    using p tm by (simp add: ask_def)
  then show ?thesis using turn_call [OF ok tm, of "t\<lparr>t_question := Some q\<rparr>" _ "QuestionEvent tid q"]
      turn_mutD(4) [OF tm] turn_steps_le [OF ok tm] by (simp add: text_for_def)
qed (auto simp: ask_def carries_refl)

lemma clear_question_ok: "relay_ok r \<Longrightarrow> clear_question tid r = (res, r') \<Longrightarrow> relay_ok r' \<and> carries r r'"
proof (cases "turn_mut tid r")
  case (Inr a)
  obtain sid s t where a: "a = (sid, s, t)" by (cases a)
  note tm = Inr [unfolded a]
  assume ok: "relay_ok r" and p: "clear_question tid r = (res, r')"
  have "r' = put_session sid (send (QuestionCleared tid) (s\<lparr>s_turn := Some (t\<lparr>t_question := None\<rparr>)\<rparr>)) r"
    using p tm by (simp add: clear_question_def)
  then show ?thesis using turn_call [OF ok tm, of "t\<lparr>t_question := None\<rparr>" _ "QuestionCleared tid"]
      turn_mutD(4) [OF tm] turn_steps_le [OF ok tm] by (simp add: text_for_def)
qed (auto simp: clear_question_def carries_refl)

lemma set_status_ok: "relay_ok r \<Longrightarrow> set_status tid st r = (res, r') \<Longrightarrow> relay_ok r' \<and> carries r r'"
proof (cases "turn_mut tid r")
  case (Inr a)
  obtain sid s t where a: "a = (sid, s, t)" by (cases a)
  note tm = Inr [unfolded a]
  assume ok: "relay_ok r" and p: "set_status tid st r = (res, r')"
  have "r' = put_session sid (send (StateEvent tid st) (s\<lparr>s_turn := Some (t\<lparr>t_status := st\<rparr>)\<rparr>)) r"
    using p tm by (simp add: set_status_def)
  then show ?thesis using turn_call [OF ok tm, of "t\<lparr>t_status := st\<rparr>" _ "StateEvent tid st"]
      turn_mutD(4) [OF tm] turn_steps_le [OF ok tm] by (simp add: text_for_def)
qed (auto simp: set_status_def carries_refl)

text \<open>The other calls.\<close>

lemma answer_turn_ok: "relay_ok r \<Longrightarrow> answer_turn sid a r = (res, r') \<Longrightarrow> relay_ok r' \<and> carries r r'"
proof -
  assume ok: "relay_ok r" and p: "answer_turn sid a r = (res, r')"
  show ?thesis
  proof (cases "r' = r")
    case True
    with ok show ?thesis by (simp add: carries_refl)
  next
    case False
    then obtain s t q where s: "map_of (sessions r) sid = Some s" "s_turn s = Some t" "t_question t = Some q"
      using p by (auto simp: answer_turn_def split: option.splits)
    let ?s = "send (QuestionCleared (t_id t)) (s\<lparr>s_turn := Some (t\<lparr>t_question := None\<rparr>)\<rparr>)"
    have r': "r' = put_session sid ?s r" using p s False by (auto simp: answer_turn_def split: if_splits)
    have "session_ok sid ?s r" using relay_okD(4) [OF ok s(1)] s(2) by (simp add: session_ok_def turn_ok_def send_def)
    then have "relay_ok (put_session sid ?s r)" by (intro put_session_ok [OF ok]) (use s(1) in auto)
    moreover have "spoke s ?s" using s(2) by (intro spoke_send [of _ _ "QuestionCleared (t_id t)"])
        (simp_all add: send_def view_def shown_def text_for_def split: option.split)
    moreover have "turn_moves r sid s ?s" using s(2) by (simp add: turn_moves_def send_def)
    ultimately show ?thesis unfolding r' by (intro conjI carries_put [OF s(1)]) auto
  qed
qed

lemma begin_turn_carries:
  assumes "relay_ok r" and "begin_turn sid m l now r = (res, r')" shows "carries r r'"
proof (rule begin_turn_cases [OF assms(2)])
  fix e assume "r' = r \<or> r' = pruned now r"
  then show ?thesis by (intro carries_fewer) auto
next
  fix s assume s: "map_of (sessions r) sid = Some s" and r': "r' = put_session sid s ((pruned now r)\<lparr>counter := counter r + 1\<rparr>)"
  have sr: "sessions r' = AList.update sid s (sessions r)" "turns r' = turns r" "counter r' = counter r + 1" by (simp_all add: r')
  have "turn_moves r sid s s" by (simp add: turn_moves_def)
  then show ?thesis using sr by (intro carries_put [OF s spoke_refl [OF refl refl] _ sr(1)]) auto
next
  let ?tid = "turn_id_of sid (counter r)"
  assume v: "valid_session_id sid"
    and r': "r' = (put_session sid (begun sid now r) ((pruned now r)\<lparr>counter := counter r + 1\<rparr>))
        \<lparr>recent_turns := recent_turns (pruned now r) @ [now], turns := AList.update ?tid sid (turns r)\<rparr>"
  have sr: "sessions r' = AList.update sid (begun sid now r) (sessions r)" "turns r' = AList.update ?tid sid (turns r)"
    "counter r' = counter r + 1" by (simp_all add: r')
  have bt: "s_turn (begun sid now r) = Some (turn_new ?tid)" "t_id (turn_new ?tid) = ?tid"
    by (simp_all add: begun_def send_def Let_def turn_new_def)
  have sp: "spoke s (begun sid now r)" if s: "map_of (sessions r) sid = Some s" for s
  proof (rule spoke_send [of _ _ "StateEvent ?tid Waiting"])
    show "sent (begun sid now r) = sent s @ [StateEvent ?tid Waiting]" using s by (simp add: begun_def send_def Let_def session_at_def)
    have "t_id t \<noteq> ?tid" if t: "s_turn s = Some t" for t
    proof
      assume "t_id t = ?tid"
      moreover obtain n where "n < counter r" "t_id t = turn_id_of sid n"
        using relay_okD(4) [OF assms(1) s] t by (auto simp: session_ok_def turn_ok_def)
      ultimately show False using turn_id_inj [of sid "counter r" sid n] v by simp
    qed
    then show "view (begun sid now r) = hear (StateEvent ?tid Waiting) (view s)"
      using bt by (auto simp: view_def shown_def turn_new_def text_for_def split: option.split)
  qed
  have "turn_moves r sid s (begun sid now r)" for s using v bt by (auto simp: turn_moves_def)
  with sp bt v sr show ?thesis
    by (auto simp: carries_def update_conv' turn_moves_def spoke_refl split: option.split if_splits)
qed

lemma subscribe_carries: "subscribe sid now r = (res, r') \<Longrightarrow> carries r r'"
proof -
  assume p: "subscribe sid now r = (res, r')"
  show ?thesis
  proof (cases "r' = r")
    case True
    then show ?thesis by (simp add: carries_refl)
  next
    case False
    let ?s = "(session_at sid now r)\<lparr>subscribers := subscribers (session_at sid now r) + 1, last_seen := now\<rparr>"
    have "r' = put_session sid ?s r" using p False
      by (auto simp: subscribe_def session_at_def Let_def split: if_splits)
    then show ?thesis
      by (auto simp: carries_def update_conv' session_at_def session_new_def spoke_refl turn_moves_def split: option.split if_splits)
  qed
qed

lemma unsubscribe_carries: "carries r (unsubscribe sid now r)"
  by (auto simp: unsubscribe_def carries_refl split: option.split intro!: carries_fewer) (auto simp: update_conv' split: if_splits)

lemma terminate_ok:
  assumes ok: "relay_ok r" and p: "terminate tid st txt msg now r = (res, r')" and st: "\<not> running_status st" "msg = None \<or> st = Failed"
  shows "relay_ok r' \<and> carries r r'"
proof -
  define d where "d = (if map_of (turns r) tid = None then r else r\<lparr>turns := AList.delete tid (turns r)\<rparr>)"
  have d: "sessions d = sessions r" "counter d = counter r" "recent_turns d = recent_turns r" "store_ok (turns d)"
    "map_of (turns d) = (map_of (turns r))(tid := None)"
    using relay_okD(2) [OF ok] by (auto simp: d_def store_simps delete_conv')
  note fewer = carries_fewer [of d r]
  show ?thesis
  proof (cases "turn_mut tid r")
    case (Inl e)
    have r': "r' = d" using p Inl by (simp add: terminate_def Let_def d_def)
    have "session_ok sid s d" if s: "map_of (sessions r) sid = Some s" for sid s
    proof -
      have "\<not> (s_turn s = Some t \<and> t_id t = tid \<and> map_of (turns r) tid = Some sid)" for t
        using Inl s by (auto simp: turn_mut_def split: option.splits)
      with relay_okD(4) [OF ok s] show ?thesis by (auto simp: session_ok_def turn_ok_def d)
    qed
    then have "relay_ok d" using ok d relay_okD(5) [OF ok] by (auto simp: relay_ok_def entry_ok_def split: if_splits)
    moreover have "carries r d" by (rule fewer) (auto simp: d split: if_splits)
    ultimately show ?thesis by (simp add: r')
  next
    case (Inr a)
    obtain sid s t where a: "a = (sid, s, t)" by (cases a)
    note tm = Inr [unfolded a]
    note m = turn_mutD [OF tm]
    let ?t = "t\<lparr>t_status := st, t_message := msg, t_text := (if st = Done then txt else t_text t)\<rparr>"
    let ?e = "if st = Done then DoneEvent tid txt else (case msg of Some x \<Rightarrow> ErrorEvent tid x | None \<Rightarrow> StateEvent tid st)"
    let ?s = "send ?e (s\<lparr>s_turn := Some ?t, last_seen := now\<rparr>)"
    have r': "r' = put_session sid ?s d" using p tm by (simp add: terminate_def Let_def d_def)
    have t_ok: "turn_ok sid t r" "valid_session_id sid" using turn_mut_ok [OF ok tm] by simp_all
    have msg: "t_message t = None" using t_ok m by (simp add: turn_ok_def)
    have "session_ok x y d" if y: "map_of (sessions r) x = Some y" "x \<noteq> sid" for x y
    proof -
      have "t_id u \<noteq> tid" if u: "s_turn y = Some u" for u
      proof
        assume "t_id u = tid"
        moreover obtain n where "t_id u = turn_id_of x n" "valid_session_id x"
          using relay_okD(4) [OF ok y(1)] u by (auto simp: session_ok_def turn_ok_def)
        moreover obtain k where "tid = turn_id_of sid k" using t_ok(1) m(4) by (auto simp: turn_ok_def)
        ultimately show False using turn_id_inj [of x n sid k] t_ok(2) y(2) by simp
      qed
      with relay_okD(4) [OF ok y(1)] show ?thesis by (auto simp: session_ok_def turn_ok_def d)
    qed
    moreover have s_ok: "session_ok sid ?s d" using t_ok m st(1) by (auto simp: session_ok_def turn_ok_def send_def d)
    moreover have "length (AList.update sid ?s (sessions r)) = length (sessions r)"
      using m(2) by (auto simp: length_update map_of_eq_None_iff dest: map_of_SomeD intro: rev_image_eqI)
    moreover have "entry_ok x y (put_session sid ?s d)" if "map_of (turns d) x = Some y" for x y
      using that relay_okD(5) [OF ok, of x y] by (auto simp: d entry_ok_def update_conv' split: if_splits)
    ultimately have "relay_ok r'"
      using ok d by (auto simp: relay_ok_def r' store_simps update_conv' split: if_splits)
    moreover have "spoke s ?s"
      using m msg st by (intro spoke_send [of _ _ ?e]) (auto simp: send_def view_def shown_def text_for_def split: option.split)
    moreover have "turn_moves r sid s ?s" using m by (auto simp: turn_moves_def send_def)
    ultimately show ?thesis
      by (intro conjI carries_put [OF m(2)]) (auto simp: r' d split: if_splits)
  qed
qed

lemma reap_sessions:
  assumes "store_ok (sessions r)" and "reap now r = (tids, r')"
  shows "map_of (sessions r') x = (case map_of (sessions r) x of None \<Rightarrow> None
    | Some s \<Rightarrow> if 0 < subscribers s \<or> now - last_seen s \<le> IDLE_TIMEOUT
        then Some (if 0 < subscribers s then s\<lparr>last_seen := now\<rparr> else s) else None)"
proof -
  let ?touch = "\<lambda>s. if 0 < subscribers s then s\<lparr>last_seen := now\<rparr> else s"
  let ?seen = "map (\<lambda>(sid, s). (sid, ?touch s)) (sessions r)"
  have so: "store_ok ?seen" using assms(1) by (simp add: store_ok_def comp_def case_prod_beta)
  have seen: "map_of ?seen x = map_option ?touch (map_of (sessions r) x)"
    by (induction "sessions r" rule: list.induct) (auto simp: map_of_map)
  have "sessions r' = store_retain (\<lambda>_ s. 0 < subscribers s \<or> now - last_seen s \<le> IDLE_TIMEOUT) ?seen"
    using assms(2) by (auto simp: reap_def Let_def)
  then show ?thesis using map_of_retain [OF so] seen by (auto split: option.split)
qed

lemma reap_ok: "relay_ok r \<Longrightarrow> reap now r = (tids, r') \<Longrightarrow> relay_ok r' \<and> carries r r'"
proof -
  assume ok: "relay_ok r" and p: "reap now r = (tids, r')"
  let ?touch = "\<lambda>s. if 0 < subscribers s then s\<lparr>last_seen := now\<rparr> else s"
  let ?seen = "map (\<lambda>(sid, s). (sid, ?touch s)) (sessions r)"
  let ?kept = "store_retain (\<lambda>_ s. 0 < subscribers s \<or> now - last_seen s \<le> IDLE_TIMEOUT) ?seen"
  have r': "r' = r\<lparr>sessions := ?kept, turns := store_retain (\<lambda>_ sid. sid \<in> fst ` set ?kept) (turns r)\<rparr>"
    using p by (simp add: reap_def Let_def)
  have so: "store_ok ?seen" using relay_okD(1) [OF ok] by (simp add: store_ok_def comp_def case_prod_beta)
  have seen: "map_of ?seen x = map_option ?touch (map_of (sessions r) x)" for x
    by (induction "sessions r" rule: list.induct) (auto simp: map_of_map)
  have kept: "map_of ?kept x = (case map_of (sessions r) x of None \<Rightarrow> None
      | Some s \<Rightarrow> if 0 < subscribers s \<or> now - last_seen s \<le> IDLE_TIMEOUT then Some (?touch s) else None)" for x
    unfolding map_of_retain [OF so] seen by (auto split: option.split)
  have so': "store_ok ?kept" "store_ok (turns r)" using so relay_okD(2) [OF ok] by (simp_all add: store_simps)
  have len: "length ?kept \<le> MAX_SESSIONS"
    using relay_okD(3) [OF ok] length_filter_le [of "\<lambda>(k, s). 0 < subscribers s \<or> now - last_seen s \<le> IDLE_TIMEOUT" ?seen]
    unfolding store_retain_def length_map by (rule order_trans [rotated])
  have tn: "map_of (turns r') tid = (case map_of (turns r) tid of None \<Rightarrow> None
      | Some sid \<Rightarrow> if map_of ?kept sid \<noteq> None then Some sid else None)" for tid
  proof -
    have mem: "x \<in> fst ` set ?kept \<longleftrightarrow> map_of ?kept x \<noteq> None" for x by (simp add: map_of_eq_None_iff)
    have "turns r' = store_retain (\<lambda>_ sid. map_of ?kept sid \<noteq> None) (turns r)" unfolding r' mem by simp
    then show ?thesis using map_of_retain [OF so'(2)] by (simp only:)
  qed
  have se: "\<exists>s. map_of (sessions r) x = Some s \<and> sent y = sent s \<and> s_turn y = s_turn s" if "map_of (sessions r') x = Some y" for x y
    using that unfolding r' by (auto simp: kept split: option.splits if_splits)
  have "session_ok x y r'" if y: "map_of (sessions r') x = Some y" for x y
  proof -
    from se [OF y] obtain s where s: "map_of (sessions r) x = Some s" "s_turn y = s_turn s" by blast
    have k: "map_of ?kept x \<noteq> None" using y unfolding r' by simp
    have "turn_ok x t r'" if t: "s_turn s = Some t" for t
    proof -
      have "turn_ok x t r" "valid_session_id x" using relay_okD(4) [OF ok s(1)] t by (simp_all add: session_ok_def)
      moreover have "counter r' = counter r" by (simp add: r')
      ultimately show ?thesis using k by (auto simp: turn_ok_def tn split: option.splits)
    qed
    with relay_okD(4) [OF ok s(1)] s(2) show ?thesis by (simp add: session_ok_def)
  qed
  moreover have "entry_ok tid x r'" if "map_of (turns r') tid = Some x" for tid x
  proof -
    have t: "map_of (turns r) tid = Some x" "map_of ?kept x \<noteq> None"
      using that by (auto simp: tn split: option.splits if_splits)
    have "map_of (sessions r') x \<noteq> None" "counter r' = counter r" using t(2) by (simp_all add: r')
    with relay_okD(5) [OF ok t(1)] show ?thesis by (simp add: entry_ok_def)
  qed
  moreover have "store_ok (sessions r')" "store_ok (turns r')" "length (sessions r') \<le> MAX_SESSIONS" "recent_turns r' = recent_turns r"
    using so' len by (simp_all add: r' store_simps)
  ultimately have "relay_ok r'" using ok by (simp add: relay_ok_def)
  moreover have "carries r r'"
  proof (rule carries_fewer [OF se])
    show "counter r \<le> counter r'" by (simp add: r')
  qed (auto simp: tn split: option.splits if_splits)
  ultimately show ?thesis ..
qed

lemma disconnect_ok: "relay_ok r \<Longrightarrow> disconnect sid r = (t, r') \<Longrightarrow> relay_ok r' \<and> carries r r'"
proof (cases "map_of (sessions r) sid")
  case (Some s)
  assume ok: "relay_ok r" and p: "disconnect sid r = (t, r')"
  have r': "r' = r\<lparr>sessions := AList.delete sid (sessions r), turns := store_retain (\<lambda>_ x. x \<noteq> sid) (turns r)\<rparr>"
    using p Some by (simp add: disconnect_def)
  note ms = relay_okD(1) [OF ok] and mt = relay_okD(2) [OF ok]
  have sn: "map_of (sessions r') = (map_of (sessions r))(sid := None)" by (simp add: r' delete_conv')
  have tn: "map_of (turns r') x = (case map_of (turns r) x of None \<Rightarrow> None | Some y \<Rightarrow> if y \<noteq> sid then Some y else None)" for x
    unfolding r' by (simp add: map_of_retain [OF mt])
  have "session_ok x y r'" if y: "map_of (sessions r') x = Some y" for x y
  proof -
    have y': "map_of (sessions r) x = Some y" "x \<noteq> sid" using y by (auto simp: sn split: if_splits)
    have "counter r' = counter r" by (simp add: r')
    with relay_okD(4) [OF ok y'(1)] y'(2) show ?thesis
      by (auto simp: session_ok_def turn_ok_def tn split: option.splits)
  qed
  moreover have "entry_ok x y r'" if "map_of (turns r') x = Some y" for x y
  proof -
    have "map_of (turns r) x = Some y" "y \<noteq> sid" using that by (auto simp: tn split: option.splits if_splits)
    moreover have "counter r' = counter r" by (simp add: r')
    ultimately show ?thesis using relay_okD(5) [OF ok] by (simp add: entry_ok_def sn)
  qed
  moreover have "length (sessions r') \<le> MAX_SESSIONS"
    using relay_okD(3) [OF ok] by (simp add: r' AList.delete_eq) (meson le_trans length_filter_le)
  moreover have "store_ok (sessions r')" "store_ok (turns r')" "recent_turns r' = recent_turns r"
    using ms mt by (simp_all add: r' store_simps)
  ultimately have "relay_ok r'" using ok by (simp add: relay_ok_def)
  moreover have "carries r r'"
    by (rule carries_fewer) (auto simp: sn tn split: option.splits if_splits, simp add: r')
  ultimately show ?thesis ..
qed (auto simp: disconnect_def carries_refl)

lemma clear_ok: "relay_ok r \<Longrightarrow> relay_ok (clear_relay r) \<and> carries r (clear_relay r)"
  by (auto simp: relay_ok_def clear_relay_def store_simps intro!: carries_fewer)

lemma relay_step_ok:
  assumes "relay_step now acc r r'" and ok: "relay_ok r" shows "relay_ok r' \<and> carries r r'"
  using assms(1)
proof cases
  case (subscribed sid res)
  then show ?thesis using subscribe_ok [OF ok] subscribe_carries by blast
next
  case (unsubscribed sid)
  then show ?thesis using unsubscribe_ok [OF ok] unsubscribe_carries by simp
next
  case (accepted sid m l p)
  then show ?thesis using begin_turn_ok [OF ok] begin_turn_carries [OF ok] by blast
next
  case (refused sid m l e)
  then show ?thesis using begin_turn_ok [OF ok] begin_turn_carries [OF ok] by blast
next
  case (finished tid final res)
  then show ?thesis using terminate_ok [OF ok] unfolding finish_def by (simp add: running_status_def)
next
  case (failed tid msg res)
  then show ?thesis using terminate_ok [OF ok] unfolding fail_def by (simp add: running_status_def)
next
  case (texted tid x res)
  then show ?thesis using push_text_ok [OF ok] by simp
next
  case (stepped tid x res)
  then show ?thesis using push_step_ok [OF ok] by simp
next
  case (asked tid q res)
  then show ?thesis using ask_ok [OF ok] by simp
next
  case (answered sid a res)
  then show ?thesis using answer_turn_ok [OF ok] by simp
next
  case (unasked tid res)
  then show ?thesis using clear_question_ok [OF ok] by simp
next
  case (moved tid st res)
  then show ?thesis using set_status_ok [OF ok] by simp
next
  case (reaped tids)
  then show ?thesis using reap_ok [OF ok] by simp
next
  case (disconnected sid t)
  then show ?thesis using disconnect_ok [OF ok] by simp
next
  case cleared
  then show ?thesis using clear_ok [OF ok] by simp
qed

definition relay_call :: "relay \<Rightarrow> relay \<Rightarrow> bool" where
  "relay_call r r' \<longleftrightarrow> (\<exists>now acc. relay_step now acc r r')"

interpretation relay_sys: guarded_system relay_new relay_call relay_ok
proof
  show "relay_ok relay_new"
    by (simp add: relay_ok_def relay_new_def store_simps)
  show "relay_ok r \<Longrightarrow> relay_call r r' \<Longrightarrow> relay_ok r'" for r r'
    using relay_step_ok by (auto simp: relay_call_def)
qed

section \<open>Runs\<close>

lemma spoke_trans: "spoke a b \<Longrightarrow> spoke b c \<Longrightarrow> spoke a c"
  unfolding spoke_def by (metis append.assoc fold_append comp_apply)

text \<open>Calls during which a session is not dropped.\<close>

definition call_keeping :: "rstr \<Rightarrow> relay \<Rightarrow> relay \<Rightarrow> bool" where
  "call_keeping sid r r' \<longleftrightarrow> relay_call r r' \<and> map_of (sessions r') sid \<noteq> None"

lemma spoke_run:
  assumes "(call_keeping sid)\<^sup>*\<^sup>* r r'" and "relay_ok r" and "map_of (sessions r) sid = Some s" and "map_of (sessions r') sid = Some s'"
  shows "spoke s s' \<and> relay_ok r'"
  using assms
proof (induction arbitrary: s' rule: rtranclp_induct)
  case base
  then show ?case by (simp add: spoke_refl)
next
  case (step r' r'')
  have "map_of (sessions r') sid \<noteq> None"
    using step.hyps(1) step.prems(2) by (cases rule: rtranclp.cases) (auto simp: call_keeping_def)
  then obtain u where u: "map_of (sessions r') sid = Some u" by auto
  from step.IH [OF step.prems(1,2) u] have iu: "spoke s u" "relay_ok r'" by simp_all
  from step.hyps(2) obtain now acc where "relay_step now acc r' r''" by (auto simp: call_keeping_def relay_call_def)
  from relay_step_ok [OF this iu(2)] have c: "relay_ok r''" "carries r' r''" by simp_all
  from carries_old [OF c(2) step.prems(3) u] have "spoke u s'" ..
  with iu(1) c(1) show ?case using spoke_trans by blast
qed

definition frozen :: "rstr \<Rightarrow> turn_status \<Rightarrow> rstr \<Rightarrow> rstr option \<Rightarrow> relay \<Rightarrow> bool" where
  "frozen tid st final msg r \<longleftrightarrow> relay_ok r \<and> map_of (turns r) tid = None \<and>
     (\<exists>sid n. valid_session_id sid \<and> n < counter r \<and> tid = turn_id_of sid n) \<and>
     (\<forall>sid s t. map_of (sessions r) sid = Some s \<longrightarrow> s_turn s = Some t \<longrightarrow> t_id t = tid \<longrightarrow>
        t_status t = st \<and> t_message t = msg \<and> t_text t = final)"

lemma frozen_step:
  assumes "frozen tid st final msg r" and "relay_call r r'" shows "frozen tid st final msg r'"
proof -
  from assms(1) obtain sid0 n where tid: "valid_session_id sid0" "n < counter r" "tid = turn_id_of sid0 n" and ok: "relay_ok r"
    and gone: "map_of (turns r) tid = None"
    and stays: "\<And>sid s t. map_of (sessions r) sid = Some s \<Longrightarrow> s_turn s = Some t \<Longrightarrow> t_id t = tid \<Longrightarrow>
        t_status t = st \<and> t_message t = msg \<and> t_text t = final" by (auto simp: frozen_def)
  from assms(2) relay_step_ok [OF _ ok] have ok': "relay_ok r'" and c: "carries r r'" by (auto simp: relay_call_def)
  have new: "turn_id_of sid (counter r) \<noteq> tid" if "valid_session_id sid" for sid
    using turn_id_inj [of sid "counter r" sid0 n] tid that by auto
  have "map_of (turns r') tid = None"
  proof (rule ccontr)
    assume "map_of (turns r') tid \<noteq> None"
    then obtain x where "map_of (turns r') tid = Some x" by auto
    with c gone have "valid_session_id x \<and> tid = turn_id_of x (counter r)" unfolding carries_def by blast
    with new show False by blast
  qed
  moreover have "t_status t = st \<and> t_message t = msg \<and> t_text t = final"
    if s: "map_of (sessions r') sid = Some s'" "s_turn s' = Some t" "t_id t = tid" for sid s' t
  proof (cases "map_of (sessions r) sid")
    case None
    from carries_new [OF c s(1) this] s(2,3) new show ?thesis by auto
  next
    case (Some u)
    from carries_old [OF c s(1) this] have "turn_moves r sid u s'" ..
    then consider "s_turn s' = s_turn u"
      | t1 t2 where "s_turn u = Some t1" "s_turn s' = Some t2" "t_id t2 = t_id t1"
          "map_of (turns r) (t_id t1) \<noteq> None \<or> t2 = t1\<lparr>t_question := None\<rparr>"
      | t2 where "valid_session_id sid" "s_turn s' = Some t2" "t_id t2 = turn_id_of sid (counter r)"
      unfolding turn_moves_def by blast
    then show ?thesis
    proof cases
      case 1
      with s(2,3) stays [OF Some] show ?thesis by simp
    next
      case 2
      with s(2,3) gone stays [OF Some] show ?thesis by auto
    next
      case 3
      with s(2,3) new [OF 3(1)] show ?thesis by simp
    qed
  qed
  moreover have "n < counter r'" using c tid(2) by (simp add: carries_def)
  ultimately show ?thesis using ok' tid(1,3) unfolding frozen_def by blast
qed

lemma frozen_run: "relay_call\<^sup>*\<^sup>* r r' \<Longrightarrow> frozen tid st final msg r \<Longrightarrow> frozen tid st final msg r'"
  by (induction rule: rtranclp_induct) (auto intro: frozen_step)

lemma terminate_frozen:
  assumes ok: "relay_ok r" and p: "terminate tid st final msg now r = (Inr (), r')" and st: "\<not> running_status st" "msg = None \<or> st = Failed"
  shows "\<exists>body. frozen tid st body msg r' \<and> (st = Done \<longrightarrow> body = final)"
proof -
  obtain sid s t where tm: "turn_mut tid r = Inr (sid, s, t)"
    using p by (auto simp: terminate_def Let_def split: sum.splits)
  note m = turn_mutD [OF tm] and t_ok = turn_mut_ok [OF ok tm]
  let ?d = "r\<lparr>turns := AList.delete tid (turns r)\<rparr>"
  let ?t = "t\<lparr>t_status := st, t_message := msg, t_text := (if st = Done then final else t_text t)\<rparr>"
  have "\<exists>e. r' = put_session sid (send e (s\<lparr>s_turn := Some ?t, last_seen := now\<rparr>)) ?d"
    using p tm m(1) by (auto simp: terminate_def Let_def)
  then obtain e where r': "r' = put_session sid (send e (s\<lparr>s_turn := Some ?t, last_seen := now\<rparr>)) ?d" ..
  from t_ok obtain n where n: "n < counter r" "tid = turn_id_of sid n" using m(4) by (auto simp: turn_ok_def)
  have "t_status u = st \<and> t_message u = msg \<and> t_text u = (if st = Done then final else t_text t)"
    if u: "map_of (sessions r') x = Some y" "s_turn y = Some u" "t_id u = tid" for x y u
  proof (cases "x = sid")
    case True
    with u show ?thesis by (auto simp: r' update_conv' send_def)
  next
    case False
    with u have "map_of (sessions r) x = Some y" by (simp add: r' update_conv')
    from relay_okD(4) [OF ok this] u obtain k where "valid_session_id x" "t_id u = turn_id_of x k"
      by (auto simp: session_ok_def turn_ok_def)
    with turn_id_inj [of x k sid n] n(2) u(3) t_ok(1) False show ?thesis by simp
  qed
  moreover have "map_of (turns r') tid = None" by (simp add: r' delete_conv')
  moreover have "relay_ok r'" using terminate_ok [OF ok p st] by simp
  moreover have "n < counter r'" using n(1) by (simp add: r')
  ultimately show ?thesis using n(2) t_ok(1) unfolding frozen_def by (intro exI [of _ "if st = Done then final else t_text t"]) auto
qed

section \<open>Turns per minute\<close>

text \<open>A run with its clock and the times of the accepted turns, the newest first.\<close>

inductive relay_run :: "nat \<Rightarrow> nat list \<Rightarrow> relay \<Rightarrow> bool" where
  started: "relay_run now [] relay_new"
| ticked: "relay_run now log r \<Longrightarrow> now \<le> now' \<Longrightarrow> relay_run now' log r"
| called: "relay_run now log r \<Longrightarrow> relay_step now acc r r' \<Longrightarrow> relay_run now (acc @ log) r'"

definition within :: "nat \<Rightarrow> nat list \<Rightarrow> nat list" where
  "within t log = filter (\<lambda>a. a \<le> t \<and> t - a < 60 * 1000) log"

lemma put_recent: "recent_turns (put_session sid s r) = recent_turns r"
  by simp

lemma step_recent:
  assumes "relay_step now acc r r'"
  shows "acc = [] \<and> (recent_turns r' = recent_turns r \<or> recent_turns r' = recent_turns (pruned now r)) \<or>
    acc = [now] \<and> recent_turns r' = recent_turns (pruned now r) @ [now] \<and> length (recent_turns (pruned now r)) < MAX_TURNS_PER_MINUTE"
  using assms
proof cases
  case (accepted sid m l p)
  show ?thesis by (rule begin_turn_cases [OF accepted(2)]) (use accepted(1) in auto)
next
  case (refused sid m l e)
  show ?thesis by (rule begin_turn_cases [OF refused(2)]) (use refused(1) in auto)
next
  case (finished tid final res)
  then show ?thesis by (auto simp: finish_def terminate_def Let_def split: sum.splits if_splits)
next
  case (failed tid msg res)
  then show ?thesis by (auto simp: fail_def terminate_def Let_def split: sum.splits if_splits)
qed (auto simp: subscribe_def unsubscribe_def push_text_def push_step_def ask_def answer_turn_def clear_question_def set_status_def
    reap_def disconnect_def clear_relay_def Let_def split: option.splits sum.splits if_splits)

lemma length_filter_imp: "(\<And>x. x \<in> set xs \<Longrightarrow> p x \<Longrightarrow> q x) \<Longrightarrow> length (filter p xs) \<le> length (filter q xs)"
  by (induction xs) auto

lemma relay_run_rate:
  assumes "relay_run now log r"
  shows "(\<forall>a\<in>set log. a \<le> now) \<and> within now log = filter (\<lambda>a. now - a < 60 * 1000) (rev (recent_turns r)) \<and>
    (\<forall>t. length (within t log) \<le> MAX_TURNS_PER_MINUTE)"
  using assms
proof induction
  case (started now)
  then show ?case by (simp add: within_def relay_new_def)
next
  case (ticked now log r now')
  have "within now' log = filter (\<lambda>a. now' - a < 60 * 1000) (within now log)"
    unfolding within_def filter_filter using ticked by (intro filter_cong) auto
  also have "within now log = filter (\<lambda>a. now - a < 60 * 1000) (rev (recent_turns r))" using ticked by simp
  also have "filter (\<lambda>a. now' - a < 60 * 1000) \<dots> = filter (\<lambda>a. now' - a < 60 * 1000) (rev (recent_turns r))"
    unfolding filter_filter using ticked by (intro filter_cong) auto
  finally show ?case using ticked by auto
next
  case (called now log r acc r')
  let ?p = "recent_turns (pruned now r)"
  have keep: "filter (\<lambda>a. now - a < 60 * 1000) (rev ?p) = filter (\<lambda>a. now - a < 60 * 1000) (rev (recent_turns r))"
    by (simp add: rev_filter [symmetric])
  have p: "rev ?p = within now log" using called.IH by (simp add: rev_filter)
  from step_recent [OF called.hyps(2)] show ?case
  proof
    assume "acc = [] \<and> (recent_turns r' = recent_turns r \<or> recent_turns r' = ?p)"
    with called.IH keep show ?case by auto
  next
    assume a: "acc = [now] \<and> recent_turns r' = ?p @ [now] \<and> length ?p < MAX_TURNS_PER_MINUTE"
    have len: "length (within now log) < MAX_TURNS_PER_MINUTE" using a arg_cong [OF p, of length] by simp
    have "length (within t (now # log)) \<le> MAX_TURNS_PER_MINUTE" for t
    proof (cases "now \<le> t")
      case True
      have "length (within t log) \<le> length (within now log)"
        unfolding within_def by (rule length_filter_imp) (use True called.IH in auto)
      with len show ?thesis by (auto simp: within_def)
    next
      case False
      then show ?thesis using called.IH by (simp add: within_def)
    qed
    moreover have "within now (now # log) = filter (\<lambda>a. now - a < 60 * 1000) (rev (?p @ [now]))"
      using p by (simp add: within_def)
    ultimately show ?case using a called.IH by simp
  qed
qed

end
