(* ===== verification/Relay_Guarantees.thy ===== *)
theory Relay_Guarantees
  imports Relay_Props
begin

text \<open>
  What the broker promises: its reachable states, readers that keep up, the reader that lags, ended turns,
  the rate limit, and who is forgotten.
\<close>

section \<open>The stream of one guest\<close>

fun stream_frames ::
  "(remote_event list \<Rightarrow> nat \<Rightarrow> recv_result) \<Rightarrow> remote_event list \<Rightarrow> remote_event option \<Rightarrow> stream_state \<Rightarrow> nat \<Rightarrow> remote_event list" where
  "stream_frames recv history snap st 0 = []"
| "stream_frames recv history snap st (Suc k) = (case stream_next recv history snap st of
     (Frame e, st) \<Rightarrow> e # stream_frames recv history snap st k
   | (_, st) \<Rightarrow> [])"

lemma frames_follow:
  assumes "\<And>c. n \<le> c \<Longrightarrow> c < length h \<Longrightarrow> recv h c = Got (h ! c) (Suc c)"
  shows "n \<le> c \<Longrightarrow> k \<le> length h - c \<Longrightarrow> stream_frames recv h snap \<lparr>cursor = c, pending = None\<rparr> k = take k (drop c h)"
proof (induction k arbitrary: c)
  case (Suc k)
  then have c: "c < length h" by simp
  with Suc have "stream_frames recv h snap \<lparr>cursor = c, pending = None\<rparr> (Suc k) = h ! c # take k (drop (Suc c) h)"
    using assms [of c] by (simp add: stream_next_def)
  also have "\<dots> = take (Suc k) (drop c h)" using c by (simp add: Cons_nth_drop_Suc [symmetric])
  finally show ?case .
qed simp

definition nobody :: reader where "nobody = \<lparr>rd_turn = None, rd_text = []\<rparr>"

lemma reachable_ok: "relay_call\<^sup>*\<^sup>* relay_new r \<Longrightarrow> relay_ok r"
  by (rule relay_sys.reachable_inv)

lemma subscribeD:
  assumes "subscribe sid now r = (Inr (n, snap), r')"
  obtains s where "map_of (sessions r') sid = Some s" "n = length (sent s)" "snap = session_snapshot s"
    "relay_call r r'"
proof -
  let ?s = "session_at sid now r"
  let ?s' = "?s\<lparr>subscribers := subscribers ?s + 1, last_seen := now\<rparr>"
  have "n = length (sent ?s)" "snap = session_snapshot ?s" "r' = put_session sid ?s' r"
    using assms by (auto simp: subscribe_def session_at_def Let_def session_snapshot_def split: if_splits)
  moreover have "relay_call r r'" using subscribed [OF assms] by (auto simp: relay_call_def)
  ultimately show ?thesis using that [of ?s'] by (simp add: update_conv' session_snapshot_def)
qed

text \<open>C16.
  In every reachable state there are at most eight sessions, each under a valid id; every turn has an id of
  its own session, at most twenty steps, and is registered while it waits or runs; every registered id
  leads to a live session.\<close>
theorem relay_always_sound:
  assumes "relay_call\<^sup>*\<^sup>* relay_new r"
  shows "length (sessions r) \<le> MAX_SESSIONS \<and> distinct (map fst (sessions r)) \<and>
    (\<forall>sid s. map_of (sessions r) sid = Some s \<longrightarrow> valid_session_id sid \<and>
       (\<forall>t. s_turn s = Some t \<longrightarrow> length (t_steps t) \<le> MAX_STEPS \<and> prefix (sid @ [35]) (t_id t) \<and>
          (in_flight s \<longrightarrow> map_of (turns r) (t_id t) = Some sid))) \<and>
    (\<forall>tid sid. map_of (turns r) tid = Some sid \<longrightarrow> map_of (sessions r) sid \<noteq> None \<and> prefix (sid @ [35]) tid)"
proof -
  note ok = reachable_ok [OF assms]
  have "valid_session_id sid \<and> (\<forall>t. s_turn s = Some t \<longrightarrow> length (t_steps t) \<le> MAX_STEPS \<and> prefix (sid @ [35]) (t_id t) \<and>
          (in_flight s \<longrightarrow> map_of (turns r) (t_id t) = Some sid))"
    if "map_of (sessions r) sid = Some s" for sid s
    using relay_okD(4) [OF ok that] by (auto simp: session_ok_def turn_ok_def in_flight_def turn_id_of_def)
  moreover have "map_of (sessions r) sid \<noteq> None \<and> prefix (sid @ [35]) tid" if "map_of (turns r) tid = Some sid" for tid sid
    using relay_okD(5) [OF ok that] by (auto simp: entry_ok_def turn_id_of_def)
  ultimately show ?thesis using relay_okD(1,3) [OF ok] by (simp add: store_ok_def)
qed

lemma demo_subscribe:
  "subscribe (lit ''a'') 0 relay_new = (Inr (0, session_snapshot (session_new 0)),
     relay_new\<lparr>sessions := [(lit ''a'', (session_new 0)\<lparr>subscribers := 1\<rparr>)]\<rparr>)"
  by (simp add: subscribe_def valid_session_id_def lit_def is_ascii_alphabetic_def utf8_len_def utf8_len_char_def
    MAX_SESSION_ID_LEN_def MAX_SESSIONS_def relay_new_def put_session_def session_new_def session_snapshot_def)

lemma demo_reach:
  "relay_call\<^sup>*\<^sup>* relay_new (relay_new\<lparr>sessions := [(lit ''a'', (session_new 0)\<lparr>subscribers := 1\<rparr>)]\<rparr>)"
  using subscribed [OF demo_subscribe] by (intro r_into_rtranclp) (auto simp: relay_call_def)

theorem relay_always_sound_witness:
  "valid_session_id (lit ''a'') \<and> length (sessions (relay_new\<lparr>sessions := [(lit ''a'', (session_new 0)\<lparr>subscribers := 1\<rparr>)]\<rparr>)) \<le> MAX_SESSIONS"
  using relay_always_sound [OF demo_reach] by (simp add: session_new_def)

text \<open>C6.
  A reader keeps up.  A guest subscribes in any reachable state; as long as its session is not dropped,
  whatever any caller does, the frames of its stream, the snapshot and then everything sent since, leave it with exactly
  the turn and the text (or the message of a failed turn) that the broker holds, when the channel never
  lags (tokio's \<open>recv\<close> then gives the events in order).\<close>
theorem reader_keeps_up:
  assumes "relay_call\<^sup>*\<^sup>* relay_new r0" and "subscribe sid now r0 = (Inr (n, snap), r1)"
    and "(call_keeping sid)\<^sup>*\<^sup>* r1 r2" and "map_of (sessions r2) sid = Some s"
    and "\<And>c. c < length (sent s) \<Longrightarrow> recv (sent s) c = Got (sent s ! c) (Suc c)"
  shows "stream_frames recv (sent s) now_snap \<lparr>cursor = n, pending = Some snap\<rparr> (Suc (length (sent s) - n)) = snap # drop n (sent s) \<and>
    fold hear (stream_frames recv (sent s) now_snap \<lparr>cursor = n, pending = Some snap\<rparr> (Suc (length (sent s) - n))) nobody = view s"
proof -
  from subscribeD [OF assms(2)] obtain s1 where s1: "map_of (sessions r1) sid = Some s1" "n = length (sent s1)"
    "snap = session_snapshot s1" "relay_call r0 r1" .
  have "relay_ok r1" using assms(1) s1(4) by (intro reachable_ok) (rule rtranclp.rtrancl_into_rtrancl)
  from spoke_run [OF assms(3) this s1(1) assms(4)] obtain es where es: "sent s = sent s1 @ es" "view s = fold hear es (view s1)"
    by (auto simp: spoke_def)
  have "stream_frames recv (sent s) now_snap \<lparr>cursor = n, pending = Some snap\<rparr> (Suc (length (sent s) - n)) =
      snap # stream_frames recv (sent s) now_snap \<lparr>cursor = n, pending = None\<rparr> (length (sent s) - n)"
    by (simp add: stream_next_def)
  also have "\<dots> = snap # take (length (sent s) - n) (drop n (sent s))"
    using frames_follow [of 0 "sent s" recv n] assms(5) by simp
  finally have f: "stream_frames recv (sent s) now_snap \<lparr>cursor = n, pending = Some snap\<rparr> (Suc (length (sent s) - n)) = snap # drop n (sent s)"
    by simp
  have "drop n (sent s) = es" by (simp add: es(1) s1(2))
  moreover have "hear snap nobody = view s1" unfolding s1(3) view_snapshot by (simp add: nobody_def view_def)
  ultimately show ?thesis unfolding f by (simp add: es(2))
qed

definition in_order :: "remote_event list \<Rightarrow> nat \<Rightarrow> recv_result" where
  "in_order h c = (if c < length h then Got (h ! c) (Suc c) else Nothing)"

theorem reader_keeps_up_witness:
  "fold hear [Snapshot None [] None None [] None] nobody = view ((session_new 0)\<lparr>subscribers := 1\<rparr>)"
proof -
  let ?s = "(session_new 0)\<lparr>subscribers := 1\<rparr>"
  have s: "map_of (sessions (relay_new\<lparr>sessions := [(lit ''a'', ?s)]\<rparr>)) (lit ''a'') = Some ?s" by simp
  have o: "in_order (sent ?s) c = Got (sent ?s ! c) (Suc c)" if "c < length (sent ?s)" for c
    using that by (simp add: in_order_def)
  from reader_keeps_up [where recv = in_order and now_snap = None, OF rtranclp.rtrancl_refl demo_subscribe rtranclp.rtrancl_refl s o]
  show ?thesis by (simp add: session_new_def session_snapshot_def stream_next_def)
qed

text \<open>A reader that lags repeats text.  When tokio reports a lag the receiver stands at the oldest event it
  still holds, but the stream answers with a snapshot that already has the text of all of them: when
  these are deltas of the running turn, the reader ends up with the whole text and then every one of those
  deltas again.\<close>
theorem lagged_reader_repeats:
  assumes "s_turn s = Some t" and "recv (sent s) c = Lagged n" and "n \<le> length (sent s)"
    and "\<And>i. n \<le> i \<Longrightarrow> i < length (sent s) \<Longrightarrow> recv (sent s) i = Got (sent s ! i) (Suc i)"
    and "drop n (sent s) = map (Delta (t_id t)) ds"
  shows "rd_text (fold hear (stream_frames recv (sent s) (Some (session_snapshot s)) \<lparr>cursor = c, pending = None\<rparr> (Suc (length ds))) rd) =
    shown t @ concat ds"
proof -
  let ?snap = "Some (session_snapshot s)"
  have len: "length ds = length (sent s) - n" using arg_cong [OF assms(5), of length] by simp
  have "stream_frames recv (sent s) ?snap \<lparr>cursor = c, pending = None\<rparr> (Suc (length ds)) =
      session_snapshot s # stream_frames recv (sent s) ?snap \<lparr>cursor = n, pending = None\<rparr> (length ds)"
    using assms(2) by (simp add: stream_next_def)
  also have "stream_frames recv (sent s) ?snap \<lparr>cursor = n, pending = None\<rparr> (length ds) = map (Delta (t_id t)) ds"
    using frames_follow [of n "sent s" recv n "length ds" ?snap] assms(4,5) len by simp
  finally have f: "stream_frames recv (sent s) ?snap \<lparr>cursor = c, pending = None\<rparr> (Suc (length ds)) =
      session_snapshot s # map (Delta (t_id t)) ds" .
  have v: "hear (session_snapshot s) rd = \<lparr>rd_turn = Some (t_id t), rd_text = shown t\<rparr>"
    using assms(1) by (simp add: view_snapshot view_def)
  have deltas: "fold hear (map (Delta i) ds) \<lparr>rd_turn = Some i, rd_text = x\<rparr> = \<lparr>rd_turn = Some i, rd_text = x @ concat ds\<rparr>" for i x
    by (induction ds arbitrary: x) (simp_all add: text_for_def)
  show ?thesis unfolding f by (simp add: v deltas)
qed

definition demo_turn :: turn where
  "demo_turn = (turn_new (lit ''a#0''))\<lparr>t_text := lit ''one two'', t_status := Running\<rparr>"

definition demo_session :: session where
  "demo_session = (session_new 0)\<lparr>s_turn := Some demo_turn, sent := [Delta (lit ''a#0'') (lit ''one''), Delta (lit ''a#0'') (lit '' two'')]\<rparr>"

definition short_channel :: "remote_event list \<Rightarrow> nat \<Rightarrow> recv_result" where
  "short_channel h c = (if c + 1 < length h then Lagged (length h - 1) else in_order h c)"

theorem lagged_reader_repeats_witness:
  "rd_text (fold hear (stream_frames short_channel (sent demo_session) (Some (session_snapshot demo_session)) \<lparr>cursor = 0, pending = None\<rparr>
     (Suc (length [lit '' two'']))) nobody) = lit ''one two two''"
proof -
  have "rd_text (fold hear (stream_frames short_channel (sent demo_session) (Some (session_snapshot demo_session)) \<lparr>cursor = 0, pending = None\<rparr>
     (Suc (length [lit '' two'']))) nobody) = shown demo_turn @ concat [lit '' two'']"
    by (rule lagged_reader_repeats [where n = 1])
      (auto simp: demo_session_def short_channel_def in_order_def demo_turn_def turn_new_def)
  then show ?thesis by (simp add: shown_def demo_turn_def turn_new_def lit_def)
qed

text \<open>An ended turn stays ended.  Once a turn is finished or failed, no call of any caller brings it back: every
  later update of it is refused and changes nothing, and as long as its session shows it, it is shown
  as it ended.\<close>
theorem ended_turn_stays_ended:
  assumes "relay_call\<^sup>*\<^sup>* relay_new r0" and "relay_call\<^sup>*\<^sup>* r1 r2"
    and "finish tid final now r0 = (Inr (), r1) \<and> st = Done \<and> msg = None \<or> fail tid m now r0 = (Inr (), r1) \<and> st = Failed \<and> msg = Some m"
  shows "push_text tid x r2 = (Inl UnknownTurn, r2) \<and> push_step tid y r2 = (Inl UnknownTurn, r2) \<and>
    set_status tid st' r2 = (Inl UnknownTurn, r2) \<and> ask tid q r2 = (Inl UnknownTurn, r2) \<and>
    finish tid final' now' r2 = (Inl UnknownTurn, r2) \<and> fail tid m' now' r2 = (Inl UnknownTurn, r2) \<and>
    (\<forall>sid s t. map_of (sessions r2) sid = Some s \<longrightarrow> s_turn s = Some t \<longrightarrow> t_id t = tid \<longrightarrow>
       t_status t = st \<and> t_message t = msg \<and> (st = Done \<longrightarrow> t_text t = final))"
proof -
  note ok = reachable_ok [OF assms(1)]
  have "\<exists>body. frozen tid st body msg r1 \<and> (st = Done \<longrightarrow> body = final)"
    using assms(3) terminate_frozen [OF ok, of tid Done final None now r1] terminate_frozen [OF ok, of tid Failed "[]" "Some m" now r1]
    by (auto simp: finish_def fail_def running_status_def)
  then obtain body where "frozen tid st body msg r1" and body: "st = Done \<longrightarrow> body = final" by blast
  from frozen_run [OF assms(2) this(1)] have fr: "frozen tid st body msg r2" .
  then have gone: "map_of (turns r2) tid = None" by (simp add: frozen_def)
  then have none: "turn_mut tid r2 = Inl UnknownTurn" by (simp add: turn_mut_def)
  have "t_status t = st \<and> t_message t = msg \<and> (st = Done \<longrightarrow> t_text t = final)"
    if "map_of (sessions r2) sid = Some s" "s_turn s = Some t" "t_id t = tid" for sid s t
    using fr that body by (auto simp: frozen_def)
  then show ?thesis using none gone
    by (simp add: push_text_def push_step_def set_status_def ask_def finish_def fail_def terminate_def)
qed

definition demo_begun :: relay where
  "demo_begun = snd (begin_turn (lit ''a'') (lit ''hi'') None 0 relay_new)"

lemma demo_begin: "\<exists>p. begin_turn (lit ''a'') (lit ''hi'') None 0 relay_new = (Inr p, demo_begun)"
  by (simp add: demo_begun_def begin_turn_def valid_session_id_def lit_def is_ascii_alphabetic_def utf8_len_def utf8_len_char_def
    MAX_SESSION_ID_LEN_def MAX_SESSIONS_def MAX_TURNS_PER_MINUTE_def relay_new_def in_flight_def session_new_def Let_def)

lemma demo_begun_turns: "map_of (turns demo_begun) (turn_id_of (lit ''a'') 0) = Some (lit ''a'')"
  "map_of (sessions demo_begun) (lit ''a'') = Some (send (StateEvent (turn_id_of (lit ''a'') 0) Waiting)
     ((session_new 0)\<lparr>last_seen := 0, s_turn := Some (turn_new (turn_id_of (lit ''a'') 0))\<rparr>))"
  by (simp_all add: demo_begun_def begin_turn_def valid_session_id_def lit_def is_ascii_alphabetic_def utf8_len_def utf8_len_char_def
    MAX_SESSION_ID_LEN_def MAX_SESSIONS_def MAX_TURNS_PER_MINUTE_def relay_new_def in_flight_def session_new_def Let_def put_session_def)

lemma demo_begun_reach: "relay_call\<^sup>*\<^sup>* relay_new demo_begun"
proof -
  obtain p where "begin_turn (lit ''a'') (lit ''hi'') None 0 relay_new = (Inr p, demo_begun)" using demo_begin by blast
  from accepted [OF this] show ?thesis by (intro r_into_rtranclp) (auto simp: relay_call_def)
qed

lemma demo_finish: "\<exists>r1. finish (turn_id_of (lit ''a'') 0) (lit ''done'') 1 demo_begun = (Inr (), r1)"
proof -
  have "t_id (turn_new (turn_id_of (lit ''a'') 0)) = turn_id_of (lit ''a'') 0" by (simp add: turn_new_def)
  then have "\<exists>s t. turn_mut (turn_id_of (lit ''a'') 0) demo_begun = Inr (lit ''a'', s, t)"
    by (simp add: turn_mut_def demo_begun_turns send_def)
  then show ?thesis by (auto simp: finish_def terminate_def Let_def)
qed

theorem ended_turn_stays_ended_witness:
  "\<exists>r1. finish (turn_id_of (lit ''a'') 0) (lit ''done'') 1 demo_begun = (Inr (), r1) \<and>
     push_text (turn_id_of (lit ''a'') 0) (lit ''more'') r1 = (Inl UnknownTurn, r1)"
proof -
  from demo_finish obtain r1 where r1: "finish (turn_id_of (lit ''a'') 0) (lit ''done'') 1 demo_begun = (Inr (), r1)" ..
  have "finish (turn_id_of (lit ''a'') 0) (lit ''done'') 1 demo_begun = (Inr (), r1) \<and> Done = Done \<and> None = (None :: rstr option) \<or>
    fail (turn_id_of (lit ''a'') 0) [] 1 demo_begun = (Inr (), r1) \<and> Done = Failed \<and> None = Some []" using r1 by simp
  from ended_turn_stays_ended [OF demo_begun_reach rtranclp.rtrancl_refl this] r1 show ?thesis by blast
qed

text \<open>A question outlives its turn.  When a turn ends while a question is pending, the question stays: an answer to
  it is still accepted and handed to the driver under the turn's id, though every update of that turn is refused.\<close>
theorem question_outlives_turn:
  assumes "turn_mut tid r = Inr (sid, s, t)" and "t_question t = Some q" and "a_question_id a = q_id q"
    and "finish tid final now r = (Inr (), r')"
  shows "\<exists>r''. answer_turn sid a r' = (Inr tid, r'') \<and> push_text tid x r'' = (Inl UnknownTurn, r'')"
proof -
  note m = turn_mutD [OF assms(1)]
  obtain s' where r': "r' = put_session sid s' (r\<lparr>turns := AList.delete tid (turns r)\<rparr>)"
      and s': "s_turn s' = Some (t\<lparr>t_status := Done, t_message := None, t_text := final\<rparr>)"
    using assms(1,4) m(1) by (auto simp: finish_def terminate_def Let_def send_def)
  have "map_of (sessions r') sid = Some s'" by (simp add: r' update_conv')
  then obtain r'' where a: "answer_turn sid a r' = (Inr tid, r'')" and t: "turns r'' = turns r'"
    using s' assms(2,3) m(4) by (simp add: answer_turn_def)
  have "map_of (turns r'') tid = None" using t by (simp add: r' delete_conv')
  then have "push_text tid x r'' = (Inl UnknownTurn, r'')" by (simp add: push_text_def turn_mut_def)
  with a show ?thesis by blast
qed

definition demo_question :: question where
  "demo_question = \<lparr>q_id = lit ''q'', q_question = [], q_options = [], q_allow_multiple = False\<rparr>"

definition demo_asked :: relay where
  "demo_asked = \<lparr>sessions = [(lit ''a'', demo_session\<lparr>s_turn := Some (demo_turn\<lparr>t_question := Some demo_question\<rparr>)\<rparr>)],
     turns = [(lit ''a#0'', lit ''a'')], recent_turns = [], counter = 1\<rparr>"

theorem question_outlives_turn_witness:
  "\<exists>r' r''. finish (lit ''a#0'') (lit ''done'') 1 demo_asked = (Inr (), r') \<and>
     answer_turn (lit ''a'') \<lparr>a_question_id = lit ''q'', a_labels = [], a_text = None\<rparr> r' = (Inr (lit ''a#0''), r'')"
proof -
  have tm: "turn_mut (lit ''a#0'') demo_asked = Inr (lit ''a'', demo_session\<lparr>s_turn := Some (demo_turn\<lparr>t_question := Some demo_question\<rparr>)\<rparr>,
      demo_turn\<lparr>t_question := Some demo_question\<rparr>)"
    by (simp add: turn_mut_def demo_asked_def demo_turn_def turn_new_def)
  obtain r' where r': "finish (lit ''a#0'') (lit ''done'') 1 demo_asked = (Inr (), r')"
    by (simp add: finish_def terminate_def tm Let_def)
  from question_outlives_turn [OF tm _ _ r', of demo_question "\<lparr>a_question_id = lit ''q'', a_labels = [], a_text = None\<rparr>"] r'
  show ?thesis by (auto simp: demo_question_def)
qed

text \<open>Over any run of the server, whoever sends the prompts, no minute holds more than twenty accepted turns:
  for every moment, the turns accepted in the sixty seconds up to it are at most \<open>MAX_TURNS_PER_MINUTE\<close>.\<close>
theorem turns_per_minute:
  assumes "relay_run now log r"
  shows "length (filter (\<lambda>a. a \<le> t \<and> t - a < 60 * 1000) log) \<le> MAX_TURNS_PER_MINUTE"
  using relay_run_rate [OF assms] by (simp add: within_def)

theorem turns_per_minute_witness:
  "relay_run 0 [0] demo_begun \<and> length (filter (\<lambda>a. a \<le> 5 \<and> 5 - a < 60 * 1000) [0 :: nat]) \<le> MAX_TURNS_PER_MINUTE"
proof
  obtain p where "begin_turn (lit ''a'') (lit ''hi'') None 0 relay_new = (Inr p, demo_begun)" using demo_begin by blast
  from called [OF started accepted [OF this]] show run: "relay_run 0 [0] demo_begun" by simp
  show "length (filter (\<lambda>a. a \<le> 5 \<and> 5 - a < 60 * 1000) [0 :: nat]) \<le> MAX_TURNS_PER_MINUTE"
    by (rule turns_per_minute [OF run])
qed

lemma mem_orphaned:
  "x \<in> set (orphaned now s) \<longleftrightarrow> subscribers s = 0 \<and> ORPHAN_GRACE < now - last_seen s \<and>
     (case s_turn s of Some t \<Rightarrow> running_status (t_status t) \<and> x = t_id t | None \<Rightarrow> False)"
proof (cases "s_turn s")
  case None
  then show ?thesis by (simp only: orphaned_def in_flight_def option.case if_False if_cancel simp_thms list.set empty_iff)
next
  case (Some t)
  then show ?thesis
    unfolding orphaned_def in_flight_def
    by (cases "subscribers s = 0"; cases "running_status (t_status t)"; cases "ORPHAN_GRACE < now - last_seen s";
        simp only: option.case if_True if_False list.set empty_iff insert_iff simp_thms)
qed

text \<open>The sweep gives up exactly the running turns of sessions nobody has listened to for more than ninety
  seconds, and forgets exactly the sessions without a listener idle for more than fifteen minutes; a
  session with a listener is never touched but for its time.\<close>
theorem reap_spares_the_heard:
  assumes "relay_call\<^sup>*\<^sup>* relay_new r" and "reap now r = (tids, r')"
  shows "set tids = {x. \<exists>sid s. map_of (sessions r) sid = Some s \<and> subscribers s = 0 \<and> ORPHAN_GRACE < now - last_seen s \<and>
      (case s_turn s of Some t \<Rightarrow> running_status (t_status t) \<and> x = t_id t | None \<Rightarrow> False)} \<and>
    (\<forall>sid. map_of (sessions r') sid = (case map_of (sessions r) sid of None \<Rightarrow> None
      | Some s \<Rightarrow> if 0 < subscribers s then Some (s\<lparr>last_seen := now\<rparr>)
          else if now - last_seen s \<le> IDLE_TIMEOUT then Some s else None))"
proof -
  note ok = relay_okD(1) [OF reachable_ok [OF assms(1)]]
  have tids: "tids = concat (map (\<lambda>(_, s). orphaned now s) (sessions r))" using assms(2) by (simp add: reap_def Let_def)
  have "x \<in> set tids \<longleftrightarrow> (\<exists>sid s. map_of (sessions r) sid = Some s \<and> x \<in> set (orphaned now s))" for x
    unfolding tids using store_ok_mem [OF ok] by (simp add: case_prod_beta) (metis fst_conv snd_conv surj_pair)
  then have "set tids = {x. \<exists>sid s. map_of (sessions r) sid = Some s \<and> subscribers s = 0 \<and> ORPHAN_GRACE < now - last_seen s \<and>
      (case s_turn s of Some t \<Rightarrow> running_status (t_status t) \<and> x = t_id t | None \<Rightarrow> False)}"
    unfolding mem_orphaned by blast
  moreover have "map_of (sessions r') sid = (case map_of (sessions r) sid of None \<Rightarrow> None
      | Some s \<Rightarrow> if 0 < subscribers s then Some (s\<lparr>last_seen := now\<rparr>)
          else if now - last_seen s \<le> IDLE_TIMEOUT then Some s else None)" for sid
    using reap_sessions [OF ok assms(2)] by (auto split: option.split)
  ultimately show ?thesis by blast
qed

theorem reap_spares_the_heard_witness:
  "fst (reap (2 * ORPHAN_GRACE) demo_begun) = [turn_id_of (lit ''a'') 0]"
proof -
  let ?tid = "turn_id_of (lit ''a'') 0" and ?r = "reap (2 * ORPHAN_GRACE) demo_begun"
  have "sessions demo_begun = [(lit ''a'', send (StateEvent ?tid Waiting) ((session_new 0)\<lparr>last_seen := 0, s_turn := Some (turn_new ?tid)\<rparr>))]"
    by (simp add: demo_begun_def begin_turn_def valid_session_id_def lit_def is_ascii_alphabetic_def utf8_len_def utf8_len_char_def
      MAX_SESSION_ID_LEN_def MAX_SESSIONS_def MAX_TURNS_PER_MINUTE_def relay_new_def in_flight_def session_new_def Let_def put_session_def)
  then have len: "length (fst ?r) \<le> 1" by (simp add: reap_def Let_def orphaned_def split: option.split)
  from reap_spares_the_heard [OF demo_begun_reach, of "2 * ORPHAN_GRACE" "fst ?r" "snd ?r"]
  have "set (fst ?r) = {x. \<exists>sid s. map_of (sessions demo_begun) sid = Some s \<and> subscribers s = 0 \<and> ORPHAN_GRACE < 2 * ORPHAN_GRACE - last_seen s \<and>
      (case s_turn s of Some t \<Rightarrow> running_status (t_status t) \<and> x = t_id t | None \<Rightarrow> False)}" by simp
  then have "?tid \<in> set (fst ?r)"
    using demo_begun_turns(2) by (auto simp: turn_new_def running_status_def send_def session_new_def ORPHAN_GRACE_def intro!: exI)
  with len show ?thesis by (cases "fst ?r") auto
qed

end
