(* ===== verification/Kdenlive_Xml.thy ===== *)
theory Kdenlive_Xml
  imports Rust_Bytes "HOL-Library.Product_Lexorder"
begin

text \<open>
  \<open>video/kdenlive/xml.rs\<close>: the index of a project file that remembers where every element sits, and
  the replacements over its text.  In the Kdenlive theories a \<open>String\<close> is its UTF-8 encoding (\<open>bytes\<close>), since spans
  are byte offsets.  The reader is \<open>quick_xml\<close>: what it answers is an argument, the list of its events with the
  position after each; the position before an event is the one after the event before, since the loop reads
  \<open>buffer_position\<close> twice without reading in between.
\<close>

type_synonym bytes = "nat list"

section \<open>Strings as bytes\<close>

text \<open>\<open>&s[a..b]\<close> for offsets known to be good.\<close>

definition slice :: "bytes \<Rightarrow> nat \<Rightarrow> nat \<Rightarrow> bytes" where
  "slice s a b = take (b - a) (drop a s)"

text \<open>\<open>is_char_boundary\<close>: the end, or a byte that does not continue a character.\<close>

definition boundary :: "bytes \<Rightarrow> nat \<Rightarrow> bool" where
  "boundary s i \<longleftrightarrow> i = 0 \<or> i = length s \<or> (i < length s \<and> \<not> cont (s ! i))"

definition checked_slice :: "bytes \<Rightarrow> nat \<Rightarrow> nat \<Rightarrow> bytes option" where
  "checked_slice s a b = (if a \<le> b \<and> boundary s a \<and> boundary s b then Some (slice s a b) else None)"

definition trim_bytes :: "bytes \<Rightarrow> bytes" where
  "trim_bytes s = utf8_encode (trim (from_utf8_lossy s))"

definition parse_i64 :: "bytes \<Rightarrow> int option" where
  "parse_i64 s = parse_int 64 s"

definition dec_int :: "int \<Rightarrow> bytes" where
  "dec_int i = (if i < 0 then 45 # decimal (nat (- i)) else decimal (nat i))"

section \<open>The index\<close>

record node =
  n_name :: bytes
  n_attrs :: "(bytes \<times> bytes) list"
  span_start :: nat
  span_end :: nat
  inner_start :: nat
  inner_end :: nat
  children :: "nat list"
  n_text :: bytes

definition attr :: "bytes \<Rightarrow> node \<Rightarrow> bytes option" where
  "attr name n = map_option snd (List.find (\<lambda>(k, _). k = name) (n_attrs n))"

definition self_closing :: "node \<Rightarrow> bool" where
  "self_closing n \<longleftrightarrow> inner_start n = span_end n"

record tree =
  nodes :: "node list"
  root :: nat

text \<open>An event of the reader: \<open>Start\<close> and \<open>Empty\<close> with the tag's name and its attributes, or the error one of them gives;
  a reference with what the library resolves it to.\<close>

datatype xml_event =
    Tag bytes "bytes + (bytes \<times> bytes) list"
  | EndTag
  | TextEvent bytes
  | CData bytes
  | GeneralRef "bytes option" "bytes option"
  | OtherEvent

record parse_state =
  p_nodes :: "node list"
  p_stack :: "nat list"
  p_root :: "nat option"
  p_at :: nat

definition node_new :: "bytes \<Rightarrow> (bytes \<times> bytes) list \<Rightarrow> nat \<Rightarrow> nat \<Rightarrow> node" where
  "node_new name attrs prior after = \<lparr>n_name = name, n_attrs = attrs, span_start = prior, span_end = after,
     inner_start = after, inner_end = after, children = [], n_text = []\<rparr>"

definition node_adjust :: "nat \<Rightarrow> (node \<Rightarrow> node) \<Rightarrow> node list \<Rightarrow> node list" where
  "node_adjust i f ns = ns[i := f (ns ! i)]"

definition push_text_of :: "bytes \<Rightarrow> parse_state \<Rightarrow> parse_state" where
  "push_text_of t st = (case p_stack st of [] \<Rightarrow> st
     | i # _ \<Rightarrow> st\<lparr>p_nodes := node_adjust i (\<lambda>n. n\<lparr>n_text := n_text n @ t\<rparr>) (p_nodes st)\<rparr>)"

definition closes_itself :: "bytes \<Rightarrow> nat \<Rightarrow> bool" where
  "closes_itself text after \<longleftrightarrow> suffix [47, 62] (take after text)"

text \<open>One turn of the loop; the stack's top is its head.\<close>

definition parse_step :: "bytes \<Rightarrow> xml_event \<times> nat \<Rightarrow> parse_state \<Rightarrow> bytes + parse_state" where
  "parse_step text e st = (case e of (ev, after) \<Rightarrow>
     map_sum id (\<lambda>st. st\<lparr>p_at := after\<rparr>)
      (case ev of
        Tag name (Inl err) \<Rightarrow> Inl (lit ''bad attribute: '' @ err)
      | Tag name (Inr attrs) \<Rightarrow>
         (let i = length (p_nodes st);
              ns = p_nodes st @ [node_new name attrs (p_at st) after];
              st = (case p_stack st of
                  p # _ \<Rightarrow> st\<lparr>p_nodes := node_adjust p (\<lambda>n. n\<lparr>children := children n @ [i]\<rparr>) ns\<rparr>
                | [] \<Rightarrow> st\<lparr>p_nodes := ns, p_root := (case p_root st of None \<Rightarrow> Some i | r \<Rightarrow> r)\<rparr>)
          in Inr (if closes_itself text after then st else st\<lparr>p_stack := i # p_stack st\<rparr>))
      | EndTag \<Rightarrow> (case p_stack st of
           [] \<Rightarrow> Inl (lit ''unbalanced end tag'')
         | i # rest \<Rightarrow> Inr (st\<lparr>p_stack := rest,
             p_nodes := node_adjust i (\<lambda>n. n\<lparr>inner_end := p_at st, span_end := after\<rparr>) (p_nodes st)\<rparr>))
      | TextEvent t \<Rightarrow> Inr (push_text_of t st)
      | CData t \<Rightarrow> Inr (push_text_of t st)
      | GeneralRef char_ref predefined \<Rightarrow>
          Inr (push_text_of (case char_ref of Some c \<Rightarrow> c | None \<Rightarrow> (case predefined of Some s \<Rightarrow> s | None \<Rightarrow> [])) st)
      | OtherEvent \<Rightarrow> Inr st))"

fun parse_events :: "bytes \<Rightarrow> (xml_event \<times> nat) list \<Rightarrow> parse_state \<Rightarrow> bytes + parse_state" where
  "parse_events text [] st = Inr st"
| "parse_events text (e # es) st = (case parse_step text e st of Inl err \<Rightarrow> Inl err | Inr st' \<Rightarrow> parse_events text es st')"

text \<open>What the reader gives: its events, and the error it stops with, if it does.\<close>

type_synonym xml_reader = "bytes \<Rightarrow> (xml_event \<times> nat) list \<times> bytes option"

definition tree_parse :: "xml_reader \<Rightarrow> bytes \<Rightarrow> bytes + tree" where
  "tree_parse reader text = (case reader text of (es, failure) \<Rightarrow>
     (case parse_events text es \<lparr>p_nodes = [], p_stack = [], p_root = None, p_at = 0\<rparr> of
        Inl err \<Rightarrow> Inl err
      | Inr st \<Rightarrow> (case failure of
          Some e \<Rightarrow> Inl (lit ''not a readable Kdenlive project: '' @ e)
        | None \<Rightarrow>
            if p_stack st \<noteq> [] then Inl (lit ''the project ends before its last element closes'')
            else (case p_root st of None \<Rightarrow> Inl (lit ''the project is empty'')
              | Some r \<Rightarrow> Inr \<lparr>nodes = p_nodes st, root = r\<rparr>))))"

definition node_of :: "tree \<Rightarrow> nat \<Rightarrow> node" where
  "node_of t i = nodes t ! i"

definition children_named :: "tree \<Rightarrow> nat \<Rightarrow> bytes \<Rightarrow> nat list" where
  "children_named t i name = filter (\<lambda>c. n_name (node_of t c) = name) (children (node_of t i))"

definition property_node :: "tree \<Rightarrow> nat \<Rightarrow> bytes \<Rightarrow> nat option" where
  "property_node t i name =
     List.find (\<lambda>p. attr (lit ''name'') (node_of t p) = Some name) (children_named t i (lit ''property''))"

definition property :: "tree \<Rightarrow> nat \<Rightarrow> bytes \<Rightarrow> bytes option" where
  "property t i name = map_option (\<lambda>p. n_text (node_of t p)) (property_node t i name)"

definition by_id :: "tree \<Rightarrow> bytes \<Rightarrow> nat option" where
  "by_id t i = List.find (\<lambda>c. attr (lit ''id'') (node_of t c) = Some i) (children (node_of t (root t)))"

section \<open>Replacements\<close>

text \<open>\<open>Splices\<close>: ranges with what replaces them, in the order they were made.\<close>

type_synonym splice = "(nat \<times> nat) \<times> bytes"

definition replace_range :: "nat \<Rightarrow> nat \<Rightarrow> bytes \<Rightarrow> splice list \<Rightarrow> splice list" where
  "replace_range a b with es = es @ [((a, b), with)]"

definition insert_at :: "nat \<Rightarrow> bytes \<Rightarrow> splice list \<Rightarrow> splice list" where
  "insert_at at t es = es @ [((at, at), t)]"

fun overlapping :: "splice list \<Rightarrow> bool" where
  "overlapping (((a, b), _) # ((c, d), t) # es) \<longleftrightarrow> c < b \<or> overlapping (((c, d), t) # es)"
| "overlapping _ \<longleftrightarrow> False"

text \<open>\<open>None\<close> is the panic of a slice.\<close>

fun splice_from :: "bytes \<Rightarrow> nat \<Rightarrow> splice list \<Rightarrow> bytes option" where
  "splice_from text at [] = checked_slice text at (length text)"
| "splice_from text at (((a, b), with) # es) =
     (case checked_slice text at a of None \<Rightarrow> None
      | Some prior \<Rightarrow> map_option (\<lambda>rest. prior @ with @ rest) (splice_from text b es))"

definition apply_splices :: "bytes \<Rightarrow> splice list \<Rightarrow> (bytes + bytes) option" where
  "apply_splices text edits =
    (let es = sort_key fst edits in
     if overlapping es then Some (Inl (lit ''internal error: overlapping project edits''))
     else map_option Inr (splice_from text 0 es))"

end
