(* ===== verification/Kdenlive_Doc.thy ===== *)
theory Kdenlive_Doc
  imports Kdenlive_Xml
begin

text \<open>
  \<open>video/kdenlive/doc.rs\<close>: what a Kdenlive project says, read off the span index.  \<open>f64\<close> arithmetic is a record of
  operations, \<open>serde_json\<close> a reader and a printer, \<open>quick_xml\<close>'s reader and \<open>escape\<close> functions; all of them are in
  \<open>library\<close>.  Frames are integers.
\<close>

section \<open>What the code is given\<close>

text \<open>\<open>serde_json::Value\<close>; an object's keys are distinct.\<close>

datatype json =
    JNull
  | JBool bool
  | JNumber bytes
  | JString bytes
  | JArray "json list"
  | JObject "(bytes \<times> json) list"

record 'f floats =
  f_of :: "int \<Rightarrow> 'f"
  f_mul :: "'f \<Rightarrow> 'f \<Rightarrow> 'f"
  f_div :: "'f \<Rightarrow> 'f \<Rightarrow> 'f"
  f_trunc :: "'f \<Rightarrow> int"
  f_round :: "'f \<Rightarrow> 'f"
  f_parse :: "bytes \<Rightarrow> 'f option"
  f_seconds :: "'f \<Rightarrow> bytes"
  f_two :: "'f \<Rightarrow> bytes"
  f_audible :: "'f \<Rightarrow> bool"

record 'f library =
  xml_events :: xml_reader
  escape :: "bytes \<Rightarrow> bytes"
  from_json :: "bytes \<Rightarrow> json option"
  to_json_pretty :: "json \<Rightarrow> bytes"
  fl :: "'f floats"

definition json_get :: "bytes \<Rightarrow> json \<Rightarrow> json option" where
  "json_get k v = (case v of JObject kvs \<Rightarrow> map_of kvs k | _ \<Rightarrow> None)"

definition as_str :: "json \<Rightarrow> bytes option" where
  "as_str v = (case v of JString s \<Rightarrow> Some s | _ \<Rightarrow> None)"

definition as_array :: "json \<Rightarrow> json list option" where
  "as_array v = (case v of JArray vs \<Rightarrow> Some vs | _ \<Rightarrow> None)"

definition SUPPORTED_VERSION :: bytes where "SUPPORTED_VERSION = lit ''1.1''"
definition OURS :: bytes where "OURS = lit ''kdenlive:haruspex''"

section \<open>Times\<close>

record frame_rate =
  num :: nat
  den :: nat

definition rate :: "'f floats \<Rightarrow> frame_rate \<Rightarrow> 'f" where
  "rate ops fps = f_div ops (f_of ops (int (num fps))) (f_of ops (int (den fps)))"

definition frames :: "'f floats \<Rightarrow> frame_rate \<Rightarrow> 'f \<Rightarrow> int" where
  "frames ops fps secs =
    f_trunc ops (f_round ops (f_div ops (f_mul ops secs (f_of ops (int (num fps)))) (f_of ops (int (den fps)))))"

definition two_digits :: "int \<Rightarrow> bytes" where
  "two_digits n = (let s = dec_int n in replicate (2 - length s) 48 @ s)"

definition timecode :: "'f floats \<Rightarrow> frame_rate \<Rightarrow> int \<Rightarrow> bytes" where
  "timecode ops fps n =
    (let r = rate ops fps;
         f = max n 0;
         h = f_trunc ops (f_div ops (f_of ops f) (f_mul ops r (f_of ops 3600)));
         f = f - f_trunc ops (f_mul ops (f_mul ops (f_of ops h) r) (f_of ops 3600));
         m = f_trunc ops (f_div ops (f_of ops f) (f_mul ops r (f_of ops 60)));
         f = f - f_trunc ops (f_mul ops (f_mul ops (f_of ops m) r) (f_of ops 60))
     in two_digits h @ [58] @ two_digits m @ [58] @ f_seconds ops (f_div ops (f_of ops f) r))"

definition parse_time :: "'f floats \<Rightarrow> frame_rate \<Rightarrow> bytes \<Rightarrow> int option" where
  "parse_time ops fps t =
    (let t = trim_bytes t in
     case parse_i64 t of Some f \<Rightarrow> Some f
     | None \<Rightarrow> (case split_char 58 t of
         [h, m, s] \<Rightarrow>
           (let r = rate ops fps in
            case (f_parse ops h, f_parse ops m, f_parse ops s) of
              (Some h, Some m, Some s) \<Rightarrow>
                Some (f_trunc ops (f_mul ops (f_mul ops h (f_of ops 3600)) r) +
                  f_trunc ops (f_mul ops (f_mul ops m (f_of ops 60)) r) + f_trunc ops (f_round ops (f_mul ops s r)))
            | _ \<Rightarrow> None)
       | _ \<Rightarrow> None))"

section \<open>Data\<close>

record track =
  tractor :: nat
  playlists :: "nat list"
  t_audio :: bool

record entry =
  e_node :: nat
  lane :: nat
  start :: int
  in_frame :: int
  out_frame :: int
  chain :: bytes
  e_bin_id :: bytes
  filters :: nat

definition entry_len :: "entry \<Rightarrow> int" where
  "entry_len e = out_frame e - in_frame e + 1"

definition entry_end :: "entry \<Rightarrow> int" where
  "entry_end e = start e + entry_len e"

record mix =
  m_node :: nat
  m_track :: nat
  m_in :: int
  m_out :: int
  ours :: bool

record item =
  video :: "entry option"
  audio :: "entry option"

text \<open>An item has a picture or a sound; \<open>the\<close> is the \<open>expect\<close>.\<close>

definition any_entry :: "item \<Rightarrow> entry" where
  "any_entry i = (case video i of Some v \<Rightarrow> v | None \<Rightarrow> the (audio i))"

definition item_start :: "item \<Rightarrow> int" where
  "item_start i = start (any_entry i)"

definition max_or :: "int \<Rightarrow> int list \<Rightarrow> int" where
  "max_or d xs = (if xs = [] then d else Max (set xs))"

definition both_entries :: "item \<Rightarrow> entry list" where
  "both_entries i = (case video i of Some v \<Rightarrow> [v] | None \<Rightarrow> []) @ (case audio i of Some a \<Rightarrow> [a] | None \<Rightarrow> [])"

definition item_end :: "item \<Rightarrow> int" where
  "item_end i = max_or 0 (map entry_end (both_entries i))"

record bin_clip =
  b_node :: nat
  b_id :: bytes
  kdenlive_id :: bytes
  b_uuid :: bytes
  b_resource :: bytes
  b_length :: int

record doc =
  doc_text :: bytes
  tree :: tree
  fps :: frame_rate
  width :: nat
  height :: nat
  root_dir :: bytes
  version :: bytes
  kdenlive_version :: bytes
  bin :: nat
  sequence :: nat
  project_tractor :: "nat option"
  black :: "nat option"
  tracks :: "track list"
  main_video :: nat
  main_audio :: nat

section \<open>Opening a project\<close>

definition u32_attr :: "bytes \<Rightarrow> node \<Rightarrow> nat option" where
  "u32_attr k n = Option.bind (attr k n) (parse_uint (2 ^ 32 - 1))"

definition track_of :: "tree \<Rightarrow> nat \<Rightarrow> track" where
  "track_of t target = \<lparr>tractor = target,
     playlists = List.map_filter (by_id t) (List.map_filter (\<lambda>tt. attr (lit ''producer'') (node_of t tt)) (children_named t target (lit ''track''))),
     t_audio = list_ex (\<lambda>tt. attr (lit ''hide'') (node_of t tt) = Some (lit ''video'')) (children_named t target (lit ''track''))\<rparr>"

fun read_tracks :: "tree \<Rightarrow> nat list \<Rightarrow> nat option \<Rightarrow> track list \<Rightarrow> nat option \<times> track list" where
  "read_tracks t [] bl ts = (bl, ts)"
| "read_tracks t (c # cs) bl ts = (case Option.bind (attr (lit ''producer'') (node_of t c)) (by_id t) of
     None \<Rightarrow> read_tracks t cs bl ts
   | Some target \<Rightarrow> if n_name (node_of t target) \<noteq> lit ''tractor'' then read_tracks t cs (Some target) ts
       else read_tracks t cs bl (ts @ [track_of t target]))"

definition doc_parse :: "'f library \<Rightarrow> bytes \<Rightarrow> bytes + doc" where
  "doc_parse lb text = (case tree_parse (xml_events lb) text of Inl e \<Rightarrow> Inl e | Inr t \<Rightarrow>
     (let r = node_of t (root t) in
      if n_name r \<noteq> lit ''mlt'' then Inl (lit ''not a Kdenlive project (no <mlt> element)'')
      else
        (case children_named t (root t) (lit ''profile'') of [] \<Rightarrow> Inl (lit ''the project has no profile'')
         | profile # _ \<Rightarrow>
           (let p = node_of t profile in
            case (u32_attr (lit ''frame_rate_num'') p, u32_attr (lit ''frame_rate_den'') p) of
              (Some n, Some d) \<Rightarrow>
                if n = 0 \<or> d = 0 then Inl (lit ''the project''@ [39] @ lit ''s profile has no frame rate'')
                else
                  (case by_id t (lit ''main_bin'') of None \<Rightarrow> Inl (lit ''the project has no bin'')
                   | Some b \<Rightarrow>
                     (case property t b (lit ''kdenlive:docproperties.uuid'') of
                        None \<Rightarrow> Inl (lit ''the project names no sequence (Kdenlive older than 23.04?)'')
                      | Some u \<Rightarrow>
                        (case by_id t u of None \<Rightarrow> Inl (lit ''the project'' @ [39] @ lit ''s main sequence is missing'')
                         | Some sq \<Rightarrow>
                           (case read_tracks t (children_named t sq (lit ''track'')) None [] of (bl, ts) \<Rightarrow>
                              (case position (\<lambda>k. \<not> t_audio k) ts of None \<Rightarrow> Inl (lit ''the project has no video track'')
                               | Some mv \<Rightarrow>
                                 (case rposition t_audio (take mv ts) of
                                    None \<Rightarrow> Inl (lit ''the project has no audio track below its first video track'')
                                  | Some ma \<Rightarrow> Inr
                                     \<lparr>doc_text = text, tree = t, fps = \<lparr>num = n, den = d\<rparr>,
                                      width = (case u32_attr (lit ''width'') p of Some w \<Rightarrow> w | None \<Rightarrow> 0),
                                      height = (case u32_attr (lit ''height'') p of Some h \<Rightarrow> h | None \<Rightarrow> 0),
                                      root_dir = (case attr (lit ''root'') r of Some x \<Rightarrow> x | None \<Rightarrow> []),
                                      version = (case property t b (lit ''kdenlive:docproperties.version'') of Some v \<Rightarrow> v | None \<Rightarrow> []),
                                      kdenlive_version = (case property t b (lit ''kdenlive:docproperties.kdenliveversion'') of
                                        Some v \<Rightarrow> v | None \<Rightarrow> []),
                                      bin = b, sequence = sq,
                                      project_tractor = List.find (\<lambda>c. property t c (lit ''kdenlive:projectTractor'') = Some (lit ''1''))
                                        (children r),
                                      black = bl, tracks = ts, main_video = mv, main_audio = ma\<rparr>))))))
            | _ \<Rightarrow> Inl (lit ''the project'' @ [39] @ lit ''s profile has no frame rate'')))))"

definition editable :: "doc \<Rightarrow> bytes + unit" where
  "editable d = (if version d = SUPPORTED_VERSION then Inr ()
     else Inl (lit ''This project was saved by a Kdenlive version Haruspex can'' @ [39] @ lit ''t edit yet (document version '' @
       (if version d = [] then lit ''unknown'' else version d) @ lit ''). Opening it is fine; editing is not.''))"

section \<open>The timeline\<close>

definition is_ours :: "tree \<Rightarrow> nat \<Rightarrow> bool" where
  "is_ours t f \<longleftrightarrow> property t f OURS = Some (lit ''1'')"

definition bin_id_of :: "tree \<Rightarrow> nat \<Rightarrow> bytes \<Rightarrow> bytes" where
  "bin_id_of t c ch = (case property t c (lit ''kdenlive:id'') of Some i \<Rightarrow> i
     | None \<Rightarrow> (case Option.bind (by_id t ch) (\<lambda>n. property t n (lit ''kdenlive:id'')) of Some i \<Rightarrow> i | None \<Rightarrow> []))"

definition entry_at :: "'f library \<Rightarrow> doc \<Rightarrow> nat \<Rightarrow> nat \<Rightarrow> int \<Rightarrow> entry" where
  "entry_at lb d ln c at =
    (let n = node_of (tree d) c;
         i = (case Option.bind (attr (lit ''in'') n) (parse_time (fl lb) (fps d)) of Some i \<Rightarrow> i | None \<Rightarrow> 0);
         out = (case Option.bind (attr (lit ''out'') n) (parse_time (fl lb) (fps d)) of Some x \<Rightarrow> x | None \<Rightarrow> i);
         ch = (case attr (lit ''producer'') n of Some p \<Rightarrow> p | None \<Rightarrow> [])
     in \<lparr>e_node = c, lane = ln, start = at, in_frame = i, out_frame = out, chain = ch, e_bin_id = bin_id_of (tree d) c ch,
         filters = length (filter (\<lambda>f. \<not> is_ours (tree d) f) (children_named (tree d) c (lit ''filter'')))\<rparr>)"

fun place_entries :: "'f library \<Rightarrow> doc \<Rightarrow> nat \<Rightarrow> int \<Rightarrow> nat list \<Rightarrow> entry list" where
  "place_entries lb d ln at [] = []"
| "place_entries lb d ln at (c # cs) =
    (let n = node_of (tree d) c in
     if n_name n = lit ''blank'' then
       place_entries lb d ln
         (at + (case Option.bind (attr (lit ''length'') n) (parse_time (fl lb) (fps d)) of Some l \<Rightarrow> l | None \<Rightarrow> 0)) cs
     else if n_name n = lit ''entry'' then
       (let e = entry_at lb d ln c at in e # place_entries lb d ln (entry_end e) cs)
     else place_entries lb d ln at cs)"

definition entries :: "'f library \<Rightarrow> doc \<Rightarrow> nat \<Rightarrow> nat \<Rightarrow> entry list" where
  "entries lb d playlist ln = place_entries lb d ln 0 (children (node_of (tree d) playlist))"

definition track_entries :: "'f library \<Rightarrow> doc \<Rightarrow> nat \<Rightarrow> entry list" where
  "track_entries lb d t = sort_key (\<lambda>e. (start e, lane e))
     (concat (map (\<lambda>(ln, pl). entries lb d pl ln) (enumerate 0 (playlists (tracks d ! t)))))"

definition track_end :: "'f library \<Rightarrow> doc \<Rightarrow> nat \<Rightarrow> int" where
  "track_end lb d t = max_or 0 (map entry_end (track_entries lb d t))"

definition mixes_of :: "'f library \<Rightarrow> doc \<Rightarrow> nat \<Rightarrow> mix list" where
  "mixes_of lb d t = map (\<lambda>c.
     (let n = node_of (tree d) c in
      \<lparr>m_node = c, m_track = t,
       m_in = (case Option.bind (attr (lit ''in'') n) (parse_time (fl lb) (fps d)) of Some i \<Rightarrow> i | None \<Rightarrow> 0),
       m_out = (case Option.bind (attr (lit ''out'') n) (parse_time (fl lb) (fps d)) of Some i \<Rightarrow> i | None \<Rightarrow> 0),
       ours = is_ours (tree d) c\<rparr>))
     (children_named (tree d) (tractor (tracks d ! t)) (lit ''transition''))"

definition our_filters :: "doc \<Rightarrow> nat \<Rightarrow> nat list" where
  "our_filters d e = filter (is_ours (tree d)) (children_named (tree d) e (lit ''filter''))"

definition our_limiter :: "doc \<Rightarrow> nat \<Rightarrow> bool" where
  "our_limiter d e = list_ex (\<lambda>f. property (tree d) f (lit ''mlt_service'') = Some (lit ''avfilter.alimiter'')) (our_filters d e)"

definition our_gain :: "'f library \<Rightarrow> doc \<Rightarrow> nat \<Rightarrow> (nat \<times> 'f) option" where
  "our_gain lb d e =
     Option.bind (List.find (\<lambda>f. is_ours (tree d) f \<and> property (tree d) f (lit ''mlt_service'') = Some (lit ''volume''))
        (children_named (tree d) e (lit ''filter'')))
      (\<lambda>f. Option.bind (property (tree d) f (lit ''level''))
        (\<lambda>level. map_option (\<lambda>v. (f, v)) (f_parse (fl lb) (trim_bytes (after_last (\<lambda>c. c = 61) level)))))"

definition numbered_after :: "bytes \<Rightarrow> bytes \<Rightarrow> int option" where
  "numbered_after pre i = Option.bind (strip_prefix pre i) parse_i64"

definition max_nested_id :: "doc \<Rightarrow> bytes \<Rightarrow> int" where
  "max_nested_id d pre = max_or (- 1) (List.map_filter (\<lambda>n. Option.bind (attr (lit ''id'') n) (numbered_after pre)) (nodes (tree d)))"

definition max_id_number :: "doc \<Rightarrow> bytes \<Rightarrow> int" where
  "max_id_number d pre = max_or (- 1) (List.map_filter (\<lambda>c. Option.bind (attr (lit ''id'') (node_of (tree d) c)) (numbered_after pre))
     (children (node_of (tree d) (root (tree d)))))"

definition max_kdenlive_id :: "doc \<Rightarrow> int" where
  "max_kdenlive_id d = max_or 0 (List.map_filter (\<lambda>n. parse_i64 (trim_bytes (n_text n)))
     (filter (\<lambda>n. n_name n = lit ''property'' \<and> attr (lit ''name'') n = Some (lit ''kdenlive:id'')) (nodes (tree d))))"

section \<open>Clips\<close>

definition groups :: "'f library \<Rightarrow> doc \<Rightarrow> json" where
  "groups lb d = (case Option.bind (property (tree d) (sequence d) (lit ''kdenlive:sequenceproperties.groups'')) (from_json lb) of
     Some g \<Rightarrow> g | None \<Rightarrow> JArray [])"

definition parse_leaf :: "bytes \<Rightarrow> (nat \<times> int) option" where
  "parse_leaf s = (case split_char 58 s of
     a # b # _ \<Rightarrow> (case (parse_uint usize_max a, parse_i64 b) of (Some t, Some p) \<Rightarrow> Some (t, p) | _ \<Rightarrow> None)
   | _ \<Rightarrow> None)"

definition group_leaves :: "json \<Rightarrow> (nat \<times> int) list" where
  "group_leaves g = (case Option.bind (json_get (lit ''children'') g) as_array of
     Some ls \<Rightarrow> List.map_filter (\<lambda>l. Option.bind (Option.bind (json_get (lit ''data'') l) as_str) parse_leaf) ls
   | None \<Rightarrow> [])"

definition av_pair :: "nat \<Rightarrow> nat \<Rightarrow> json \<Rightarrow> (int \<times> int) option" where
  "av_pair v a g =
    (if Option.bind (json_get (lit ''type'') g) as_str \<noteq> Some (lit ''AVSplit'') then None
     else (case (map_of (group_leaves g) v, map_of (group_leaves g) a) of (Some x, Some y) \<Rightarrow> Some (x, y) | _ \<Rightarrow> None))"

definition av_pairs :: "json \<Rightarrow> nat \<Rightarrow> nat \<Rightarrow> (int \<times> int) list" where
  "av_pairs gs v a = (case as_array gs of None \<Rightarrow> [] | Some l \<Rightarrow> List.map_filter (av_pair v a) l)"

definition partner :: "(int \<times> int) list \<Rightarrow> entry \<Rightarrow> entry list \<Rightarrow> nat option" where
  "partner pairs v as =
    (case position (\<lambda>a. (start v, start a) \<in> set pairs \<and> e_bin_id a = e_bin_id v) as of
       Some i \<Rightarrow> Some i
     | None \<Rightarrow> position (\<lambda>a. start a = start v \<and> e_bin_id a = e_bin_id v) as)"

fun pair_up :: "(int \<times> int) list \<Rightarrow> entry list \<Rightarrow> entry list \<Rightarrow> item list" where
  "pair_up pairs [] as = map (\<lambda>a. \<lparr>video = None, audio = Some a\<rparr>) as"
| "pair_up pairs (v # vs) as = (case partner pairs v as of
     Some i \<Rightarrow> \<lparr>video = Some v, audio = Some (as ! i)\<rparr> # pair_up pairs vs (vec_remove i as)
   | None \<Rightarrow> \<lparr>video = Some v, audio = None\<rparr> # pair_up pairs vs as)"

definition items :: "'f library \<Rightarrow> doc \<Rightarrow> item list" where
  "items lb d = sort_key item_start
     (pair_up (av_pairs (groups lb d) (main_video d) (main_audio d)) (track_entries lb d (main_video d)) (track_entries lb d (main_audio d)))"

definition bin_clips :: "doc \<Rightarrow> bin_clip list" where
  "bin_clips d =
    (let t = tree d; text_of = (\<lambda>n k. case property t n k of Some x \<Rightarrow> x | None \<Rightarrow> []) in
     map (\<lambda>(i, n). \<lparr>b_node = n, b_id = i, kdenlive_id = text_of n (lit ''kdenlive:id''), b_uuid = text_of n (lit ''kdenlive:control_uuid''),
         b_resource = text_of n (lit ''resource''),
         b_length = (case Option.bind (property t n (lit ''length'')) parse_i64 of Some l \<Rightarrow> l | None \<Rightarrow> 0)\<rparr>)
       (filter (\<lambda>(_, n). n_name (node_of t n) \<noteq> lit ''tractor'')
         (List.map_filter (\<lambda>e. Option.bind (attr (lit ''producer'') (node_of t e)) (\<lambda>i. map_option (\<lambda>n. (i, n)) (by_id t i)))
           (children_named t (bin d) (lit ''entry'')))))"

definition bin_clip_of :: "doc \<Rightarrow> bytes \<Rightarrow> bin_clip option" where
  "bin_clip_of d i = List.find (\<lambda>b. kdenlive_id b = i) (bin_clips d)"

definition sequence_end :: "'f library \<Rightarrow> doc \<Rightarrow> int" where
  "sequence_end lb d = max_or 0 (map (track_end lb d) [0..<length (tracks d)])"

end
