(* ===== verification/Kdenlive_Layout.thy ===== *)
theory Kdenlive_Layout
  imports Kdenlive_Doc
begin

text \<open>
  \<open>video/kdenlive/edit.rs\<close>, up to the layout: what the caller wants of the main track, where each clip goes, on
  which playlist, and what is refused.  Frames are integers.
\<close>

record media =
  resource :: bytes
  md_length :: int
  video_index :: "nat option"
  audio_index :: "nat option"
  file_size :: nat
  file_hash :: bytes

datatype source = Existing nat | Piece nat | New media

record 'f placement =
  p_source :: source
  p_in :: "int option"
  p_out :: "int option"
  p_mix :: "int option"
  p_gain :: "'f option"
  p_limiter :: bool

definition placement_of :: "source \<Rightarrow> 'f placement" where
  "placement_of s = \<lparr>p_source = s, p_in = None, p_out = None, p_mix = None, p_gain = None, p_limiter = False\<rparr>"

record 'f laid =
  l_source :: source
  l_start :: int
  l_in :: int
  l_out :: int
  video_lane :: nat
  audio_lane :: nat
  mix_in :: "int option"
  gain_db :: "'f option"
  limiter :: bool
  video_chain :: "bytes option"
  audio_chain :: "bytes option"
  bin_id :: bytes

definition laid_len :: "'f laid \<Rightarrow> int" where
  "laid_len l = l_out l - l_in l + 1"

definition laid_end :: "'f laid \<Rightarrow> int" where
  "laid_end l = l_start l + laid_len l"

section \<open>The user's crossfades\<close>

text \<open>Mixes joining main-track items: first item, second item, frames.\<close>

type_synonym joins = "(nat \<times> nat \<times> int) list"

definition add_join :: "item list \<Rightarrow> mix \<Rightarrow> joins \<Rightarrow> joins" where
  "add_join its m out = (case position (\<lambda>i. item_start i = m_in m) its of
     None \<Rightarrow> out
   | Some b \<Rightarrow>
       if b = 0 then out
       else if list_ex (\<lambda>(_, ob, _). ob = b) out then out
       else out @ [(b - 1, b, max (item_end (its ! (b - 1)) - item_start (its ! b)) 0)])"

definition item_mixes :: "'f library \<Rightarrow> doc \<Rightarrow> item list \<Rightarrow> joins" where
  "item_mixes lb d its =
     fold (add_join its) (filter (\<lambda>m. \<not> ours m) (mixes_of lb d (main_video d) @ mixes_of lb d (main_audio d))) []"

definition bin_length :: "doc \<Rightarrow> item \<Rightarrow> int option" where
  "bin_length d i = (case map_option b_length (bin_clip_of d (e_bin_id (any_entry i))) of
     Some l \<Rightarrow> if 0 < l then Some l else None | None \<Rightarrow> None)"

section \<open>What is refused before the layout\<close>

fun check_sources :: "nat \<Rightarrow> nat set \<Rightarrow> 'f placement list \<Rightarrow> bytes option" where
  "check_sources n seen [] = None"
| "check_sources n seen (p # ps) = (case p_source p of
     Piece i \<Rightarrow> if n \<le> i then Some (lit ''There is no clip '' @ decimal (i + 1) @ lit '' on the main track.'')
       else check_sources n seen ps
   | Existing i \<Rightarrow>
       if n \<le> i then Some (lit ''There is no clip '' @ decimal (i + 1) @ lit '' on the main track (it has '' @ decimal n @ lit '').'')
       else if i \<in> seen then Some (lit ''Clip '' @ decimal (i + 1) @ lit '' is listed twice.'')
       else check_sources n (insert i seen) ps
   | New _ \<Rightarrow> check_sources n seen ps)"

definition trimmed :: "int option \<Rightarrow> int \<Rightarrow> bool" where
  "trimmed p now \<longleftrightarrow> (case p of Some x \<Rightarrow> x \<noteq> now | None \<Rightarrow> False)"

definition join_kept :: "item list \<Rightarrow> 'f placement list \<Rightarrow> nat \<Rightarrow> nat \<Rightarrow> bool" where
  "join_kept its wanted a b =
    (case (position (\<lambda>p. p_source p = Existing a) wanted, position (\<lambda>p. p_source p = Existing b) wanted) of
       (Some x, Some y) \<Rightarrow> y = x + 1 \<and> \<not> trimmed (p_out (wanted ! x)) (out_frame (any_entry (its ! a))) \<and>
          \<not> trimmed (p_in (wanted ! y)) (in_frame (any_entry (its ! b)))
     | _ \<Rightarrow> False)"

fun check_joins :: "item list \<Rightarrow> 'f placement list \<Rightarrow> joins \<Rightarrow> bytes option" where
  "check_joins its wanted [] = None"
| "check_joins its wanted ((a, b, _) # ms) =
    (if join_kept its wanted a b then check_joins its wanted ms
     else Some (lit ''Clips '' @ decimal (a + 1) @ lit '' and '' @ decimal (b + 1) @
       lit '' are joined by a crossfade made in Kdenlive; remove it there first, or keep them together.''))"

section \<open>Placing one clip\<close>

text \<open>Default points, the last frame there can be, the bin clip and the lanes.\<close>

definition defaults :: "doc \<Rightarrow> item list \<Rightarrow> source \<Rightarrow> int \<times> int \<times> int option \<times> bytes \<times> nat \<times> nat" where
  "defaults d its s =
    (let of_item = (\<lambda>i. let it = its ! i; e = any_entry it in
        (in_frame e, out_frame e, map_option (\<lambda>l. l - 1) (bin_length d it), e_bin_id e,
         (case video it of Some v \<Rightarrow> lane v | None \<Rightarrow> 0), (case audio it of Some a \<Rightarrow> lane a | None \<Rightarrow> 0)))
     in case s of
       Existing i \<Rightarrow> of_item i
     | Piece i \<Rightarrow> of_item i
     | New m \<Rightarrow> (0, md_length m - 1, Some (md_length m - 1), [], 0, 0))"

definition joined :: "joins \<Rightarrow> 'f laid option \<Rightarrow> source \<Rightarrow> bool" where
  "joined ms prev s = (case (prev, s) of
     (Some l, Existing i) \<Rightarrow> (case l_source l of Existing pi \<Rightarrow> list_ex (\<lambda>(a, b, _). a = pi \<and> b = i) ms | _ \<Rightarrow> False)
   | _ \<Rightarrow> False)"

text \<open>The crossfade from the clip before, clamped, and whether it was shortened.\<close>

definition clamp_mix :: "'f laid option \<Rightarrow> int option \<Rightarrow> bool \<Rightarrow> int \<Rightarrow> int option \<times> bool" where
  "clamp_mix prev want user len = (case (prev, want) of
     (Some l, Some w) \<Rightarrow>
       if 0 < w \<and> \<not> user then
         (let most = min (laid_len l) len div 2; f = min w most in (if 0 < f then Some f else None, most < w))
       else (None, False)
   | _ \<Rightarrow> (None, False))"

definition start_of :: "item list \<Rightarrow> joins \<Rightarrow> 'f laid option \<Rightarrow> source \<Rightarrow> int option \<Rightarrow> int" where
  "start_of its ms prev s mx = (case prev of
     None \<Rightarrow> if s = Existing 0 then item_start (its ! 0) else 0
   | Some l \<Rightarrow> (case mx of
       Some f \<Rightarrow> laid_end l - f
     | None \<Rightarrow> (case s of
         Existing i \<Rightarrow>
           (let prev_index = (case l_source l of Existing pi \<Rightarrow> Some pi | _ \<Rightarrow> None) in
            case List.find (\<lambda>(a, b, _). Some a = prev_index \<and> b = i) ms of
              Some (_, _, fr) \<Rightarrow> laid_end l - fr
            | None \<Rightarrow>
                if (case prev_index of Some pi \<Rightarrow> pi + 1 = i | None \<Rightarrow> False)
                then laid_end l + max (item_start (its ! i) - item_end (its ! (i - 1))) 0
                else laid_end l)
       | _ \<Rightarrow> laid_end l)))"

definition ends_there_note :: "nat \<Rightarrow> bytes" where
  "ends_there_note k = lit ''Clip '' @ decimal (k + 1) @ lit '': the end was past the clip'' @ [39] @ lit ''s end, so it ends there.''"

definition shortened_note :: "nat \<Rightarrow> bytes" where
  "shortened_note k = lit ''Clip '' @ decimal (k + 1) @ lit '': the crossfade is shortened to half the shorter clip.''"

definition place_one ::
  "doc \<Rightarrow> item list \<Rightarrow> joins \<Rightarrow> 'f laid option \<Rightarrow> nat \<Rightarrow> 'f placement \<Rightarrow> bytes + ('f laid \<times> bytes list)" where
  "place_one d its ms prev k p = (case defaults d its (p_source p) of (din, dout, max_out, bid, vl, al) \<Rightarrow>
    (let i = max (case p_in p of Some x \<Rightarrow> x | None \<Rightarrow> din) 0;
         out = (case p_out p of Some x \<Rightarrow> x | None \<Rightarrow> dout);
         past = (case max_out of Some m \<Rightarrow> m < out | None \<Rightarrow> False);
         out = (case max_out of Some m \<Rightarrow> min out m | None \<Rightarrow> out)
     in if out < i then Inl (lit ''Clip '' @ decimal (k + 1) @ lit '': it would end before it starts.'')
        else (case clamp_mix prev (p_mix p) (joined ms prev (p_source p)) (out - i + 1) of (mx, shortened) \<Rightarrow>
          Inr (\<lparr>l_source = p_source p, l_start = start_of its ms prev (p_source p) mx, l_in = i, l_out = out,
                 video_lane = vl, audio_lane = al, mix_in = mx, gain_db = p_gain p, limiter = p_limiter p,
                 video_chain = None, audio_chain = None, bin_id = bid\<rparr>,
               (if past then [ends_there_note k] else []) @ (if shortened then [shortened_note k] else [])))))"

fun place_all ::
  "doc \<Rightarrow> item list \<Rightarrow> joins \<Rightarrow> 'f laid option \<Rightarrow> nat \<Rightarrow> 'f placement list \<Rightarrow> bytes + ('f laid list \<times> bytes list)" where
  "place_all d its ms prev k [] = Inr ([], [])"
| "place_all d its ms prev k (p # ps) = (case place_one d its ms prev k p of
     Inl e \<Rightarrow> Inl e
   | Inr (l, notes) \<Rightarrow> (case place_all d its ms (Some l) (Suc k) ps of
       Inl e \<Rightarrow> Inl e
     | Inr (ls, later) \<Rightarrow> Inr (l # ls, notes @ later)))"

section \<open>Lanes\<close>

definition user_joined :: "joins \<Rightarrow> source \<Rightarrow> bool" where
  "user_joined ms s = (case s of Existing i \<Rightarrow> list_ex (\<lambda>(a, b, _). i = a \<or> i = b) ms | _ \<Rightarrow> False)"

fun set_lanes :: "joins \<Rightarrow> 'f laid option \<Rightarrow> 'f laid list \<Rightarrow> 'f laid list" where
  "set_lanes ms prev [] = []"
| "set_lanes ms prev (l # ls) =
    (let l = (if user_joined ms (l_source l) then l
       else (let n = (case (prev, mix_in l) of (Some p, Some _) \<Rightarrow> 1 - min (video_lane p) 1 | _ \<Rightarrow> 0)
             in l\<lparr>video_lane := n, audio_lane := n\<rparr>))
     in l # set_lanes ms (Some l) ls)"

definition on_lane :: "nat \<Rightarrow> 'f laid list \<Rightarrow> (int \<times> int \<times> nat) list" where
  "on_lane n ls = sort (map (\<lambda>(k, l). (l_start l, laid_end l, k)) (filter (\<lambda>(_, l). video_lane l = n) (enumerate 0 ls)))"

fun first_overlap :: "(int \<times> int \<times> nat) list \<Rightarrow> (nat \<times> nat) option" where
  "first_overlap ((s, e, k) # (s', e', k') # rest) =
     (if s' < e then Some (k, k') else first_overlap ((s', e', k') # rest))"
| "first_overlap _ = None"

definition overlap_error :: "nat \<times> nat \<Rightarrow> bytes" where
  "overlap_error w = lit ''Clips '' @ decimal (fst w + 1) @ lit '' and '' @ decimal (snd w + 1) @
     lit '' would overlap next to a crossfade made in Kdenlive; change one of them there first.''"

definition assign_lanes :: "joins \<Rightarrow> 'f laid list \<Rightarrow> bytes + 'f laid list" where
  "assign_lanes ms ls =
    (let ls = set_lanes ms None ls in
     case first_overlap (on_lane 0 ls) of
       Some w \<Rightarrow> Inl (overlap_error w)
     | None \<Rightarrow> (case first_overlap (on_lane 1 ls) of Some w \<Rightarrow> Inl (overlap_error w) | None \<Rightarrow> Inr ls))"

section \<open>The layout\<close>

definition layout :: "'f library \<Rightarrow> doc \<Rightarrow> item list \<Rightarrow> 'f placement list \<Rightarrow> bytes + ('f laid list \<times> bytes list)" where
  "layout lb d its wanted =
    (let ms = item_mixes lb d its in
     case check_sources (length its) {} wanted of Some e \<Rightarrow> Inl e
     | None \<Rightarrow> (case check_joins its wanted ms of Some e \<Rightarrow> Inl e
       | None \<Rightarrow> (case place_all d its ms None 0 wanted of Inl e \<Rightarrow> Inl e
         | Inr (ls, notes) \<Rightarrow> (case assign_lanes ms ls of Inl e \<Rightarrow> Inl e | Inr ls' \<Rightarrow> Inr (ls', notes)))))"

text \<open>The main track as it is, as placements.\<close>

definition current :: "'f library \<Rightarrow> doc \<Rightarrow> 'f placement list" where
  "current lb d =
    (let its = items lb d;
         starts = map m_in (filter ours (mixes_of lb d (main_video d) @ mixes_of lb d (main_audio d)))
     in map (\<lambda>i. if 0 < i \<and> item_start (its ! i) \<in> set starts
           then (placement_of (Existing i))\<lparr>p_mix := (let f = max (item_end (its ! (i - 1)) - item_start (its ! i)) 0
               in if 0 < f then Some f else None)\<rparr>
           else placement_of (Existing i))
         [0..<length its])"

end
