(* ===== verification/Kdenlive_Edit.thy ===== *)
theory Kdenlive_Edit
  imports Kdenlive_Layout
begin

text \<open>
  \<open>video/kdenlive/edit.rs\<close>, the writing: which byte ranges of the project change, and to what.  Fresh ids
  (\<open>Uuid::new_v4\<close>) are a sequence given as an argument.
\<close>

section \<open>Elements as Kdenlive writes them\<close>

definition quoted :: "bytes \<Rightarrow> bytes" where
  "quoted s = 34 # s @ [34]"

definition prop_elem :: "bytes \<Rightarrow> bytes \<Rightarrow> bytes" where
  "prop_elem k v = lit ''<property name='' @ quoted k @ [62] @ v @ lit ''</property>''"

definition prop_line :: "nat \<Rightarrow> bytes \<Rightarrow> bytes \<Rightarrow> bytes" where
  "prop_line n k v = replicate n 32 @ prop_elem k v @ [NL]"

definition filter_open :: "bytes \<Rightarrow> bytes" where
  "filter_open i = lit ''   <filter id='' @ quoted i @ [62, NL]"

definition filter_close :: bytes where
  "filter_close = lit ''   </filter>'' @ [NL]"

definition gain_filter :: "'f floats \<Rightarrow> bytes \<Rightarrow> 'f \<Rightarrow> bytes" where
  "gain_filter ops i db =
    (let g = trim_end_matches (\<lambda>c. c = 46) (trim_end_matches (\<lambda>c. c = 48) (f_two ops db)) in
     filter_open i @ concat (map (\<lambda>(k, v). prop_line 4 k v)
      [(lit ''window'', lit ''75''), (lit ''max_gain'', lit ''20dB''), (lit ''level'', lit ''00:00:00.000='' @ g),
       (lit ''channel_mask'', lit ''-1''), (lit ''mlt_service'', lit ''volume''), (lit ''kdenlive_id'', lit ''volume''),
       (lit ''kdenlive:collapsed'', lit ''0''), (OURS, lit ''1'')]) @ filter_close)"

text \<open>The limit is \<open>format!("{:.3}", 10f64.powf(-1.5 / 20.0))\<close>.\<close>

definition limiter_filter :: "bytes \<Rightarrow> bytes" where
  "limiter_filter i =
     filter_open i @ concat (map (\<lambda>(k, v). prop_line 4 k v)
      [(lit ''av.level_in'', lit ''1''), (lit ''av.level_out'', lit ''1''), (lit ''av.limit'', lit ''0.841''),
       (lit ''av.attack'', lit ''5''), (lit ''av.release'', lit ''50''), (lit ''av.asc'', lit ''0''),
       (lit ''av.asc_level'', lit ''0.5''), (lit ''av.level'', lit ''0''), (lit ''mlt_service'', lit ''avfilter.alimiter''),
       (lit ''kdenlive_id'', lit ''avfilter.alimiter''), (lit ''kdenlive:collapsed'', lit ''0''), (OURS, lit ''1'')]) @ filter_close"

definition flag :: "bool \<Rightarrow> bytes" where
  "flag b = (if b then lit ''1'' else lit ''0'')"

definition mix_transition :: "'f library \<Rightarrow> frame_rate \<Rightarrow> bytes \<Rightarrow> int \<Rightarrow> int \<Rightarrow> bool \<Rightarrow> bool \<Rightarrow> bytes" where
  "mix_transition lb rt i st fr is_audio reverse =
    (let props = [(lit ''a_track'', lit ''0''), (lit ''b_track'', lit ''1'')] @
       (if is_audio then
         [(lit ''duck_threshold'', lit ''0''), (lit ''duck_attenuation'', lit ''-12''), (lit ''duck_level'', lit ''0''),
          (lit ''duck_fade_in'', lit ''1500''), (lit ''duck_fade_out'', lit ''250''), (lit ''prefix'', []),
          (lit ''mlt_service'', lit ''mix''), (lit ''kdenlive_id'', lit ''mix''), (lit ''kdenlive:mixcut'', dec_int (fr div 2)),
          (lit ''start'', lit ''-1''), (lit ''accepts_blanks'', lit ''1''), (lit ''reverse'', flag reverse)]
        else
         [(lit ''factory'', lit ''loader''), (lit ''resource'', []), (lit ''mlt_service'', lit ''luma''),
          (lit ''kdenlive_id'', lit ''luma''), (lit ''kdenlive:mixcut'', dec_int (fr div 2)), (lit ''softness'', lit ''0''),
          (lit ''alpha_over'', lit ''0''), (lit ''fix_background_alpha'', lit ''1''), (lit ''invert'', lit ''0''),
          (lit ''reverse'', flag reverse)]) @ [(OURS, lit ''1'')];
       line = (\<lambda>(k, v). if v = [] then lit ''   <property name='' @ quoted k @ lit ''/>'' @ [NL]
                        else prop_line 3 k (escape lb v))
     in lit ''  <transition id='' @ quoted i @ lit '' in='' @ quoted (timecode (fl lb) rt st) @
        lit '' out='' @ quoted (timecode (fl lb) rt (st + fr)) @ [62, NL] @ concat (map line props) @
        lit ''  </transition>'' @ [NL])"

definition retag :: "'f library \<Rightarrow> doc \<Rightarrow> nat \<Rightarrow> (bytes \<times> bytes) list \<Rightarrow> bytes" where
  "retag lb d n new_attrs =
    (let nd = node_of (tree d) n in
     60 # n_name nd @
     concat (map (\<lambda>(k, v). 32 # k @ [61] @ quoted (escape lb (case map_of new_attrs k of Some w \<Rightarrow> w | None \<Rightarrow> v))) (n_attrs nd)) @
     (if self_closing nd then lit ''/>'' else lit ''>''))"

definition set_attrs :: "'f library \<Rightarrow> doc \<Rightarrow> nat \<Rightarrow> (bytes \<times> bytes) list \<Rightarrow> splice list" where
  "set_attrs lb d n new_attrs =
    (let nd = node_of (tree d) n in
     if list_all (\<lambda>(k, v). attr k nd = Some v) new_attrs then []
     else [((span_start nd, if self_closing nd then span_end nd else inner_start nd), retag lb d n new_attrs)])"

definition set_property :: "'f library \<Rightarrow> doc \<Rightarrow> nat \<Rightarrow> bytes \<Rightarrow> bytes \<Rightarrow> splice list" where
  "set_property lb d owner name value = (case property_node (tree d) owner name of
     None \<Rightarrow> []
   | Some p \<Rightarrow>
      (let nd = node_of (tree d) p in
       if n_text nd \<noteq> value then [((span_start nd, span_end nd), prop_elem (escape lb name) (escape lb value))] else []))"

text \<open>The whole line a range sits on, when nothing else stands before it there.\<close>

definition line_of :: "bytes \<Rightarrow> nat \<Rightarrow> nat \<Rightarrow> nat \<times> nat" where
  "line_of text a b =
    (let st = (case rposition (\<lambda>c. c = NL) (take a text) of None \<Rightarrow> a | Some i \<Rightarrow> i + 1);
         st = (if trim_bytes (slice text st a) = [] then st else a)
     in (st, if prefix [NL] (drop b text) then b + 1 else b))"

definition node_line :: "doc \<Rightarrow> nat \<Rightarrow> nat \<times> nat" where
  "node_line d n = (let nd = node_of (tree d) n in line_of (doc_text d) (span_start nd) (span_end nd))"

definition remove_line :: "doc \<Rightarrow> nat \<Rightarrow> splice" where
  "remove_line d n = (node_line d n, [])"

definition stream_index :: "nat option \<Rightarrow> bytes" where
  "stream_index i = (case i of None \<Rightarrow> lit ''-1'' | Some n \<Rightarrow> decimal n)"

definition chain_text :: "'f library \<Rightarrow> frame_rate \<Rightarrow> bytes \<Rightarrow> bytes \<Rightarrow> bytes \<Rightarrow> media \<Rightarrow> bool option \<Rightarrow> bytes" where
  "chain_text lb rt i kid uuid m on_track =
    (let clip_type = (case (video_index m, audio_index m) of (Some _, Some _) \<Rightarrow> 0 | (None, Some _) \<Rightarrow> 1 | _ \<Rightarrow> 2);
         props =
      [(lit ''length'', dec_int (md_length m)), (lit ''eof'', lit ''pause''), (lit ''resource'', resource m),
       (lit ''mlt_service'', lit ''avformat-novalidate''), (lit ''seekable'', lit ''1''), (lit ''audio_index'', stream_index (audio_index m)),
       (lit ''video_index'', stream_index (video_index m)), (lit ''vstream'', lit ''0''), (lit ''astream'', lit ''0''),
       (lit ''kdenlive:folderid'', lit ''-1''), (lit ''kdenlive:id'', kid), (lit ''kdenlive:control_uuid'', uuid),
       (lit ''mute_on_pause'', lit ''0''), (lit ''kdenlive:clip_type'', decimal clip_type),
       (lit ''kdenlive:file_size'', decimal (file_size m)), (lit ''kdenlive:file_hash'', file_hash m)] @
      (case on_track of
         Some True \<Rightarrow> [(lit ''set.test_audio'', lit ''0''), (lit ''set.test_image'', lit ''1'')]
       | Some False \<Rightarrow> [(lit ''set.test_audio'', lit ''1''), (lit ''set.test_image'', lit ''0'')]
       | None \<Rightarrow> [])
     in lit '' <chain id='' @ quoted i @ lit '' out='' @ quoted (timecode (fl lb) rt (md_length m - 1)) @ [62, NL] @
        concat (map (\<lambda>(k, v). prop_line 2 k (escape lb v)) props) @ lit '' </chain>'' @ [NL])"

section \<open>Playlists\<close>

text \<open>One clip of a playlist as wanted: the entry's text and the entry it was.\<close>

record slot =
  w_start :: int
  w_len :: int
  w_text :: bytes
  w_node :: "nat option"
  w_in :: int
  w_out :: int

fun gaps :: "int \<Rightarrow> slot list \<Rightarrow> nat" where
  "gaps at [] = 0"
| "gaps at (w # ws) = (if at < w_start w then 1 else 0) + gaps (w_start w + w_len w) ws"

definition unchanged :: "doc \<Rightarrow> entry \<Rightarrow> slot \<Rightarrow> bool" where
  "unchanged d c w \<longleftrightarrow> w_node w = Some (e_node c) \<and>
     slice (doc_text d) (span_start (node_of (tree d) (e_node c))) (span_end (node_of (tree d) (e_node c))) = w_text w \<and>
     start c = w_start w \<and> entry_len c = w_len w \<and> in_frame c = w_in w \<and> out_frame c = w_out w"

definition same_playlist :: "'f library \<Rightarrow> doc \<Rightarrow> nat \<Rightarrow> nat \<Rightarrow> slot list \<Rightarrow> bool" where
  "same_playlist lb d pl ln wanted \<longleftrightarrow>
    (let now = entries lb d pl ln in
     length now = length wanted \<and> list_all (\<lambda>(c, w). unchanged d c w) (zip now wanted) \<and>
     length (children_named (tree d) pl (lit ''blank'')) = gaps 0 wanted)"

text \<open>A playlist's body: the blanks and the entries in order.\<close>

datatype playlist_item = Blank int | Clip slot

fun playlist_items :: "int \<Rightarrow> slot list \<Rightarrow> playlist_item list" where
  "playlist_items at [] = []"
| "playlist_items at (w # ws) =
    (if at < w_start w then [Blank (w_start w - at)] else []) @ Clip w # playlist_items (w_start w + w_len w) ws"

definition item_text :: "'f library \<Rightarrow> doc \<Rightarrow> playlist_item \<Rightarrow> bytes" where
  "item_text lb d i = (case i of
     Blank n \<Rightarrow> [NL] @ lit ''  <blank length='' @ quoted (timecode (fl lb) (fps d) n) @ lit ''/>''
   | Clip w \<Rightarrow> [NL] @ lit ''  '' @ w_text w)"

definition playlist_body :: "'f library \<Rightarrow> doc \<Rightarrow> slot list \<Rightarrow> bytes" where
  "playlist_body lb d ws = concat (map (item_text lb d) (playlist_items 0 ws))"

definition rewrite_playlist :: "'f library \<Rightarrow> doc \<Rightarrow> nat \<Rightarrow> nat \<Rightarrow> slot list \<Rightarrow> splice list" where
  "rewrite_playlist lb d pl ln wanted =
    (if same_playlist lb d pl ln wanted then []
     else
       (let nd = node_of (tree d) pl; body = playlist_body lb d wanted in
        if self_closing nd then
          [((span_start nd, span_end nd),
            replace_first (lit ''/>'') (lit ''>'') (retag lb d pl []) @ body @ [NL] @ lit '' </playlist>'')]
        else
          (let from = (case rev (children_named (tree d) pl (lit ''property'')) of
                 p # _ \<Rightarrow> span_end (node_of (tree d) p) | [] \<Rightarrow> inner_start nd)
           in [((from, inner_end nd), body @ [NL] @ lit '' '')])))"

record 'f gain_write =
  g_db :: 'f
  volume_id :: bytes
  limiter_id :: "bytes option"

definition sound_filter :: "'f floats \<Rightarrow> 'f gain_write \<Rightarrow> bytes option" where
  "sound_filter ops g =
    (let t = (if f_audible ops (g_db g) then gain_filter ops (volume_id g) (g_db g) else []) @
       (case limiter_id g of Some i \<Rightarrow> limiter_filter i | None \<Rightarrow> [])
     in if t = [] then None else Some t)"

text \<open>\<open>String::replace_range\<close>.\<close>

definition splice_body :: "(nat \<times> nat) \<times> bytes \<Rightarrow> bytes \<Rightarrow> bytes" where
  "splice_body e body = (case e of ((a, b), t) \<Rightarrow> take a body @ t @ drop b body)"

definition body_edits :: "doc \<Rightarrow> nat \<Rightarrow> bytes option \<Rightarrow> splice list" where
  "body_edits d e fil =
    (let nd = node_of (tree d) e; off = inner_start nd;
         body = slice (doc_text d) (inner_start nd) (span_end nd);
         gone = map (\<lambda>f. (case node_line d f of (a, b) \<Rightarrow> (a - off, b - off), [])) (our_filters d e);
         added = (case fil of None \<Rightarrow> []
           | Some t \<Rightarrow>
             (let at = (case rev (children_named (tree d) e (lit ''property'')) of
                    p # _ \<Rightarrow> snd (node_line d p) - off
                  | [] \<Rightarrow> (if prefix [NL] body then 1 else 0))
              in [((at, at), t)]))
     in sort_key (\<lambda>((a, b), _). (- int a, - int b)) (gone @ added))"

definition entry_text :: "'f library \<Rightarrow> doc \<Rightarrow> 'f laid \<Rightarrow> entry option \<Rightarrow> bytes \<Rightarrow> 'f gain_write option \<Rightarrow> bytes" where
  "entry_text lb d l old ch gain =
    (let in_tc = timecode (fl lb) (fps d) (l_in l); out_tc = timecode (fl lb) (fps d) (l_out l);
         fil = Option.bind gain (sound_filter (fl lb))
     in case old of
       Some e \<Rightarrow>
         (let nd = node_of (tree d) (e_node e);
              tag = retag lb d (e_node e) [(lit ''in'', in_tc), (lit ''out'', out_tc), (lit ''producer'', ch)]
          in if self_closing nd then
               (case fil of Some f \<Rightarrow> replace_first (lit ''/>'') (lit ''>'') tag @ [NL] @ f @ lit ''  </entry>'' | None \<Rightarrow> tag)
             else
               (let body = slice (doc_text d) (inner_start nd) (span_end nd);
                    body = (if gain = None then body else fold splice_body (body_edits d (e_node e) fil) body)
                in tag @ body))
     | None \<Rightarrow> lit ''<entry in='' @ quoted in_tc @ lit '' out='' @ quoted out_tc @ lit '' producer='' @ quoted ch @ [62, NL] @
         lit ''   '' @ prop_elem (lit ''kdenlive:id'') (bin_id l) @ [NL] @ (case fil of Some f \<Rightarrow> f | None \<Rightarrow> []) @ lit ''  </entry>'')"

section \<open>Groups\<close>

definition groups_text :: "'f library \<Rightarrow> json \<Rightarrow> bytes" where
  "groups_text lb g = (if (case as_array g of Some l \<Rightarrow> l = [] | None \<Rightarrow> True) then [91, NL, 93, NL]
     else to_json_pretty lb g @ [NL])"

type_synonym moves = "((nat \<times> int) \<times> int option) list"

definition is_leaf :: "json \<Rightarrow> bool" where
  "is_leaf c \<longleftrightarrow> Option.bind (json_get (lit ''type'') c) as_str = Some (lit ''Leaf'')"

definition third_part :: "bytes \<Rightarrow> bytes option" where
  "third_part s = (case split_char 58 s of _ # _ # c # cs \<Rightarrow> Some (join [58] (c # cs)) | _ \<Rightarrow> None)"

definition leaf_data :: "nat \<Rightarrow> int \<Rightarrow> bytes \<Rightarrow> bytes" where
  "leaf_data t p rest = decimal t @ [58] @ dec_int p @ [58] @ rest"

definition json_set :: "bytes \<Rightarrow> json \<Rightarrow> json \<Rightarrow> json" where
  "json_set k v c = (case c of JObject kvs \<Rightarrow> JObject (AList.update k v kvs) | _ \<Rightarrow> c)"

text \<open>A leaf: whether it changed, and what stays of it.\<close>

definition remap_leaf :: "moves \<Rightarrow> json \<Rightarrow> bool \<times> json list" where
  "remap_leaf ms c = (case Option.bind (json_get (lit ''data'') c) as_str of
     None \<Rightarrow> (False, [c])
   | Some s \<Rightarrow> (case parse_leaf s of
       None \<Rightarrow> (False, [c])
     | Some k \<Rightarrow> (case map_of ms k of
         None \<Rightarrow> (False, [c])
       | Some None \<Rightarrow> (True, [])
       | Some (Some p) \<Rightarrow>
          (let next = leaf_data (fst k) p (case third_part s of Some r \<Rightarrow> r | None \<Rightarrow> lit ''-1'') in
           if next \<noteq> s then (True, [json_set (lit ''data'') (JString next) c]) else (False, [c])))))"

definition members :: "json \<Rightarrow> nat" where
  "members c = (case Option.bind (json_get (lit ''children'') c) as_array of Some l \<Rightarrow> length l | None \<Rightarrow> 0)"

fun remap_groups :: "moves \<Rightarrow> json \<Rightarrow> bool \<times> json"
  and remap_fields :: "moves \<Rightarrow> (bytes \<times> json) list \<Rightarrow> bool \<times> (bytes \<times> json) list"
  and remap_members :: "moves \<Rightarrow> json list \<Rightarrow> bool \<times> json list"
  and remap_list :: "moves \<Rightarrow> json list \<Rightarrow> bool \<times> json list" where
  "remap_groups ms (JObject kvs) = (case remap_fields ms kvs of (ch, kvs') \<Rightarrow> (ch, JObject kvs'))"
| "remap_groups ms (JArray gs) = (case remap_list ms gs of (ch, gs') \<Rightarrow> (ch, JArray gs'))"
| "remap_groups ms v = (False, v)"
| "remap_fields ms [] = (False, [])"
| "remap_fields ms ((k, JArray cs) # kvs) =
    (if k = lit ''children'' then (case remap_members ms cs of (ch, cs') \<Rightarrow> (ch, (k, JArray cs') # kvs))
     else (case remap_fields ms kvs of (ch, kvs') \<Rightarrow> (ch, (k, JArray cs) # kvs')))"
| "remap_fields ms (kv # kvs) =
    (if fst kv = lit ''children'' then (False, kv # kvs)
     else (case remap_fields ms kvs of (ch, kvs') \<Rightarrow> (ch, kv # kvs')))"
| "remap_members ms [] = (False, [])"
| "remap_members ms (c # cs) =
    (case (if is_leaf c then remap_leaf ms c
           else (case remap_groups ms c of (ch, c') \<Rightarrow> if 2 \<le> members c' then (ch, [c']) else (True, []))) of
       (ch, keep) \<Rightarrow> (case remap_members ms cs of (ch', keep') \<Rightarrow> (ch \<or> ch', keep @ keep')))"
| "remap_list ms [] = (False, [])"
| "remap_list ms (g # gs) =
    (case remap_groups ms g of (ch, g') \<Rightarrow> (case remap_list ms gs of (ch', keep) \<Rightarrow>
       if 2 \<le> members g' then (ch \<or> ch', g' # keep) else (True, keep)))"

definition leaf :: "nat \<Rightarrow> int \<Rightarrow> json" where
  "leaf t p = JObject [(lit ''data'', JString (leaf_data t p (lit ''-1''))), (lit ''leaf'', JString (lit ''clip'')),
     (lit ''type'', JString (lit ''Leaf''))]"

definition av_split :: "nat \<Rightarrow> nat \<Rightarrow> int \<Rightarrow> json" where
  "av_split v a p = JObject [(lit ''children'', JArray [leaf v p, leaf a p]), (lit ''type'', JString (lit ''AVSplit''))]"

section \<open>Applying\<close>

text \<open>New media: ids used so far, and what is to be written.\<close>

record writing =
  next_id :: int
  next_chain :: int
  next_uuid :: nat
  new_chains :: bytes
  new_bin_chains :: bytes
  new_bin_entries :: bytes
  added_bin :: "(bytes \<times> bytes \<times> bytes) list"

definition chain_name :: "int \<Rightarrow> bytes" where
  "chain_name n = lit ''chain'' @ dec_int n"

definition braced :: "bytes \<Rightarrow> bytes" where
  "braced s = 123 # s @ [125]"

text \<open>The bin clip of new media: one the bin has, one added for an earlier clip, or a new one.\<close>

definition bin_for :: "'f library \<Rightarrow> (nat \<Rightarrow> bytes) \<Rightarrow> doc \<Rightarrow> media \<Rightarrow> writing \<Rightarrow> (bytes \<times> bytes) \<times> writing" where
  "bin_for lb uuids d m w =
    (case List.find (\<lambda>b. b_resource b = resource m) (bin_clips d) of
       Some b \<Rightarrow> ((kdenlive_id b, b_uuid b), w)
     | None \<Rightarrow> (case map_of (added_bin w) (resource m) of
         Some found \<Rightarrow> (found, w)
       | None \<Rightarrow>
          (let kid = dec_int (next_id w); uuid = braced (uuids (next_uuid w)); i = chain_name (next_chain w) in
           ((kid, uuid), w\<lparr>next_id := next_id w + 1, next_uuid := next_uuid w + 1, next_chain := next_chain w + 1,
              new_bin_chains := new_bin_chains w @ chain_text lb (fps d) i kid uuid m None,
              new_bin_entries := new_bin_entries w @ [NL] @ lit ''  <entry in='' @ quoted (timecode (fl lb) (fps d) 0) @ lit '' out='' @
                quoted (timecode (fl lb) (fps d) (md_length m - 1)) @ lit '' producer='' @ quoted i @ lit ''/>'',
              added_bin := AList.update (resource m) (kid, uuid) (added_bin w)\<rparr>))))"

definition new_chain :: "'f library \<Rightarrow> doc \<Rightarrow> media \<Rightarrow> bytes \<times> bytes \<Rightarrow> bool \<Rightarrow> bool \<Rightarrow> writing \<Rightarrow> bytes option \<times> writing" where
  "new_chain lb d m ku wanted is_audio w =
    (if wanted then
       (let i = chain_name (next_chain w) in
        (Some i, w\<lparr>next_chain := next_chain w + 1,
           new_chains := new_chains w @ chain_text lb (fps d) i (fst ku) (snd ku) m (Some is_audio)\<rparr>))
     else (None, w))"

definition add_media :: "'f library \<Rightarrow> (nat \<Rightarrow> bytes) \<Rightarrow> doc \<Rightarrow> 'f laid \<Rightarrow> writing \<Rightarrow> 'f laid \<times> writing" where
  "add_media lb uuids d l w = (case l_source l of
     New m \<Rightarrow> (case bin_for lb uuids d m w of (ku, w1) \<Rightarrow>
       (case new_chain lb d m ku (audio_index m \<noteq> None) True w1 of (ac, w2) \<Rightarrow>
       (case new_chain lb d m ku (video_index m \<noteq> None) False w2 of (vc, w3) \<Rightarrow>
         (l\<lparr>bin_id := fst ku, audio_chain := ac, video_chain := vc\<rparr>, w3))))
   | _ \<Rightarrow> (l, w))"

text \<open>A copy of an item's chain under a new id.\<close>

definition copy_chain :: "doc \<Rightarrow> entry option \<Rightarrow> writing \<Rightarrow> bytes option \<times> writing" where
  "copy_chain d e w = (case Option.bind e (\<lambda>e. map_option (Pair e) (by_id (tree d) (chain e))) of
     None \<Rightarrow> (None, w)
   | Some (e, n) \<Rightarrow>
      (let i = chain_name (next_chain w);
           t = (case node_line d n of (a, b) \<Rightarrow> slice (doc_text d) a b)
       in (Some i, w\<lparr>next_chain := next_chain w + 1,
            new_chains := new_chains w @ replace_first (lit ''id='' @ quoted (chain e)) (lit ''id='' @ quoted i) t @
              (if suffix [NL] t then [] else [NL])\<rparr>)))"

definition add_piece :: "doc \<Rightarrow> item list \<Rightarrow> 'f laid \<Rightarrow> writing \<Rightarrow> 'f laid \<times> writing" where
  "add_piece d its l w = (case l_source l of
     Piece i \<Rightarrow> (case copy_chain d (audio (its ! i)) w of (ac, w1) \<Rightarrow>
       (case copy_chain d (video (its ! i)) w1 of (vc, w2) \<Rightarrow> (l\<lparr>audio_chain := ac, video_chain := vc\<rparr>, w2)))
   | _ \<Rightarrow> (l, w))"

fun thread_laid :: "('f laid \<Rightarrow> 's \<Rightarrow> 'b \<times> 's) \<Rightarrow> 'f laid list \<Rightarrow> 's \<Rightarrow> 'b list \<times> 's" where
  "thread_laid f [] w = ([], w)"
| "thread_laid f (l # ls) w = (case f l w of (l', w') \<Rightarrow> (case thread_laid f ls w' of (ls', w'') \<Rightarrow> (l' # ls', w'')))"

text \<open>A clip's entry on one track: the entry it was and its chain; none when it has no part there.\<close>

definition part_of :: "item list \<Rightarrow> bool \<Rightarrow> 'f laid \<Rightarrow> (entry option \<times> bytes) option" where
  "part_of its is_audio l =
    (let old = (\<lambda>i. if is_audio then audio (its ! i) else video (its ! i));
         ch = (if is_audio then audio_chain l else video_chain l)
     in case l_source l of
       Existing i \<Rightarrow> map_option (\<lambda>e. (Some e, chain e)) (old i)
     | Piece i \<Rightarrow> (case (old i, ch) of (Some e, Some c) \<Rightarrow> Some (Some e, c) | _ \<Rightarrow> None)
     | New _ \<Rightarrow> map_option (\<lambda>c. (None, c)) ch)"

definition filter_name :: "int \<Rightarrow> bytes" where
  "filter_name n = lit ''filter'' @ dec_int n"

text \<open>The gain to write with the ids it gets, and the next free one.\<close>

definition gain_of :: "bool \<Rightarrow> 'f laid \<Rightarrow> int \<Rightarrow> 'f gain_write option \<times> int" where
  "gain_of is_audio l n = (case gain_db l of
     Some db \<Rightarrow>
       if is_audio then
         (if limiter l then (Some \<lparr>g_db = db, volume_id = filter_name n, limiter_id = Some (filter_name (n + 1))\<rparr>, n + 2)
          else (Some \<lparr>g_db = db, volume_id = filter_name n, limiter_id = None\<rparr>, n + 1))
       else (None, n)
   | None \<Rightarrow> (None, n))"

text \<open>The slot of a clip with its lane among \<open>width\<close> playlists.\<close>

definition slot_of :: "'f library \<Rightarrow> doc \<Rightarrow> item list \<Rightarrow> bool \<Rightarrow> nat \<Rightarrow> 'f laid \<Rightarrow> int \<Rightarrow> (nat \<times> slot) option \<times> int" where
  "slot_of lb d its is_audio wd l n = (case part_of its is_audio l of
     None \<Rightarrow> (None, n)
   | Some (old, ch) \<Rightarrow> (case gain_of is_audio l n of (gain, n') \<Rightarrow>
      (Some (min (if is_audio then audio_lane l else video_lane l) (wd - 1),
        \<lparr>w_start = l_start l, w_len = laid_len l, w_text = entry_text lb d l old ch gain, w_node = map_option e_node old,
          w_in = l_in l, w_out = l_out l\<rparr>), n')))"

definition track_splices :: "'f library \<Rightarrow> doc \<Rightarrow> item list \<Rightarrow> 'f laid list \<Rightarrow> nat \<Rightarrow> bool \<Rightarrow> int \<Rightarrow> splice list \<times> int" where
  "track_splices lb d its ls t is_audio n =
    (let pls = playlists (tracks d ! t) in
     case thread_laid (slot_of lb d its is_audio (max (length pls) 1)) ls n of (slots, n') \<Rightarrow>
       (concat (map (\<lambda>(ln, pl). rewrite_playlist lb d pl ln (List.map_filter (\<lambda>s. case s of Some (k, w) \<Rightarrow> if k = ln then Some w else None
            | None \<Rightarrow> None) slots)) (enumerate 0 pls)), n'))"

definition kept_items :: "'f laid list \<Rightarrow> nat list" where
  "kept_items ls = List.map_filter (\<lambda>l. case l_source l of Existing i \<Rightarrow> Some i | _ \<Rightarrow> None) ls"

definition gone_chains :: "'f library \<Rightarrow> doc \<Rightarrow> item list \<Rightarrow> 'f laid list \<Rightarrow> splice list" where
  "gone_chains lb d its ls =
    (let every = concat (map (track_entries lb d) [0..<length (tracks d)]) in
     List.map_filter (\<lambda>e.
        if list_ex (\<lambda>x. chain x = chain e \<and> e_node x \<noteq> e_node e) every then None
        else map_option (remove_line d) (by_id (tree d) (chain e)))
      (concat (map (\<lambda>(i, it). if i \<in> set (kept_items ls) then [] else both_entries it) (enumerate 0 its))))"

definition least :: "nat list \<Rightarrow> nat option" where
  "least xs = (if xs = [] then None else Some (Min (set xs)))"

definition chain_splices :: "doc \<Rightarrow> writing \<Rightarrow> bytes + splice list" where
  "chain_splices d w =
    (let bin_part =
       (if new_bin_chains w = [] then []
        else
          (let b = node_of (tree d) (bin d) in
           [((fst (node_line d (bin d)), fst (node_line d (bin d))), new_bin_chains w),
            (let last_end = (case rev (children b) of c # _ \<Rightarrow> span_end (node_of (tree d) c) | [] \<Rightarrow> inner_start b)
             in ((last_end, last_end), new_bin_entries w))]))
     in if new_chains w = [] then Inr bin_part
        else (case least (map (\<lambda>p. span_start (node_of (tree d) p))
                 (playlists (tracks d ! main_audio d) @ playlists (tracks d ! main_video d))) of
            None \<Rightarrow> Inl (lit ''the main track has no playlists'')
          | Some first \<Rightarrow> (let at = fst (line_of (doc_text d) first first) in Inr (((at, at), new_chains w) # bin_part))))"

definition new_start :: "'f laid list \<Rightarrow> nat \<Rightarrow> int option" where
  "new_start ls i = map_of (rev (List.map_filter (\<lambda>l. case l_source l of Existing k \<Rightarrow> Some (k, l_start l) | _ \<Rightarrow> None) ls)) i"

definition leaf_moves :: "doc \<Rightarrow> item list \<Rightarrow> 'f laid list \<Rightarrow> moves" where
  "leaf_moves d its ls =
     fold (\<lambda>(i, it) ms.
         (let to = new_start ls i;
              ms = (case video it of Some v \<Rightarrow> AList.update (main_video d, start v) to ms | None \<Rightarrow> ms)
          in (case audio it of Some a \<Rightarrow> AList.update (main_audio d, start a) to ms | None \<Rightarrow> ms)))
       (enumerate 0 its) []"

definition added_splits :: "doc \<Rightarrow> 'f laid list \<Rightarrow> json list" where
  "added_splits d ls = List.map_filter (\<lambda>l.
     if (case l_source l of Existing _ \<Rightarrow> False | _ \<Rightarrow> True) \<and> video_chain l \<noteq> None \<and> audio_chain l \<noteq> None
     then Some (av_split (main_video d) (main_audio d) (l_start l)) else None) ls"

definition group_splices :: "'f library \<Rightarrow> doc \<Rightarrow> item list \<Rightarrow> 'f laid list \<Rightarrow> splice list" where
  "group_splices lb d its ls =
    (case remap_groups (leaf_moves d its ls) (groups lb d) of (changed, gs) \<Rightarrow>
      (case (gs, added_splits d ls) of
         (JArray l, new # later) \<Rightarrow>
           set_property lb d (sequence d) (lit ''kdenlive:sequenceproperties.groups'') (groups_text lb (JArray (l @ new # later)))
       | _ \<Rightarrow> if changed then set_property lb d (sequence d) (lit ''kdenlive:sequenceproperties.groups'') (groups_text lb gs) else []))"

text \<open>Haruspex's own crossfades on a track, wanted and written: start, frames, reversed.\<close>

definition wanted_mixes :: "item list \<Rightarrow> 'f laid list \<Rightarrow> bool \<Rightarrow> (int \<times> int \<times> bool) list" where
  "wanted_mixes its ls is_audio =
    (let has = (\<lambda>l. (if is_audio then audio_chain l else video_chain l) \<noteq> None \<or>
         (case l_source l of Existing i \<Rightarrow> (if is_audio then audio (its ! i) else video (its ! i)) \<noteq> None | _ \<Rightarrow> False))
     in sort (List.map_filter (\<lambda>(p, l). if has l \<and> has p then map_option (\<lambda>f. (l_start l, f, video_lane l = 0)) (mix_in l) else None)
          (zip ls (tl ls))))"

definition written_mixes :: "'f library \<Rightarrow> doc \<Rightarrow> nat \<Rightarrow> (int \<times> int \<times> bool) list" where
  "written_mixes lb d t = sort (map (\<lambda>m. (m_in m, m_out m - m_in m, property (tree d) (m_node m) (lit ''reverse'') = Some (lit ''1'')))
     (filter ours (mixes_of lb d t)))"

fun transitions :: "'f library \<Rightarrow> frame_rate \<Rightarrow> bool \<Rightarrow> int \<Rightarrow> (int \<times> int \<times> bool) list \<Rightarrow> bytes" where
  "transitions lb rt is_audio n [] = []"
| "transitions lb rt is_audio n ((s, f, r) # ms) =
     mix_transition lb rt (lit ''transition'' @ dec_int n) s f is_audio r @ transitions lb rt is_audio (n + 1) ms"

definition mix_splices :: "'f library \<Rightarrow> doc \<Rightarrow> item list \<Rightarrow> 'f laid list \<Rightarrow> nat \<Rightarrow> bool \<Rightarrow> int \<Rightarrow> bytes + (splice list \<times> int)" where
  "mix_splices lb d its ls t is_audio n =
    (let wanted = wanted_mixes its ls is_audio in
     if wanted = written_mixes lb d t then Inr ([], n)
     else
       (let removed = map (\<lambda>m. remove_line d (m_node m)) (filter ours (mixes_of lb d t));
            added = transitions lb (fps d) is_audio n wanted;
            n' = n + int (length wanted)
        in if added = [] then Inr (removed, n')
           else (case rev (children_named (tree d) (tractor (tracks d ! t)) (lit ''track'')) of
               [] \<Rightarrow> Inl (lit ''a main track has no lanes'')
             | tr # _ \<Rightarrow> (let after = snd (node_line d tr) in Inr (removed @ [((after, after), added)], n')))))"

definition user_mix_splices :: "'f library \<Rightarrow> doc \<Rightarrow> item list \<Rightarrow> 'f laid list \<Rightarrow> splice list" where
  "user_mix_splices lb d its ls = concat (map (\<lambda>m.
     (case Option.bind (position (\<lambda>i. item_start i = m_in m) its) (new_start ls) of
        None \<Rightarrow> []
      | Some s \<Rightarrow> set_attrs lb d (m_node m)
          [(lit ''in'', timecode (fl lb) (fps d) s), (lit ''out'', timecode (fl lb) (fps d) (s + (m_out m - m_in m)))]))
     (filter (\<lambda>m. \<not> ours m) (mixes_of lb d (main_video d)) @ filter (\<lambda>m. \<not> ours m) (mixes_of lb d (main_audio d))))"

definition end_of_part :: "item list \<Rightarrow> bool \<Rightarrow> 'f laid list \<Rightarrow> int" where
  "end_of_part its is_audio ls = max_or 0 (map laid_end (filter (\<lambda>l.
     (if is_audio then audio_chain l else video_chain l) \<noteq> None \<or>
     (case l_source l of Existing i \<Rightarrow> (if is_audio then audio (its ! i) else video (its ! i)) \<noteq> None | _ \<Rightarrow> False)) ls))"

definition others_end :: "'f library \<Rightarrow> doc \<Rightarrow> int" where
  "others_end lb d = max_or 0 (map (track_end lb d)
     (filter (\<lambda>t. t \<noteq> main_video d \<and> t \<noteq> main_audio d) [0..<length (tracks d)]))"

definition length_splices :: "'f library \<Rightarrow> doc \<Rightarrow> item list \<Rightarrow> 'f laid list \<Rightarrow> splice list" where
  "length_splices lb d its ls =
    (let total = max (max_or 0 (map laid_end ls)) (others_end lb d);
         tc = timecode (fl lb) (fps d);
         last = (\<lambda>e. [(lit ''out'', tc (max (e - 1) 0))])
     in set_attrs lb d (tractor (tracks d ! main_video d)) (last (end_of_part its False ls)) @
        set_attrs lb d (tractor (tracks d ! main_audio d)) (last (end_of_part its True ls)) @
        set_attrs lb d (sequence d) (last total) @
        set_property lb d (sequence d) (lit ''kdenlive:duration'') (tc total) @
        set_property lb d (sequence d) (lit ''kdenlive:maxduration'') (dec_int total) @
        (case project_tractor d of None \<Rightarrow> []
         | Some pt \<Rightarrow> set_attrs lb d pt (last total) @
             (case children_named (tree d) pt (lit ''track'') of t # _ \<Rightarrow> set_attrs lb d t (last total) | [] \<Rightarrow> [])) @
        (case black d of None \<Rightarrow> []
         | Some b \<Rightarrow>
            (let now = (case Option.bind (attr (lit ''out'') (node_of (tree d) b)) (parse_time (fl lb) (fps d)) of Some n \<Rightarrow> n | None \<Rightarrow> 0)
             in if now < total then set_attrs lb d b [(lit ''out'', tc (total + frames (fl lb) (fps d) (f_of (fl lb) 300)))] else [])))"

definition writing_start :: "doc \<Rightarrow> writing" where
  "writing_start d = \<lparr>next_id = max_kdenlive_id d + 1, next_chain = max_id_number d (lit ''chain'') + 1, next_uuid = 0,
     new_chains = [], new_bin_chains = [], new_bin_entries = [], added_bin = []\<rparr>"

text \<open>The clips with their chains named, and all the replacements.\<close>

definition name_chains :: "'f library \<Rightarrow> (nat \<Rightarrow> bytes) \<Rightarrow> doc \<Rightarrow> item list \<Rightarrow> 'f laid list \<Rightarrow> 'f laid list \<times> writing" where
  "name_chains lb uuids d its ls = (case thread_laid (add_media lb uuids d) ls (writing_start d) of (ls1, w1) \<Rightarrow>
     thread_laid (add_piece d its) ls1 w1)"

definition all_splices :: "'f library \<Rightarrow> (nat \<Rightarrow> bytes) \<Rightarrow> doc \<Rightarrow> item list \<Rightarrow> 'f laid list \<Rightarrow> bytes + splice list" where
  "all_splices lb uuids d its placed = (case name_chains lb uuids d its placed of (ls, w) \<Rightarrow>
     (case track_splices lb d its ls (main_audio d) True (max_nested_id d (lit ''filter'') + 1) of (sa, n1) \<Rightarrow>
     (case track_splices lb d its ls (main_video d) False n1 of (sv, _) \<Rightarrow>
     (case chain_splices d w of Inl e \<Rightarrow> Inl e | Inr sc \<Rightarrow>
     (case mix_splices lb d its ls (main_video d) False (max_nested_id d (lit ''transition'') + 1) of Inl e \<Rightarrow> Inl e | Inr (mv, n2) \<Rightarrow>
     (case mix_splices lb d its ls (main_audio d) True n2 of Inl e \<Rightarrow> Inl e | Inr (ma, _) \<Rightarrow>
       Inr (sa @ sv @ gone_chains lb d its ls @ sc @ group_splices lb d its ls @ mv @ ma @
         user_mix_splices lb d its ls @ length_splices lb d its ls)))))))"

record edited =
  ed_text :: bytes
  ed_notes :: "bytes list"

definition others_note :: bytes where
  "others_note = lit ''Clips on other tracks did not move.''"

text \<open>\<open>None\<close> is the panic of a slice.\<close>

definition apply_edit :: "'f library \<Rightarrow> (nat \<Rightarrow> bytes) \<Rightarrow> doc \<Rightarrow> 'f placement list \<Rightarrow> (bytes + edited) option" where
  "apply_edit lb uuids d wanted = (case editable d of Inl e \<Rightarrow> Some (Inl e) | Inr _ \<Rightarrow>
     (let its = items lb d in
      case layout lb d its wanted of Inl e \<Rightarrow> Some (Inl e)
      | Inr (ls, notes) \<Rightarrow>
         (case all_splices lb uuids d its ls of Inl e \<Rightarrow> Some (Inl e)
          | Inr es \<Rightarrow> map_option (map_sum id (\<lambda>t. \<lparr>ed_text = t,
                ed_notes = notes @ (if 0 < others_end lb d then [others_note] else [])\<rparr>)) (apply_splices (doc_text d) es))))"

end
