(* ===== verification/Kdenlive_Xml_Props.thy ===== *)
theory Kdenlive_Xml_Props
  imports Kdenlive_Xml "HOL-Library.Multiset"
begin

text \<open>
  Properties of the index and of the replacements: the elements of a parsed project are nested, and a
  stretch of the text no replacement touches is in the result as it was.
\<close>

section \<open>What the reader promises\<close>

text \<open>\<open>quick_xml\<close>'s positions go forward, and a tag event covers \<open><...>\<close>.\<close>

definition is_tag :: "xml_event \<Rightarrow> bool" where
  "is_tag ev \<longleftrightarrow> (case ev of Tag _ _ \<Rightarrow> True | EndTag \<Rightarrow> True | _ \<Rightarrow> False)"

fun well_read :: "bytes \<Rightarrow> nat \<Rightarrow> (xml_event \<times> nat) list \<Rightarrow> bool" where
  "well_read text at [] \<longleftrightarrow> True"
| "well_read text at ((ev, after) # es) \<longleftrightarrow> at \<le> after \<and> after \<le> length text \<and>
     (is_tag ev \<longrightarrow> at < after \<and> text ! at = 60 \<and> text ! (after - 1) = 62) \<and> well_read text after es"

section \<open>Nesting\<close>

definition end_at :: "parse_state \<Rightarrow> nat \<Rightarrow> nat" where
  "end_at st i = (if i \<in> set (p_stack st) then p_at st else span_end (p_nodes st ! i))"

definition inner_at :: "parse_state \<Rightarrow> nat \<Rightarrow> nat" where
  "inner_at st i = (if i \<in> set (p_stack st) then p_at st else inner_end (p_nodes st ! i))"

text \<open>A node's span with its brackets, and its children one after the other inside.\<close>

definition node_sound :: "bytes \<Rightarrow> (nat \<Rightarrow> nat) \<Rightarrow> (nat \<Rightarrow> nat) \<Rightarrow> (nat \<Rightarrow> bool) \<Rightarrow> node list \<Rightarrow> nat \<Rightarrow> bool" where
  "node_sound text en inn op ns i \<longleftrightarrow>
     (let n = ns ! i in
      span_start n < inner_start n \<and> inner_start n \<le> inn i \<and> inn i \<le> en i \<and>
      text ! span_start n = 60 \<and> text ! (inner_start n - 1) = 62 \<and>
      (\<not> op i \<longrightarrow> text ! (en i - 1) = 62 \<and> (inn i < en i \<longrightarrow> text ! inn i = 60)) \<and>
      sorted_wrt (\<lambda>c d. en c \<le> span_start (ns ! d)) (children n) \<and>
      (\<forall>c\<in>set (children n). i < c \<and> c < length ns \<and> inner_start n \<le> span_start (ns ! c) \<and> en c \<le> inn i))"

definition tree_sound :: "bytes \<Rightarrow> tree \<Rightarrow> bool" where
  "tree_sound text t \<longleftrightarrow> root t < length (nodes t) \<and>
     (\<forall>i<length (nodes t). span_end (node_of t i) \<le> length text \<and>
        node_sound text (\<lambda>i. span_end (node_of t i)) (\<lambda>i. inner_end (node_of t i)) (\<lambda>_. False) (nodes t) i)"

definition parse_ok :: "bytes \<Rightarrow> parse_state \<Rightarrow> bool" where
  "parse_ok text st \<longleftrightarrow> p_at st \<le> length text \<and> sorted_wrt (>) (p_stack st) \<and> set (p_stack st) \<subseteq> {..<length (p_nodes st)} \<and>
     (case p_root st of None \<Rightarrow> p_nodes st = [] | Some r \<Rightarrow> r < length (p_nodes st)) \<and>
     (\<forall>i<length (p_nodes st). end_at st i \<le> p_at st \<and>
        node_sound text (end_at st) (inner_at st) (\<lambda>i. i \<in> set (p_stack st)) (p_nodes st) i \<and>
        (\<forall>c\<in>set (children (p_nodes st ! i)). c \<in> set (p_stack st) \<longrightarrow> i \<in> set (p_stack st)))"

lemma parse_okD:
  assumes "parse_ok text st" and "i < length (p_nodes st)"
  shows "end_at st i \<le> p_at st" and "node_sound text (end_at st) (inner_at st) (\<lambda>i. i \<in> set (p_stack st)) (p_nodes st) i"
    and "c \<in> set (children (p_nodes st ! i)) \<Longrightarrow> c \<in> set (p_stack st) \<Longrightarrow> i \<in> set (p_stack st)"
  using assms by (auto simp: parse_ok_def)

text \<open>An open child is the last.\<close>

lemma open_child_last:
  assumes "parse_ok text st" and "i < length (p_nodes st)"
    and "sorted_wrt (\<lambda>c d. end_at st c \<le> span_start (p_nodes st ! d)) (xs @ c # ys)" and "children (p_nodes st ! i) = xs @ c # ys"
    and "c \<in> set (p_stack st)"
  shows "ys = []"
proof (rule ccontr)
  assume "ys \<noteq> []"
  then obtain d zs where ys: "ys = d # zs" by (cases ys) auto
  have d: "d < length (p_nodes st)" using parse_okD(2) [OF assms(1,2)] assms(4) ys by (auto simp: node_sound_def Let_def)
  have "p_at st \<le> span_start (p_nodes st ! d)" using assms(3,5) ys by (simp add: sorted_wrt_append end_at_def)
  moreover have "span_start (p_nodes st ! d) < end_at st d"
    using parse_okD(2) [OF assms(1) d] by (auto simp: node_sound_def Let_def)
  ultimately show False using parse_okD(1) [OF assms(1) d] by simp
qed

lemma earlier_closed:
  assumes ok: "parse_ok text st" "i < length (p_nodes st)"
    and jk: "j < k" "k < length (children (p_nodes st ! i))"
  shows "children (p_nodes st ! i) ! j \<notin> set (p_stack st)"
    and "end_at st (children (p_nodes st ! i) ! j) \<le> span_start (p_nodes st ! (children (p_nodes st ! i) ! k))"
proof -
  let ?ch = "children (p_nodes st ! i)"
  note so = parse_okD(2) [OF ok]
  then show le: "end_at st (?ch ! j) \<le> span_start (p_nodes st ! (?ch ! k))"
    using jk by (simp add: node_sound_def Let_def sorted_wrt_iff_nth_less)
  have d: "?ch ! k < length (p_nodes st)" using so jk by (auto simp: node_sound_def Let_def dest: nth_mem)
  have "span_start (p_nodes st ! (?ch ! k)) < end_at st (?ch ! k)"
    using parse_okD(2) [OF ok(1) d] by (simp add: node_sound_def Let_def)
  then show "?ch ! j \<notin> set (p_stack st)" using le parse_okD(1) [OF ok(1) d] by (auto simp: end_at_def)
qed

lemma node_soundI:
  assumes "span_start (ns ! i) < inner_start (ns ! i)" "inner_start (ns ! i) \<le> inn i" "inn i \<le> en i"
    and "text ! span_start (ns ! i) = 60" "text ! (inner_start (ns ! i) - 1) = 62"
    and "\<not> op i \<Longrightarrow> text ! (en i - 1) = 62" "\<not> op i \<Longrightarrow> inn i < en i \<Longrightarrow> text ! inn i = 60"
    and "\<And>j k. j < k \<Longrightarrow> k < length (children (ns ! i)) \<Longrightarrow> en (children (ns ! i) ! j) \<le> span_start (ns ! (children (ns ! i) ! k))"
    and "\<And>c. c \<in> set (children (ns ! i)) \<Longrightarrow> i < c \<and> c < length ns \<and> inner_start (ns ! i) \<le> span_start (ns ! c) \<and> en c \<le> inn i"
  shows "node_sound text en inn op ns i"
  using assms by (simp add: node_sound_def Let_def sorted_wrt_iff_nth_less)

lemma node_soundD:
  assumes "node_sound text en inn op ns i"
  shows "span_start (ns ! i) < inner_start (ns ! i)" "inner_start (ns ! i) \<le> inn i" "inn i \<le> en i"
    and "text ! span_start (ns ! i) = 60" "text ! (inner_start (ns ! i) - 1) = 62"
    and "\<not> op i \<Longrightarrow> text ! (en i - 1) = 62" "\<not> op i \<Longrightarrow> inn i < en i \<Longrightarrow> text ! inn i = 60"
    and "j < k \<Longrightarrow> k < length (children (ns ! i)) \<Longrightarrow> en (children (ns ! i) ! j) \<le> span_start (ns ! (children (ns ! i) ! k))"
    and "c \<in> set (children (ns ! i)) \<Longrightarrow> i < c" "c \<in> set (children (ns ! i)) \<Longrightarrow> c < length ns"
    and "c \<in> set (children (ns ! i)) \<Longrightarrow> inner_start (ns ! i) \<le> span_start (ns ! c)" "c \<in> set (children (ns ! i)) \<Longrightarrow> en c \<le> inn i"
  using assms by (simp_all add: node_sound_def Let_def sorted_wrt_iff_nth_less)

lemma advance_ok:
  assumes ok: "parse_ok text st" and le: "p_at st \<le> after" "after \<le> length text"
  shows "parse_ok text (st\<lparr>p_at := after\<rparr>)"
proof -
  let ?st = "st\<lparr>p_at := after\<rparr>" and ?ns = "p_nodes st"
  have mono: "end_at st i \<le> end_at ?st i" "inner_at st i \<le> inner_at ?st i" for i
    using le by (auto simp: end_at_def inner_at_def)
  have closed: "end_at ?st i = end_at st i" "inner_at ?st i = inner_at st i" if "i \<notin> set (p_stack st)" for i
    using that by (simp_all add: end_at_def inner_at_def)
  have "end_at ?st i \<le> after \<and> node_sound text (end_at ?st) (inner_at ?st) (\<lambda>i. i \<in> set (p_stack st)) ?ns i"
    if i: "i < length ?ns" for i
  proof
    note so = node_soundD [OF parse_okD(2) [OF ok i]]
    show "end_at ?st i \<le> after" using parse_okD(1) [OF ok i] le by (auto simp: end_at_def)
    show "node_sound text (end_at ?st) (inner_at ?st) (\<lambda>i. i \<in> set (p_stack st)) ?ns i"
    proof (rule node_soundI)
      show "inner_at ?st i \<le> end_at ?st i" using so(3) by (auto simp: end_at_def inner_at_def)
      show "inner_start (?ns ! i) \<le> inner_at ?st i" using so(2) mono(2) [of i] by simp
      show "end_at ?st (children (?ns ! i) ! j) \<le> span_start (?ns ! (children (?ns ! i) ! k))"
        if "j < k" "k < length (children (?ns ! i))" for j k
        using earlier_closed [OF ok i that] closed by simp
      show "i < c \<and> c < length ?ns \<and> inner_start (?ns ! i) \<le> span_start (?ns ! c) \<and> end_at ?st c \<le> inner_at ?st i"
        if c: "c \<in> set (children (?ns ! i))" for c
      proof (intro conjI)
        show "end_at ?st c \<le> inner_at ?st i"
        proof (cases "c \<in> set (p_stack st)")
          case True
          then have "i \<in> set (p_stack st)" using parse_okD(3) [OF ok i c] by simp
          then show ?thesis using True by (simp add: end_at_def inner_at_def)
        next
          case False
          then show ?thesis using so(12) [OF c] closed(1) mono(2) [of i] by simp
        qed
      qed (use so c in auto)
    qed (use so closed in auto)
  qed
  then show ?thesis using ok le by (cases "p_root st") (auto simp: parse_ok_def)
qed

text \<open>Only spans and children matter.\<close>

lemma parse_ok_cong:
  assumes "parse_ok text st" and "length ns = length (p_nodes st)"
    and "\<And>i. i < length ns \<Longrightarrow> span_start (ns ! i) = span_start (p_nodes st ! i) \<and> inner_start (ns ! i) = inner_start (p_nodes st ! i) \<and>
      inner_end (ns ! i) = inner_end (p_nodes st ! i) \<and> span_end (ns ! i) = span_end (p_nodes st ! i) \<and>
      children (ns ! i) = children (p_nodes st ! i)"
  shows "parse_ok text (st\<lparr>p_nodes := ns\<rparr>)"
proof -
  let ?st = "st\<lparr>p_nodes := ns\<rparr>"
  have at: "end_at ?st i = end_at st i" "inner_at ?st i = inner_at st i" if "i < length ns" for i
    using assms(3) [OF that] by (simp_all add: end_at_def inner_at_def)
  have "node_sound text (end_at ?st) (inner_at ?st) (\<lambda>i. i \<in> set (p_stack st)) ns i" if i: "i < length ns" for i
  proof -
    note so = node_soundD [OF parse_okD(2) [OF assms(1)], of i]
    note so = so [OF i [unfolded assms(2)]]
    note eq = assms(3) [OF i]
    have ch: "c < length ns" if "c \<in> set (children (ns ! i))" for c using so(10) that eq assms(2) by simp
    show ?thesis
    proof (rule node_soundI)
      show "end_at ?st (children (ns ! i) ! j) \<le> span_start (ns ! (children (ns ! i) ! k))"
        if jk: "j < k" "k < length (children (ns ! i))" for j k
        using so(8) jk eq at(1) ch assms(3) by (metis nth_mem order.strict_trans)
      show "i < c \<and> c < length ns \<and> inner_start (ns ! i) \<le> span_start (ns ! c) \<and> end_at ?st c \<le> inner_at ?st i"
        if c: "c \<in> set (children (ns ! i))" for c
        using so(9-12) [of c] c eq at [OF i] at(1) [OF ch [OF c]] assms(2) assms(3) [OF ch [OF c]] by simp
    qed (use so eq at [OF i] in auto)
  qed
  moreover have "end_at ?st i \<le> p_at st" if "i < length ns" for i
    using parse_okD(1) [OF assms(1), of i] that assms(2) at by simp
  moreover have "c \<in> set (p_stack st) \<Longrightarrow> i \<in> set (p_stack st)" if "i < length ns" "c \<in> set (children (ns ! i))" for i c
    using parse_okD(3) [OF assms(1), of i c] that assms(2,3) by simp
  moreover have "ns = [] \<longleftrightarrow> p_nodes st = []" using assms(2) by (metis length_0_conv)
  ultimately show ?thesis using assms(1,2) by (auto simp: parse_ok_def split: option.splits)
qed

lemma nth_update_lt: "i < length xs \<Longrightarrow> xs[k := v] ! i = (if i = k then v else xs ! i)"
  by simp

lemma push_node_text_ok: "parse_ok text st \<Longrightarrow> parse_ok text (push_text_of t st)"
  by (auto simp: push_text_of_def node_adjust_def nth_update_lt intro!: parse_ok_cong split: list.split)

lemma p_at_push_text [simp]: "p_at (push_text_of t st) = p_at st"
  by (simp add: push_text_of_def split: list.split)

lemma new_node_ok:
  assumes ok: "parse_ok text st" and at: "p_at st < after" "after \<le> length text" "text ! p_at st = 60" "text ! (after - 1) = 62"
    and ns: "ns = p_nodes st @ [node_new name attrs (p_at st) after]"
    and ns': "ns' = (case p_stack st of p # _ \<Rightarrow> node_adjust p (\<lambda>n. n\<lparr>children := children n @ [length (p_nodes st)]\<rparr>) ns | [] \<Rightarrow> ns)"
    and stack: "stack = p_stack st \<or> stack = length (p_nodes st) # p_stack st"
    and rt: "rt = (case p_root st of None \<Rightarrow> Some r0 | r \<Rightarrow> r)" and r0: "r0 = length (p_nodes st)"
    and empty: "p_stack st \<noteq> [] \<Longrightarrow> rt' = p_root st" "p_stack st = [] \<Longrightarrow> rt' = rt"
  shows "parse_ok text \<lparr>p_nodes = ns', p_stack = stack, p_root = rt', p_at = after\<rparr>" (is "parse_ok text ?st")
proof -
  let ?n = "length (p_nodes st)"
  have st_lt: "i < ?n" if "i \<in> set (p_stack st)" for i using ok that by (auto simp: parse_ok_def)
  have len: "length ns' = Suc ?n" by (simp add: ns' ns node_adjust_def split: list.split)
  have new: "ns' ! ?n = node_new name attrs (p_at st) after"
    using st_lt [of ?n] by (auto simp: ns' ns node_adjust_def nth_append nth_update_lt split: list.split)
  have old: "span_start (ns' ! i) = span_start (p_nodes st ! i)" "inner_start (ns' ! i) = inner_start (p_nodes st ! i)"
    "inner_end (ns' ! i) = inner_end (p_nodes st ! i)" "span_end (ns' ! i) = span_end (p_nodes st ! i)" if "i < ?n" for i
    using that by (auto simp: ns' ns node_adjust_def nth_append nth_update_lt split: list.split)
  have ch: "children (ns' ! i) = children (p_nodes st ! i) @ (if p_stack st \<noteq> [] \<and> i = hd (p_stack st) then [?n] else [])" if "i < ?n" for i
    using that by (auto simp: ns' ns node_adjust_def nth_append nth_update_lt split: list.split)
  have en: "end_at ?st i = (if i \<in> set (p_stack st) then after else span_end (p_nodes st ! i))" if "i < ?n" for i
    using stack that old by (auto simp: end_at_def)
  have inn: "inner_at ?st i = (if i \<in> set (p_stack st) then after else inner_end (p_nodes st ! i))" if "i < ?n" for i
    using stack that old by (auto simp: inner_at_def)
  have enn: "end_at ?st ?n = after" "inner_at ?st ?n = after"
    using new by (auto simp: end_at_def inner_at_def node_new_def)
  have closed: "end_at st i = span_end (p_nodes st ! i)" "inner_at st i = inner_end (p_nodes st ! i)" if "i \<notin> set (p_stack st)" for i
    using that by (simp_all add: end_at_def inner_at_def)
  have opened: "end_at st i = p_at st" "inner_at st i = p_at st" if "i \<in> set (p_stack st)" for i
    using that by (simp_all add: end_at_def inner_at_def)
  have in_stack: "i \<in> set stack \<longleftrightarrow> i \<in> set (p_stack st)" if "i < ?n" for i using stack that by auto
  have sound: "end_at ?st i \<le> after \<and> node_sound text (end_at ?st) (inner_at ?st) (\<lambda>i. i \<in> set stack) ns' i \<and>
     (\<forall>c\<in>set (children (ns' ! i)). c \<in> set stack \<longrightarrow> i \<in> set stack)" if "i < length ns'" for i
  proof (cases "i = ?n")
    case True
    have "node_sound text (end_at ?st) (inner_at ?st) (\<lambda>i. i \<in> set stack) ns' ?n"
      by (rule node_soundI) (use new enn at in \<open>auto simp: node_new_def\<close>)
    then show ?thesis using True new enn by (simp add: node_new_def)
  next
    case False
    then have i: "i < ?n" using that len by simp
    note so = node_soundD [OF parse_okD(2) [OF ok i]]
    have open_last: "c \<notin> set (p_stack st)" if top: "p_stack st \<noteq> []" "i = hd (p_stack st)" and "c \<in> set (children (p_nodes st ! i))" for c
    proof
      assume "c \<in> set (p_stack st)"
      then have "c \<le> i" using ok top by (cases "p_stack st") (auto simp: parse_ok_def)
      then show False using so(9) that(3) by fastforce
    qed
    have en_le: "end_at ?st c \<le> inner_at ?st i" if c: "c \<in> set (children (p_nodes st ! i))" for c
    proof (cases "c \<in> set (p_stack st)")
      case True
      then have "i \<in> set (p_stack st)" using parse_okD(3) [OF ok i c] by simp
      then show ?thesis using True en inn i so(10) [OF c] by simp
    next
      case False
      have "inner_at st i \<le> inner_at ?st i" using closed opened inn [OF i] at(1) by (cases "i \<in> set (p_stack st)") auto
      then show ?thesis using so(12) [OF c] closed(1) [OF False] en [OF so(10) [OF c]] False by simp
    qed
    have sorted: "end_at ?st (children (ns' ! i) ! j) \<le> span_start (ns' ! (children (ns' ! i) ! k))"
      if jk: "j < k" "k < length (children (ns' ! i))" for j k
    proof (cases "k < length (children (p_nodes st ! i))")
      case True
      let ?cj = "children (p_nodes st ! i) ! j" and ?ck = "children (p_nodes st ! i) ! k"
      have mem: "?cj < ?n" "?ck < ?n" using so(10) jk(1) True by auto
      have "children (ns' ! i) ! j = ?cj" "children (ns' ! i) ! k = ?ck" using ch [OF i] jk(1) True by (simp_all add: nth_append)
      then show ?thesis using earlier_closed [OF ok i jk(1) True] en [OF mem(1)] old(1) [OF mem(2)] closed(1) by simp
    next
      case False
      then have top: "p_stack st \<noteq> []" "i = hd (p_stack st)" and k: "k = length (children (p_nodes st ! i))"
        using jk(2) ch [OF i] by (auto split: if_splits)
      let ?cj = "children (p_nodes st ! i) ! j"
      have mem: "?cj \<in> set (children (p_nodes st ! i))" using jk(1) k by simp
      have cj: "children (ns' ! i) ! j = ?cj" "children (ns' ! i) ! k = ?n" using ch [OF i] jk(1) k top by (simp_all add: nth_append)
      have "end_at ?st ?cj = end_at st ?cj"
        using en [OF so(10) [OF mem]] open_last [OF top mem] closed(1) by simp
      then show ?thesis using cj new parse_okD(1) [OF ok so(10) [OF mem]] by (simp add: node_new_def)
    qed
    have kids: "i < c \<and> c < length ns' \<and> inner_start (ns' ! i) \<le> span_start (ns' ! c) \<and> end_at ?st c \<le> inner_at ?st i"
      if c: "c \<in> set (children (ns' ! i))" for c
    proof (cases "c = ?n")
      case True
      then have top: "p_stack st \<noteq> []" "i = hd (p_stack st)"
        using c ch [OF i] so(10) by (auto split: if_splits)
      then have mem: "i \<in> set (p_stack st)" by simp
      then show ?thesis using True i len new enn inn [OF i] so(2) old(2) [OF i] opened(2) [OF mem] by (simp add: node_new_def)
    next
      case False
      then have c': "c \<in> set (children (p_nodes st ! i))" using c ch [OF i] by (auto split: if_splits)
      show ?thesis using so(9-11) [OF c'] old(1) [OF so(10) [OF c']] old(2) [OF i] en_le [OF c'] len by simp
    qed
    have "node_sound text (end_at ?st) (inner_at ?st) (\<lambda>i. i \<in> set stack) ns' i"
    proof (rule node_soundI)
      show "inner_start (ns' ! i) \<le> inner_at ?st i" "inner_at ?st i \<le> end_at ?st i"
        using so(2,3) old(2) [OF i] inn [OF i] en [OF i] closed opened at(1) by (auto split: if_splits)
      show "text ! (end_at ?st i - 1) = 62" if "i \<notin> set stack"
        using so(6) that in_stack [OF i] en [OF i] closed(1) by simp
      show "text ! inner_at ?st i = 60" if "i \<notin> set stack" "inner_at ?st i < end_at ?st i"
        using so(7) that in_stack [OF i] en [OF i] inn [OF i] closed by simp
    qed (use so(1,4,5) old [OF i] sorted kids in auto)
    moreover have "end_at ?st i \<le> after" using parse_okD(1) [OF ok i] en [OF i] at(1) closed by auto
    moreover have "c \<in> set stack \<longrightarrow> i \<in> set stack" if c: "c \<in> set (children (ns' ! i))" for c
    proof
      assume cs: "c \<in> set stack"
      show "i \<in> set stack"
      proof (cases "c = ?n")
        case True
        then have "p_stack st \<noteq> [] \<and> i = hd (p_stack st)" using c ch [OF i] so(10) by (auto split: if_splits)
        then show ?thesis using in_stack [OF i] by simp
      next
        case False
        then have c': "c \<in> set (children (p_nodes st ! i))" using c ch [OF i] by (auto split: if_splits)
        then show ?thesis using parse_okD(3) [OF ok i c'] cs in_stack [OF so(10) [OF c']] in_stack [OF i] by simp
      qed
    qed
    ultimately show ?thesis by blast
  qed
  have srt: "sorted_wrt (>) stack" and sub: "set stack \<subseteq> {..<Suc ?n}"
    using ok stack st_lt by (auto simp: parse_ok_def less_Suc_eq)
  have "case rt' of None \<Rightarrow> ns' = [] | Some r \<Rightarrow> r < length ns'"
  proof (cases "p_stack st = []")
    case True
    then show ?thesis using empty(2) rt r0 ok len by (auto simp: parse_ok_def split: option.splits)
  next
    case False
    then have "p_nodes st \<noteq> []" using st_lt by (metis last_in_set length_0_conv not_less_zero)
    then show ?thesis using False empty(1) ok len by (auto simp: parse_ok_def split: option.splits)
  qed
  then show ?thesis using sound at(2) srt sub len by (cases rt') (simp_all add: parse_ok_def)
qed

lemma close_ok:
  assumes ok: "parse_ok text st" and at: "p_at st < after" "after \<le> length text" "text ! p_at st = 60" "text ! (after - 1) = 62"
    and stack: "p_stack st = i0 # rest"
  shows "parse_ok text \<lparr>p_nodes = node_adjust i0 (\<lambda>n. n\<lparr>inner_end := p_at st, span_end := after\<rparr>) (p_nodes st),
    p_stack = rest, p_root = p_root st, p_at = after\<rparr>" (is "parse_ok text ?st")
proof -
  let ?ns = "p_nodes st" and ?ns' = "node_adjust i0 (\<lambda>n. n\<lparr>inner_end := p_at st, span_end := after\<rparr>) (p_nodes st)"
  have i0: "i0 < length ?ns" using ok stack by (auto simp: parse_ok_def)
  have srt: "sorted_wrt (>) rest" and below: "\<And>i. i \<in> set rest \<Longrightarrow> i < i0" and sub: "set rest \<subseteq> {..<length ?ns}"
    using ok stack by (auto simp: parse_ok_def)
  have len: "length ?ns' = length ?ns" by (simp add: node_adjust_def)
  have same: "span_start (?ns' ! i) = span_start (?ns ! i)" "inner_start (?ns' ! i) = inner_start (?ns ! i)"
    "children (?ns' ! i) = children (?ns ! i)" if "i < length ?ns" for i
    using that by (simp_all add: node_adjust_def nth_update_lt)
  have en: "end_at ?st i = (if i \<in> set (p_stack st) then after else end_at st i)" if "i < length ?ns" for i
    using that stack below by (auto simp: end_at_def node_adjust_def nth_update_lt)
  have inn: "inner_at ?st i = (if i = i0 then p_at st else if i \<in> set (p_stack st) then after else inner_at st i)" if "i < length ?ns" for i
    using that stack below by (auto simp: inner_at_def node_adjust_def nth_update_lt)
  have opened: "end_at st i = p_at st" "inner_at st i = p_at st" if "i \<in> set (p_stack st)" for i
    using that by (simp_all add: end_at_def inner_at_def)
  have "end_at ?st i \<le> after \<and> node_sound text (end_at ?st) (inner_at ?st) (\<lambda>i. i \<in> set rest) ?ns' i \<and>
     (\<forall>c\<in>set (children (?ns' ! i)). c \<in> set rest \<longrightarrow> i \<in> set rest)" if i': "i < length ?ns'" for i
  proof -
    have i: "i < length ?ns" using i' len by simp
    note so = node_soundD [OF parse_okD(2) [OF ok i]]
    have sorted: "end_at ?st (children (?ns' ! i) ! j) \<le> span_start (?ns' ! (children (?ns' ! i) ! k))"
      if jk: "j < k" "k < length (children (?ns' ! i))" for j k
    proof -
      have jk': "k < length (children (?ns ! i))" using jk(2) same(3) [OF i] by simp
      have mem: "children (?ns ! i) ! j < length ?ns" "children (?ns ! i) ! k < length ?ns" using so(10) jk(1) jk' by auto
      show ?thesis using earlier_closed [OF ok i jk(1) jk'] en [OF mem(1)] same(1) [OF mem(2)] same(3) [OF i] by simp
    qed
    have kids: "i < c \<and> c < length ?ns' \<and> inner_start (?ns' ! i) \<le> span_start (?ns' ! c) \<and> end_at ?st c \<le> inner_at ?st i"
      if c0: "c \<in> set (children (?ns' ! i))" for c
    proof -
      have c: "c \<in> set (children (?ns ! i))" using c0 same(3) [OF i] by simp
      have "end_at ?st c \<le> inner_at ?st i"
      proof (cases "c \<in> set (p_stack st)")
        case True
        have "i < c" using so(9) [OF c] .
        moreover have "c \<le> i0" using True stack below by fastforce
        ultimately have "i \<noteq> i0" by simp
        moreover have "i \<in> set (p_stack st)" using parse_okD(3) [OF ok i c True] .
        ultimately show ?thesis using en [OF so(10) [OF c]] inn [OF i] True by simp
      next
        case False
        have "inner_at st i \<le> inner_at ?st i" using inn [OF i] opened(2) [of i] at(1) stack by auto
        then show ?thesis using so(12) [OF c] en [OF so(10) [OF c]] False by simp
      qed
      then show ?thesis using so(9-11) [OF c] same(1) [OF so(10) [OF c]] same(2) [OF i] len by simp
    qed
    have "node_sound text (end_at ?st) (inner_at ?st) (\<lambda>i. i \<in> set rest) ?ns' i"
    proof (rule node_soundI)
      show "inner_start (?ns' ! i) \<le> inner_at ?st i" "inner_at ?st i \<le> end_at ?st i"
        using so(2,3) same(2) [OF i] inn [OF i] en [OF i] opened [of i] at(1) stack by (auto split: if_splits)
      show "text ! (end_at ?st i - 1) = 62" if "i \<notin> set rest"
        using so(6) that en [OF i] at(4) stack by (auto split: if_splits)
      show "text ! inner_at ?st i = 60" if "i \<notin> set rest" "inner_at ?st i < end_at ?st i"
        using so(7) that en [OF i] inn [OF i] at(3) stack by (auto split: if_splits)
    qed (use so(1,4,5) same [OF i] sorted kids in auto)
    moreover have "end_at ?st i \<le> after" using parse_okD(1) [OF ok i] en [OF i] at(1) by auto
    moreover have "c \<in> set rest \<longrightarrow> i \<in> set rest" if c: "c \<in> set (children (?ns' ! i))" for c
    proof
      assume cs: "c \<in> set rest"
      have c': "c \<in> set (children (?ns ! i))" using c same(3) [OF i] by simp
      then have "i \<in> set (p_stack st)" using parse_okD(3) [OF ok i c'] cs stack by simp
      moreover have "i < i0" using so(9) [OF c'] below [OF cs] by simp
      ultimately show "i \<in> set rest" using stack by auto
    qed
    ultimately show ?thesis by blast
  qed
  moreover have "case p_root st of None \<Rightarrow> ?ns' = [] | Some r \<Rightarrow> r < length ?ns'"
    using ok by (cases "p_root st") (auto simp: parse_ok_def node_adjust_def)
  ultimately show ?thesis using at(2) srt sub len by (cases "p_root st") (simp_all add: parse_ok_def)
qed

lemma parse_step_ok:
  assumes ok: "parse_ok text st" and step: "parse_step text (ev, after) st = Inr st'"
    and le: "p_at st \<le> after" "after \<le> length text"
    and tag: "is_tag ev \<Longrightarrow> p_at st < after \<and> text ! p_at st = 60 \<and> text ! (after - 1) = 62"
  shows "parse_ok text st' \<and> p_at st' = after"
proof (cases ev)
  case (Tag name as)
  then obtain attrs where as: "as = Inr attrs" using step by (cases as) (auto simp: parse_step_def)
  from tag Tag have t: "p_at st < after" "text ! p_at st = 60" "text ! (after - 1) = 62" by (auto simp: is_tag_def)
  define r where "r = (case p_root st of None \<Rightarrow> Some (length (p_nodes st)) | r \<Rightarrow> r)"
  let ?ns = "p_nodes st @ [node_new name attrs (p_at st) after]"
  let ?ns' = "case p_stack st of p # _ \<Rightarrow> node_adjust p (\<lambda>n. n\<lparr>children := children n @ [length (p_nodes st)]\<rparr>) ?ns | [] \<Rightarrow> ?ns"
  let ?stack = "if closes_itself text after then p_stack st else length (p_nodes st) # p_stack st"
  let ?rt = "if p_stack st = [] then r else p_root st"
  have "st' = \<lparr>p_nodes = ?ns', p_stack = ?stack, p_root = ?rt, p_at = after\<rparr>"
    using step Tag as by (cases st) (auto simp: parse_step_def Let_def r_def split: list.splits if_splits option.splits)
  moreover have "parse_ok text \<lparr>p_nodes = ?ns', p_stack = ?stack, p_root = ?rt, p_at = after\<rparr>"
    by (rule new_node_ok [OF ok t(1) le(2) t(2,3) refl refl _ r_def refl]) auto
  ultimately show ?thesis by simp
next
  case EndTag
  then obtain i rest where st: "p_stack st = i # rest" using step by (cases "p_stack st") (auto simp: parse_step_def)
  from tag EndTag have t: "p_at st < after" "text ! p_at st = 60" "text ! (after - 1) = 62" by (auto simp: is_tag_def)
  have "st' = \<lparr>p_nodes = node_adjust i (\<lambda>n. n\<lparr>inner_end := p_at st, span_end := after\<rparr>) (p_nodes st),
      p_stack = rest, p_root = p_root st, p_at = after\<rparr>"
    using step EndTag st by (cases st) (auto simp: parse_step_def)
  then show ?thesis using close_ok [OF ok t(1) le(2) t(2,3) st] by simp
next
  case (TextEvent t)
  then have "st' = (push_text_of t st)\<lparr>p_at := after\<rparr>" using step by (simp add: parse_step_def)
  then show ?thesis using advance_ok [OF push_node_text_ok [OF ok]] le by simp
next
  case (CData t)
  then have "st' = (push_text_of t st)\<lparr>p_at := after\<rparr>" using step by (simp add: parse_step_def)
  then show ?thesis using advance_ok [OF push_node_text_ok [OF ok]] le by simp
next
  case (GeneralRef a b)
  then obtain t where "st' = (push_text_of t st)\<lparr>p_at := after\<rparr>" using step by (auto simp: parse_step_def)
  then show ?thesis using advance_ok [OF push_node_text_ok [OF ok]] le by simp
next
  case OtherEvent
  then have "st' = st\<lparr>p_at := after\<rparr>" using step by (simp add: parse_step_def)
  then show ?thesis using advance_ok [OF ok] le by simp
qed

lemma parse_events_ok:
  "parse_ok text st \<Longrightarrow> well_read text (p_at st) es \<Longrightarrow> parse_events text es st = Inr st' \<Longrightarrow> parse_ok text st'"
proof (induction es arbitrary: st)
  case (Cons e es)
  obtain ev after where e: "e = (ev, after)" by (cases e)
  with Cons.prems obtain st1 where s: "parse_step text (ev, after) st = Inr st1" "parse_events text es st1 = Inr st'"
    by (auto split: sum.splits)
  have "parse_ok text st1 \<and> p_at st1 = after"
    by (rule parse_step_ok [OF Cons.prems(1) s(1)]) (use Cons.prems(2) e in auto)
  then show ?case using Cons.IH [of st1] Cons.prems(2) s(2) e by simp
qed simp

lemma tree_parse_sound:
  assumes "tree_parse reader text = Inr t" and "well_read text 0 (fst (reader text))"
  shows "tree_sound text t"
proof -
  obtain es failure where r: "reader text = (es, failure)" by (cases "reader text")
  obtain st where st: "parse_events text es \<lparr>p_nodes = [], p_stack = [], p_root = None, p_at = 0\<rparr> = Inr st"
    and fin: "p_stack st = []" "p_root st = Some (root t)" "nodes t = p_nodes st"
    using assms(1) r by (auto simp: tree_parse_def split: sum.splits option.splits if_splits)
  have "parse_ok text st"
    by (rule parse_events_ok [OF _ _ st]) (use assms(2) r in \<open>auto simp: parse_ok_def\<close>)
  moreover have "end_at st = (\<lambda>i. span_end (node_of t i))" "inner_at st = (\<lambda>i. inner_end (node_of t i))"
    using fin by (auto simp: end_at_def inner_at_def node_of_def)
  ultimately show ?thesis using fin
    by (auto simp: tree_sound_def parse_ok_def split: option.splits intro: order_trans)
qed

section \<open>Replacements\<close>

text \<open>By how much a place moves: what the replacements before it add and take.\<close>

definition shift :: "splice list \<Rightarrow> nat \<Rightarrow> int" where
  "shift es x = (\<Sum>e\<leftarrow>es. case e of ((a, b), w) \<Rightarrow> if b \<le> x then int (length w) - int (b - a) else 0)"

definition untouched :: "splice list \<Rightarrow> nat \<Rightarrow> nat \<Rightarrow> bool" where
  "untouched es x y \<longleftrightarrow> (\<forall>e\<in>set es. snd (fst e) \<le> x \<or> y \<le> fst (fst e))"

lemma slice_append_left: "b \<le> length s \<Longrightarrow> slice (s @ t) a b = slice s a b"
  by (simp add: slice_def)

lemma slice_append_right: "length s \<le> a \<Longrightarrow> slice (s @ t) a b = slice t (a - length s) (b - length s)"
  by (cases "length s \<le> b") (simp_all add: slice_def)

lemma slice_slice: "y \<le> b \<Longrightarrow> slice (slice text a b) (x - a) (y - a) = slice text (max x a) (max y a)"
proof -
  assume "y \<le> b"
  have "drop (x - a) (drop a text) = drop (max x a) text" by (simp add: max_def)
  moreover have "take (y - a - (x - a)) (drop (x - a) (take (b - a) (drop a text))) = take (y - a - (x - a)) (drop (x - a) (drop a text))"
    using \<open>y \<le> b\<close> by (simp add: drop_take min_def)
  moreover have "y - a - (x - a) = max y a - max x a" by auto
  ultimately show ?thesis by (simp add: slice_def)
qed

lemma splice_from_le: "splice_from text at es = Some out \<Longrightarrow> list_all (\<lambda>e. fst (fst e) \<le> snd (fst e)) es \<Longrightarrow>
    at \<le> length text \<and> (\<forall>e\<in>set es. at \<le> fst (fst e))"
proof (induction es arbitrary: at out)
  case (Cons e es)
  obtain a b w where e: "e = ((a, b), w)" by (metis surj_pair)
  with Cons.prems(1) obtain rest where r: "splice_from text b es = Some rest" and le: "at \<le> a" "boundary text a"
    by (auto simp: checked_slice_def split: option.splits if_splits)
  have ab: "a \<le> b" using Cons.prems(2) e by simp
  have "a \<le> length text" using le(2) by (auto simp: boundary_def)
  then show ?case using Cons.IH [OF r] Cons.prems(2) e le(1) ab by fastforce
qed (auto simp: checked_slice_def split: if_splits)

lemma shift_none: "(\<And>f. f \<in> set es \<Longrightarrow> \<not> snd (fst f) \<le> x) \<Longrightarrow> shift es x = 0"
proof (induction es)
  case (Cons e es)
  have "shift es x = 0" using Cons by simp
  then show ?case using Cons.prems [of e] by (cases e) (auto simp: shift_def)
qed (simp add: shift_def)

lemma splice_keeps:
  assumes "splice_from text at es = Some out" and "list_all (\<lambda>e. fst (fst e) \<le> snd (fst e)) es"
    and "untouched es x y" and "at \<le> x" and "x < y" and "y \<le> length text"
  shows "0 \<le> int x - int at + shift es x \<and>
    slice out (nat (int x - int at + shift es x)) (nat (int y - int at + shift es x)) = slice text x y"
  using assms
proof (induction es arbitrary: at out)
  case Nil
  then have "out = slice text at (length text)" by (auto simp: checked_slice_def split: if_splits)
  moreover have "nat (int x - int at) = x - at" "nat (int y - int at) = y - at" using Nil by auto
  ultimately show ?case using Nil slice_slice [of y "length text" "text" "at" x] by (simp add: shift_def)
next
  case (Cons e es)
  obtain a b w where e: "e = ((a, b), w)" by (metis surj_pair)
  with Cons.prems(1) obtain rest where r: "splice_from text b es = Some rest" and le: "at \<le> a" "a \<le> length text"
      and out: "out = slice text at a @ w @ rest"
    by (auto simp: checked_slice_def boundary_def split: option.splits if_splits)
  have ab: "a \<le> b" using Cons.prems(2) e by simp
  have len: "length (slice text at a) = a - at" using le by (simp add: slice_def)
  have ok: "list_all (\<lambda>e. fst (fst e) \<le> snd (fst e)) es" "untouched es x y" using Cons.prems(2,3) by (auto simp: untouched_def)
  consider "b \<le> x" | "\<not> b \<le> x" "y \<le> a" using Cons.prems(3) e by (auto simp: untouched_def)
  then show ?case
  proof cases
    case 1
    let ?k = "int x - int b + shift es x"
    have ih: "0 \<le> ?k" "slice rest (nat ?k) (nat (int y - int b + shift es x)) = slice text x y"
      using Cons.IH [OF r ok 1 Cons.prems(5,6)] by auto
    have sh: "shift (e # es) x = int (length w) - int (b - a) + shift es x" using 1 by (simp add: shift_def e)
    have k: "int x - int at + shift (e # es) x = int (a - at + length w) + ?k"
      "int y - int at + shift (e # es) x = int (a - at + length w) + (int y - int b + shift es x)"
      using sh le(1) ab by (simp_all add: of_nat_diff)
    have y: "0 \<le> int y - int b + shift es x" using ih(1) Cons.prems(5) by simp
    have pre: "length (slice text at a @ w) = a - at + length w" by (simp add: len)
    have "slice out (nat (int (a - at + length w) + ?k)) (nat (int (a - at + length w) + (int y - int b + shift es x))) =
        slice rest (nat ?k) (nat (int y - int b + shift es x))"
      unfolding out append_assoc [symmetric]
      by (subst slice_append_right) (use ih(1) y pre in \<open>simp_all add: nat_add_distrib\<close>)
    then show ?thesis unfolding k using ih by simp
  next
    case 2
    have later: "\<not> snd (fst f) \<le> x" if "f \<in> set es" for f
    proof -
      have "b \<le> fst (fst f)" using splice_from_le [OF r ok(1)] that by blast
      moreover have "fst (fst f) \<le> snd (fst f)" using ok(1) that by (auto simp: list_all_iff)
      ultimately show ?thesis using 2(1) by simp
    qed
    then have "shift es x = 0" by (rule shift_none)
    then have "shift (e # es) x = 0" using 2(1) by (simp add: shift_def e)
    moreover have "nat (int x - int at) = x - at" "nat (int y - int at) = y - at" using Cons.prems(4,5) by auto
    moreover have "slice out (x - at) (y - at) = slice text x y"
      unfolding out using slice_append_left [of "y - at" "slice text at a" "w @ rest" "x - at"] slice_slice [of y a "text" "at" x]
        2(2) len Cons.prems(4,5) by (simp add: max_def)
    ultimately show ?thesis using Cons.prems(4) by simp
  qed
qed

lemma shift_sort: "shift (sort_key f es) x = shift es x"
  unfolding shift_def by (metis (no_types, lifting) mset_map mset_sort sum_mset_sum_list)

lemma splices_shift:
  assumes "apply_splices text es = Some (Inr out)" and "\<And>a b w. ((a, b), w) \<in> set es \<Longrightarrow> a \<le> b"
    and "untouched es x y" and "x < y" and "y \<le> length text"
  shows "0 \<le> int x + shift es x"
proof -
  from assms(1) have s: "splice_from text 0 (sort_key fst es) = Some out"
    by (auto simp: apply_splices_def Let_def split: if_splits)
  have "0 \<le> int x - int 0 + shift (sort_key fst es) x"
    using splice_keeps [OF s, of x y] assms(2-5) by (force simp: list_all_iff untouched_def)
  then show ?thesis by (simp add: shift_sort)
qed

lemma splices_keep:
  assumes "apply_splices text es = Some (Inr out)" and "\<And>a b w. ((a, b), w) \<in> set es \<Longrightarrow> a \<le> b"
    and "untouched es x y" and "x < y" and "y \<le> length text"
  shows "slice out (nat (int x + shift es x)) (nat (int y + shift es x)) = slice text x y"
proof -
  from assms(1) have s: "splice_from text 0 (sort_key fst es) = Some out"
    by (auto simp: apply_splices_def Let_def split: if_splits)
  have "slice out (nat (int x - int 0 + shift (sort_key fst es) x)) (nat (int y - int 0 + shift (sort_key fst es) x)) = slice text x y"
    using splice_keeps [OF s, of x y] assms(2-5) by (force simp: list_all_iff untouched_def)
  then show ?thesis by (simp add: shift_sort)
qed

end
