(* ===== verification/Kdenlive_Demo.thy ===== *)
theory Kdenlive_Demo
  imports Kdenlive_Edit "HOL-Library.Code_Target_Nat"
begin

text \<open>
  Small Kdenlive projects the witnesses evaluate, at one frame a second, with integers for \<open>f64\<close>.
\<close>

definition demo_floats :: "int floats" where
  "demo_floats = \<lparr>f_of = (\<lambda>i. i), f_mul = (\<lambda>a b. a * b), f_div = (\<lambda>a b. a div b), f_trunc = (\<lambda>i. i), f_round = (\<lambda>i. i),
     f_parse = parse_i64, f_seconds = dec_int, f_two = dec_int, f_audible = (\<lambda>i. i \<noteq> 0)\<rparr>"

definition demo_time :: "int \<Rightarrow> bytes" where
  "demo_time n = timecode demo_floats \<lparr>num = 1, den = 1\<rparr> n"

definition demo_library :: "(xml_event \<times> nat) list \<Rightarrow> int library" where
  "demo_library es = \<lparr>xml_events = (\<lambda>_. (es, None)), escape = (\<lambda>s. s), from_json = (\<lambda>_. None), to_json_pretty = (\<lambda>_. []), fl = demo_floats\<rparr>"

section \<open>Projects given by their elements\<close>

definition element :: "string \<Rightarrow> (bytes \<times> bytes) list \<Rightarrow> nat list \<Rightarrow> node" where
  "element s as cs = \<lparr>n_name = lit s, n_attrs = as, span_start = 0, span_end = 0, inner_start = 0, inner_end = 0, children = cs, n_text = []\<rparr>"

definition prop_is :: "string \<Rightarrow> string \<Rightarrow> node" where
  "prop_is k v = (element ''property'' [(lit ''name'', lit k)] [])\<lparr>n_text := lit v\<rparr>"

definition clip :: "int \<Rightarrow> int \<Rightarrow> node" where
  "clip a b = element ''entry'' [(lit ''producer'', lit ''c''), (lit ''in'', demo_time a), (lit ''out'', demo_time b)] []"

definition blank :: "int \<Rightarrow> node" where
  "blank n = element ''blank'' [(lit ''length'', demo_time n)] []"

definition crossfade :: "int \<Rightarrow> int \<Rightarrow> node" where
  "crossfade a b = element ''transition'' [(lit ''in'', demo_time a), (lit ''out'', demo_time b)] []"

text \<open>Elements 0 to 6 are the root, the one chain with its id and length, the bin with its entry, and the tractor of the tracks; then come the elements
  of the tracks' playlists and their crossfades.\<close>

definition project :: "nat list \<Rightarrow> nat list \<Rightarrow> nat list \<Rightarrow> node list \<Rightarrow> doc" where
  "project sound picture mixes es =
    \<lparr>doc_text = [],
     tree = \<lparr>nodes = [element ''mlt'' [] [1], element ''chain'' [(lit ''id'', lit ''c'')] [2, 3], prop_is ''kdenlive:id'' ''2'',
        prop_is ''length'' ''10'', element ''playlist'' [] [5], element ''entry'' [(lit ''producer'', lit ''c'')] [],
        element ''tractor'' [] mixes] @ es, root = 0\<rparr>,
     fps = \<lparr>num = 1, den = 1\<rparr>, width = 0, height = 0, root_dir = [], version = SUPPORTED_VERSION, kdenlive_version = [],
     bin = 4, sequence = 0, project_tractor = None, black = None,
     tracks = [\<lparr>tractor = 6, playlists = sound, t_audio = True\<rparr>, \<lparr>tractor = 0, playlists = picture, t_audio = False\<rparr>],
     main_video = 1, main_audio = 0\<rparr>"

text \<open>Two clips with a gap, picture and sound; one clip whose sound ends early; two sounds in a crossfade; two clips in a crossfade.\<close>

definition two_clips :: doc where
  "two_clips = project [7, 8] [12, 13] []
    [element ''playlist'' [] [9, 10, 11], element ''playlist'' [] [], clip 0 4, blank 2, clip 5 9,
     element ''playlist'' [] [14, 15, 16], element ''playlist'' [] [], clip 0 4, blank 2, clip 5 9]"

definition short_sound :: doc where
  "short_sound = project [7] [9] [] [element ''playlist'' [] [8], clip 0 3, element ''playlist'' [] [10], clip 0 4]"

definition two_sounds :: doc where
  "two_sounds = project [7, 8] [] [12]
    [element ''playlist'' [] [9], element ''playlist'' [] [10, 11], clip 0 4, blank 3, clip 5 9, crossfade 3 5]"

definition faded_clips :: doc where
  "faded_clips = project [7, 8] [13, 14] [12]
    [element ''playlist'' [] [9], element ''playlist'' [] [10, 11], clip 0 4, blank 3, clip 5 9, crossfade 3 5,
     element ''playlist'' [] [15], element ''playlist'' [] [16, 17], clip 0 4, blank 3, clip 5 9]"

definition demo :: "int library" where
  "demo = demo_library []"

definition demo_ids :: "nat \<Rightarrow> bytes" where
  "demo_ids n = lit ''id'' @ decimal n"

section \<open>Their clips\<close>

definition shows_clip :: "nat \<Rightarrow> nat \<Rightarrow> int \<Rightarrow> int \<Rightarrow> int \<Rightarrow> entry" where
  "shows_clip n ln s a b = \<lparr>e_node = n, lane = ln, start = s, in_frame = a, out_frame = b, chain = lit ''c'', e_bin_id = lit ''2'', filters = 0\<rparr>"

definition two_items :: "item list" where
  "two_items = [\<lparr>video = Some (shows_clip 14 0 0 0 4), audio = Some (shows_clip 9 0 0 0 4)\<rparr>,
     \<lparr>video = Some (shows_clip 16 0 7 5 9), audio = Some (shows_clip 11 0 7 5 9)\<rparr>]"

definition short_items :: "item list" where
  "short_items = [\<lparr>video = Some (shows_clip 10 0 0 0 4), audio = Some (shows_clip 8 0 0 0 3)\<rparr>]"

definition sound_items :: "item list" where
  "sound_items = [\<lparr>video = None, audio = Some (shows_clip 9 0 0 0 4)\<rparr>, \<lparr>video = None, audio = Some (shows_clip 11 1 3 5 9)\<rparr>]"

definition faded_items :: "item list" where
  "faded_items = [\<lparr>video = Some (shows_clip 15 0 0 0 4), audio = Some (shows_clip 9 0 0 0 4)\<rparr>,
     \<lparr>video = Some (shows_clip 17 1 3 5 9), audio = Some (shows_clip 11 1 3 5 9)\<rparr>]"

lemma two_clips_items: "items demo two_clips = two_items"
  by code_simp

lemma short_sound_items: "items demo short_sound = short_items"
  by code_simp

lemma two_sounds_items: "items demo two_sounds = sound_items"
  by code_simp

lemma faded_clips_items: "items demo faded_clips = faded_items"
  by code_simp

lemma demo_mixes: "item_mixes demo two_clips two_items = []" "item_mixes demo short_sound short_items = []"
  "item_mixes demo two_sounds sound_items = [(0, 1, 2)]" "item_mixes demo faded_clips faded_items = [(0, 1, 2)]"
  by code_simp+

section \<open>A project with its text\<close>

text \<open>The text an event is read from, a tag abbreviated, and the events with the positions after them.\<close>

definition event_text :: "xml_event \<Rightarrow> bytes" where
  "event_text e = (case e of Tag _ _ \<Rightarrow> lit ''<t>'' | TextEvent t \<Rightarrow> t | _ \<Rightarrow> lit ''</t>'')"

definition written :: "xml_event list \<Rightarrow> bytes" where
  "written es = concat (map event_text es)"

fun positioned :: "nat \<Rightarrow> xml_event list \<Rightarrow> (xml_event \<times> nat) list" where
  "positioned n [] = []"
| "positioned n (e # es) = (let n = n + length (event_text e) in (e, n) # positioned n es)"

definition opens :: "string \<Rightarrow> (bytes \<times> bytes) list \<Rightarrow> xml_event list \<Rightarrow> xml_event list" where
  "opens s as es = Tag (lit s) (Inr as) # es @ [EndTag]"

text \<open>One clip of picture, between a bin and a note that is none of the edit's business.\<close>

definition one_clip :: "xml_event list" where
  "one_clip = opens ''mlt'' []
    (opens ''profile'' [(lit ''frame_rate_num'', lit ''1''), (lit ''frame_rate_den'', lit ''1'')] [] @
     opens ''chain'' [(lit ''id'', lit ''c'')] [] @
     opens ''playlist'' [(lit ''id'', lit ''main_bin'')]
       (opens ''property'' [(lit ''name'', lit ''kdenlive:docproperties.version'')] [TextEvent (lit ''1.1'')] @
        opens ''property'' [(lit ''name'', lit ''kdenlive:docproperties.uuid'')] [TextEvent (lit ''s'')]) @
     opens ''playlist'' [(lit ''id'', lit ''p'')] (opens ''entry'' [(lit ''producer'', lit ''c''), (lit ''out'', lit ''4'')] []) @
     opens ''tractor'' [(lit ''id'', lit ''a'')] (opens ''track'' [(lit ''hide'', lit ''video'')] []) @
     opens ''tractor'' [(lit ''id'', lit ''v'')] (opens ''track'' [(lit ''producer'', lit ''p'')] []) @
     opens ''note'' [] [] @
     opens ''tractor'' [(lit ''id'', lit ''s'')] (opens ''track'' [(lit ''producer'', lit ''a'')] [] @ opens ''track'' [(lit ''producer'', lit ''v'')] []))"

definition one_text :: bytes where
  "one_text = written one_clip"

definition one_library :: "int library" where
  "one_library = demo_library (positioned 0 one_clip)"

text \<open>What it parses to.\<close>

definition spanning :: "string \<Rightarrow> (bytes \<times> bytes) list \<Rightarrow> nat \<Rightarrow> nat \<Rightarrow> nat list \<Rightarrow> node" where
  "spanning s as a b cs = \<lparr>n_name = lit s, n_attrs = as, span_start = a, span_end = b, inner_start = a + 3, inner_end = b - 4, children = cs, n_text = []\<rparr>"

definition one_doc :: doc where
  "one_doc = \<lparr>doc_text = one_text,
     tree = \<lparr>nodes = [spanning ''mlt'' [] 0 116 [1, 2, 3, 6, 8, 10, 12, 13],
       spanning ''profile'' [(lit ''frame_rate_num'', lit ''1''), (lit ''frame_rate_den'', lit ''1'')] 3 10 [],
       spanning ''chain'' [(lit ''id'', lit ''c'')] 10 17 [],
       spanning ''playlist'' [(lit ''id'', lit ''main_bin'')] 17 42 [4, 5],
       (spanning ''property'' [(lit ''name'', lit ''kdenlive:docproperties.version'')] 20 30 [])\<lparr>n_text := lit ''1.1''\<rparr>,
       (spanning ''property'' [(lit ''name'', lit ''kdenlive:docproperties.uuid'')] 30 38 [])\<lparr>n_text := lit ''s''\<rparr>,
       spanning ''playlist'' [(lit ''id'', lit ''p'')] 42 56 [7],
       spanning ''entry'' [(lit ''producer'', lit ''c''), (lit ''out'', lit ''4'')] 45 52 [],
       spanning ''tractor'' [(lit ''id'', lit ''a'')] 56 70 [9],
       spanning ''track'' [(lit ''hide'', lit ''video'')] 59 66 [],
       spanning ''tractor'' [(lit ''id'', lit ''v'')] 70 84 [11],
       spanning ''track'' [(lit ''producer'', lit ''p'')] 73 80 [],
       spanning ''note'' [] 84 91 [],
       spanning ''tractor'' [(lit ''id'', lit ''s'')] 91 112 [14, 15],
       spanning ''track'' [(lit ''producer'', lit ''a'')] 94 101 [],
       spanning ''track'' [(lit ''producer'', lit ''v'')] 101 108 []], root = 0\<rparr>,
     fps = \<lparr>num = 1, den = 1\<rparr>, width = 0, height = 0, root_dir = [], version = lit ''1.1'', kdenlive_version = [],
     bin = 3, sequence = 13, project_tractor = None, black = None,
     tracks = [\<lparr>tractor = 8, playlists = [], t_audio = True\<rparr>, \<lparr>tractor = 10, playlists = [6], t_audio = False\<rparr>],
     main_video = 1, main_audio = 0\<rparr>"

lemma one_parsed: "doc_parse one_library one_text = Inr one_doc"
  by code_simp

end
