(* ===== verification/Kdenlive_Layout_Props.thy ===== *)
theory Kdenlive_Layout_Props
  imports Kdenlive_Layout Kdenlive_Demo
begin

text \<open>
  Properties of the layout: where clips end up, which playlists they go on, what the user's own crossfades
  keep, and what is refused.
\<close>

section \<open>Placing\<close>

abbreviation prev_of :: "'f laid option \<Rightarrow> 'f laid list \<Rightarrow> nat \<Rightarrow> 'f laid option" where
  "prev_of prev ls j \<equiv> (if j = 0 then prev else Some (ls ! (j - 1)))"

lemma place_all_nth:
  "place_all d its ms prev k ps = Inr (ls, notes) \<Longrightarrow> length ls = length ps \<and>
     (\<forall>j<length ps. \<exists>n. set n \<subseteq> set notes \<and> place_one d its ms (prev_of prev ls j) (k + j) (ps ! j) = Inr (ls ! j, n))"
proof (induction ps arbitrary: prev k ls "notes")
  case (Cons p ps)
  then obtain l n ls' n' where one: "place_one d its ms prev k p = Inr (l, n)"
      and rest: "place_all d its ms (Some l) (Suc k) ps = Inr (ls', n')" and ls: "ls = l # ls'" "notes = n @ n'"
    by (auto split: sum.splits)
  note ih = Cons.IH [OF rest]
  have "\<exists>m. set m \<subseteq> set notes \<and> place_one d its ms (prev_of prev ls j) (k + j) ((p # ps) ! j) = Inr (ls ! j, m)"
    if j: "j < length (p # ps)" for j
  proof (cases j)
    case 0
    then show ?thesis using one ls by auto
  next
    case (Suc i)
    then have "i < length ps" using j by simp
    then obtain m where m: "set m \<subseteq> set n'" "place_one d its ms (prev_of (Some l) ls' i) (Suc k + i) (ps ! i) = Inr (ls' ! i, m)"
      using ih by blast
    have "prev_of (Some l) ls' i = prev_of prev ls j" using Suc ls by (auto simp: nth_Cons')
    then show ?thesis using m Suc ls by (intro exI [of _ m]) auto
  qed
  then show ?case using ih ls by simp
qed simp

lemma place_oneD:
  assumes "place_one d its ms prev k p = Inr (l, n)"
  shows "l_source l = p_source p" "0 \<le> l_in l" "l_in l \<le> l_out l"
    and "l_start l = start_of its ms prev (p_source p) (mix_in l)"
    and "mix_in l = fst (clamp_mix prev (p_mix p) (joined ms prev (p_source p)) (laid_len l))"
    and "gain_db l = p_gain p" "limiter l = p_limiter p"
    and "case defaults d its (p_source p) of (din, dout, max_out, bid, vl, al) \<Rightarrow>
      l_in l = max (case p_in p of Some x \<Rightarrow> x | None \<Rightarrow> din) 0 \<and>
      l_out l = (let out = (case p_out p of Some x \<Rightarrow> x | None \<Rightarrow> dout) in case max_out of Some m \<Rightarrow> min out m | None \<Rightarrow> out) \<and>
      video_lane l = vl \<and> audio_lane l = al"
  using assms by (auto simp: place_one_def Let_def laid_len_def split: prod.splits if_splits)

lemma clamp_mix_Some:
  assumes "fst (clamp_mix prev want user len) = Some f"
  obtains p where "prev = Some p" "0 < f" "2 * f \<le> laid_len p" "2 * f \<le> len" "\<not> user"
  using assms by (fastforce simp: clamp_mix_def Let_def split: option.splits if_splits)

text \<open>Where a clip starts after the one before.\<close>

lemma start_after:
  shows "start_of its ms (Some p) s (Some f) = laid_end p - f"
    and "\<not> joined ms (Some p) s \<Longrightarrow> laid_end p \<le> start_of its ms (Some p) s None"
proof -
  assume no: "\<not> joined ms (Some p) s"
  have "List.find (\<lambda>(a, b, _). Some a = prev_index \<and> b = i) ms = None"
    if "s = Existing i" "prev_index = (case l_source p of Existing pi \<Rightarrow> Some pi | _ \<Rightarrow> None)" for i prev_index
    using no that by (auto simp: joined_def find_None_iff list_ex_iff split: source.splits)
  then show "laid_end p \<le> start_of its ms (Some p) s None" by (auto simp: start_of_def Let_def split: source.splits)
qed (simp add: start_of_def)

section \<open>Lanes\<close>

lemma set_lanes_same:
  "length (set_lanes ms prev ls) = length ls \<and> (\<forall>j<length ls. \<exists>v a. set_lanes ms prev ls ! j = (ls ! j)\<lparr>video_lane := v, audio_lane := a\<rparr>)"
proof (induction ls arbitrary: prev)
  case (Cons l ls)
  let ?l = "if user_joined ms (l_source l) then l
       else (let n = (case (prev, mix_in l) of (Some p, Some _) \<Rightarrow> 1 - min (video_lane p) 1 | _ \<Rightarrow> 0)
             in l\<lparr>video_lane := n, audio_lane := n\<rparr>)"
  have e: "set_lanes ms prev (l # ls) = ?l # set_lanes ms (Some ?l) ls" by (simp add: Let_def)
  have "\<exists>v a. ?l = l\<lparr>video_lane := v, audio_lane := a\<rparr>"
  proof (cases "user_joined ms (l_source l)")
    case True
    have "l = l\<lparr>video_lane := video_lane l, audio_lane := audio_lane l\<rparr>" by simp
    then show ?thesis using True by metis
  qed (auto simp: Let_def)
  then have "\<exists>v a. (?l # set_lanes ms (Some ?l) ls) ! j = ((l # ls) ! j)\<lparr>video_lane := v, audio_lane := a\<rparr>" if "j < length (l # ls)" for j
    using Cons.IH [of "Some ?l"] that by (cases j) auto
  then show ?case using e Cons.IH [of "Some ?l"] by (auto simp del: set_lanes.simps)
qed simp

lemma first_overlap_None:
  "list_all (\<lambda>(s, e, k). s < e) xs \<Longrightarrow> first_overlap xs = None \<longleftrightarrow> sorted_wrt (\<lambda>x y. fst (snd x) \<le> fst y) xs"
proof (induction xs rule: first_overlap.induct)
  case (1 s e k s' e' k' rest)
  show ?case
  proof
    assume n: "first_overlap ((s, e, k) # (s', e', k') # rest) = None"
    then have le: "e \<le> s'" and n': "first_overlap ((s', e', k') # rest) = None" by (auto split: if_splits)
    then have w: "sorted_wrt (\<lambda>x y. fst (snd x) \<le> fst y) ((s', e', k') # rest)" using 1 by auto
    have "e \<le> e'" using le 1(2) by auto
    then show "sorted_wrt (\<lambda>x y. fst (snd x) \<le> fst y) ((s, e, k) # (s', e', k') # rest)" using w le by auto
  next
    assume "sorted_wrt (\<lambda>x y. fst (snd x) \<le> fst y) ((s, e, k) # (s', e', k') # rest)"
    then show "first_overlap ((s, e, k) # (s', e', k') # rest) = None" using 1 by auto
  qed
qed auto

lemma on_lane_mem:
  "x \<in> set (on_lane n ls) \<longleftrightarrow> (\<exists>k<length ls. video_lane (ls ! k) = n \<and> x = (l_start (ls ! k), laid_end (ls ! k), k))"
  by (force simp: on_lane_def in_set_enumerate_eq image_iff)

lemma distinct_on_lane: "distinct (on_lane n ls)"
  unfolding on_lane_def distinct_sort
  by (auto simp: distinct_map inj_on_def in_set_enumerate_eq intro!: distinct_filter)

text \<open>Clips of one playlist stay apart.\<close>

definition apart :: "'f laid \<Rightarrow> 'f laid \<Rightarrow> bool" where
  "apart l m \<longleftrightarrow> laid_end l \<le> l_start m \<or> laid_end m \<le> l_start l"

lemma on_lane_apart:
  assumes "first_overlap (on_lane n ls) = None" and "\<And>l. l \<in> set ls \<Longrightarrow> l_start l < laid_end l"
    and "i \<noteq> j" "i < length ls" "j < length ls" "video_lane (ls ! i) = n" "video_lane (ls ! j) = n"
  shows "apart (ls ! i) (ls ! j)"
proof -
  let ?x = "\<lambda>k. (l_start (ls ! k), laid_end (ls ! k), k)"
  have "list_all (\<lambda>(s, e, k). s < e) (on_lane n ls)" using assms(2) by (auto simp: list_all_iff on_lane_mem)
  then have w: "sorted_wrt (\<lambda>x y. fst (snd x) \<le> fst y) (on_lane n ls)" using assms(1) first_overlap_None by blast
  have m: "?x i \<in> set (on_lane n ls)" "?x j \<in> set (on_lane n ls)" using assms by (auto simp: on_lane_mem)
  then obtain a b where ab: "a < length (on_lane n ls)" "b < length (on_lane n ls)" "on_lane n ls ! a = ?x i" "on_lane n ls ! b = ?x j"
    by (metis in_set_conv_nth)
  then have "a \<noteq> b" using assms(3) by auto
  then consider "a < b" | "b < a" by linarith
  then show ?thesis
    using w ab by cases (fastforce simp: sorted_wrt_iff_nth_less apart_def)+
qed

lemma apart_on_lane:
  assumes "\<And>l. l \<in> set ls \<Longrightarrow> l_start l < laid_end l"
    and "\<And>i j. i < j \<Longrightarrow> j < length ls \<Longrightarrow> video_lane (ls ! i) = n \<Longrightarrow> video_lane (ls ! j) = n \<Longrightarrow> apart (ls ! i) (ls ! j)"
  shows "first_overlap (on_lane n ls) = None"
proof -
  have all: "list_all (\<lambda>(s, e, k). s < e) (on_lane n ls)" using assms(1) by (auto simp: list_all_iff on_lane_mem)
  have "fst (snd (on_lane n ls ! a)) \<le> fst (on_lane n ls ! b)" if ab: "a < b" "b < length (on_lane n ls)" for a b
  proof -
    obtain i where i: "i < length ls" "video_lane (ls ! i) = n" "on_lane n ls ! a = (l_start (ls ! i), laid_end (ls ! i), i)"
      using on_lane_mem [of "on_lane n ls ! a" n ls] ab by auto
    obtain j where j: "j < length ls" "video_lane (ls ! j) = n" "on_lane n ls ! b = (l_start (ls ! j), laid_end (ls ! j), j)"
      using on_lane_mem [of "on_lane n ls ! b" n ls] ab by auto
    have "i \<noteq> j" using distinct_on_lane [of n ls] ab i(3) j(3) by (metis (no_types, lifting) less_trans nat_neq_iff nth_eq_iff_index_eq)
    then have ap: "apart (ls ! i) (ls ! j)" using assms(2) i j by (metis apart_def linorder_neqE_nat)
    have "sorted (on_lane n ls)" by (simp add: on_lane_def)
    then have "on_lane n ls ! a \<le> on_lane n ls ! b" using ab by (simp add: sorted_nth_mono)
    then have "l_start (ls ! i) \<le> l_start (ls ! j)" using i(3) j(3) by (auto simp: less_eq_prod_def)
    then show ?thesis using ap i j assms(1) [OF nth_mem [OF j(1)]] by (auto simp: apart_def)
  qed
  then show ?thesis using first_overlap_None [OF all] by (simp add: sorted_wrt_iff_nth_less)
qed

section \<open>The layout\<close>

text \<open>A clip's lanes are all the second pass changes.\<close>

lemma lanes_irrelevant [simp]:
  "laid_len (l\<lparr>video_lane := v, audio_lane := a\<rparr>) = laid_len l"
  "laid_end (l\<lparr>video_lane := v, audio_lane := a\<rparr>) = laid_end l"
  by (simp_all add: laid_len_def laid_end_def)

lemma prev_irrelevant:
  "start_of its ms (Some (l\<lparr>video_lane := v, audio_lane := a\<rparr>)) s mx = start_of its ms (Some l) s mx"
  "clamp_mix (Some (l\<lparr>video_lane := v, audio_lane := a\<rparr>)) want user len = clamp_mix (Some l) want user len"
  "joined ms (Some (l\<lparr>video_lane := v, audio_lane := a\<rparr>)) s = joined ms (Some l) s"
proof -
  show "start_of its ms (Some (l\<lparr>video_lane := v, audio_lane := a\<rparr>)) s mx = start_of its ms (Some l) s mx"
    unfolding start_of_def option.case lanes_irrelevant by (cases mx; cases s) simp_all
  show "clamp_mix (Some (l\<lparr>video_lane := v, audio_lane := a\<rparr>)) want user len = clamp_mix (Some l) want user len"
    by (cases want) (simp_all add: clamp_mix_def Let_def)
  show "joined ms (Some (l\<lparr>video_lane := v, audio_lane := a\<rparr>)) s = joined ms (Some l) s"
    by (cases s) (simp_all add: joined_def)
qed

definition shown_range :: "doc \<Rightarrow> item list \<Rightarrow> 'f placement \<Rightarrow> int \<times> int" where
  "shown_range d its p = (case defaults d its (p_source p) of (din, dout, max_out, _) \<Rightarrow>
     (max (case p_in p of Some x \<Rightarrow> x | None \<Rightarrow> din) 0,
      let out = (case p_out p of Some x \<Rightarrow> x | None \<Rightarrow> dout) in case max_out of Some m \<Rightarrow> min out m | None \<Rightarrow> out))"

lemma layoutD:
  assumes "layout lb d its wanted = Inr (ls, ns)"
  obtains ls0 where "place_all d its (item_mixes lb d its) None 0 wanted = Inr (ls0, ns)"
    and "ls = set_lanes (item_mixes lb d its) None ls0"
    and "first_overlap (on_lane 0 ls) = None" "first_overlap (on_lane 1 ls) = None"
    and "check_sources (length its) {} wanted = None" "check_joins its wanted (item_mixes lb d its) = None"
  using assms by (auto simp: layout_def Let_def assign_lanes_def split: option.splits sum.splits)

lemma layout_nth:
  assumes lay: "layout lb d its wanted = Inr (ls, ns)"
  shows "length ls = length wanted"
    and "k < length ls \<Longrightarrow> l_source (ls ! k) = p_source (wanted ! k)"
    and "k < length ls \<Longrightarrow> 0 \<le> l_in (ls ! k) \<and> l_in (ls ! k) \<le> l_out (ls ! k)"
    and "k < length ls \<Longrightarrow> l_start (ls ! k) = start_of its (item_mixes lb d its) (prev_of None ls k) (p_source (wanted ! k)) (mix_in (ls ! k))"
    and "k < length ls \<Longrightarrow> mix_in (ls ! k) = fst (clamp_mix (prev_of None ls k) (p_mix (wanted ! k))
      (joined (item_mixes lb d its) (prev_of None ls k) (p_source (wanted ! k))) (laid_len (ls ! k)))"
    and "k < length ls \<Longrightarrow> (l_in (ls ! k), l_out (ls ! k)) = shown_range d its (wanted ! k)"
proof -
  let ?ms = "item_mixes lb d its"
  obtain ls0 where pl: "place_all d its ?ms None 0 wanted = Inr (ls0, ns)" and ls: "ls = set_lanes ?ms None ls0"
    using lay by (rule layoutD)
  note nth = place_all_nth [OF pl] and same = set_lanes_same [of ?ms None ls0, folded ls]
  show len: "length ls = length wanted" using nth same by simp
  assume k: "k < length ls"
  obtain n where one: "place_one d its ?ms (prev_of None ls0 k) k (wanted ! k) = Inr (ls0 ! k, n)" using nth k len by auto
  obtain v a where va: "ls ! k = (ls0 ! k)\<lparr>video_lane := v, audio_lane := a\<rparr>" using same k by auto
  have prev: "k \<noteq> 0 \<Longrightarrow> \<exists>v a. ls ! (k - 1) = (ls0 ! (k - 1))\<lparr>video_lane := v, audio_lane := a\<rparr>" using same k by (auto dest: spec [of _ "k - 1"])
  note D = place_oneD [OF one]
  show "l_source (ls ! k) = p_source (wanted ! k)" using D(1) va by simp
  show "0 \<le> l_in (ls ! k) \<and> l_in (ls ! k) \<le> l_out (ls ! k)" using D(2,3) va by simp
  show "l_start (ls ! k) = start_of its ?ms (prev_of None ls k) (p_source (wanted ! k)) (mix_in (ls ! k))"
    using D(4) va prev by (cases "k = 0") (auto simp: prev_irrelevant)
  show "mix_in (ls ! k) = fst (clamp_mix (prev_of None ls k) (p_mix (wanted ! k))
      (joined ?ms (prev_of None ls k) (p_source (wanted ! k))) (laid_len (ls ! k)))"
    using D(5) va prev by (cases "k = 0") (auto simp: prev_irrelevant)
  show "(l_in (ls ! k), l_out (ls ! k)) = shown_range d its (wanted ! k)"
    using D(8) va by (auto simp: shown_range_def split: prod.splits)
qed

lemma laid_len_pos: "l_in l \<le> l_out l \<Longrightarrow> l_start l < laid_end l"
  by (simp add: laid_end_def laid_len_def)

lemma layout_apart:
  assumes "layout lb d its wanted = Inr (ls, ns)"
  shows "map l_source ls = map p_source wanted \<and> map (\<lambda>l. (l_in l, l_out l)) ls = map (shown_range d its) wanted \<and>
    (\<forall>l\<in>set ls. 0 \<le> l_in l \<and> l_in l \<le> l_out l) \<and>
    (\<forall>i j. i < j \<longrightarrow> j < length ls \<longrightarrow> video_lane (ls ! i) = video_lane (ls ! j) \<longrightarrow> video_lane (ls ! j) \<le> 1 \<longrightarrow> apart (ls ! i) (ls ! j)) \<and>
    (\<forall>k. Suc k < length ls \<longrightarrow> (case mix_in (ls ! Suc k) of
        Some f \<Rightarrow> 0 < f \<and> 2 * f \<le> laid_len (ls ! k) \<and> 2 * f \<le> laid_len (ls ! Suc k) \<and> l_start (ls ! Suc k) = laid_end (ls ! k) - f
      | None \<Rightarrow> laid_end (ls ! k) \<le> l_start (ls ! Suc k) \<or> joined (item_mixes lb d its) (Some (ls ! k)) (l_source (ls ! Suc k))))"
proof -
  let ?ms = "item_mixes lb d its"
  note nth = layout_nth [OF assms]
  have pos: "l_start l < laid_end l" if "l \<in> set ls" for l using that nth(3) by (metis in_set_conv_nth laid_len_pos)
  have ov: "first_overlap (on_lane 0 ls) = None" "first_overlap (on_lane 1 ls) = None" using assms by (auto elim: layoutD)
  have "apart (ls ! i) (ls ! j)" if "i < j" "j < length ls" "video_lane (ls ! i) = video_lane (ls ! j)" "video_lane (ls ! j) \<le> 1" for i j
  proof (cases "video_lane (ls ! j) = 0")
    case True
    then show ?thesis using on_lane_apart [OF ov(1) pos] that by simp
  next
    case False
    then show ?thesis using on_lane_apart [OF ov(2) pos] that by simp
  qed
  moreover have "case mix_in (ls ! Suc k) of
        Some f \<Rightarrow> 0 < f \<and> 2 * f \<le> laid_len (ls ! k) \<and> 2 * f \<le> laid_len (ls ! Suc k) \<and> l_start (ls ! Suc k) = laid_end (ls ! k) - f
      | None \<Rightarrow> laid_end (ls ! k) \<le> l_start (ls ! Suc k) \<or> joined ?ms (Some (ls ! k)) (l_source (ls ! Suc k))" if k: "Suc k < length ls" for k
  proof (cases "mix_in (ls ! Suc k)")
    case None
    then show ?thesis using start_after(2) [of ?ms "ls ! k" "p_source (wanted ! Suc k)" its] nth(2,4) [OF k] by auto
  next
    case (Some f)
    then have "fst (clamp_mix (Some (ls ! k)) (p_mix (wanted ! Suc k)) (joined ?ms (Some (ls ! k)) (p_source (wanted ! Suc k)))
      (laid_len (ls ! Suc k))) = Some f" using nth(5) [OF k] by simp
    then obtain "0 < f" "2 * f \<le> laid_len (ls ! k)" "2 * f \<le> laid_len (ls ! Suc k)" by (rule clamp_mix_Some) auto
    then show ?thesis using Some start_after(1) nth(4) [OF k] by simp
  qed
  moreover have "map l_source ls = map p_source wanted" "map (\<lambda>l. (l_in l, l_out l)) ls = map (shown_range d its) wanted"
    using nth(1,2,6) by (auto intro: nth_equalityI)
  moreover have "0 \<le> l_in l \<and> l_in l \<le> l_out l" if "l \<in> set ls" for l using that nth(3) by (metis in_set_conv_nth)
  ultimately show ?thesis by blast
qed


section \<open>What is refused\<close>

lemma set_lanes_nth:
  assumes "j < length ls"
  shows "let r = set_lanes ms prev ls in
    if user_joined ms (l_source (ls ! j)) then r ! j = ls ! j
    else video_lane (r ! j) = (case (prev_of prev r j, mix_in (ls ! j)) of (Some p, Some _) \<Rightarrow> 1 - min (video_lane p) 1 | _ \<Rightarrow> 0) \<and>
      audio_lane (r ! j) = video_lane (r ! j)"
  using assms
proof (induction ls arbitrary: prev j)
  case (Cons l ls)
  let ?l = "if user_joined ms (l_source l) then l
       else (let n = (case (prev, mix_in l) of (Some p, Some _) \<Rightarrow> 1 - min (video_lane p) 1 | _ \<Rightarrow> 0)
             in l\<lparr>video_lane := n, audio_lane := n\<rparr>)"
  have e: "set_lanes ms prev (l # ls) = ?l # set_lanes ms (Some ?l) ls" by (simp add: Let_def)
  show ?case
  proof (cases j)
    case 0
    then show ?thesis unfolding e by (cases "user_joined ms (l_source l)") (simp_all add: Let_def)
  next
    case (Suc i)
    have "prev_of prev (?l # set_lanes ms (Some ?l) ls) j = prev_of (Some ?l) (set_lanes ms (Some ?l) ls) i"
      using Suc by (cases i) simp_all
    then show ?thesis using Cons.IH [of i "Some ?l"] Cons.prems Suc unfolding e Let_def by simp
  qed
qed simp

text \<open>Starts and crossfades of a row of clips, and the lanes they take when no crossfade is the user's.\<close>

lemma row_apart:
  assumes step: "\<And>k. Suc k < length ls \<Longrightarrow> (case mix_in (ls ! Suc k) of
        Some f \<Rightarrow> 0 < f \<and> 2 * f \<le> laid_len (ls ! k) \<and> 2 * f \<le> laid_len (ls ! Suc k) \<and> l_start (ls ! Suc k) = laid_end (ls ! k) - f
      | None \<Rightarrow> laid_end (ls ! k) \<le> l_start (ls ! Suc k))"
    and pos: "\<And>k. k < length ls \<Longrightarrow> 0 < laid_len (ls ! k)"
    and lane: "\<And>k. Suc k < length ls \<Longrightarrow> mix_in (ls ! Suc k) \<noteq> None \<Longrightarrow> video_lane (ls ! Suc k) \<noteq> video_lane (ls ! k)"
    and ij: "i < j" "j < length ls" "video_lane (ls ! i) = video_lane (ls ! j)"
  shows "laid_end (ls ! i) \<le> l_start (ls ! j)"
proof -
  have up: "l_start (ls ! k) \<le> l_start (ls ! Suc k)" if "Suc k < length ls" for k
    using step [OF that] pos [of k] that by (cases "mix_in (ls ! Suc k)") (auto simp: laid_end_def)
  have mono: "l_start (ls ! a) \<le> l_start (ls ! b)" if "a \<le> b" "b < length ls" for a b
    using that
  proof (induction rule: dec_induct)
    case (step n)
    then show ?case using up [of n] by simp
  qed simp
  show ?thesis
  proof (cases "j = Suc i")
    case True
    then have "mix_in (ls ! Suc i) = None" using lane [of i] ij by (cases "mix_in (ls ! Suc i)") auto
    then show ?thesis using step [of i] ij True by simp
  next
    case False
    then have j: "Suc (Suc i) \<le> j" using ij by simp
    then have s: "Suc (Suc i) < length ls" "Suc i < length ls" using ij by simp_all
    have "laid_end (ls ! i) \<le> l_start (ls ! Suc (Suc i))"
      using step [OF s(2)] step [OF s(1)] pos [OF s(2)]
      by (cases "mix_in (ls ! Suc i)"; cases "mix_in (ls ! Suc (Suc i))") (auto simp: laid_end_def)
    then show ?thesis using mono [OF j ij(2)] by simp
  qed
qed

lemma check_sources_None:
  "check_sources n seen ps = None \<longleftrightarrow>
     (\<forall>p\<in>set ps. case p_source p of Existing i \<Rightarrow> i < n \<and> i \<notin> seen | Piece i \<Rightarrow> i < n | New _ \<Rightarrow> True) \<and>
     distinct (List.map_filter (\<lambda>p. case p_source p of Existing i \<Rightarrow> Some i | _ \<Rightarrow> None) ps)"
proof (induction ps arbitrary: seen)
  case (Cons p ps)
  have mem: "x \<in> set (List.map_filter (\<lambda>p. case p_source p of Existing i \<Rightarrow> Some i | _ \<Rightarrow> None) ps) \<longleftrightarrow> (\<exists>p\<in>set ps. p_source p = Existing x)" for x
  proof -
    have "(case s of Existing i \<Rightarrow> Some i | _ \<Rightarrow> None) = Some x \<longleftrightarrow> s = Existing x" for s by (cases s) auto
    then show ?thesis by (simp add: map_filter_mem)
  qed
  show ?case
  proof (cases "p_source p")
    case (Existing i)
    have "(\<forall>p\<in>set ps. case p_source p of Existing k \<Rightarrow> k < n \<and> k \<notin> insert i seen | Piece k \<Rightarrow> k < n | New _ \<Rightarrow> True) \<longleftrightarrow>
      (\<forall>p\<in>set ps. case p_source p of Existing k \<Rightarrow> k < n \<and> k \<notin> seen | Piece k \<Rightarrow> k < n | New _ \<Rightarrow> True) \<and>
      \<not> (\<exists>p\<in>set ps. p_source p = Existing i)"
      by (auto split: source.splits)
    then show ?thesis using Cons.IH [of "insert i seen"] Existing mem [of i] by (auto simp: List.map_filter_simps)
  next
    case (Piece i)
    then show ?thesis using Cons.IH [of seen] by (auto simp: List.map_filter_simps)
  next
    case (New m)
    then show ?thesis using Cons.IH [of seen] by (auto simp: List.map_filter_simps)
  qed
qed (simp add: List.map_filter_simps)

lemma place_all_ok:
  "(\<exists>r. place_all d its ms prev k ps = Inr r) \<longleftrightarrow> (\<forall>p\<in>set ps. fst (shown_range d its p) \<le> snd (shown_range d its p))"
proof (induction ps arbitrary: prev k)
  case (Cons p ps)
  have one: "(\<exists>l n. place_one d its ms prev k p = Inr (l, n)) \<longleftrightarrow> fst (shown_range d its p) \<le> snd (shown_range d its p)"
    by (cases "defaults d its (p_source p)") (auto simp: place_one_def shown_range_def Let_def not_less split: prod.split)
  show ?case
  proof (cases "place_one d its ms prev k p")
    case (Inl e)
    then have "\<not> fst (shown_range d its p) \<le> snd (shown_range d its p)" using one by auto
    then show ?thesis using Inl by auto
  next
    case (Inr r)
    obtain l n where r: "r = (l, n)" by (cases r)
    then have "fst (shown_range d its p) \<le> snd (shown_range d its p)" using one Inr by auto
    moreover have "(\<exists>r. place_all d its ms prev k (p # ps) = Inr r) \<longleftrightarrow> (\<exists>r. place_all d its ms (Some l) (Suc k) ps = Inr r)"
      using Inr r by (auto split: sum.split)
    ultimately show ?thesis using Cons.IH [of "Some l" "Suc k"] by simp
  qed
qed simp

lemma accepted_iff:
  assumes "item_mixes lb d its = []"
  shows "(\<exists>r. layout lb d its wanted = Inr r) \<longleftrightarrow>
    (\<forall>p\<in>set wanted. (case p_source p of Existing i \<Rightarrow> i < length its | Piece i \<Rightarrow> i < length its | New _ \<Rightarrow> True) \<and>
       fst (shown_range d its p) \<le> snd (shown_range d its p)) \<and>
    distinct (List.map_filter (\<lambda>p. case p_source p of Existing i \<Rightarrow> Some i | _ \<Rightarrow> None) wanted)"
proof -
  have "\<exists>ls'. assign_lanes [] ls = Inr ls'" if pl: "place_all d its [] None 0 wanted = Inr (ls, ns)" for ls ns
  proof -
    let ?r = "set_lanes [] None ls"
    note nth = place_all_nth [OF pl] and same = set_lanes_same [of "[]" None ls]
    have lanes: "video_lane (?r ! k) = (case (prev_of None ?r k, mix_in (ls ! k)) of (Some p, Some _) \<Rightarrow> 1 - min (video_lane p) 1 | _ \<Rightarrow> 0)"
      if "k < length ls" for k
      using set_lanes_nth [OF that, of "[]" None] by (auto simp: Let_def user_joined_def split: source.splits)
    have eqs: "mix_in (?r ! k) = mix_in (ls ! k)" "laid_len (?r ! k) = laid_len (ls ! k)" "l_start (?r ! k) = l_start (ls ! k)"
      "laid_end (?r ! k) = laid_end (ls ! k)" if "k < length ls" for k using same that by fastforce+
    have one: "\<exists>n. place_one d its [] (prev_of None ls k) k (wanted ! k) = Inr (ls ! k, n)" if "k < length ls" for k using nth that by auto
    have pos: "0 < laid_len (ls ! k)" if "k < length ls" for k using place_oneD(3) one [OF that] by (fastforce simp: laid_len_def)
    have step: "case mix_in (?r ! Suc k) of
        Some f \<Rightarrow> 0 < f \<and> 2 * f \<le> laid_len (?r ! k) \<and> 2 * f \<le> laid_len (?r ! Suc k) \<and> l_start (?r ! Suc k) = laid_end (?r ! k) - f
      | None \<Rightarrow> laid_end (?r ! k) \<le> l_start (?r ! Suc k)" if k: "Suc k < length ?r" for k
    proof -
      have k': "Suc k < length ls" "k < length ls" using k same by auto
      obtain n where n: "place_one d its [] (Some (ls ! k)) (Suc k) (wanted ! Suc k) = Inr (ls ! Suc k, n)" using one [OF k'(1)] by auto
      note D = place_oneD [OF n]
      have nj: "\<not> joined [] (Some (ls ! k)) s" for s by (auto simp: joined_def split: source.splits)
      show ?thesis
      proof (cases "mix_in (ls ! Suc k)")
        case None
        then show ?thesis using D(4) start_after(2) [OF nj] eqs [OF k'(1)] eqs [OF k'(2)] by simp
      next
        case (Some f)
        from D(5) Some have "fst (clamp_mix (Some (ls ! k)) (p_mix (wanted ! Suc k)) (joined [] (Some (ls ! k)) (p_source (wanted ! Suc k)))
            (laid_len (ls ! Suc k))) = Some f" by simp
        then obtain "0 < f" "2 * f \<le> laid_len (ls ! k)" "2 * f \<le> laid_len (ls ! Suc k)" by (rule clamp_mix_Some) auto
        then show ?thesis using D(4) Some start_after(1) eqs [OF k'(1)] eqs [OF k'(2)] by simp
      qed
    qed
    have ap: "apart (?r ! i) (?r ! j)" if "i < j" "j < length ?r" "video_lane (?r ! i) = n" "video_lane (?r ! j) = n" for i j n
    proof -
      have "laid_end (?r ! i) \<le> l_start (?r ! j)"
      proof (rule row_apart [OF step _ _ that(1,2)])
        show "0 < laid_len (?r ! k)" if "k < length ?r" for k using that same pos eqs(2) by simp
        show "video_lane (?r ! Suc k) \<noteq> video_lane (?r ! k)" if "Suc k < length ?r" "mix_in (?r ! Suc k) \<noteq> None" for k
        proof -
          have k: "Suc k < length ls" using that(1) same by simp
          have "mix_in (ls ! Suc k) \<noteq> None" using that(2) eqs(1) [OF k] by simp
          then have "video_lane (?r ! Suc k) = 1 - min (video_lane (?r ! k)) 1" using lanes [OF k] by auto
          moreover have "video_lane (?r ! k) \<le> 1" using lanes [of k] k by (auto split: option.splits)
          ultimately show ?thesis by arith
        qed
      qed (use that in simp_all)
      then show ?thesis by (simp add: apart_def)
    qed
    have "l_start l < laid_end l" if "l \<in> set ?r" for l
      using that pos eqs same by (fastforce simp: in_set_conv_nth laid_end_def)
    then have "first_overlap (on_lane n ?r) = None" for n by (rule apart_on_lane) (use ap in auto)
    then show ?thesis by (simp add: assign_lanes_def)
  qed
  then have "(\<exists>r. layout lb d its wanted = Inr r) \<longleftrightarrow> check_sources (length its) {} wanted = None \<and> (\<exists>r. place_all d its [] None 0 wanted = Inr r)"
    by (fastforce simp: layout_def assms Let_def split: option.splits sum.splits)
  then show ?thesis unfolding place_all_ok check_sources_None ball_conj_distrib empty_iff not_False_eq_True simp_thms by blast
qed

text \<open>C34.
  Without a crossfade of the user's nothing is refused for want of room: a layout fails exactly when a clip asked for is not
  on the main track, is asked for twice, or would show no frame.  The crossfades Haruspex makes always find a free playlist.\<close>
theorem refused_only_for_cause:
  assumes "item_mixes lb d its = []"
  shows "(\<exists>r. layout lb d its wanted = Inr r) \<longleftrightarrow>
    (\<forall>p\<in>set wanted. (case p_source p of Existing i \<Rightarrow> i < length its | Piece i \<Rightarrow> i < length its | New _ \<Rightarrow> True) \<and>
       fst (shown_range d its p) \<le> snd (shown_range d its p)) \<and>
    distinct (List.map_filter (\<lambda>p. case p_source p of Existing i \<Rightarrow> Some i | _ \<Rightarrow> None) wanted)"
  using assms by (rule accepted_iff)

section \<open>The user's crossfades\<close>

definition joins_ok :: "item list \<Rightarrow> joins \<Rightarrow> bool" where
  "joins_ok its ms \<longleftrightarrow> distinct (map (\<lambda>j. fst (snd j)) ms) \<and>
     (\<forall>j\<in>set ms. fst (snd j) = Suc (fst j) \<and> Suc (fst j) < length its \<and>
        snd (snd j) = max (item_end (its ! fst j) - item_start (its ! Suc (fst j))) 0)"

lemma add_join_ok: "joins_ok its ms \<Longrightarrow> joins_ok its (add_join its m ms)"
proof (cases "position (\<lambda>i. item_start i = m_in m) its")
  case (Some b)
  assume ok: "joins_ok its ms"
  have "b < length its" using position_SomeD [OF Some] by blast
  show ?thesis
  proof (cases "b = 0 \<or> list_ex (\<lambda>(_, ob, _). ob = b) ms")
    case True
    then show ?thesis using ok Some by (auto simp: add_join_def)
  next
    case False
    then have e: "add_join its m ms = ms @ [(b - 1, b, max (item_end (its ! (b - 1)) - item_start (its ! b)) 0)]"
      using Some by (simp add: add_join_def)
    have "b \<notin> (\<lambda>j. fst (snd j)) ` set ms" using False by (auto simp: list_ex_iff)
    then show ?thesis using ok False \<open>b < length its\<close> unfolding e joins_ok_def by simp
  qed
qed (simp add: add_join_def)

lemma item_mixes_ok: "joins_ok its (item_mixes lb d its)"
proof -
  have run: "joins_ok its ms \<Longrightarrow> joins_ok its (fold (add_join its) xs ms)" for xs ms
    by (induction xs arbitrary: ms) (simp_all add: add_join_ok)
  show ?thesis unfolding item_mixes_def by (rule run) (simp add: joins_ok_def)
qed

lemma item_mixD:
  assumes "(a, b, f) \<in> set (item_mixes lb d its)"
  shows "b = Suc a" "Suc a < length its" "f = max (item_end (its ! a) - item_start (its ! Suc a)) 0"
  using bspec [OF conjunct2 [OF item_mixes_ok [unfolded joins_ok_def]] assms] by simp_all

lemma find_join:
  assumes "(a, b, f) \<in> set (item_mixes lb d its)"
  shows "List.find (\<lambda>(x, y, _). Some x = Some a \<and> y = b) (item_mixes lb d its) = Some (a, b, f)"
proof (cases "List.find (\<lambda>(x, y, _). Some x = Some a \<and> y = b) (item_mixes lb d its)")
  case None
  then have "\<not> (case (a, b, f) of (x, y, _) \<Rightarrow> Some x = Some a \<and> y = b)" using assms unfolding find_None_iff by blast
  then show ?thesis by simp
next
  case (Some r)
  note r = find_SomeD [OF Some]
  obtain x y g where xy: "r = (x, y, g)" by (cases r)
  have "x = a \<and> y = b" using conjunct2 [OF r] unfolding xy case_prod_conv option.inject .
  then have g: "r = (a, b, g)" unfolding xy by blast
  have m: "(a, b, g) \<in> set (item_mixes lb d its)" using conjunct1 [OF r] unfolding g .
  have "g = f" unfolding item_mixD(3) [OF assms] item_mixD(3) [OF m] by (rule refl)
  then show ?thesis using Some g by simp
qed

lemma check_joins_None: "check_joins its wanted ms = None \<longleftrightarrow> (\<forall>(a, b, f)\<in>set ms. join_kept its wanted a b)"
proof (induction ms)
  case (Cons j ms)
  obtain a b f where j: "j = (a, b, f)" by (cases j)
  show ?case using Cons.IH unfolding j by (cases "join_kept its wanted a b") simp_all
qed simp

lemma joined_keeps:
  assumes lay: "layout lb d its wanted = Inr (ls, ns)" and k: "Suc k < length ls"
    and src: "p_source (wanted ! k) = Existing a" "p_source (wanted ! Suc k) = Existing b"
    and mem: "(a, b, f) \<in> set (item_mixes lb d its)"
  shows "mix_in (ls ! Suc k) = None" "l_start (ls ! Suc k) = laid_end (ls ! k) - f"
proof -
  note nth = layout_nth [OF lay]
  have s: "l_source (ls ! k) = Existing a" using nth(2) [of k] k src by simp
  then have j: "joined (item_mixes lb d its) (Some (ls ! k)) (Existing b)" using mem by (auto simp: joined_def list_ex_iff)
  then show m: "mix_in (ls ! Suc k) = None" using nth(5) [OF k] src by (simp add: clamp_mix_def split: option.splits)
  show "l_start (ls ! Suc k) = laid_end (ls ! k) - f"
    using nth(4) [OF k] src m s find_join [OF mem] by (simp add: start_of_def)
qed

lemma user_lanes:
  assumes lay: "layout lb d its wanted = Inr (ls, ns)" and k: "k < length ls"
    and src: "p_source (wanted ! k) = Existing i" and user: "user_joined (item_mixes lb d its) (Existing i)"
  shows "video_lane (ls ! k) = (case video (its ! i) of Some v \<Rightarrow> lane v | None \<Rightarrow> 0) \<and>
    audio_lane (ls ! k) = (case audio (its ! i) of Some a \<Rightarrow> lane a | None \<Rightarrow> 0)"
proof -
  let ?ms = "item_mixes lb d its"
  obtain ls0 where pl: "place_all d its ?ms None 0 wanted = Inr (ls0, ns)" and ls: "ls = set_lanes ?ms None ls0"
    using lay by (rule layoutD)
  have k0: "k < length ls0" "k < length wanted" using k place_all_nth [OF pl] set_lanes_same [of ?ms None ls0] ls by simp_all
  obtain n where one: "place_one d its ?ms (prev_of None ls0 k) k (wanted ! k) = Inr (ls0 ! k, n)" using place_all_nth [OF pl] k0 by auto
  note D = place_oneD [OF one]
  have "ls ! k = ls0 ! k" using set_lanes_nth [OF k0(1), of ?ms None] user D(1) src ls by (simp add: Let_def)
  then show ?thesis using D(8) src by (simp add: defaults_def Let_def)
qed

lemma accepted_sources:
  assumes "item_mixes lb d its = []" and "layout lb d its wanted = Inr (ls, ns)" and "p \<in> set wanted"
  shows "case p_source p of Existing i \<Rightarrow> i < length its | Piece i \<Rightarrow> i < length its | New _ \<Rightarrow> True"
  using accepted_iff [OF assms(1), THEN iffD1, of wanted] assms(2,3) by blast

lemma join_survives:
  assumes "layout lb d its wanted = Inr (ls, ns)" and "(a, b, f) \<in> set (item_mixes lb d its)"
  shows "\<exists>k. Suc k < length ls \<and> l_source (ls ! k) = Existing a \<and> l_source (ls ! Suc k) = Existing b \<and>
    laid_end (ls ! k) - l_start (ls ! Suc k) = max (item_end (its ! a) - item_start (its ! b)) 0 \<and> mix_in (ls ! Suc k) = None \<and>
    \<not> trimmed (p_out (wanted ! k)) (out_frame (any_entry (its ! a))) \<and> \<not> trimmed (p_in (wanted ! Suc k)) (in_frame (any_entry (its ! b))) \<and>
    video_lane (ls ! k) = (case video (its ! a) of Some v \<Rightarrow> lane v | None \<Rightarrow> 0) \<and>
    video_lane (ls ! Suc k) = (case video (its ! b) of Some v \<Rightarrow> lane v | None \<Rightarrow> 0)"
proof -
  note nth = layout_nth [OF assms(1)] and jn = item_mixD [OF assms(2)]
  have "join_kept its wanted a b" using assms check_joins_None by (fastforce elim: layoutD)
  then obtain k where k: "position (\<lambda>p. p_source p = Existing a) wanted = Some k" "position (\<lambda>p. p_source p = Existing b) wanted = Some (Suc k)"
    and t: "\<not> trimmed (p_out (wanted ! k)) (out_frame (any_entry (its ! a)))" "\<not> trimmed (p_in (wanted ! Suc k)) (in_frame (any_entry (its ! b)))"
    by (auto simp: join_kept_def split: option.splits)
  have s: "p_source (wanted ! k) = Existing a" "p_source (wanted ! Suc k) = Existing b" and len: "Suc k < length ls"
    using position_SomeD [OF k(1)] position_SomeD [OF k(2)] nth(1) by auto
  have u: "user_joined (item_mixes lb d its) (Existing a)" "user_joined (item_mixes lb d its) (Existing b)"
    using assms(2) by (auto simp: user_joined_def list_ex_iff)
  show ?thesis
    using joined_keeps [OF assms(1) len s assms(2)] nth(2) [of k] nth(2) [OF len] s t len jn
      user_lanes [OF assms(1) _ s(1) u(1)] user_lanes [OF assms(1) len s(2) u(2)]
    by (intro exI [of _ k]) simp
qed


text \<open>What an item shows is within its media.\<close>

definition within_media :: "doc \<Rightarrow> item \<Rightarrow> bool" where
  "within_media d it \<longleftrightarrow> 0 \<le> in_frame (any_entry it) \<and> in_frame (any_entry it) \<le> out_frame (any_entry it) \<and>
     (case bin_length d it of Some l \<Rightarrow> out_frame (any_entry it) < l | None \<Rightarrow> True) \<and> item_end it = entry_end (any_entry it)"

lemma shown_untrimmed:
  assumes "within_media d (its ! i)" and "p_source p = Existing i" "p_in p = None" "p_out p = None"
  shows "shown_range d its p = (in_frame (any_entry (its ! i)), out_frame (any_entry (its ! i)))"
  using assms by (auto simp: shown_range_def defaults_def within_media_def Let_def split: option.splits)

lemma laid_len_untrimmed:
  assumes "layout lb d its wanted = Inr (ls, ns)" and "k < length ls" and "within_media d (its ! i)"
    and "p_source (wanted ! k) = Existing i" "p_in (wanted ! k) = None" "p_out (wanted ! k) = None"
  shows "laid_len (ls ! k) = item_end (its ! i) - item_start (its ! i)"
proof -
  have "(l_in (ls ! k), l_out (ls ! k)) = (in_frame (any_entry (its ! i)), out_frame (any_entry (its ! i)))"
    using layout_nth(6) [OF assms(1,2)] shown_untrimmed [OF assms(3-6)] by simp
  then show ?thesis using assms(3) by (simp add: laid_len_def within_media_def entry_end_def entry_len_def item_start_def)
qed

text \<open>Two clips that have sound only, joined by a crossfade made in Kdenlive, block every edit that leaves them as they are, even one
  that changes nothing: the layout looks at picture lanes alone, takes both clips to be on the first playlist and refuses them as overlapping.\<close>
theorem sound_crossfade_blocks_edits:
  assumes "(a, b, f) \<in> set (item_mixes lb d its)" and "0 < f" and "item_start (its ! a) \<le> item_start (its ! b)"
    and "video (its ! a) = None" "video (its ! b) = None" and "within_media d (its ! a)" "within_media d (its ! b)"
    and "\<And>p. p \<in> set wanted \<Longrightarrow> p_source p = Existing a \<or> p_source p = Existing b \<Longrightarrow> p_in p = None \<and> p_out p = None"
  shows "\<exists>e. layout lb d its wanted = Inl e"
proof (rule ccontr)
  assume "\<not> ?thesis"
  then obtain ls ns where lay: "layout lb d its wanted = Inr (ls, ns)" by (cases "layout lb d its wanted") auto
  note jn = item_mixD [OF assms(1)]
  from join_survives [OF lay assms(1)] obtain k where
    k: "Suc k < length ls" and src: "l_source (ls ! k) = Existing a" "l_source (ls ! Suc k) = Existing b"
    and over: "laid_end (ls ! k) - l_start (ls ! Suc k) = max (item_end (its ! a) - item_start (its ! b)) 0"
    and lanes: "video_lane (ls ! k) = 0" "video_lane (ls ! Suc k) = 0"
    using assms(4,5) by auto
  note nth = layout_nth [OF lay]
  have p: "p_source (wanted ! k) = Existing a" "p_source (wanted ! Suc k) = Existing b" using nth(2) [of k] nth(2) [OF k] k src by simp_all
  have mem: "wanted ! k \<in> set wanted" "wanted ! Suc k \<in> set wanted" using k nth(1) by simp_all
  have len: "laid_len (ls ! k) = item_end (its ! a) - item_start (its ! a)"
    by (rule laid_len_untrimmed [OF lay _ assms(6) p(1)]) (use k assms(8) [OF mem(1)] p in auto)
  have pos: "0 < laid_len (ls ! Suc k)" using nth(3) [OF k] by (simp add: laid_len_def)
  have "apart (ls ! k) (ls ! Suc k)" using layout_apart [OF lay] k lanes by (metis lessI zero_le_one)
  then show False using over len pos assms(2,3) jn by (auto simp: apart_def laid_end_def)
qed

text \<open>A timeline as Kdenlive and Haruspex leave it: clips overlap the one before only in a crossfade.\<close>

definition tidy :: "'f library \<Rightarrow> doc \<Rightarrow> bool" where
  "tidy lb d \<longleftrightarrow>
    (let its = items lb d; starts = map m_in (filter ours (mixes_of lb d (main_video d) @ mixes_of lb d (main_audio d))) in
     (\<forall>it\<in>set its. within_media d it) \<and>
     (\<forall>i. Suc i < length its \<longrightarrow>
        (let over = item_end (its ! i) - item_start (its ! Suc i) in
         if Suc i \<in> set (map (\<lambda>(a, b, f). b) (item_mixes lb d its)) then 0 \<le> over
         else over \<le> 0 \<or> (item_start (its ! Suc i) \<in> set starts \<and> 2 * over \<le> item_end (its ! i) - item_start (its ! i) \<and>
            2 * over \<le> item_end (its ! Suc i) - item_start (its ! Suc i)))))"

lemma current_nth:
  assumes "i < length (items lb d)"
  shows "p_source (current lb d ! i) = Existing i" "p_in (current lb d ! i) = None" "p_out (current lb d ! i) = None"
    and "p_mix (current lb d ! i) = (if 0 < i \<and> item_start (items lb d ! i) \<in> set (map m_in (filter ours (mixes_of lb d (main_video d) @ mixes_of lb d (main_audio d))))
      \<and> item_start (items lb d ! i) < item_end (items lb d ! (i - 1)) then Some (item_end (items lb d ! (i - 1)) - item_start (items lb d ! i)) else None)"
  using assms by (auto simp: current_def placement_of_def Let_def)

lemma length_current: "length (current lb d) = length (items lb d)"
  by (simp add: current_def Let_def)

text \<open>What a tidy timeline says of one clip and of two neighbours.\<close>

definition neighbours_fit :: "'f library \<Rightarrow> doc \<Rightarrow> nat \<Rightarrow> bool" where
  "neighbours_fit lb d i \<longleftrightarrow>
    (let its = items lb d; starts = map m_in (filter ours (mixes_of lb d (main_video d) @ mixes_of lb d (main_audio d))) in
     if Suc i \<in> set (map (\<lambda>(a, b, f). b) (item_mixes lb d its)) then item_start (its ! Suc i) \<le> item_end (its ! i)
     else item_end (its ! i) \<le> item_start (its ! Suc i) \<or> (item_start (its ! Suc i) \<in> set starts \<and>
        2 * (item_end (its ! i) - item_start (its ! Suc i)) \<le> item_end (its ! i) - item_start (its ! i) \<and>
        2 * (item_end (its ! i) - item_start (its ! Suc i)) \<le> item_end (its ! Suc i) - item_start (its ! Suc i)))"

lemma tidyD:
  assumes "tidy lb d"
  shows "i < length (items lb d) \<Longrightarrow> within_media d (items lb d ! i)"
    and "Suc i < length (items lb d) \<Longrightarrow> neighbours_fit lb d i"
  using assms by (auto simp: tidy_def neighbours_fit_def Let_def split: if_splits)

lemma current_len:
  assumes "tidy lb d" and "layout lb d (items lb d) (current lb d) = Inr (ls, ns)" and "i < length (items lb d)"
  shows "laid_len (ls ! i) = item_end (items lb d ! i) - item_start (items lb d ! i)"
  using laid_len_untrimmed [OF assms(2) _ tidyD(1) [OF assms(1,3)]] current_nth [OF assms(3)] assms(3) layout_nth(1) [OF assms(2)]
  by (simp add: length_current)

text \<open>A clip that follows one that stayed stays.\<close>

lemma current_next_start:
  assumes t: "tidy lb d" and lay: "layout lb d (items lb d) (current lb d) = Inr (ls, ns)" and i: "Suc i < length (items lb d)"
    and before: "laid_end (ls ! i) = item_end (items lb d ! i)"
  shows "l_start (ls ! Suc i) = item_start (items lb d ! Suc i)"
proof -
  let ?its = "items lb d" and ?w = "current lb d" and ?ms = "item_mixes lb d (items lb d)"
  note nth = layout_nth [OF lay] and fit = tidyD(2) [OF t i] and len = current_len [OF t lay]
  have k: "Suc i < length ls" "i < length ls" using i nth(1) by (simp_all add: length_current)
  have psrc: "p_source (?w ! i) = Existing i" "p_source (?w ! Suc i) = Existing (Suc i)" using current_nth(1) [of i lb d] current_nth(1) [OF i] i by simp_all
  have src: "l_source (ls ! i) = Existing i" using nth(2) [OF k(2)] psrc by simp
  show ?thesis
  proof (cases "Suc i \<in> set (map (\<lambda>(a, b, f). b) ?ms)")
    case True
    then obtain a f where m: "(a, Suc i, f) \<in> set ?ms" by auto
    then have "a = i" "f = max (item_end (?its ! i) - item_start (?its ! Suc i)) 0" using item_mixD [OF m] by simp_all
    then show ?thesis using joined_keeps(2) [OF lay k(1) psrc] m fit True before by (auto simp: neighbours_fit_def Let_def)
  next
    case False
    have nj: "\<not> joined ?ms (Some (ls ! i)) (Existing (Suc i))"
      using False src by (force simp: joined_def list_ex_iff image_iff)
    have nf: "List.find (\<lambda>(a, b, _). Some a = Some i \<and> b = Suc i) ?ms = None"
      using False by (force simp: find_None_iff image_iff)
    have mix: "mix_in (ls ! Suc i) = fst (clamp_mix (Some (ls ! i)) (p_mix (?w ! Suc i)) False (laid_len (ls ! Suc i)))"
      and st: "l_start (ls ! Suc i) = start_of ?its ?ms (Some (ls ! i)) (Existing (Suc i)) (mix_in (ls ! Suc i))"
      using nth(4,5) [OF k(1)] nj psrc by simp_all
    show ?thesis
    proof (cases "item_end (?its ! i) \<le> item_start (?its ! Suc i)")
      case True
      then have "p_mix (?w ! Suc i) = None" using current_nth(4) [OF i] by simp
      then have "mix_in (ls ! Suc i) = None" using mix by (simp add: clamp_mix_def)
      then show ?thesis using st src nf before True by (simp add: start_of_def)
    next
      case over: False
      let ?o = "item_end (?its ! i) - item_start (?its ! Suc i)"
      have o: "item_start (?its ! Suc i) \<in> set (map m_in (filter ours (mixes_of lb d (main_video d) @ mixes_of lb d (main_audio d))))"
        "2 * ?o \<le> laid_len (ls ! i)" "2 * ?o \<le> laid_len (ls ! Suc i)"
        using fit False over len [of i] len [OF i] i by (auto simp: neighbours_fit_def Let_def)
      then have "p_mix (?w ! Suc i) = Some ?o" using current_nth(4) [OF i] over by simp
      moreover have "?o \<le> min (laid_len (ls ! i)) (laid_len (ls ! Suc i)) div 2" using o(2,3) by simp
      ultimately have "mix_in (ls ! Suc i) = Some ?o" using mix over by (simp add: clamp_mix_def Let_def min_def)
      then show ?thesis using st before by (simp add: start_of_def)
    qed
  qed
qed

lemma current_starts:
  assumes "tidy lb d" and lay: "layout lb d (items lb d) (current lb d) = Inr (ls, ns)" and "i < length (items lb d)"
  shows "l_start (ls ! i) = item_start (items lb d ! i)"
  using assms(3)
proof (induction i)
  case 0
  then show ?case using layout_nth(1) [OF lay] layout_nth(4) [OF lay, of 0] current_nth [OF 0] by (simp add: start_of_def length_current)
next
  case (Suc i)
  then have "laid_end (ls ! i) = item_end (items lb d ! i)" using current_len [OF assms(1,2), of i] by (simp add: laid_end_def)
  then show ?case by (rule current_next_start [OF assms(1,2) Suc.prems])
qed

lemma current_shown:
  assumes "tidy lb d" and "i < length (items lb d)"
  shows "shown_range d (items lb d) (current lb d ! i) = (in_frame (any_entry (items lb d ! i)), out_frame (any_entry (items lb d ! i)))"
  using shown_untrimmed [OF tidyD(1) [OF assms]] current_nth [OF assms(2)] by simp

lemma current_accepted:
  assumes "tidy lb d" and "item_mixes lb d (items lb d) = []"
  shows "\<exists>r. layout lb d (items lb d) (current lb d) = Inr r"
proof -
  let ?its = "items lb d" and ?w = "current lb d"
  have "fst (shown_range d ?its p) \<le> snd (shown_range d ?its p) \<and> (\<exists>i<length ?its. p_source p = Existing i)" if p: "p \<in> set ?w" for p
  proof -
    obtain i where i: "i < length ?its" "p = ?w ! i" using p by (auto simp: in_set_conv_nth length_current)
    then show ?thesis using current_shown [OF assms(1) i(1)] tidyD(1) [OF assms(1) i(1)] current_nth(1) [OF i(1)] by (auto simp: within_media_def)
  qed
  moreover have "List.map_filter (\<lambda>p. case p_source p of Existing i \<Rightarrow> Some i | _ \<Rightarrow> None) ?w = [0..<length ?its]"
  proof -
    have "List.map_filter (\<lambda>p. case p_source p of Existing i \<Rightarrow> Some i | _ \<Rightarrow> None) (map ((!) ?w) [0..<length ?its]) = map (\<lambda>i. i) [0..<length ?its]"
      by (rule map_filter_map) (simp add: current_nth(1))
    then show ?thesis by (simp add: length_current [of lb d, symmetric] map_nth)
  qed
  ultimately show ?thesis using accepted_iff [OF assms(2), of ?w] by (fastforce split: source.splits)
qed


section \<open>On small projects\<close>

definition mixed :: "int placement list" where
  "mixed = [placement_of (Existing 1), (placement_of (Existing 0))\<lparr>p_mix := Some 2\<rparr>]"

lemma mixed_layout: "case layout demo two_clips two_items mixed of Inr (ls, ns) \<Rightarrow> map l_start ls = [0, 3] | _ \<Rightarrow> False"
  by code_simp


theorem refused_only_for_cause_witness:
  "\<not> (\<exists>r. layout demo two_clips two_items [placement_of (Existing 1), placement_of (Existing 1)] = Inr r)"
  using refused_only_for_cause [OF demo_mixes(1), of "[placement_of (Existing 1), placement_of (Existing 1)]"]
  by (simp add: placement_of_def List.map_filter_simps)

lemma faded_layout: "case layout demo faded_clips faded_items [placement_of (Existing 0), placement_of (Existing 1)] of Inr _ \<Rightarrow> True | _ \<Rightarrow> False"
  by code_simp


lemma sounds_within: "within_media two_sounds (sound_items ! 0)" "within_media two_sounds (sound_items ! 1)"
  by code_simp+

theorem sound_crossfade_blocks_edits_witness: "\<exists>e. layout demo two_sounds sound_items [placement_of (Existing 0), placement_of (Existing 1)] = Inl e"
proof (rule sound_crossfade_blocks_edits [of 0 1 2, OF _ _ _ _ _ sounds_within])
  show "(0, 1, 2) \<in> set (item_mixes demo two_sounds sound_items)" by (simp add: demo_mixes)
qed (auto simp: sound_items_def shows_clip_def item_start_def any_entry_def placement_of_def)

lemma two_clips_tidy: "tidy demo two_clips"
proof -
  have "list_all (within_media two_clips) two_items" by code_simp
  moreover have "item_end (two_items ! 0) \<le> item_start (two_items ! 1)" by code_simp
  ultimately show ?thesis
    by (simp add: tidy_def two_clips_items demo_mixes list_all_iff Let_def) (simp add: two_items_def less_Suc_eq)
qed


end
