(* ===== verification/Kdenlive_Groups_Props.thy ===== *)
theory Kdenlive_Groups_Props
  imports Kdenlive_Edit "HOL-Library.Multiset" Kdenlive_Demo
begin

text \<open>
  Properties of the groups: leaves follow their clips, leaves of removed clips go, and so do groups left with
  fewer than two members; and of the pairing of picture and sound.
\<close>

section \<open>Leaves\<close>

lemma digits_decimal: "c \<in> set (decimal n) \<Longrightarrow> is_ascii_digit c"
proof (induction n rule: decimal.induct)
  case (1 n)
  then show ?case by (subst (asm) (2) decimal.simps) (auto simp: is_ascii_digit_def split: if_splits)
qed

lemma dec_int_digits: "c \<in> set (dec_int i) \<Longrightarrow> is_ascii_digit c \<or> c = 45"
  by (auto simp: dec_int_def dest: digits_decimal split: if_splits)

lemma decimal_not_Nil [simp]: "decimal n \<noteq> []"
  by (subst decimal.simps) simp

lemma hd_decimal: "is_ascii_digit (hd (decimal n))"
  by (rule digits_decimal [OF hd_in_set]) simp

lemma parse_decimal: "n \<le> limit \<Longrightarrow> parse_uint limit (decimal n) = Some n"
proof -
  assume n: "n \<le> limit"
  have "(case decimal n of c # r \<Rightarrow> if c = 43 then r else decimal n | [] \<Rightarrow> []) = decimal n"
    using hd_decimal [of n] by (cases "decimal n") (auto simp: is_ascii_digit_def)
  then show ?thesis using n by (simp add: parse_uint_def digits_value_decimal)
qed

lemma parse_dec_int: "- (2 ^ 63) \<le> i \<Longrightarrow> i < 2 ^ 63 \<Longrightarrow> parse_i64 (dec_int i) = Some i"
proof -
  assume i: "- (2 ^ 63) \<le> i" "i < 2 ^ 63"
  show ?thesis
  proof (cases "i < 0")
    case True
    then show ?thesis using i by (simp add: parse_i64_def parse_int_def dec_int_def digits_value_decimal Let_def)
  next
    case False
    have "hd (decimal (nat i)) \<noteq> 43" "hd (decimal (nat i)) \<noteq> 45" using hd_decimal [of "nat i"] by (auto simp: is_ascii_digit_def)
    then show ?thesis using False i by (simp add: parse_i64_def parse_int_def dec_int_def digits_value_decimal Let_def)
  qed
qed

lemma parse_leaf_data:
  assumes "t \<le> usize_max" "- (2 ^ 63) \<le> p" "p < 2 ^ 63"
  shows "parse_leaf (leaf_data t p rest) = Some (t, p)"
proof -
  have "58 \<notin> set (decimal t)" using digits_decimal [of 58 t] by (auto simp: is_ascii_digit_def)
  moreover have "58 \<notin> set (dec_int p)" using dec_int_digits [of 58 p] by (auto simp: is_ascii_digit_def)
  ultimately have "split_char 58 (leaf_data t p rest) = decimal t # dec_int p # split_char 58 rest"
    by (simp add: leaf_data_def split_char_append)
  then show ?thesis using assms by (simp add: parse_leaf_def parse_decimal parse_dec_int)
qed

text \<open>The place a leaf points at.\<close>

definition leaf_key :: "json \<Rightarrow> (nat \<times> int) option" where
  "leaf_key c = Option.bind (Option.bind (json_get (lit ''data'') c) as_str) parse_leaf"

lemma lit_keys [simp]: "lit ''type'' \<noteq> lit ''data''" "lit ''type'' \<noteq> lit ''children''" "lit ''data'' \<noteq> lit ''type''"
  by (simp_all add: lit_def)

lemma json_get_set: "json_get k (json_set k' v c) = (if k = k' \<and> (\<exists>kvs. c = JObject kvs) then Some v else json_get k c)"
  by (cases c) (auto simp: json_get_def json_set_def update_conv')

lemma remap_leafD:
  assumes "remap_leaf ms c = (ch, keep)" and "c' \<in> set keep"
  shows "keep = [c']" and "is_leaf c' = is_leaf c" and "\<not> ch \<Longrightarrow> c' = c"
    and "leaf_key c = Some k \<Longrightarrow> map_of ms k \<noteq> Some None"
    and "leaf_key c = Some (t, x) \<Longrightarrow> map_of ms (t, x) = Some (Some p) \<Longrightarrow> t \<le> usize_max \<Longrightarrow> - (2 ^ 63) \<le> p \<Longrightarrow> p < 2 ^ 63 \<Longrightarrow> leaf_key c' = Some (t, p)"
    and "leaf_key c = None \<or> map_of ms (the (leaf_key c)) = None \<Longrightarrow> c' = c"
proof -
  define s' where "s' = Option.bind (json_get (lit ''data'') c) as_str"
  have key: "leaf_key c = Option.bind s' parse_leaf" by (simp only: leaf_key_def s'_def)
  let ?rest = "\<lambda>s. case third_part s of Some r \<Rightarrow> r | None \<Rightarrow> lit ''-1''"
  have r: "remap_leaf ms c = (case s' of None \<Rightarrow> (False, [c]) | Some s \<Rightarrow> (case parse_leaf s of None \<Rightarrow> (False, [c])
     | Some k \<Rightarrow> (case map_of ms k of None \<Rightarrow> (False, [c]) | Some None \<Rightarrow> (True, [])
       | Some (Some p) \<Rightarrow> if leaf_data (fst k) p (?rest s) \<noteq> s then (True, [json_set (lit ''data'') (JString (leaf_data (fst k) p (?rest s))) c])
           else (False, [c]))))"
    by (simp only: remap_leaf_def s'_def Let_def)
  have obj: "\<exists>kvs. c = JObject kvs" if "s' = Some s" for s using that by (cases c) (auto simp: s'_def json_get_def)
  consider (same) "ch = False" "keep = [c]" "c' = c" "leaf_key c = None \<or> map_of ms (the (leaf_key c)) = None"
    | (kept) s t x p where "ch = False" "keep = [c]" "c' = c" "s' = Some s" "leaf_key c = Some (t, x)" "map_of ms (t, x) = Some (Some p)"
        "leaf_data t p (?rest s) = s"
    | (moved) s t x p where "s' = Some s" "leaf_key c = Some (t, x)" "map_of ms (t, x) = Some (Some p)" "ch = True" "keep = [c']"
      "c' = json_set (lit ''data'') (JString (leaf_data t p (?rest s))) c"
  proof (cases s')
    case None
    then show ?thesis using same assms r key by auto
  next
    case (Some s)
    show ?thesis
    proof (cases "parse_leaf s")
      case None
      then show ?thesis using Some same assms r key by auto
    next
      case k: (Some k)
      obtain t x where tx: "k = (t, x)" by (cases k)
      have lk: "leaf_key c = Some (t, x)" using Some k tx key by simp
      show ?thesis
      proof (cases "map_of ms k")
        case None
        then show ?thesis using Some k tx lk same assms r by auto
      next
        case mo: (Some o')
        then obtain p where p: "o' = Some p" using Some k assms r by (cases o') auto
        show ?thesis
        proof (cases "leaf_data t p (?rest s) = s")
          case True
          then show ?thesis using kept [OF _ _ _ Some lk] Some k tx mo p assms r by auto
        next
          case False
          then show ?thesis using moved [OF Some lk] Some k tx mo p assms r by auto
        qed
      qed
    qed
  qed
  note cs = this
  show "keep = [c']" using cs by cases auto
  show "is_leaf c' = is_leaf c" using cs by cases (auto simp: is_leaf_def json_get_set)
  show "\<not> ch \<Longrightarrow> c' = c" using cs by cases auto
  show "leaf_key c = Some k \<Longrightarrow> map_of ms k \<noteq> Some None" using cs by cases auto
  show "leaf_key c = None \<or> map_of ms (the (leaf_key c)) = None \<Longrightarrow> c' = c" using cs by cases auto
  assume k: "leaf_key c = Some (t, x)" "map_of ms (t, x) = Some (Some p)" and b: "t \<le> usize_max" "- (2 ^ 63) \<le> p" "p < 2 ^ 63"
  from cs show "leaf_key c' = Some (t, p)"
  proof cases
    case same
    then show ?thesis using k by auto
  next
    case (kept s t' x' p')
    then have "t' = t" "p' = p" using k by auto
    then show ?thesis using kept(3,4,7) key parse_leaf_data [OF b, of "?rest s"] by simp
  next
    case (moved s t' x' p')
    then have "t' = t" "p' = p" using k by auto
    then have "json_get (lit ''data'') c' = Some (JString (leaf_data t p (?rest s)))"
      using moved obj by (auto simp: json_get_set)
    then show ?thesis by (simp add: leaf_key_def as_str_def parse_leaf_data [OF b])
  qed
qed

section \<open>Groups\<close>

definition children_array :: "json \<Rightarrow> json list option" where
  "children_array v = Option.bind (json_get (lit ''children'') v) as_array"

lemma members_eq: "members v = (case children_array v of Some cs \<Rightarrow> length cs | None \<Rightarrow> 0)"
  by (simp add: members_def children_array_def)

text \<open>Leaves and groups below a value.\<close>

inductive leaf_in :: "json \<Rightarrow> json \<Rightarrow> bool" where
  leaf_member: "children_array v = Some cs \<Longrightarrow> c \<in> set cs \<Longrightarrow> is_leaf c \<Longrightarrow> leaf_in c v"
| leaf_below: "children_array v = Some cs \<Longrightarrow> g \<in> set cs \<Longrightarrow> \<not> is_leaf g \<Longrightarrow> leaf_in c g \<Longrightarrow> leaf_in c v"
| leaf_list: "g \<in> set gs \<Longrightarrow> leaf_in c g \<Longrightarrow> leaf_in c (JArray gs)"

inductive group_in :: "json \<Rightarrow> json \<Rightarrow> bool" where
  group_member: "children_array v = Some cs \<Longrightarrow> g \<in> set cs \<Longrightarrow> \<not> is_leaf g \<Longrightarrow> group_in g v"
| group_below: "children_array v = Some cs \<Longrightarrow> g \<in> set cs \<Longrightarrow> \<not> is_leaf g \<Longrightarrow> group_in h g \<Longrightarrow> group_in h v"
| group_top: "g \<in> set gs \<Longrightarrow> group_in g (JArray gs)"
| group_list: "g \<in> set gs \<Longrightarrow> group_in h g \<Longrightarrow> group_in h (JArray gs)"

lemma children_array_JArray [simp]: "children_array (JArray gs) = None"
  by (simp add: children_array_def json_get_def)

lemma remap_fieldsD:
  assumes "remap_fields ms kvs = (ch, kvs')"
  shows "(\<exists>cs cs'. children_array (JObject kvs) = Some cs \<and> remap_members ms cs = (ch, cs') \<and> children_array (JObject kvs') = Some cs' \<and>
      (cs' = cs \<longrightarrow> kvs' = kvs) \<and> is_leaf (JObject kvs') = is_leaf (JObject kvs)) \<or>
    (\<not> ch \<and> kvs' = kvs \<and> children_array (JObject kvs) = None)"
  using assms
proof (induction kvs arbitrary: ch kvs')
  case Nil
  then show ?case by (simp add: children_array_def json_get_def)
next
  case (Cons kv kvs)
  obtain k v where kv: "kv = (k, v)" by (cases kv)
  show ?case
  proof (cases "k = lit ''children''")
    case True
    show ?thesis
    proof (cases "\<exists>cs. v = JArray cs")
      case True
      then obtain cs where v: "v = JArray cs" by blast
      obtain c cs' where m: "remap_members ms cs = (c, cs')" by (cases "remap_members ms cs")
      then have "kvs' = (k, JArray cs') # kvs" "ch = c" using Cons.prems kv v \<open>k = lit ''children''\<close> by auto
      then show ?thesis using kv v m \<open>k = lit ''children''\<close>
        by (auto simp: children_array_def json_get_def as_array_def is_leaf_def)
    next
      case False
      then have "ch = False" "kvs' = kv # kvs" using Cons.prems kv True by (cases v; simp)+
      moreover have "children_array (JObject (kv # kvs)) = None"
        using False True kv by (cases v) (auto simp: children_array_def json_get_def as_array_def)
      ultimately show ?thesis by simp
    qed
  next
    case False
    obtain c r where r: "remap_fields ms kvs = (c, r)" by (cases "remap_fields ms kvs")
    then have e: "ch = c" "kvs' = (k, v) # r" using Cons.prems kv False by (cases v; simp)+
    have skip: "children_array (JObject ((k, v) # xs)) = children_array (JObject xs)" for xs
      using False by (simp add: children_array_def json_get_def)
    have leaf: "is_leaf (JObject ((k, v) # xs)) = is_leaf (JObject ((k, v) # ys))" if "is_leaf (JObject xs) = is_leaf (JObject ys)" for xs ys
      using that by (simp add: is_leaf_def json_get_def)
    show ?thesis unfolding e kv skip using Cons.IH [OF r] leaf [of r kvs] by blast
  qed
qed

text \<open>What remapping a value promises.\<close>

definition follows :: "moves \<Rightarrow> json \<Rightarrow> bool \<Rightarrow> json \<Rightarrow> bool" where
  "follows ms v ch v' \<longleftrightarrow> (\<not> ch \<longrightarrow> v' = v) \<and> is_leaf v' = is_leaf v \<and>
     (\<forall>c'. leaf_in c' v' \<longrightarrow> (\<exists>c. leaf_in c v \<and> c' \<in> set (snd (remap_leaf ms c)))) \<and> (\<forall>g. group_in g v' \<longrightarrow> 2 \<le> members g)"

definition members_follow :: "moves \<Rightarrow> json list \<Rightarrow> bool" where
  "members_follow ms cs \<longleftrightarrow> (\<forall>ch cs'. remap_members ms cs = (ch, cs') \<longrightarrow> (\<not> ch \<longrightarrow> cs' = cs) \<and>
     (\<forall>c'\<in>set cs'. (is_leaf c' \<and> (\<exists>c\<in>set cs. is_leaf c \<and> c' \<in> set (snd (remap_leaf ms c)))) \<or>
        (\<not> is_leaf c' \<and> 2 \<le> members c' \<and> (\<exists>c\<in>set cs. \<not> is_leaf c \<and> (\<exists>ch. follows ms c ch c')))))"

lemma followsD:
  assumes "follows ms v ch v'"
  shows "\<not> ch \<Longrightarrow> v' = v" "is_leaf v' = is_leaf v"
    and "leaf_in c' v' \<Longrightarrow> \<exists>c. leaf_in c v \<and> c' \<in> set (snd (remap_leaf ms c))" and "group_in g v' \<Longrightarrow> 2 \<le> members g"
  using assms by (auto simp: follows_def)

lemma follows_object:
  assumes m: "\<And>cs. children_array (JObject kvs) = Some cs \<Longrightarrow> members_follow ms cs"
    and r: "remap_fields ms kvs = (ch, kvs')"
  shows "follows ms (JObject kvs) ch (JObject kvs')"
  using remap_fieldsD [OF r]
proof (elim disjE exE conjE)
  fix cs cs'
  assume a: "children_array (JObject kvs) = Some cs" "remap_members ms cs = (ch, cs')" "children_array (JObject kvs') = Some cs'"
    and same: "cs' = cs \<longrightarrow> kvs' = kvs" and lf: "is_leaf (JObject kvs') = is_leaf (JObject kvs)"
  from m [OF a(1)] a(2) have no: "\<not> ch \<Longrightarrow> cs' = cs" and mem: "\<And>c'. c' \<in> set cs' \<Longrightarrow>
      (is_leaf c' \<and> (\<exists>c\<in>set cs. is_leaf c \<and> c' \<in> set (snd (remap_leaf ms c)))) \<or>
      (\<not> is_leaf c' \<and> 2 \<le> members c' \<and> (\<exists>c\<in>set cs. \<not> is_leaf c \<and> (\<exists>ch. follows ms c ch c')))"
    unfolding members_follow_def by blast+
  have "\<exists>c. leaf_in c (JObject kvs) \<and> c' \<in> set (snd (remap_leaf ms c))" if "leaf_in c' (JObject kvs')" for c'
    using that
  proof cases
    case (leaf_member cs2)
    then have "c' \<in> set cs'" using a(3) by simp
    then show ?thesis using mem [of c'] leaf_member(3) leaf_in.leaf_member [OF a(1)] by blast
  next
    case (leaf_below cs2 g)
    then have "g \<in> set cs'" using a(3) by simp
    then obtain c ch2 where c: "c \<in> set cs" "\<not> is_leaf c" "follows ms c ch2 g" using mem [of g] leaf_below(3) by blast
    then show ?thesis using followsD(3) [OF c(3) leaf_below(4)] leaf_in.leaf_below [OF a(1) c(1,2)] by blast
  qed
  moreover have "2 \<le> members g" if "group_in g (JObject kvs')" for g
    using that
  proof cases
    case (group_member cs2)
    then show ?thesis using mem [of g] a(3) by auto
  next
    case (group_below cs2 g2)
    then obtain c ch2 where "follows ms c ch2 g2" using mem [of g2] a(3) by auto
    then show ?thesis using group_below(4) by (rule followsD(4))
  qed
  ultimately show ?thesis using no same lf by (auto simp: follows_def)
next
  assume a: "\<not> ch" "kvs' = kvs" "children_array (JObject kvs) = None"
  have "\<not> group_in g (JObject kvs)" for g using a(3) by (auto elim: group_in.cases)
  moreover have "\<not> leaf_in c (JObject kvs)" for c using a(3) by (auto elim: leaf_in.cases)
  ultimately show ?thesis using a by (auto simp: follows_def)
qed

lemma remap_all_follow:
  "\<And>ch v'. remap_groups ms v = (ch, v') \<Longrightarrow> follows ms v ch v'"
  "\<And>cs. children_array (JObject kvs) = Some cs \<Longrightarrow> members_follow ms cs"
  "members_follow ms cs0"
  "\<And>ch gs'. remap_list ms gs = (ch, gs') \<Longrightarrow> (\<not> ch \<longrightarrow> gs' = gs) \<and> (\<forall>g'\<in>set gs'. 2 \<le> members g' \<and> (\<exists>g\<in>set gs. \<exists>ch. follows ms g ch g'))"
proof (induction ms v and ms kvs and ms cs0 and ms gs rule: remap_groups_remap_fields_remap_members_remap_list.induct)
  case (1 ms kvs)
  obtain c kvs' where r: "remap_fields ms kvs = (c, kvs')" by (cases "remap_fields ms kvs")
  then show ?case using follows_object [OF 1(1) r] 1(2) by simp
next
  case (2 ms gs)
  obtain c gs' where r: "remap_list ms gs = (c, gs')" by (cases "remap_list ms gs")
  then have e: "ch = c" "v' = JArray gs'" using 2(2) by simp_all
  note ih = 2(1) [OF r]
  have "\<exists>x. leaf_in x (JArray gs) \<and> c' \<in> set (snd (remap_leaf ms x))" if "leaf_in c' (JArray gs')" for c'
    using that
  proof cases
    case (leaf_list g)
    then obtain g0 ch0 where "g0 \<in> set gs" "follows ms g0 ch0 g" using ih by blast
    then show ?thesis using followsD(3) leaf_list(2) leaf_in.leaf_list by blast
  qed simp_all
  moreover have "2 \<le> members g" if "group_in g (JArray gs')" for g
    using that
  proof cases
    case group_top
    then show ?thesis using ih by blast
  next
    case (group_list g2)
    then obtain g0 ch0 where "follows ms g0 ch0 g2" using ih by blast
    then show ?thesis using group_list(2) by (rule followsD(4))
  qed simp_all
  ultimately show ?case using ih e by (simp add: follows_def is_leaf_def json_get_def)
next
  case (5 ms k cs kvs)
  then show ?case by (cases "k = lit ''children''") (auto simp: children_array_def json_get_def as_array_def)
next
  case (7 ms)
  show ?case by (simp add: members_follow_def)
next
  case (8 ms c cs)
  have mf: "members_follow ms cs"
  proof (cases "if is_leaf c then remap_leaf ms c
      else (case remap_groups ms c of (ch, c') \<Rightarrow> if 2 \<le> members c' then (ch, [c']) else (True, []))")
    case (Pair x y)
    show ?thesis by (rule 8(2) [OF Pair [symmetric]])
  qed
  show ?case unfolding members_follow_def
  proof (intro allI impI)
    fix ch keep assume r: "remap_members ms (c # cs) = (ch, keep)"
    obtain ch2 keep2 where r2: "remap_members ms cs = (ch2, keep2)" by (cases "remap_members ms cs")
    show "(\<not> ch \<longrightarrow> keep = c # cs) \<and>
       (\<forall>c'\<in>set keep. is_leaf c' \<and> (\<exists>c\<in>set (c # cs). is_leaf c \<and> c' \<in> set (snd (remap_leaf ms c))) \<or>
          \<not> is_leaf c' \<and> 2 \<le> members c' \<and> (\<exists>c\<in>set (c # cs). \<not> is_leaf c \<and> (\<exists>ch. follows ms c ch c')))"
    proof (cases "is_leaf c")
      case True
      obtain ch1 keep1 where r1: "remap_leaf ms c = (ch1, keep1)" by (cases "remap_leaf ms c")
      have e: "ch = (ch1 \<or> ch2)" "keep = keep1 @ keep2" using r r1 r2 True by simp_all
      have ih: "(\<not> ch2 \<longrightarrow> keep2 = cs) \<and>
       (\<forall>c'\<in>set keep2. is_leaf c' \<and> (\<exists>c\<in>set cs. is_leaf c \<and> c' \<in> set (snd (remap_leaf ms c))) \<or>
          \<not> is_leaf c' \<and> 2 \<le> members c' \<and> (\<exists>c\<in>set cs. \<not> is_leaf c \<and> (\<exists>ch. follows ms c ch c')))"
        using mf r2 unfolding members_follow_def by blast
      have one: "is_leaf c' \<and> c' \<in> set (snd (remap_leaf ms c))" if "c' \<in> set keep1" for c'
        using remap_leafD(2) [OF r1 that] True that r1 by simp
      have "keep1 = [c]" if "\<not> ch1" using r1 that by (auto simp: remap_leaf_def Let_def split: option.splits if_splits)
      then show ?thesis using ih one e True by fastforce
    next
      case False
      obtain ch1 c1 where r1: "remap_groups ms c = (ch1, c1)" by (cases "remap_groups ms c")
      have f: "follows ms c ch1 c1" using 8(1) False r1 by blast
      have e: "ch = ((if 2 \<le> members c1 then ch1 else True) \<or> ch2)" "keep = (if 2 \<le> members c1 then [c1] else []) @ keep2"
        using r r1 r2 False by (auto split: if_splits)
      have ih: "(\<not> ch2 \<longrightarrow> keep2 = cs) \<and>
       (\<forall>c'\<in>set keep2. is_leaf c' \<and> (\<exists>c\<in>set cs. is_leaf c \<and> c' \<in> set (snd (remap_leaf ms c))) \<or>
          \<not> is_leaf c' \<and> 2 \<le> members c' \<and> (\<exists>c\<in>set cs. \<not> is_leaf c \<and> (\<exists>ch. follows ms c ch c')))"
        using mf r2 unfolding members_follow_def by blast
      have lifted: "\<forall>c'\<in>set keep2. is_leaf c' \<and> (\<exists>c\<in>set (c # cs). is_leaf c \<and> c' \<in> set (snd (remap_leaf ms c))) \<or>
          \<not> is_leaf c' \<and> 2 \<le> members c' \<and> (\<exists>c\<in>set (c # cs). \<not> is_leaf c \<and> (\<exists>ch. follows ms c ch c'))"
        using ih by (meson list.set_intros(2))
      show ?thesis
      proof (cases "2 \<le> members c1")
        case True
        have "is_leaf c1 = False" using followsD(2) [OF f] False by simp
        then have "\<not> is_leaf c1 \<and> 2 \<le> members c1 \<and> (\<exists>x\<in>set (c # cs). \<not> is_leaf x \<and> (\<exists>ch. follows ms x ch c1))"
          using True False f by (meson list.set_intros(1))
        moreover have "ch = (ch1 \<or> ch2)" "keep = c1 # keep2" using e True by simp_all
        ultimately show ?thesis using ih lifted followsD(1) [OF f] by simp
      next
        case small: False
        then have "ch" "keep = keep2" using e by simp_all
        then show ?thesis using lifted by simp
      qed
    qed
  qed
next
  case (10 ms g gs)
  obtain c1 g1 where r1: "remap_groups ms g = (c1, g1)" by (cases "remap_groups ms g")
  obtain c2 keep where r2: "remap_list ms gs = (c2, keep)" by (cases "remap_list ms gs")
  have f: "follows ms g c1 g1" using 10(1) [OF r1] .
  have ih: "(\<not> c2 \<longrightarrow> keep = gs) \<and> (\<forall>g'\<in>set keep. 2 \<le> members g' \<and> (\<exists>g\<in>set gs. \<exists>ch. follows ms g ch g'))"
    using 10(2) [OF r1 [symmetric] r2] by blast
  show ?case using 10(3) r1 r2 f ih followsD(1) [OF f] by (fastforce split: if_splits)
qed (auto simp: children_array_def json_get_def as_array_def follows_def elim: leaf_in.cases group_in.cases split: if_splits)

lemma parse_leaf_bound: "parse_leaf s = Some (t, x) \<Longrightarrow> t \<le> usize_max"
  by (auto simp: parse_leaf_def parse_uint_def split: list.splits option.splits if_splits)


section \<open>Pairing picture and sound\<close>

lemma mset_vec_remove: "i < length xs \<Longrightarrow> mset (vec_remove i xs) = mset xs - {#xs ! i#}"
proof -
  assume i: "i < length xs"
  have "mset xs = mset (take i xs @ xs ! i # drop (Suc i) xs)" by (rule arg_cong [OF vec_remove_split [OF i]])
  then show ?thesis by (simp add: vec_remove_def)
qed

lemma partner_Some:
  assumes "partner pairs v as = Some i"
  shows "i < length as" "e_bin_id (as ! i) = e_bin_id v" "(start v, start (as ! i)) \<in> set pairs \<or> start (as ! i) = start v"
  using assms by (auto simp: partner_def split: option.splits dest: position_SomeD)

lemma pair_up_mset:
  "mset (List.map_filter video (pair_up pairs vs as)) = mset vs \<and> mset (List.map_filter audio (pair_up pairs vs as)) = mset as"
proof (induction vs arbitrary: as)
  case Nil
  have "List.map_filter video (map (\<lambda>a. \<lparr>video = None, audio = Some a\<rparr>) as) = []"
    by (induction as) (simp_all add: List.map_filter_simps)
  moreover have "List.map_filter audio (map (\<lambda>a. \<lparr>video = None, audio = Some a\<rparr>) as) = map (\<lambda>a. a) as"
    by (rule map_filter_map) simp
  ultimately show ?case by simp
next
  case (Cons v vs)
  show ?case
  proof (cases "partner pairs v as")
    case None
    then show ?thesis using Cons.IH [of as] by (simp add: List.map_filter_simps)
  next
    case (Some i)
    have "as ! i \<in># mset as" using partner_Some(1) [OF Some] by simp
    then show ?thesis using Some Cons.IH [of "vec_remove i as"] mset_vec_remove [OF partner_Some(1) [OF Some]]
      by (simp add: List.map_filter_simps)
  qed
qed

lemma pair_up_sound:
  "it \<in> set (pair_up pairs vs as) \<Longrightarrow> (video it \<noteq> None \<or> audio it \<noteq> None) \<and>
     (\<forall>v a. video it = Some v \<longrightarrow> audio it = Some a \<longrightarrow> e_bin_id a = e_bin_id v \<and> ((start v, start a) \<in> set pairs \<or> start a = start v))"
proof (induction vs arbitrary: as)
  case (Cons v vs)
  then show ?case using partner_Some by (fastforce split: option.splits)
qed auto

text \<open>The items of a project are its main-track clips: every entry of the main picture and sound tracks is in exactly one of them,
  no item is empty, a picture goes with a sound only when both come from the same bin clip and a group
  or a common start ties them, and items are in the order of their starts.\<close>
theorem items_pair_the_tracks:
  "mset (List.map_filter video (items lb d)) = mset (track_entries lb d (main_video d)) \<and>
   mset (List.map_filter audio (items lb d)) = mset (track_entries lb d (main_audio d)) \<and>
   sorted (map item_start (items lb d)) \<and>
   (\<forall>i<length (items lb d). video (items lb d ! i) \<noteq> None \<or> audio (items lb d ! i) \<noteq> None) \<and>
   (\<forall>i v a. i < length (items lb d) \<longrightarrow> video (items lb d ! i) = Some v \<longrightarrow> audio (items lb d ! i) = Some a \<longrightarrow>
      e_bin_id a = e_bin_id v \<and> ((start v, start a) \<in> set (av_pairs (groups lb d) (main_video d) (main_audio d)) \<or> start a = start v))"
proof -
  let ?p = "pair_up (av_pairs (groups lb d) (main_video d) (main_audio d)) (track_entries lb d (main_video d)) (track_entries lb d (main_audio d))"
  have perm: "mset (items lb d) = mset ?p" by (simp add: items_def)
  have filt: "mset (List.map_filter f xs) = mset (List.map_filter f ys)" if "mset xs = mset ys" for f :: "item \<Rightarrow> entry option" and xs ys
  proof -
    have "mset (List.map_filter f zs) = image_mset (the o f) (filter_mset (\<lambda>x. f x \<noteq> None) (mset zs))" for zs
      by (simp add: List.map_filter_def mset_filter)
    then show ?thesis using that by simp
  qed
  have mem: "items lb d ! i \<in> set ?p" if "i < length (items lb d)" for i
    using that perm by (metis nth_mem set_mset_mset)
  note sound = pair_up_sound [OF mem]
  have "sorted (map item_start (items lb d))" by (simp add: items_def)
  moreover have "mset (List.map_filter video (items lb d)) = mset (track_entries lb d (main_video d))"
    unfolding filt [OF perm] by (rule conjunct1 [OF pair_up_mset])
  moreover have "mset (List.map_filter audio (items lb d)) = mset (track_entries lb d (main_audio d))"
    unfolding filt [OF perm] by (rule conjunct2 [OF pair_up_mset])
  ultimately show ?thesis using sound by blast
qed

section \<open>On small projects\<close>


theorem items_pair_the_tracks_witness:
  "mset (List.map_filter video two_items) = mset (track_entries demo two_clips 1)"
proof -
  have "main_video two_clips = 1" by (simp add: two_clips_def project_def)
  then show ?thesis using items_pair_the_tracks [of demo two_clips] by (simp add: two_clips_items)
qed

end
