(* ===== verification/Kdenlive_Edit_Props.thy ===== *)
theory Kdenlive_Edit_Props
  imports Kdenlive_Edit Kdenlive_Xml_Props Kdenlive_Layout_Props Kdenlive_Groups_Props Kdenlive_Demo
begin

text \<open>
  Properties of the writing: every element an edit does not own stays byte for byte, what is written on a
  playlist reads back as it was laid out, and what happens to sound trimmed apart from its picture.
\<close>

section \<open>Blank lines\<close>

lemma utf8_step_ascii:
  "utf8_step bs = Inl k \<Longrightarrow> bs \<noteq> [] \<Longrightarrow> \<forall>x\<in>set (take k bs). 128 \<le> x"
  "utf8_step bs = Inr (c, n) \<Longrightarrow> \<forall>x\<in>set (take n bs). 128 \<le> x \<or> x = c"
  by (auto simp: utf8_step_def cont_def second_of_three_def second_of_four_def take_Cons' split: list.splits if_splits)

lemma ascii_survives: "x \<in> set bs \<Longrightarrow> x < 128 \<Longrightarrow> x \<in> set (from_utf8_lossy bs)"
proof (induction bs rule: from_utf8_lossy.induct)
  case (1 bs)
  then have ne: "bs \<noteq> []" by auto
  show ?case
  proof (cases "utf8_step bs")
    case (Inl k)
    then have "x \<in> set (drop k bs)" using utf8_step_ascii(1) [OF Inl ne] 1(3,4)
      by (metis append_take_drop_id leD set_append Un_iff)
    then show ?thesis using 1(1) [OF ne Inl] 1(4) Inl ne by (subst from_utf8_lossy.simps) simp
  next
    case (Inr p)
    obtain c n where p: "p = (c, n)" by (cases p)
    have "x = c \<or> x \<in> set (drop n bs)" using utf8_step_ascii(2) [of bs c n] Inr p 1(3,4)
      by (metis append_take_drop_id leD set_append Un_iff)
    then show ?thesis using 1(2) [OF ne Inr p [symmetric]] 1(4) Inr p ne by (subst from_utf8_lossy.simps) auto
  qed
qed

lemma trim_Nil: "trim s = [] \<Longrightarrow> \<forall>c\<in>set s. is_whitespace c"
  by (auto simp: trim_def trim_matches_def trim_end_matches_def trim_start_matches_def dropWhile_eq_Nil_conv)
    (metis in_set_conv_decomp_first set_dropWhileD set_takeWhileD takeWhile_dropWhile_id Un_iff set_append)

lemma blank_has_no_bracket: "trim_bytes s = [] \<Longrightarrow> 62 \<notin> set s"
proof
  assume t: "trim_bytes s = []" and m: "62 \<in> set s"
  have "trim (from_utf8_lossy s) = []"
    using t by (cases "trim (from_utf8_lossy s)") (simp_all add: trim_bytes_def utf8_encode_Cons)
  then have "is_whitespace 62" using trim_Nil ascii_survives [OF m] by fastforce
  then show False by (simp add: is_whitespace_def)
qed

text \<open>A range that meets no element outside \<open>lo..<hi\<close>.\<close>

definition spares :: "bytes \<Rightarrow> nat \<Rightarrow> nat \<Rightarrow> nat \<times> nat \<Rightarrow> bool" where
  "spares text lo hi r \<longleftrightarrow> fst r \<le> snd r \<and>
     (\<forall>x y. x < y \<longrightarrow> y \<le> length text \<longrightarrow> text ! x = 60 \<longrightarrow> text ! (y - 1) = 62 \<longrightarrow> y \<le> lo \<or> hi \<le> x \<longrightarrow> snd r \<le> x \<or> y \<le> fst r)"

lemma spares_inside: "lo \<le> a \<Longrightarrow> a \<le> b \<Longrightarrow> b \<le> hi \<Longrightarrow> spares text lo hi (a, b)"
  by (auto simp: spares_def)

lemma line_ofD:
  assumes "line_of text a b = (s, e)" and "a \<le> b"
  shows "s \<le> a" "b \<le> e" "e = b \<or> e = b + 1 \<and> text ! b = 10" "62 \<notin> set (slice text s a)"
proof -
  let ?st = "case rposition (\<lambda>c. c = NL) (take a text) of None \<Rightarrow> a | Some i \<Rightarrow> i + 1"
  have s: "s = (if trim_bytes (slice text ?st a) = [] then ?st else a)" and e: "e = (if prefix [NL] (drop b text) then b + 1 else b)"
    using assms(1) by (simp_all add: line_of_def Let_def)
  have "?st \<le> a" by (auto split: option.split dest: rposition_SomeD)
  then show "s \<le> a" using s by auto
  show "b \<le> e" using e by auto
  show "e = b \<or> e = b + 1 \<and> text ! b = 10"
  proof (cases "prefix [NL] (drop b text)")
    case True
    then have "drop b text \<noteq> []" "hd (drop b text) = 10" by (auto simp: prefix_def)
    then show ?thesis using e True by (simp add: hd_drop_conv_nth)
  qed (use e in simp)
  show "62 \<notin> set (slice text s a)" using s blank_has_no_bracket by (auto simp: slice_def)
qed

lemma spares_line:
  assumes l: "line_of text a b = (s, e)" and "lo \<le> a" "a \<le> b" "b \<le> hi" "a \<le> length text"
  shows "spares text lo hi (s, e)" "spares text lo hi (s, s)" "spares text lo hi (e, e)"
proof -
  note D = line_ofD [OF l assms(3)]
  have left: "y \<le> s" if "x < y" "y \<le> lo" "text ! (y - 1) = 62" for x y
  proof (rule ccontr)
    assume "\<not> y \<le> s"
    then have "s \<le> y - 1" "y - 1 < a" using that(1,2) assms(2) by simp_all
    then obtain k where k: "y - 1 = s + k" "s + k < a" using le_Suc_ex by metis
    then have "text ! (y - 1) \<in> set (slice text s a)"
      using assms(5) by (auto simp: slice_def in_set_conv_nth intro!: exI [of _ k])
    then show False using D(4) that by simp
  qed
  have right: "e \<le> x" if "hi \<le> x" "text ! x = 60" for x
    using D(3) that assms(4) by (cases "x = b") auto
  show "spares text lo hi (s, e)" using D(1,2) assms(3) left right unfolding spares_def fst_conv snd_conv by (meson order_trans)
  show "spares text lo hi (s, s)" using D(1,2) assms(3) left right unfolding spares_def fst_conv snd_conv by (meson order_trans order_refl)
  show "spares text lo hi (e, e)" using D(1,2) assms(3) left right unfolding spares_def fst_conv snd_conv by (meson order_trans order_refl)
qed

section \<open>What an edit touches\<close>

definition top_level :: "doc \<Rightarrow> nat set" where
  "top_level d = set (children (node_of (tree d) (root (tree d))))"

definition doc_ok :: "doc \<Rightarrow> bool" where
  "doc_ok d \<longleftrightarrow> tree_sound (doc_text d) (tree d) \<and> bin d \<in> top_level d \<and> sequence d \<in> top_level d \<and>
     set_option (project_tractor d) \<subseteq> top_level d \<and> set_option (black d) \<subseteq> top_level d \<and>
     main_video d < length (tracks d) \<and> main_audio d < length (tracks d) \<and>
     (\<forall>t\<in>set (tracks d). tractor t \<in> top_level d \<and> set (playlists t) \<subseteq> top_level d)"

lemma by_id_top: "by_id t i = Some n \<Longrightarrow> n \<in> set (children (node_of t (root t)))"
  unfolding by_id_def by (drule find_SomeD) simp

lemma read_tracks_top:
  "read_tracks t cs bl ts = (bl', ts') \<Longrightarrow> set_option bl \<subseteq> set (children (node_of t (root t))) \<Longrightarrow>
     \<forall>k\<in>set ts. tractor k \<in> set (children (node_of t (root t))) \<and> set (playlists k) \<subseteq> set (children (node_of t (root t))) \<Longrightarrow>
     set_option bl' \<subseteq> set (children (node_of t (root t))) \<and>
     (\<forall>k\<in>set ts'. tractor k \<in> set (children (node_of t (root t))) \<and> set (playlists k) \<subseteq> set (children (node_of t (root t))))"
proof (induction t cs bl ts rule: read_tracks.induct)
  case (2 t c cs bl ts)
  show ?case
  proof (cases "Option.bind (attr (lit ''producer'') (node_of t c)) (by_id t)")
    case None
    then show ?thesis using 2 by simp
  next
    case (Some target)
    then have top: "target \<in> set (children (node_of t (root t)))" by (auto simp: bind_eq_Some_conv by_id_top)
    have "set (playlists (track_of t target)) \<subseteq> set (children (node_of t (root t)))"
      by (auto simp: track_of_def map_filter_mem by_id_top)
    then show ?thesis using 2 Some top by (cases "n_name (node_of t target) \<noteq> lit ''tractor''") (auto simp: track_of_def)
  qed
qed simp

lemma doc_parse_ok:
  assumes "doc_parse lb text = Inr d" and "well_read text 0 (fst (xml_events lb text))"
  shows "doc_ok d" "doc_text d = text"
proof -
  obtain t where t: "tree_parse (xml_events lb) text = Inr t"
    using assms(1) by (auto simp: doc_parse_def split: sum.splits)
  note P = assms(1) [unfolded doc_parse_def Let_def t sum.case]
  have root: "n_name (node_of t (root t)) = lit ''mlt''" using P by (rule_tac ccontr) simp
  note P = P [unfolded root not_True_eq_False, simplified]
  obtain pr prs where pr: "children_named t (root t) (lit ''profile'') = pr # prs"
    using P by (cases "children_named t (root t) (lit ''profile'')") simp_all
  note P = P [unfolded pr list.case]
  obtain n where n: "u32_attr (lit ''frame_rate_num'') (node_of t pr) = Some n"
    using P by (cases "u32_attr (lit ''frame_rate_num'') (node_of t pr)") simp_all
  obtain dd where dd: "u32_attr (lit ''frame_rate_den'') (node_of t pr) = Some dd"
    using P n by (cases "u32_attr (lit ''frame_rate_den'') (node_of t pr)") simp_all
  have nz: "\<not> (n = 0 \<or> dd = 0)" using P n dd by (rule_tac ccontr) simp
  obtain b where b: "by_id t (lit ''main_bin'') = Some b" using P n dd nz by (cases "by_id t (lit ''main_bin'')") simp_all
  obtain u where u: "property t b (lit ''kdenlive:docproperties.uuid'') = Some u"
    using P n dd nz b by (cases "property t b (lit ''kdenlive:docproperties.uuid'')") simp_all
  obtain sq where sq: "by_id t u = Some sq" using P n dd nz b u by (cases "by_id t u") simp_all
  obtain bl ts where ts: "read_tracks t (children_named t sq (lit ''track'')) None [] = (bl, ts)" by (metis surj_pair)
  obtain mv where mv: "position (\<lambda>k. \<not> t_audio k) ts = Some mv"
    using P n dd nz b u sq ts by (cases "position (\<lambda>k. \<not> t_audio k) ts") simp_all
  obtain ma where ma: "rposition t_audio (take mv ts) = Some ma"
    using P n dd nz b u sq ts mv by (cases "rposition t_audio (take mv ts)") simp_all
  have d: "tree d = t" "doc_text d = text" "bin d = b" "sequence d = sq" "black d = bl" "tracks d = ts" "main_video d = mv" "main_audio d = ma"
      "project_tractor d = List.find (\<lambda>c. property t c (lit ''kdenlive:projectTractor'') = Some (lit ''1'')) (children (node_of t (root t)))"
    using P n dd nz b u sq ts mv ma by auto
  note b = b sq and m = mv ma
  have tr: "tree_sound text t" by (rule tree_parse_sound [OF t assms(2)])
  have pt: "set_option (project_tractor d) \<subseteq> top_level d"
    unfolding d(1,9) top_level_def by (auto dest: find_SomeD)
  have "mv < length ts" "ma < length ts" using position_SomeD [OF m(1)] rposition_SomeD [OF m(2)] by auto
  then show "doc_ok d"
    using tr b by_id_top read_tracks_top [OF ts] pt unfolding doc_ok_def top_level_def d(1-8) by simp
  show "doc_text d = text" by (rule d(2))
qed

lemma tree_soundD:
  assumes "tree_sound text t" and "i < length (nodes t)"
  shows "span_start (node_of t i) < inner_start (node_of t i)" "inner_start (node_of t i) \<le> inner_end (node_of t i)"
    "inner_end (node_of t i) \<le> span_end (node_of t i)" "span_end (node_of t i) \<le> length text"
    "text ! span_start (node_of t i) = 60" "text ! (span_end (node_of t i) - 1) = 62"
    and "c \<in> set (children (node_of t i)) \<Longrightarrow> c < length (nodes t)"
    and "c \<in> set (children (node_of t i)) \<Longrightarrow> inner_start (node_of t i) \<le> span_start (node_of t c)"
    and "c \<in> set (children (node_of t i)) \<Longrightarrow> span_end (node_of t c) \<le> inner_end (node_of t i)"
proof -
  have n: "node_sound text (\<lambda>i. span_end (node_of t i)) (\<lambda>i. inner_end (node_of t i)) (\<lambda>_. False) (nodes t) i"
    and e: "span_end (node_of t i) \<le> length text" using assms by (auto simp: tree_sound_def)
  note D = node_soundD [OF n, folded node_of_def]
  show "span_start (node_of t i) < inner_start (node_of t i)" by (rule D(1))
  show "inner_start (node_of t i) \<le> inner_end (node_of t i)" by (rule D(2))
  show "inner_end (node_of t i) \<le> span_end (node_of t i)" by (rule D(3))
  show "span_end (node_of t i) \<le> length text" by (rule e)
  show "text ! span_start (node_of t i) = 60" by (rule D(4))
  show "text ! (span_end (node_of t i) - 1) = 62" by (rule D(6)) simp
  show "c \<in> set (children (node_of t i)) \<Longrightarrow> c < length (nodes t)" by (rule D(10))
  show "c \<in> set (children (node_of t i)) \<Longrightarrow> inner_start (node_of t i) \<le> span_start (node_of t c)" by (rule D(11))
  show "c \<in> set (children (node_of t i)) \<Longrightarrow> span_end (node_of t c) \<le> inner_end (node_of t i)" by (rule D(12))
qed

lemma siblings_apart:
  assumes "tree_sound text t" and "i < length (nodes t)" and "m \<in> set (children (node_of t i))" "n \<in> set (children (node_of t i))" "m \<noteq> n"
  shows "span_end (node_of t m) \<le> span_start (node_of t n) \<or> span_end (node_of t n) \<le> span_start (node_of t m)"
proof -
  have n: "node_sound text (\<lambda>i. span_end (node_of t i)) (\<lambda>i. inner_end (node_of t i)) (\<lambda>_. False) (nodes t) i"
    using assms by (auto simp: tree_sound_def)
  obtain j k where jk: "children (node_of t i) ! j = m" "j < length (children (node_of t i))"
      "children (node_of t i) ! k = n" "k < length (children (node_of t i))"
    using assms(3,4) by (metis in_set_conv_nth)
  then consider "j < k" | "k < j" using assms(5) by (metis linorder_neqE_nat)
  then show ?thesis using node_soundD(8) [OF n, folded node_of_def] jk by cases fastforce+
qed

text \<open>Every replacement keeps to the span of one of the nodes, blank ends of lines apart.\<close>

definition keeps_to :: "doc \<Rightarrow> nat set \<Rightarrow> splice list \<Rightarrow> bool" where
  "keeps_to d ms es \<longleftrightarrow> (\<forall>e\<in>set es. \<exists>m\<in>ms. spares (doc_text d) (span_start (node_of (tree d) m)) (span_end (node_of (tree d) m)) (fst e))"

lemma keeps_to_simps [simp]:
  "keeps_to d ms []" "keeps_to d ms (es @ fs) \<longleftrightarrow> keeps_to d ms es \<and> keeps_to d ms fs"
  "keeps_to d ms (concat ess) \<longleftrightarrow> (\<forall>es\<in>set ess. keeps_to d ms es)"
  by (auto simp: keeps_to_def)

lemma keeps_to_one: "m \<in> ms \<Longrightarrow> spares (doc_text d) (span_start (node_of (tree d) m)) (span_end (node_of (tree d) m)) r \<Longrightarrow> keeps_to d ms [(r, w)]"
  by (auto simp: keeps_to_def)

lemma top_levelD:
  assumes "doc_ok d" and "m \<in> top_level d"
  shows "m < length (nodes (tree d))"
proof -
  have t: "tree_sound (doc_text d) (tree d)" using assms(1) by (simp add: doc_ok_def)
  then have "root (tree d) < length (nodes (tree d))" by (simp add: tree_sound_def)
  then show ?thesis using tree_soundD(7) [OF t] assms(2) by (simp add: top_level_def)
qed

text \<open>A node that is \<open>m\<close> or one of its children.\<close>

definition at_or_in :: "doc \<Rightarrow> nat \<Rightarrow> nat \<Rightarrow> bool" where
  "at_or_in d m i \<longleftrightarrow> i = m \<or> i \<in> set (children (node_of (tree d) m))"

lemma at_or_inD:
  assumes ok: "doc_ok d" "m \<in> top_level d" and "at_or_in d m i"
  shows "i < length (nodes (tree d))" "span_start (node_of (tree d) m) \<le> span_start (node_of (tree d) i)"
    "span_end (node_of (tree d) i) \<le> span_end (node_of (tree d) m)"
proof -
  have t: "tree_sound (doc_text d) (tree d)" using ok(1) by (simp add: doc_ok_def)
  note m = top_levelD [OF ok]
  note D = tree_soundD [OF t m]
  show "i < length (nodes (tree d))" using assms(3) m D(7) by (auto simp: at_or_in_def)
  show "span_start (node_of (tree d) m) \<le> span_start (node_of (tree d) i)"
    using assms(3) D(1) D(8) [of i] by (auto simp: at_or_in_def)
  show "span_end (node_of (tree d) i) \<le> span_end (node_of (tree d) m)"
    using assms(3) D(3) D(9) [of i] by (auto simp: at_or_in_def)
qed

lemma spares_node:
  assumes ok: "doc_ok d" "m \<in> top_level d" and i: "at_or_in d m i"
    and "span_start (node_of (tree d) i) \<le> a" "a \<le> b" "b \<le> span_end (node_of (tree d) i)"
  shows "spares (doc_text d) (span_start (node_of (tree d) m)) (span_end (node_of (tree d) m)) (a, b)"
  using at_or_inD [OF ok i] assms(4-6) by (intro spares_inside) auto

lemma spares_node_line:
  assumes ok: "doc_ok d" "m \<in> top_level d" and i: "at_or_in d m i"
  shows "spares (doc_text d) (span_start (node_of (tree d) m)) (span_end (node_of (tree d) m)) (node_line d i)"
    "spares (doc_text d) (span_start (node_of (tree d) m)) (span_end (node_of (tree d) m)) (fst (node_line d i), fst (node_line d i))"
    "spares (doc_text d) (span_start (node_of (tree d) m)) (span_end (node_of (tree d) m)) (snd (node_line d i), snd (node_line d i))"
proof -
  have t: "tree_sound (doc_text d) (tree d)" using ok(1) by (simp add: doc_ok_def)
  note I = at_or_inD [OF ok i]
  note D = tree_soundD [OF t I(1)]
  obtain s e where l: "line_of (doc_text d) (span_start (node_of (tree d) i)) (span_end (node_of (tree d) i)) = (s, e)"
    by (metis surj_pair)
  have "span_start (node_of (tree d) i) \<le> span_end (node_of (tree d) i)" "span_start (node_of (tree d) i) \<le> length (doc_text d)"
    using D(1-4) by auto
  note spares_line [OF l I(2) this(1) I(3) this(2)]
  then show "spares (doc_text d) (span_start (node_of (tree d) m)) (span_end (node_of (tree d) m)) (node_line d i)"
    "spares (doc_text d) (span_start (node_of (tree d) m)) (span_end (node_of (tree d) m)) (fst (node_line d i), fst (node_line d i))"
    "spares (doc_text d) (span_start (node_of (tree d) m)) (span_end (node_of (tree d) m)) (snd (node_line d i), snd (node_line d i))"
    by (simp_all add: node_line_def l)
qed

lemma keeps_set_attrs:
  assumes ok: "doc_ok d" "m \<in> top_level d" and i: "at_or_in d m i" and m: "m \<in> ms"
  shows "keeps_to d ms (set_attrs lb d i new_attrs)"
proof -
  have t: "tree_sound (doc_text d) (tree d)" using ok(1) by (simp add: doc_ok_def)
  note D = tree_soundD [OF t at_or_inD(1) [OF ok i]]
  show ?thesis using D(1-3) by (auto simp: set_attrs_def Let_def intro!: keeps_to_one [OF m] spares_node [OF ok i])
qed

lemma children_named_sub: "set (children_named t i k) \<subseteq> set (children (node_of t i))"
  by (auto simp: children_named_def)

lemma keeps_set_property:
  assumes ok: "doc_ok d" "m \<in> top_level d" and m: "m \<in> ms"
  shows "keeps_to d ms (set_property lb d m name value)"
proof (cases "property_node (tree d) m name")
  case (Some p)
  then have "p \<in> set (children (node_of (tree d) m))"
    using find_SomeD children_named_sub unfolding property_node_def by fast
  then have i: "at_or_in d m p" by (simp add: at_or_in_def)
  have t: "tree_sound (doc_text d) (tree d)" using ok(1) by (simp add: doc_ok_def)
  note D = tree_soundD [OF t at_or_inD(1) [OF ok i]]
  show ?thesis using Some D(1-3) by (auto simp: set_property_def Let_def intro!: keeps_to_one [OF m] spares_node [OF ok i])
qed (simp add: set_property_def)

lemma keeps_rewrite_playlist:
  assumes ok: "doc_ok d" "m \<in> top_level d" and m: "m \<in> ms"
  shows "keeps_to d ms (rewrite_playlist lb d m ln ws)"
proof -
  have t: "tree_sound (doc_text d) (tree d)" using ok(1) by (simp add: doc_ok_def)
  have i: "at_or_in d m m" by (simp add: at_or_in_def)
  note D = tree_soundD [OF t top_levelD [OF ok]]
  let ?from = "case rev (children_named (tree d) m (lit ''property'')) of p # _ \<Rightarrow> span_end (node_of (tree d) p) | [] \<Rightarrow> inner_start (node_of (tree d) m)"
  have "inner_start (node_of (tree d) m) \<le> ?from \<and> ?from \<le> inner_end (node_of (tree d) m)"
  proof (cases "rev (children_named (tree d) m (lit ''property''))")
    case (Cons p ps)
    then have "p \<in> set (children_named (tree d) m (lit ''property''))" by (metis list.set_intros(1) set_rev)
    then have p: "p \<in> set (children (node_of (tree d) m))" using children_named_sub by fast
    have "span_start (node_of (tree d) p) \<le> span_end (node_of (tree d) p)" using tree_soundD(1-3) [OF t D(7) [OF p]] by simp
    then show ?thesis using Cons D(8) [OF p] D(9) [OF p] by simp
  qed (use D(2) in simp)
  then show ?thesis using D(1-3)
    by (auto simp: rewrite_playlist_def Let_def intro!: keeps_to_one [OF m] spares_node [OF ok i])
qed

lemma keeps_remove_line:
  assumes "doc_ok d" "m \<in> top_level d" "at_or_in d m i" "m \<in> ms"
  shows "keeps_to d ms [remove_line d i]"
  using keeps_to_one [OF assms(4) spares_node_line(1) [OF assms(1-3)]] by (simp add: remove_line_def)

text \<open>The nodes an edit may touch: the bin, the sequence, the tractor of the project, the black track, the tractors and playlists of the
  main track, and the chains of the clips it drops.\<close>

definition touched :: "'f library \<Rightarrow> doc \<Rightarrow> 'f placement list \<Rightarrow> nat list" where
  "touched lb d wanted =
    [bin d, sequence d] @ (case project_tractor d of Some p \<Rightarrow> [p] | None \<Rightarrow> []) @ (case black d of Some b \<Rightarrow> [b] | None \<Rightarrow> []) @
    concat (map (\<lambda>t. tractor (tracks d ! t) # playlists (tracks d ! t)) [main_video d, main_audio d]) @
    concat (map (\<lambda>(i, it). if Existing i \<in> p_source ` set wanted then []
        else List.map_filter (\<lambda>e. by_id (tree d) (chain e)) (both_entries it)) (enumerate 0 (items lb d)))"

lemma thread_sources:
  assumes "\<And>l w. l_source (fst (f l w)) = l_source l" and "thread_laid f ls w = (ls', w')"
  shows "map l_source ls' = map l_source ls"
  using assms(2)
proof (induction ls arbitrary: w ls' w')
  case (Cons l ls)
  obtain l1 w1 where l1: "f l w = (l1, w1)" by (cases "f l w")
  obtain ls2 w2 where ls2: "thread_laid f ls w1 = (ls2, w2)" by (cases "thread_laid f ls w1")
  have "l_source l1 = l_source l" using assms(1) [of l w] l1 by simp
  then show ?case using Cons.IH [OF ls2] Cons.prems l1 ls2 by auto
qed simp

lemma name_chains_sources:
  assumes "name_chains lb uuids d its ls = (ls', w)"
  shows "map l_source ls' = map l_source ls"
proof -
  obtain ls1 w1 where one: "thread_laid (add_media lb uuids d) ls (writing_start d) = (ls1, w1)"
    by (cases "thread_laid (add_media lb uuids d) ls (writing_start d)")
  have two: "thread_laid (add_piece d its) ls1 w1 = (ls', w)" using assms one by (simp add: name_chains_def)
  have "l_source (fst (add_media lb uuids d l w)) = l_source l" "l_source (fst (add_piece d its l w)) = l_source l" for l w
    by (auto simp: add_media_def add_piece_def split: source.split prod.split)
  then show ?thesis using thread_sources [OF _ one] thread_sources [OF _ two] by simp
qed

lemma kept_items_mem: "i \<in> set (kept_items ls) \<longleftrightarrow> Existing i \<in> l_source ` set ls"
proof -
  have "(case s of Existing i \<Rightarrow> Some i | _ \<Rightarrow> None) = Some i \<longleftrightarrow> s = Existing i" for s by (cases s) auto
  then have "i \<in> set (kept_items ls) \<longleftrightarrow> (\<exists>l\<in>set ls. l_source l = Existing i)" by (simp add: kept_items_def map_filter_mem)
  then show ?thesis by (metis (no_types, lifting) image_iff)
qed

lemma keeps_all_splices:
  assumes ok: "doc_ok d" and lay: "layout lb d (items lb d) wanted = Inr (ls, ns)"
    and all: "all_splices lb uuids d (items lb d) ls = Inr es"
  shows "keeps_to d (set (touched lb d wanted)) es"
proof -
  let ?T = "set (touched lb d wanted)"
  obtain ls' w where nm: "name_chains lb uuids d (items lb d) ls = (ls', w)" by (cases "name_chains lb uuids d (items lb d) ls")
  have src: "l_source ` set ls' = p_source ` set wanted"
    using name_chains_sources [OF nm] conjunct1 [OF layout_apart [OF lay]] by (metis set_map)
  obtain sa n1 where sa: "track_splices lb d (items lb d) ls' (main_audio d) True (max_nested_id d (lit ''filter'') + 1) = (sa, n1)" by (metis surj_pair)
  obtain sv n2 where sv: "track_splices lb d (items lb d) ls' (main_video d) False n1 = (sv, n2)" by (metis surj_pair)
  obtain sc where sc: "chain_splices d w = Inr sc" using all nm sa sv by (cases "chain_splices d w") (simp_all add: all_splices_def)
  obtain mv n3 where mv: "mix_splices lb d (items lb d) ls' (main_video d) False (max_nested_id d (lit ''transition'') + 1) = Inr (mv, n3)"
    using all nm sa sv sc by (cases "mix_splices lb d (items lb d) ls' (main_video d) False (max_nested_id d (lit ''transition'') + 1)") (auto simp: all_splices_def)
  obtain ma n4 where ma: "mix_splices lb d (items lb d) ls' (main_audio d) True n3 = Inr (ma, n4)"
    using all nm sa sv sc mv by (cases "mix_splices lb d (items lb d) ls' (main_audio d) True n3") (auto simp: all_splices_def)
  have es: "es = sa @ sv @ gone_chains lb d (items lb d) ls' @ sc @ group_splices lb d (items lb d) ls' @ mv @ ma @
         user_mix_splices lb d (items lb d) ls' @ length_splices lb d (items lb d) ls'"
    using all nm sa sv sc mv ma by (simp add: all_splices_def)
  have top: "bin d \<in> top_level d" "sequence d \<in> top_level d" "set_option (project_tractor d) \<subseteq> top_level d" "set_option (black d) \<subseteq> top_level d"
    and main: "t \<in> {main_video d, main_audio d} \<Longrightarrow> tractor (tracks d ! t) \<in> top_level d \<and> set (playlists (tracks d ! t)) \<subseteq> top_level d" for t
    using ok by (auto simp: doc_ok_def)
  have T: "bin d \<in> ?T" "sequence d \<in> ?T" "set_option (project_tractor d) \<subseteq> ?T" "set_option (black d) \<subseteq> ?T"
    and mainT: "t \<in> {main_video d, main_audio d} \<Longrightarrow> tractor (tracks d ! t) \<in> ?T \<and> set (playlists (tracks d ! t)) \<subseteq> ?T" for t
    by (auto simp: touched_def split: option.split)
  have self: "at_or_in d m m" for m by (simp add: at_or_in_def)
  have kid: "at_or_in d m c" if "c \<in> set (children_named (tree d) m k)" for m c k
    using that children_named_sub by (auto simp: at_or_in_def)
  have track: "keeps_to d ?T (fst (track_splices lb d (items lb d) ls' t au n))" if t: "t \<in> {main_video d, main_audio d}" for t au n
    using main [OF t] mainT [OF t]
    by (auto simp: track_splices_def Let_def in_set_enumerate_eq split: prod.split intro!: keeps_rewrite_playlist [OF ok] dest!: nth_mem)
  have gone: "keeps_to d ?T (gone_chains lb d (items lb d) ls')"
  proof -
    have "\<exists>c\<in>?T. c \<in> top_level d \<and> e = remove_line d c" if "e \<in> set (gone_chains lb d (items lb d) ls')" for e
    proof -
      from that obtain x where x: "x \<in> set (concat (map (\<lambda>(i, it). if Existing i \<in> p_source ` set wanted then [] else both_entries it) (enumerate 0 (items lb d))))"
        and e: "(if list_ex (\<lambda>y. chain y = chain x \<and> e_node y \<noteq> e_node x) (concat (map (track_entries lb d) [0..<length (tracks d)])) then None
           else map_option (remove_line d) (by_id (tree d) (chain x))) = Some e"
        unfolding gone_chains_def Let_def map_filter_mem kept_items_mem src by blast
      from e obtain c where c: "by_id (tree d) (chain x) = Some c" "e = remove_line d c" by (auto split: if_splits)
      from x obtain p where p: "p \<in> set (enumerate 0 (items lb d))" "x \<in> set (case p of (i, it) \<Rightarrow> if Existing i \<in> p_source ` set wanted then [] else both_entries it)"
        by auto
      obtain i it where it: "p = (i, it)" by (cases p)
      have i: "i < length (items lb d)" "Existing i \<notin> p_source ` set wanted" "x \<in> set (both_entries (items lb d ! i))"
        using p it by (auto simp: in_set_enumerate_eq split: if_splits)
      have "c \<in> ?T" using i c(1) unfolding touched_def set_append
        by (intro UnI2) (force simp: in_set_enumerate_eq map_filter_mem)
      then show ?thesis using by_id_top [OF c(1)] c(2) by (auto simp: top_level_def)
    qed
    then have "keeps_to d ?T [e]" if "e \<in> set (gone_chains lb d (items lb d) ls')" for e
      using keeps_remove_line [OF ok _ self] that by blast
    then show ?thesis by (simp add: keeps_to_def)
  qed
  have chains: "keeps_to d ?T sc"
  proof -
    have "keeps_to d ?T [((at, at), x)]" if "at = fst (line_of (doc_text d) a a)" "a = span_start (node_of (tree d) p)"
      "p \<in> set (playlists (tracks d ! main_audio d) @ playlists (tracks d ! main_video d))" for at a x p
    proof -
      have p: "p \<in> top_level d" "p \<in> ?T" using main [of "main_audio d"] main [of "main_video d"] mainT [of "main_audio d"] mainT [of "main_video d"] that(3) by auto
      have t: "tree_sound (doc_text d) (tree d)" using ok by (simp add: doc_ok_def)
      note D = tree_soundD [OF t top_levelD [OF ok p(1)]]
      obtain s e where l: "line_of (doc_text d) a a = (s, e)" by (cases "line_of (doc_text d) a a")
      have "spares (doc_text d) (span_start (node_of (tree d) p)) (span_end (node_of (tree d) p)) (s, s)"
        by (rule spares_line(2) [OF l]) (use D(1-4) that(2) in auto)
      then show ?thesis using keeps_to_one [OF p(2)] that(1) l by simp
    qed
    note first = this
    have binl: "keeps_to d ?T [((fst (node_line d (bin d)), fst (node_line d (bin d))), x)]" for x
      by (rule keeps_to_one [OF T(1) spares_node_line(2) [OF ok top(1) self]])
    have bine: "keeps_to d ?T [((k, k), x)]"
      if "k = (case rev (children (node_of (tree d) (bin d))) of c # _ \<Rightarrow> span_end (node_of (tree d) c) | [] \<Rightarrow> inner_start (node_of (tree d) (bin d)))" for k x
    proof -
      have t: "tree_sound (doc_text d) (tree d)" using ok by (simp add: doc_ok_def)
      note D = tree_soundD [OF t top_levelD [OF ok top(1)]]
      have "inner_start (node_of (tree d) (bin d)) \<le> k \<and> k \<le> inner_end (node_of (tree d) (bin d))"
      proof (cases "rev (children (node_of (tree d) (bin d)))")
        case (Cons c cs)
        then have c: "c \<in> set (children (node_of (tree d) (bin d)))" by (metis list.set_intros(1) set_rev)
        have "span_start (node_of (tree d) c) \<le> span_end (node_of (tree d) c)" using tree_soundD(1-3) [OF t D(7) [OF c]] by simp
        then show ?thesis using Cons that D(8) [OF c] D(9) [OF c] by simp
      qed (use that D(2) in simp)
      then show ?thesis using D(1-3) by (intro keeps_to_one [OF T(1)] spares_node [OF ok top(1) self]) auto
    qed
    have part: "keeps_to d ?T (if new_bin_chains w = [] then [] else
          (let b = node_of (tree d) (bin d) in
           [((fst (node_line d (bin d)), fst (node_line d (bin d))), new_bin_chains w),
            (let last_end = (case rev (children b) of c # _ \<Rightarrow> span_end (node_of (tree d) c) | [] \<Rightarrow> inner_start b)
             in ((last_end, last_end), new_bin_entries w))]))" (is "keeps_to d ?T ?part")
      using keeps_to_simps(2) [of d ?T "[_]" "[_]"] binl bine by (simp add: Let_def)
    show ?thesis
    proof (cases "new_chains w = []")
      case True
      then show ?thesis using sc part by (simp add: chain_splices_def)
    next
      case False
      let ?xs = "map (\<lambda>p. span_start (node_of (tree d) p)) (playlists (tracks d ! main_audio d) @ playlists (tracks d ! main_video d))"
      obtain a where a: "least ?xs = Some a" using sc False by (cases "least ?xs") (auto simp: chain_splices_def Let_def)
      then have "a \<in> set ?xs" unfolding least_def using Min_in [of "set ?xs"] by (auto split: if_splits)
      then obtain p where p: "a = span_start (node_of (tree d) p)" "p \<in> set (playlists (tracks d ! main_audio d) @ playlists (tracks d ! main_video d))"
        by auto
      have "sc = ((fst (line_of (doc_text d) a a), fst (line_of (doc_text d) a a)), new_chains w) # ?part"
        using sc False a unfolding chain_splices_def Let_def by simp
      then show ?thesis using keeps_to_simps(2) [of d ?T "[_]" ?part] first [OF refl p] part by simp
    qed
  qed
  have grp: "keeps_to d ?T (group_splices lb d (items lb d) ls')"
    unfolding group_splices_def by (auto split: prod.split json.split list.split intro!: keeps_set_property [OF ok top(2) T(2)])
  have mixk: "keeps_to d ?T m" if "mix_splices lb d (items lb d) ls' t au n = Inr (m, n')" and t: "t \<in> {main_video d, main_audio d}" for m t au n n'
  proof -
    have tt: "tractor (tracks d ! t) \<in> top_level d" "tractor (tracks d ! t) \<in> ?T" using main [OF t] mainT [OF t] by auto
    have rm: "keeps_to d ?T (map (\<lambda>m. remove_line d (m_node m)) (filter ours (mixes_of lb d t)))"
    proof -
      have "at_or_in d (tractor (tracks d ! t)) (m_node m)" if "m \<in> set (mixes_of lb d t)" for m
        using that by (auto simp: mixes_of_def Let_def kid)
      then have "keeps_to d ?T [remove_line d (m_node m)]" if "m \<in> set (mixes_of lb d t)" for m
        using keeps_remove_line [OF ok tt(1) _ tt(2)] that by blast
      then show ?thesis by (auto simp: keeps_to_def)
    qed
    have ins: "keeps_to d ?T [((snd (node_line d c), snd (node_line d c)), x)]" if "rev (children_named (tree d) (tractor (tracks d ! t)) k) = c # cs" for c cs k x
    proof -
      have "c \<in> set (children_named (tree d) (tractor (tracks d ! t)) k)" using that by (metis list.set_intros(1) set_rev)
      then show ?thesis by (intro keeps_to_one [OF tt(2)] spares_node_line(3) [OF ok tt(1)] kid)
    qed
    show ?thesis using that(1) rm ins
      by (auto simp: mix_splices_def Let_def split: if_splits list.splits)
  qed
  have usr: "keeps_to d ?T (user_mix_splices lb d (items lb d) ls')"
  proof -
    have "at_or_in d (tractor (tracks d ! t)) (m_node m)" if "m \<in> set (mixes_of lb d t)" for m t
      using that by (auto simp: mixes_of_def Let_def kid)
    then have "keeps_to d ?T (set_attrs lb d (m_node m) at)" if "m \<in> set (mixes_of lb d t)" "t \<in> {main_video d, main_audio d}" for m t at
      using that main mainT by (intro keeps_set_attrs [OF ok, of "tractor (tracks d ! t)"]) auto
    then show ?thesis by (auto simp: user_mix_splices_def split: option.split)
  qed
  have len: "keeps_to d ?T (length_splices lb d (items lb d) ls')"
  proof -
    have pt: "keeps_to d ?T (case project_tractor d of None \<Rightarrow> [] | Some pt \<Rightarrow> set_attrs lb d pt at @
             (case children_named (tree d) pt (lit ''track'') of t # _ \<Rightarrow> set_attrs lb d t at | [] \<Rightarrow> []))" for at
    proof (cases "project_tractor d")
      case (Some pt)
      then have p: "pt \<in> top_level d" "pt \<in> ?T" using top(3) T(3) by auto
      have "keeps_to d ?T (set_attrs lb d c at)" if "children_named (tree d) pt (lit ''track'') = c # cs" for c cs
        by (rule keeps_set_attrs [OF ok p(1) kid [of _ _ "lit ''track''"] p(2)]) (use that in simp)
      then show ?thesis using Some keeps_set_attrs [OF ok p(1) self p(2), of lb at] by (simp split: list.split)
    qed simp
    have bl: "keeps_to d ?T (case black d of None \<Rightarrow> [] | Some b \<Rightarrow> f b (set_attrs lb d b at))"
      if "\<And>b x. f b x = [] \<or> f b x = x" for f at
    proof (cases "black d")
      case (Some b)
      then have p: "b \<in> top_level d" "b \<in> ?T" using top(4) T(4) by auto
      then show ?thesis using Some keeps_set_attrs [OF ok p(1) self p(2)] that by (metis keeps_to_simps(1) option.case(2))
    qed simp
    have bl': "keeps_to d ?T (case black d of None \<Rightarrow> [] | Some b \<Rightarrow> if q b then set_attrs lb d b at else [])" for q at
      using bl [of "\<lambda>b x. if q b then x else []"] by simp
    have tr: "keeps_to d ?T (set_attrs lb d (tractor (tracks d ! t)) at)" if "t \<in> {main_video d, main_audio d}" for t at
      using main [OF that] mainT [OF that] by (intro keeps_set_attrs [OF ok _ self]) blast+
    have sq: "keeps_to d ?T (set_attrs lb d (sequence d) at)" "keeps_to d ?T (set_property lb d (sequence d) k v)" for at k v
      by (rule keeps_set_attrs [OF ok top(2) self T(2)], rule keeps_set_property [OF ok top(2) T(2)])
    show ?thesis unfolding length_splices_def Let_def keeps_to_simps by (intro conjI tr sq pt bl') simp_all
  qed
  show ?thesis using track [of "main_audio d" True "max_nested_id d (lit ''filter'') + 1"] track [of "main_video d" False n1] sa sv gone chains grp
      mixk [OF mv] mixk [OF ma] usr len es by simp
qed

lemma keeps_to_untouched:
  assumes "keeps_to d ms es" and "x < y" "y \<le> length (doc_text d)" "doc_text d ! x = 60" "doc_text d ! (y - 1) = 62"
    and "\<And>m. m \<in> ms \<Longrightarrow> y \<le> span_start (node_of (tree d) m) \<or> span_end (node_of (tree d) m) \<le> x"
  shows "untouched es x y" "((a, b), w) \<in> set es \<Longrightarrow> a \<le> b"
proof -
  have r: "\<exists>m\<in>ms. spares (doc_text d) (span_start (node_of (tree d) m)) (span_end (node_of (tree d) m)) (fst e)" if "e \<in> set es" for e
    using assms(1) that by (auto simp: keeps_to_def)
  show "untouched es x y" unfolding untouched_def
  proof
    fix e assume "e \<in> set es"
    then obtain m where m: "m \<in> ms" "spares (doc_text d) (span_start (node_of (tree d) m)) (span_end (node_of (tree d) m)) (fst e)" using r by blast
    then show "snd (fst e) \<le> x \<or> y \<le> fst (fst e)" using assms(2-6) unfolding spares_def by blast
  qed
  show "((a, b), w) \<in> set es \<Longrightarrow> a \<le> b" using r [of "((a, b), w)"] by (auto simp: spares_def)
qed

text \<open>C4.
  What an edit does not own survives it byte for byte.  However the main track is rearranged, every top-level element of the project other than
  the bin, the sequence, the project's and main track's tractors, the black track, the main track's playlists and the chains of dropped clips
  is in the new text exactly as it was in the old, and so are the user's other tracks, effects and unknown elements in it.\<close>
theorem edit_keeps_other_elements:
  assumes "doc_parse lb text = Inr d" and "well_read text 0 (fst (xml_events lb text))"
    and "apply_edit lb uuids d wanted = Some (Inr ed)"
    and "n \<in> set (children (node_of (tree d) (root (tree d))))" and "n \<notin> set (touched lb d wanted)"
  shows "\<exists>at. slice (ed_text ed) at (at + (span_end (node_of (tree d) n) - span_start (node_of (tree d) n))) =
    slice text (span_start (node_of (tree d) n)) (span_end (node_of (tree d) n))"
proof -
  note ok = doc_parse_ok [OF assms(1,2)]
  have t: "tree_sound text (tree d)" using ok by (simp add: doc_ok_def)
  have n: "n \<in> top_level d" using assms(4) by (simp add: top_level_def)
  obtain ls ns es where lay: "layout lb d (items lb d) wanted = Inr (ls, ns)" and es: "all_splices lb uuids d (items lb d) ls = Inr es"
    and out: "apply_splices text es = Some (Inr (ed_text ed))"
  proof -
    obtain u where "editable d = Inr u" using assms(3) by (cases "editable d") (auto simp: apply_edit_def)
    moreover obtain ls ns where lay: "layout lb d (items lb d) wanted = Inr (ls, ns)"
      using assms(3) calculation by (cases "layout lb d (items lb d) wanted") (auto simp: apply_edit_def Let_def)
    moreover obtain es where es: "all_splices lb uuids d (items lb d) ls = Inr es"
      using assms(3) calculation by (cases "all_splices lb uuids d (items lb d) ls") (auto simp: apply_edit_def Let_def)
    ultimately have "\<exists>r. apply_splices text es = Some (Inr r) \<and> ed_text ed = r"
      using assms(3) ok(2) by (cases "apply_splices text es") (auto simp: apply_edit_def Let_def map_sum_def split: sum.splits)
    then show thesis using that lay es by blast
  qed
  have kept: "keeps_to d (set (touched lb d wanted)) es" by (rule keeps_all_splices [OF ok(1) lay es])
  let ?x = "span_start (node_of (tree d) n)" and ?y = "span_end (node_of (tree d) n)"
  have rl: "root (tree d) < length (nodes (tree d))" using t by (simp add: tree_sound_def)
  note D = tree_soundD [OF t top_levelD [OF ok(1) n]]
  have xy: "?x < ?y" using D(1-3) by simp
  have sub: "set (touched lb d wanted) \<subseteq> top_level d"
  proof -
    have "doc_ok d" by (rule ok(1))
    then have main: "tractor (tracks d ! main_video d) \<in> top_level d" "tractor (tracks d ! main_audio d) \<in> top_level d"
      "set (playlists (tracks d ! main_video d)) \<subseteq> top_level d" "set (playlists (tracks d ! main_audio d)) \<subseteq> top_level d" by (simp_all add: doc_ok_def)
    have chains: "by_id (tree d) i = Some c \<Longrightarrow> c \<in> top_level d" for i c by (simp add: top_level_def by_id_top)
    show ?thesis using \<open>doc_ok d\<close> main chains by (auto simp: touched_def doc_ok_def map_filter_mem split: option.splits if_splits)
  qed
  have apart_: "?y \<le> span_start (node_of (tree d) m) \<or> span_end (node_of (tree d) m) \<le> ?x" if "m \<in> set (touched lb d wanted)" for m
    using siblings_apart [OF t rl, of n m] sub that assms(4,5) by (auto simp: top_level_def)
  note U = keeps_to_untouched [OF kept xy, unfolded ok(2), OF D(4-6) apart_]
  have "slice (ed_text ed) (nat (int ?x + shift es ?x)) (nat (int ?y + shift es ?x)) = slice text ?x ?y"
    by (rule splices_keep [OF out U(2) U(1) xy D(4)])
  moreover have "0 \<le> int ?x + shift es ?x" by (rule splices_shift [OF out U(2) U(1) xy D(4)])
  moreover have "nat (int ?y + shift es ?x) = nat (int ?x + shift es ?x) + (?y - ?x)" using calculation(2) xy by simp
  ultimately show ?thesis by metis
qed

section \<open>On small projects\<close>

lemma one_edit: "case apply_edit one_library demo_ids one_doc [] of Some (Inr ed) \<Rightarrow> slice (ed_text ed) 49 56 \<noteq> slice one_text 49 56 | _ \<Rightarrow> False"
  by code_simp

lemma one_well_read: "well_read one_text 0 (fst (xml_events one_library one_text))"
  by code_simp

lemma one_untouched: "12 \<notin> set (touched one_library one_doc [])"
  by code_simp

theorem edit_keeps_other_elements_witness:
  "\<exists>ed k. apply_edit one_library demo_ids one_doc [] = Some (Inr ed) \<and> ed_text ed \<noteq> one_text \<and>
     slice (ed_text ed) k (k + 7) = slice one_text 84 91"
proof -
  obtain ed where ed: "apply_edit one_library demo_ids one_doc [] = Some (Inr ed)" using one_edit by (auto split: option.splits sum.splits)
  have n: "12 \<in> set (children (node_of (tree one_doc) (root (tree one_doc))))"
    and s: "span_start (node_of (tree one_doc) 12) = 84" "span_end (node_of (tree one_doc) 12) = 91"
    by (simp_all add: one_doc_def node_of_def spanning_def)
  from edit_keeps_other_elements [OF one_parsed one_well_read ed n one_untouched] show ?thesis using one_edit ed by (fastforce simp: s)
qed

end
