(* ===== verification/Kdenlive_Playlist_Props.thy ===== *)
theory Kdenlive_Playlist_Props
  imports Kdenlive_Edit Kdenlive_Layout_Props
begin

text \<open>
  What is written on the main track's playlists reads back as it was laid out; and what happens to a sound
  trimmed apart from its picture.
\<close>

section \<open>A row of clips without crossfades of the user's\<close>

lemma layout_row:
  assumes no: "item_mixes lb d its = []" and lay: "layout lb d its wanted = Inr (ls, ns)"
  shows "sorted_wrt (\<lambda>l m. video_lane l = video_lane m \<longrightarrow> laid_end l \<le> l_start m) ls"
    and "l \<in> set ls \<Longrightarrow> audio_lane l = video_lane l \<and> video_lane l \<le> 1"
    and "sorted_wrt (\<lambda>l m. l_start l \<le> l_start m) ls"
proof -
  note sound = layout_apart [OF lay, unfolded no]
  obtain ls0 where ls: "ls = set_lanes [] None ls0" using lay no by (elim layoutD) simp
  have len: "length ls = length ls0" using set_lanes_same ls by blast
  have nj: "\<not> joined [] p s" for p s by (cases p; cases s) (auto simp: joined_def split: source.split)
  have lane: "video_lane (ls ! k) = (case (prev_of None ls k, mix_in (ls ! k)) of (Some p, Some _) \<Rightarrow> 1 - min (video_lane p) 1 | _ \<Rightarrow> 0)"
    and au: "audio_lane (ls ! k) = video_lane (ls ! k)" if "k < length ls" for k
  proof -
    have "mix_in (ls ! k) = mix_in (ls0 ! k)" using set_lanes_same [of "[]" None ls0] that len ls by fastforce
    then show "video_lane (ls ! k) = (case (prev_of None ls k, mix_in (ls ! k)) of (Some p, Some _) \<Rightarrow> 1 - min (video_lane p) 1 | _ \<Rightarrow> 0)"
      "audio_lane (ls ! k) = video_lane (ls ! k)"
      using set_lanes_nth [of k ls0 "[]" None] that len ls by (auto simp: Let_def user_joined_def split: source.splits)
  qed
  have le: "video_lane (ls ! k) \<le> 1" if "k < length ls" for k using lane [OF that] by (simp split: option.split)
  show "audio_lane l = video_lane l \<and> video_lane l \<le> 1" if "l \<in> set ls" using that au le by (metis in_set_conv_nth)
  have pos: "0 < laid_len (ls ! k)" if "k < length ls" for k using sound that by (auto simp: laid_len_def)
  have step: "case mix_in (ls ! Suc k) of
        Some f \<Rightarrow> 0 < f \<and> 2 * f \<le> laid_len (ls ! k) \<and> 2 * f \<le> laid_len (ls ! Suc k) \<and> l_start (ls ! Suc k) = laid_end (ls ! k) - f
      | None \<Rightarrow> laid_end (ls ! k) \<le> l_start (ls ! Suc k)" if "Suc k < length ls" for k
    using sound that nj by (cases "mix_in (ls ! Suc k)") fastforce+
  have swap: "video_lane (ls ! Suc k) \<noteq> video_lane (ls ! k)" if "Suc k < length ls" "mix_in (ls ! Suc k) \<noteq> None" for k
  proof -
    have "video_lane (ls ! Suc k) = 1 - min (video_lane (ls ! k)) 1" using lane [OF that(1)] that(2) by auto
    then show ?thesis using le [of k] that(1) by arith
  qed
  have "laid_end (ls ! i) \<le> l_start (ls ! j)" if "i < j" "j < length ls" "video_lane (ls ! i) = video_lane (ls ! j)" for i j
    by (rule row_apart [OF step pos swap that])
  then show "sorted_wrt (\<lambda>l m. video_lane l = video_lane m \<longrightarrow> laid_end l \<le> l_start m) ls"
    by (simp add: sorted_wrt_iff_nth_less)
  have "l_start (ls ! k) \<le> l_start (ls ! Suc k)" if "Suc k < length ls" for k
    using step [OF that] pos [of k] that by (cases "mix_in (ls ! Suc k)") (auto simp: laid_end_def)
  then have "sorted (map l_start ls)" by (simp add: sorted_iff_nth_Suc)
  then show "sorted_wrt (\<lambda>l m. l_start l \<le> l_start m) ls" by (simp add: sorted_wrt_map)
qed

section \<open>Slots\<close>

text \<open>The slots of one playlist, as \<open>track_splices\<close> hands them to \<open>rewrite_playlist\<close>.\<close>

definition lane_slots :: "'f library \<Rightarrow> doc \<Rightarrow> item list \<Rightarrow> bool \<Rightarrow> nat \<Rightarrow> 'f laid list \<Rightarrow> int \<Rightarrow> nat \<Rightarrow> slot list" where
  "lane_slots lb d its is_audio wd ls n ln =
     List.map_filter (\<lambda>s. case s of Some (k, w) \<Rightarrow> if k = ln then Some w else None | None \<Rightarrow> None)
       (fst (thread_laid (slot_of lb d its is_audio wd) ls n))"

lemma track_splices_slots:
  "fst (track_splices lb d its ls t is_audio n) =
     concat (map (\<lambda>(ln, pl). rewrite_playlist lb d pl ln (lane_slots lb d its is_audio (max (length (playlists (tracks d ! t))) 1) ls n ln))
       (enumerate 0 (playlists (tracks d ! t))))"
  by (simp add: track_splices_def lane_slots_def Let_def split: prod.split)

definition place_of_slot :: "slot \<Rightarrow> int \<times> int \<times> int \<times> int" where
  "place_of_slot w = (w_start w, w_len w, w_in w, w_out w)"

definition place_of_laid :: "'f laid \<Rightarrow> int \<times> int \<times> int \<times> int" where
  "place_of_laid l = (l_start l, laid_len l, l_in l, l_out l)"

definition on_playlist :: "item list \<Rightarrow> bool \<Rightarrow> nat \<Rightarrow> nat \<Rightarrow> 'f laid \<Rightarrow> bool" where
  "on_playlist its is_audio wd ln l \<longleftrightarrow> part_of its is_audio l \<noteq> None \<and> min (if is_audio then audio_lane l else video_lane l) (wd - 1) = ln"

lemma lane_slots_places:
  "map place_of_slot (lane_slots lb d its is_audio wd ls n ln) = map place_of_laid (filter (on_playlist its is_audio wd ln) ls)"
proof (induction ls arbitrary: n)
  case Nil
  then show ?case by (simp add: lane_slots_def List.map_filter_simps)
next
  case (Cons l ls)
  obtain s n1 where s: "slot_of lb d its is_audio wd l n = (s, n1)" by (cases "slot_of lb d its is_audio wd l n")
  have e: "lane_slots lb d its is_audio wd (l # ls) n ln =
      (case s of Some (k, w) \<Rightarrow> if k = ln then [w] else [] | None \<Rightarrow> []) @ lane_slots lb d its is_audio wd ls n1 ln"
    by (auto simp: lane_slots_def s List.map_filter_simps split: prod.split option.split)
  have "map place_of_slot (case s of Some (k, w) \<Rightarrow> if k = ln then [w] else [] | None \<Rightarrow> []) =
      (if on_playlist its is_audio wd ln l then [place_of_laid l] else [])"
    using s by (cases "part_of its is_audio l")
      (auto simp: slot_of_def on_playlist_def place_of_slot_def place_of_laid_def split: prod.splits)
  then show ?case unfolding e using Cons.IH [of n1] by simp
qed

section \<open>Reading back\<close>

text \<open>Slots that leave room for each other.\<close>

fun ascending :: "int \<Rightarrow> (int \<times> int \<times> int \<times> int) list \<Rightarrow> bool" where
  "ascending at [] \<longleftrightarrow> True"
| "ascending at ((s, n, i, out) # ps) \<longleftrightarrow> at \<le> s \<and> 0 \<le> i \<and> i \<le> out \<and> n = out - i + 1 \<and> ascending (s + n) ps"

lemma ascending_slot:
  "ascending t (place_of_slot w # ps) \<longleftrightarrow>
     t \<le> w_start w \<and> 0 \<le> w_in w \<and> w_in w \<le> w_out w \<and> w_len w = w_out w - w_in w + 1 \<and> ascending (w_start w + w_len w) ps"
  by (simp add: place_of_slot_def)

text \<open>A node of a project that was read from what \<open>item_text\<close> writes.\<close>

definition read_from :: "'f library \<Rightarrow> doc \<Rightarrow> nat \<Rightarrow> playlist_item \<Rightarrow> bool" where
  "read_from lb d c i \<longleftrightarrow> (case i of
     Blank n \<Rightarrow> n_name (node_of (tree d) c) = lit ''blank'' \<and> attr (lit ''length'') (node_of (tree d) c) = Some (timecode (fl lb) (fps d) n)
   | Clip w \<Rightarrow> n_name (node_of (tree d) c) = lit ''entry'' \<and> attr (lit ''in'') (node_of (tree d) c) = Some (timecode (fl lb) (fps d) (w_in w)) \<and>
       attr (lit ''out'') (node_of (tree d) c) = Some (timecode (fl lb) (fps d) (w_out w)))"

definition placed_name :: "doc \<Rightarrow> nat \<Rightarrow> bool" where
  "placed_name d c \<longleftrightarrow> n_name (node_of (tree d) c) = lit ''blank'' \<or> n_name (node_of (tree d) c) = lit ''entry''"

lemma place_entries_filter: "place_entries lb d ln at cs = place_entries lb d ln at (filter (placed_name d) cs)"
  by (induction cs arbitrary: "at") (auto simp: placed_name_def Let_def)

lemma entry_not_blank: "lit ''entry'' \<noteq> lit ''blank''"
  by (simp add: lit_def)

lemma place_entries_read:
  assumes law: "\<And>n. 0 \<le> n \<Longrightarrow> n \<le> most \<Longrightarrow> parse_time (fl lb) (fps d) (timecode (fl lb) (fps d) n) = Some n"
  shows "list_all2 (read_from lb d) cs (playlist_items at ws) \<Longrightarrow> ascending at (map place_of_slot ws) \<Longrightarrow> 0 \<le> at \<Longrightarrow>
    (\<And>w. w \<in> set ws \<Longrightarrow> w_start w \<le> most \<and> w_out w \<le> most) \<Longrightarrow>
    map (\<lambda>e. (start e, entry_len e, in_frame e, out_frame e)) (place_entries lb d ln at cs) = map place_of_slot ws"
proof (induction ws arbitrary: "at" cs)
  case (Cons w ws)
  have "at \<le> w_start w \<and> 0 \<le> w_in w \<and> w_in w \<le> w_out w \<and> w_len w = w_out w - w_in w + 1 \<and>
      ascending (w_start w + w_len w) (map place_of_slot ws)"
    using Cons.prems(2) unfolding list.map ascending_slot .
  then have asc: "at \<le> w_start w" "0 \<le> w_in w" "w_in w \<le> w_out w" "w_len w = w_out w - w_in w + 1"
    "ascending (w_start w + w_len w) (map place_of_slot ws)"
    by blast+
  have le: "w_start w \<le> most" "w_out w \<le> most" "w_in w \<le> most" using Cons.prems(4) [of w] asc(3) by auto
  have nxt: "0 \<le> w_start w + w_len w" using Cons.prems(3) asc by simp
  have clip: "map (\<lambda>e. (start e, entry_len e, in_frame e, out_frame e)) (place_entries lb d ln (w_start w) cs') = map place_of_slot (w # ws)"
    if "list_all2 (read_from lb d) cs' (Clip w # playlist_items (w_start w + w_len w) ws)" for cs'
  proof -
    obtain c cs2 where cs': "cs' = c # cs2" and c: "read_from lb d c (Clip w)"
        and rest: "list_all2 (read_from lb d) cs2 (playlist_items (w_start w + w_len w) ws)"
      using \<open>list_all2 (read_from lb d) cs' (Clip w # playlist_items (w_start w + w_len w) ws)\<close> by (auto simp: list_all2_Cons2)
    let ?e = "entry_at lb d ln c (w_start w)"
    have e: "start ?e = w_start w" "in_frame ?e = w_in w" "out_frame ?e = w_out w"
      using c law le asc(2,3) by (simp_all add: read_from_def entry_at_def Let_def)
    have "entry_end ?e = w_start w + w_len w" using e asc(4) by (simp add: entry_end_def entry_len_def)
    then show ?thesis using Cons.IH [OF rest asc(5) nxt Cons.prems(4)] c e asc(4) entry_not_blank
      by (simp add: cs' read_from_def Let_def place_of_slot_def [of w] entry_len_def)
  qed
  show ?case
  proof (cases "at < w_start w")
    case True
    then obtain c cs2 where cs: "cs = c # cs2" and c: "read_from lb d c (Blank (w_start w - at))"
        and rest: "list_all2 (read_from lb d) cs2 (Clip w # playlist_items (w_start w + w_len w) ws)"
      using Cons.prems(1) by (auto simp: list_all2_Cons2)
    have "place_entries lb d ln at cs = place_entries lb d ln (w_start w) cs2"
      using c law [of "w_start w - at"] True le Cons.prems(3) by (simp add: cs read_from_def)
    then show ?thesis using clip [OF rest] by simp
  next
    case False
    then have "at = w_start w" using asc(1) by simp
    then show ?thesis using Cons.prems(1) clip by simp
  qed
qed simp

lemma row_ascending:
  "sorted_wrt (\<lambda>l m. laid_end l \<le> l_start m) ls \<Longrightarrow> (\<And>l. l \<in> set ls \<Longrightarrow> at \<le> l_start l \<and> 0 \<le> l_in l \<and> l_in l \<le> l_out l) \<Longrightarrow>
     ascending at (map place_of_laid ls)"
proof (induction ls arbitrary: "at")
  case (Cons l ls)
  have "ascending (laid_end l) (map place_of_laid ls)" by (rule Cons.IH) (use Cons.prems in auto)
  then show ?case using Cons.prems(2) [of l] by (simp add: place_of_laid_def [of l] laid_len_def laid_end_def)
qed simp

lemma thread_same:
  assumes "\<And>l w. g (fst (f l w)) = g l" and "thread_laid f ls w = (ls', w')"
  shows "map g ls' = map g ls"
  using assms(2)
proof (induction ls arbitrary: w ls' w')
  case (Cons l ls)
  obtain l1 w1 where l1: "f l w = (l1, w1)" by (cases "f l w")
  obtain ls2 w2 where ls2: "thread_laid f ls w1 = (ls2, w2)" by (cases "thread_laid f ls w1")
  have "g l1 = g l" using assms(1) [of l w] l1 by simp
  then show ?case using Cons.IH [OF ls2] Cons.prems l1 ls2 by auto
qed simp

text \<open>Naming chains moves nothing.\<close>

definition shape :: "'f laid \<Rightarrow> source \<times> int \<times> int \<times> int \<times> nat \<times> nat \<times> int option" where
  "shape l = (l_source l, l_start l, l_in l, l_out l, video_lane l, audio_lane l, mix_in l)"

lemma name_chains_shape:
  assumes "name_chains lb uuids d its ls = (ls', w)"
  shows "map shape ls' = map shape ls"
proof -
  obtain ls1 w1 where one: "thread_laid (add_media lb uuids d) ls (writing_start d) = (ls1, w1)"
    by (cases "thread_laid (add_media lb uuids d) ls (writing_start d)")
  have two: "thread_laid (add_piece d its) ls1 w1 = (ls', w)" using assms one by (simp add: name_chains_def)
  have "shape (fst (add_media lb uuids d l w)) = shape l" "shape (fst (add_piece d its l w)) = shape l" for l w
    by (auto simp: shape_def add_media_def add_piece_def split: source.split prod.split)
  then show ?thesis using thread_same [OF _ one] thread_same [OF _ two] by metis
qed


text \<open>An edit retrims a sound that was trimmed apart from its picture: when the picture and the sound of a clip show
  different frames, any accepted edit that keeps the clip as it is writes the sound with the picture's frames, so its playlist is rewritten.\<close>
theorem kept_sound_is_retrimmed:
  assumes "layout lb d its wanted = Inr (ls, ns)" and "name_chains lb uuids d its ls = (ls', w)" and "k < length wanted"
    and "p_source (wanted ! k) = Existing i" "p_in (wanted ! k) = None" "p_out (wanted ! k) = None"
    and "video (its ! i) = Some v" "audio (its ! i) = Some a" and "within_media d (its ! i)" and "(in_frame a, out_frame a) \<noteq> (in_frame v, out_frame v)"
  shows "\<exists>n' ln s. slot_of lb d its True wd (ls' ! k) n = (Some (ln, s), n') \<and> w_node s = Some (e_node a) \<and>
    (w_in s, w_out s) = (in_frame v, out_frame v) \<and> \<not> unchanged d a s"
proof -
  note nth = layout_nth [OF assms(1)] and same = name_chains_shape [OF assms(2)]
  have k: "k < length ls" using nth(1) assms(3) by simp
  have sh: "shape (ls' ! k) = shape (ls ! k)" using same k by (metis length_map nth_map)
  have e: "any_entry (its ! i) = v" using assms(7) by (simp add: any_entry_def)
  have r: "(l_in (ls' ! k), l_out (ls' ! k)) = (in_frame v, out_frame v)"
    using nth(6) [OF k] shown_untrimmed [OF assms(9,4-6)] sh e by (simp add: shape_def)
  have src: "l_source (ls' ! k) = Existing i" using nth(2) [OF k] assms(4) sh by (simp add: shape_def)
  have part: "part_of its True (ls' ! k) = Some (Some a, chain a)" using src assms(8) by (simp add: part_of_def)
  obtain g n' where g: "gain_of True (ls' ! k) n = (g, n')" by (cases "gain_of True (ls' ! k) n")
  show ?thesis using part g r assms(10) by (auto simp: slot_of_def unchanged_def)
qed

section \<open>On small projects\<close>

lemma two_written:
  "case layout demo two_clips two_items [placement_of (Existing 0), placement_of (Existing 1)] of
     Inr (ls, _) \<Rightarrow> (case name_chains demo demo_ids two_clips two_items ls of (ls', _) \<Rightarrow>
       list_all (\<lambda>l. l_start l \<le> 20 \<and> l_out l \<le> 20) ls' \<and> map place_of_laid (filter (on_playlist two_items True 2 0) ls') = [(0, 5, 0, 4), (7, 5, 5, 9)] \<and>
       list_all2 (read_from demo two_clips) (filter (placed_name two_clips) (children (node_of (tree two_clips) 7)))
         (playlist_items 0 (lane_slots demo two_clips two_items True 2 ls' 0 0)))
   | _ \<Rightarrow> False"
  by code_simp

lemma demo_time_law: "list_all (\<lambda>n. parse_time demo_floats \<lparr>num = 1, den = 1\<rparr> (timecode demo_floats \<lparr>num = 1, den = 1\<rparr> n) = Some n) (map int [0..<21])"
  by code_simp


lemma short_layout: "case layout demo short_sound short_items [placement_of (Existing 0)] of Inr (ls, ns) \<Rightarrow> True | _ \<Rightarrow> False"
  by code_simp

theorem kept_sound_is_retrimmed_witness:
  "\<exists>ls ns ls' w n' ln s. layout demo short_sound short_items [placement_of (Existing 0)] = Inr (ls, ns) \<and>
     name_chains demo demo_ids short_sound short_items ls = (ls', w) \<and>
     slot_of demo short_sound short_items True 1 (ls' ! 0) 0 = (Some (ln, s), n') \<and> w_out s = 4 \<and>
     \<not> unchanged short_sound (shows_clip 8 0 0 0 3) s"
proof -
  obtain ls ns where lay: "layout demo short_sound short_items [placement_of (Existing 0)] = Inr (ls, ns)"
    using short_layout by (auto split: sum.splits)
  obtain ls' w where nm: "name_chains demo demo_ids short_sound short_items ls = (ls', w)"
    by (cases "name_chains demo demo_ids short_sound short_items ls")
  have "within_media short_sound (short_items ! 0)" by code_simp
  from kept_sound_is_retrimmed [OF lay nm, of 0 0 "shows_clip 10 0 0 0 4" "shows_clip 8 0 0 0 3" 1 0, OF _ _ _ _ _ _ this] show ?thesis
    using lay nm by (fastforce simp: placement_of_def short_items_def shows_clip_def)
qed

end
