(* ===== verification/Owner_Devices.thy ===== *)
theory Owner_Devices
  imports Rust_Bytes "HOL-Library.Word"
begin

unbundle bit_operations_syntax

text \<open>
  The owner's devices and what lets a request in with a secret: \<open>owner/clients.rs\<close>, \<open>owner/pairing.rs\<close> and
  \<open>remote/auth.rs\<close>.  SHA-256 in hexadecimal is a function given as an argument, random numbers are arguments of the
  operations that draw them (\<open>None\<close> is the generator's failure), and so is whether writing the file succeeds.  An \<open>Instant\<close>
  is a number of milliseconds.
\<close>

section \<open>Comparing secrets\<close>

text \<open>\<open>token_matches\<close>: every byte is looked at.\<close>

definition differences :: "nat list \<Rightarrow> nat list \<Rightarrow> 8 word" where
  "differences a b = fold (\<lambda>(x, y) d. d OR (of_nat x XOR of_nat y)) (zip a b) 0"

definition token_matches :: "rstr \<Rightarrow> rstr \<Rightarrow> bool" where
  "token_matches expected provided =
    (let e = utf8_encode expected; p = utf8_encode provided in
     if length e \<noteq> length p \<or> e = [] then False else differences e p = 0)"

section \<open>Devices\<close>

datatype scope = Read | Drive | Approve | Settings

definition ALL_SCOPES :: "scope list" where
  "ALL_SCOPES = [Read, Drive, Approve, Settings]"

definition read_ops :: "rstr list" where
  "read_ops = map lit [''sessions.list'', ''session.get'', ''session.resync'', ''session.readFile'', ''chats.list'',
     ''chat.get'', ''chat.resync'', ''prompts.list'', ''wsl.distros'', ''jobs.types'', ''jobs.list'', ''jobs.get'', ''runs.list'',
     ''runs.get'', ''runs.current'', ''runs.resync'', ''debug.tail'', ''inference.queue'', ''tasks.list'', ''models.list'',
     ''app.mode'', ''home.cards'']"

definition drive_ops :: "rstr list" where
  "drive_ops = map lit [''session.open'', ''session.new'', ''session.send'', ''session.stop'', ''session.compact'',
     ''session.cancelShellWait'', ''chat.new'', ''chat.send'', ''chat.stop'', ''chat.continue'', ''chat.retry'', ''jobs.duplicate'',
     ''jobs.delete'', ''jobs.run'', ''run.cancel'', ''runs.delete'', ''tasks.cancel'', ''chat.delete'', ''chat.rename'', ''chat.memory'',
     ''chat.folder'', ''session.close'', ''session.delete'', ''session.fork'', ''session.rename'', ''session.effort'', ''session.model'',
     ''session.stopBackground'', ''models.probe'']"

definition approve_ops :: "rstr list" where
  "approve_ops = map lit [''prompts.answer'', ''jobs.create'', ''jobs.update'']"

definition settings_ops :: "rstr list" where
  "settings_ops = map lit [''settings.get'', ''settings.patch'']"

definition required_scope :: "rstr \<Rightarrow> scope option" where
  "required_scope t =
    (if t \<in> set read_ops then Some Read else if t \<in> set drive_ops then Some Drive
     else if t \<in> set approve_ops then Some Approve else if t \<in> set settings_ops then Some Settings else None)"

record owner_client =
  oc_id :: rstr
  oc_name :: rstr
  oc_scopes :: "scope list"
  oc_created_at :: int
  oc_last_seen :: "int option"

record stored =
  s_id :: rstr
  s_name :: rstr
  s_scopes :: "scope list"
  s_created_at :: int
  s_last_seen :: "int option"
  s_hash :: rstr

definition public :: "stored \<Rightarrow> owner_client" where
  "public d = \<lparr>oc_id = s_id d, oc_name = s_name d, oc_scopes = s_scopes d, oc_created_at = s_created_at d, oc_last_seen = s_last_seen d\<rparr>"

definition SEEN_SAVE_INTERVAL :: nat where "SEEN_SAVE_INTERVAL = 60 * 1000"
definition TOKEN_PREFIX :: rstr where "TOKEN_PREFIX = lit ''hsx_''"

text \<open>\<open>Inner\<close> with the file beside it: the devices last written, none when there is no file.\<close>

record clients =
  devices :: "stored list"
  last_save :: nat
  dirty :: bool
  on_disk :: "stored list option"

text \<open>What a call finds: the clock, the wall clock in seconds, and the error a write of the file would give, if any.\<close>

record env =
  now :: nat
  wall :: int
  write_error :: "rstr option"

datatype file_read = NoFile | Unreadable rstr | Holds "stored list"

definition load_clients :: "env \<Rightarrow> file_read \<Rightarrow> rstr + clients" where
  "load_clients ev f = (case f of
     NoFile \<Rightarrow> Inr \<lparr>devices = [], last_save = now ev, dirty = False, on_disk = None\<rparr>
   | Unreadable e \<Rightarrow> Inl e
   | Holds ds \<Rightarrow> Inr \<lparr>devices = ds, last_save = now ev, dirty = False, on_disk = Some ds\<rparr>)"

definition save_clients :: "env \<Rightarrow> clients \<Rightarrow> (rstr + unit) \<times> clients" where
  "save_clients ev c =
    (let c = c\<lparr>last_save := now ev, dirty := False\<rparr> in
     case write_error ev of None \<Rightarrow> (Inr (), c\<lparr>on_disk := Some (devices c)\<rparr>) | Some e \<Rightarrow> (Inl e, c))"

definition rng_failed :: rstr where
  "rng_failed = lit ''the system random number generator failed''"

definition create :: "(rstr \<Rightarrow> rstr) \<Rightarrow> env \<Rightarrow> rstr option \<Rightarrow> rstr option \<Rightarrow> rstr \<Rightarrow> scope list \<Rightarrow> clients \<Rightarrow>
    (rstr + owner_client \<times> rstr) \<times> clients" where
  "create H ev rnd_token rnd_id name scopes c =
    (let name = trim name in
     if name = [] then (Inl (lit ''give the device a name''), c)
     else if 60 < length name then (Inl (lit ''a device name is at most 60 characters''), c)
     else if scopes = [] then (Inl (lit ''a device needs at least one permission''), c)
     else (case (rnd_token, rnd_id) of
         (Some t, Some i) \<Rightarrow>
           (let tok = TOKEN_PREFIX @ t;
                d = \<lparr>s_id = i, s_name = name, s_scopes = remdups_adj (filter (\<lambda>s. s \<in> set scopes) ALL_SCOPES), s_created_at = wall ev,
                     s_last_seen = None, s_hash = H tok\<rparr>
            in case save_clients ev (c\<lparr>devices := devices c @ [d]\<rparr>) of
                 (Inl e, c') \<Rightarrow> (Inl e, c') | (Inr _, c') \<Rightarrow> (Inr (public d, tok), c'))
       | _ \<Rightarrow> (Inl rng_failed, c)))"

definition rotate_token :: "(rstr \<Rightarrow> rstr) \<Rightarrow> env \<Rightarrow> rstr option \<Rightarrow> rstr \<Rightarrow> clients \<Rightarrow> (rstr + owner_client \<times> rstr) \<times> clients" where
  "rotate_token H ev rnd_token i c = (case rnd_token of
     None \<Rightarrow> (Inl rng_failed, c)
   | Some t \<Rightarrow> (case position (\<lambda>d. s_id d = i) (devices c) of
       None \<Rightarrow> (Inl (lit ''no such device''), c)
     | Some k \<Rightarrow>
        (let tok = TOKEN_PREFIX @ t; d = (devices c ! k)\<lparr>s_hash := H tok\<rparr> in
         case save_clients ev (c\<lparr>devices := (devices c)[k := d]\<rparr>) of
           (Inl e, c') \<Rightarrow> (Inl e, c') | (Inr _, c') \<Rightarrow> (Inr (public d, tok), c'))))"

definition revoke :: "env \<Rightarrow> rstr \<Rightarrow> clients \<Rightarrow> (rstr + bool) \<times> clients" where
  "revoke ev i c =
    (let kept = filter (\<lambda>d. s_id d \<noteq> i) (devices c); removed = length kept \<noteq> length (devices c); c = c\<lparr>devices := kept\<rparr> in
     if removed then (case save_clients ev c of (Inl e, c') \<Rightarrow> (Inl e, c') | (Inr _, c') \<Rightarrow> (Inr removed, c'))
     else (Inr removed, c))"

text \<open>Every stored hash is compared; the last match counts.\<close>

definition authenticate :: "(rstr \<Rightarrow> rstr) \<Rightarrow> env \<Rightarrow> rstr \<Rightarrow> clients \<Rightarrow> owner_client option \<times> clients" where
  "authenticate H ev tok c =
    (let tok = trim tok in
     if \<not> prefix TOKEN_PREFIX tok then (None, c)
     else (case rposition (\<lambda>d. token_matches (s_hash d) (H tok)) (devices c) of
       None \<Rightarrow> (None, c)
     | Some k \<Rightarrow>
        (let d = (devices c ! k)\<lparr>s_last_seen := Some (wall ev)\<rparr>;
             c = c\<lparr>devices := (devices c)[k := d], dirty := True\<rparr>;
             c = (if SEEN_SAVE_INTERVAL \<le> now ev - last_save c then snd (save_clients ev c) else c)
         in (Some (public d), c))))"

definition flush_clients :: "env \<Rightarrow> clients \<Rightarrow> clients" where
  "flush_clients ev c = (if dirty c then snd (save_clients ev c) else c)"

definition list_clients :: "clients \<Rightarrow> owner_client list" where
  "list_clients c = map public (devices c)"

section \<open>Pairing codes\<close>

definition CODE_LIFETIME :: nat where "CODE_LIFETIME = 10 * 60 * 1000"

text \<open>A code's token and when it expires.\<close>

type_synonym codes = "(rstr \<times> rstr \<times> nat) list"

definition issue :: "env \<Rightarrow> rstr option \<Rightarrow> rstr \<Rightarrow> codes \<Rightarrow> (rstr + rstr) \<times> codes" where
  "issue ev rnd tok cs = (case rnd of
     None \<Rightarrow> (Inl rng_failed, cs)
   | Some code \<Rightarrow> (Inr code, AList.update code (tok, now ev + CODE_LIFETIME) (store_retain (\<lambda>_ (_, expires). now ev < expires) cs)))"

definition redeem :: "env \<Rightarrow> rstr \<Rightarrow> codes \<Rightarrow> rstr option \<times> codes" where
  "redeem ev code cs = (case map_of cs (trim code) of
     None \<Rightarrow> (None, cs)
   | Some (tok, expires) \<Rightarrow> (if now ev < expires then Some tok else None, AList.delete (trim code) cs))"

section \<open>Headers and the guest link\<close>

text \<open>A request's headers in order, the names in lower case; \<open>None\<close> is a value that is not visible ASCII.\<close>

type_synonym headers = "(rstr \<times> rstr option) list"

definition header_str :: "headers \<Rightarrow> string \<Rightarrow> rstr option" where
  "header_str hs k = Option.bind (map_of hs (lit k)) (\<lambda>v. v)"

definition cookie :: "headers \<Rightarrow> rstr \<Rightarrow> rstr option" where
  "cookie hs name =
    (let values = List.map_filter snd (filter (\<lambda>(k, _). k = lit ''cookie'') hs);
         pairs = List.map_filter (split_once 61) (concat (map (split_char 59) values))
     in map_option (\<lambda>(_, v). trim v) (List.find (\<lambda>(k, _). trim k = name) pairs))"

datatype proof_of = Bearer | Link | Cookie

definition TOKEN_COOKIE :: rstr where "TOKEN_COOKIE = lit ''haruspex_remote''"
definition COOKIE_MAX_AGE_SECS :: nat where "COOKIE_MAX_AGE_SECS = 30 * 86400"

definition bearer :: "headers \<Rightarrow> rstr option" where
  "bearer hs = Option.bind (header_str hs ''authorization'') (\<lambda>v. Option.bind (strip_prefix (lit ''Bearer '') v)
     (\<lambda>r. if trim r = [] then None else Some (trim r)))"

text \<open>The token of the query: the first \<open>t\<close> with a value, percent-decoded.\<close>

definition query_token :: "(rstr \<Rightarrow> rstr option) \<Rightarrow> rstr \<Rightarrow> rstr option" where
  "query_token decode q =
     Option.bind (map_of (List.map_filter (split_once 61) (split_char 38 q)) (lit ''t'')) decode"

definition cookie_value :: "(rstr \<Rightarrow> rstr) \<Rightarrow> rstr \<Rightarrow> rstr" where
  "cookie_value H token = H (lit ''haruspex-guest-cookie:'' @ token)"

definition guest_cookie :: "(rstr \<Rightarrow> rstr) \<Rightarrow> rstr \<Rightarrow> rstr" where
  "guest_cookie H token = TOKEN_COOKIE @ [61] @ cookie_value H token @ lit ''; Path=/; Max-Age='' @ decimal COOKIE_MAX_AGE_SECS @
     lit ''; SameSite=Lax; HttpOnly; Secure''"

definition matches_opt :: "rstr \<Rightarrow> rstr option \<Rightarrow> bool" where
  "matches_opt expected p = (case p of Some x \<Rightarrow> token_matches expected x | None \<Rightarrow> False)"

definition check_proof :: "(rstr \<Rightarrow> rstr) \<Rightarrow> (rstr \<Rightarrow> rstr option) \<Rightarrow> headers \<Rightarrow> rstr option \<Rightarrow> rstr \<Rightarrow> bool \<Rightarrow> proof_of option" where
  "check_proof H decode hs query token allow_link =
    (if matches_opt token (bearer hs) then Some Bearer
     else if allow_link \<and> matches_opt token (Option.bind query (query_token decode)) then Some Link
     else if matches_opt (cookie_value H token) (cookie hs TOKEN_COOKIE) then Some Cookie
     else None)"

end
