(* ===== verification/Owner_Trust.thy ===== *)
theory Owner_Trust
  imports Owner_Devices "HOL-Library.List_Lexorder"
begin

text \<open>
  Who may connect with no token: \<open>owner/trust.rs\<close>.  An address is its octets or its eight segments; the parser and the
  printer are those of \<open>std::net::IpAddr\<close>.  The system's lookup of a host name is an argument and takes no time, and so is
  this computer's own name.
\<close>

section \<open>Internet addresses\<close>

datatype ip = V4 "8 word" "8 word" "8 word" "8 word" | V6 "16 word list"

definition digit_of :: "nat \<Rightarrow> rchar \<Rightarrow> nat option" where
  "digit_of radix c =
    (let v = (if 48 \<le> c \<and> c \<le> 57 then Some (c - 48) else if 97 \<le> c \<and> c \<le> 122 then Some (c - 87)
              else if 65 \<le> c \<and> c \<le> 90 then Some (c - 55) else None)
     in case v of Some d \<Rightarrow> if d < radix then Some d else None | None \<Rightarrow> None)"

definition read_number :: "nat \<Rightarrow> nat \<Rightarrow> bool \<Rightarrow> nat \<Rightarrow> rstr \<Rightarrow> (nat \<times> rstr) option" where
  "read_number radix max_digits zero_prefix limit s =
    (let ds = takeWhile (\<lambda>c. digit_of radix c \<noteq> None) s;
         n = foldl (\<lambda>n c. n * radix + the (digit_of radix c)) 0 ds
     in if ds = [] \<or> max_digits < length ds \<or> (\<not> zero_prefix \<and> hd ds = 48 \<and> 1 < length ds) \<or> limit < n then None
        else Some (n, drop (length ds) s))"

definition read_separator :: "rchar \<Rightarrow> nat \<Rightarrow> rstr \<Rightarrow> rstr option" where
  "read_separator sep i s = (if i = 0 then Some s else strip_prefix [sep] s)"

fun read_octets :: "nat \<Rightarrow> nat \<Rightarrow> rstr \<Rightarrow> (nat list \<times> rstr) option" where
  "read_octets i 0 s = Some ([], s)"
| "read_octets i (Suc k) s = Option.bind (read_separator 46 i s) (\<lambda>s. Option.bind (read_number 10 3 False 255 s) (\<lambda>(n, s).
     map_option (\<lambda>(ns, s). (n # ns, s)) (read_octets (i + 1) k s)))"

text \<open>Up to \<open>k\<close> groups from the \<open>i\<close>-th on, an IPv4 address taking the place of two, and whether one was read.\<close>

fun read_groups :: "nat \<Rightarrow> nat \<Rightarrow> rstr \<Rightarrow> (16 word list \<times> bool) \<times> rstr" where
  "read_groups i 0 s = (([], False), s)"
| "read_groups i (Suc k) s =
    (case (if 0 < k then Option.bind (read_separator 58 i s) (read_octets 0 4) else None) of
       Some (os, s') \<Rightarrow> (([of_nat (os ! 0 * 256 + os ! 1), of_nat (os ! 2 * 256 + os ! 3)], True), s')
     | None \<Rightarrow>
        (case Option.bind (read_separator 58 i s) (read_number 16 4 True 65535) of
           Some (g, s') \<Rightarrow> (let ((gs, v4), t) = read_groups (i + 1) k s' in ((of_nat g # gs, v4), t))
         | None \<Rightarrow> (([], False), s)))"

definition read_ipv6 :: "rstr \<Rightarrow> (16 word list \<times> rstr) option" where
  "read_ipv6 s =
    (let ((front, v4), s) = read_groups 0 8 s in
     if length front = 8 then Some (front, s)
     else if v4 then None
     else (case strip_prefix [58, 58] s of
       None \<Rightarrow> None
     | Some s \<Rightarrow> (let ((tail, _), s) = read_groups 0 (7 - length front) s
                 in Some (front @ replicate (8 - length front - length tail) 0 @ tail, s))))"

definition parse_ip :: "rstr \<Rightarrow> ip option" where
  "parse_ip s = (case read_octets 0 4 s of
     Some (os, r) \<Rightarrow> if r = [] then Some (V4 (of_nat (os ! 0)) (of_nat (os ! 1)) (of_nat (os ! 2)) (of_nat (os ! 3))) else None
   | None \<Rightarrow> (case read_ipv6 s of Some (gs, r) \<Rightarrow> if r = [] then Some (V6 gs) else None | None \<Rightarrow> None))"

fun hex_number :: "nat \<Rightarrow> rstr" where
  "hex_number n = (let d = n mod 16; c = (if d < 10 then 48 + d else 87 + d) in if n < 16 then [c] else hex_number (n div 16) @ [c])"

declare hex_number.simps [simp del]

definition join_segments :: "16 word list \<Rightarrow> rstr" where
  "join_segments gs = join [58] (map (\<lambda>g. hex_number (unat g)) gs)"

text \<open>The first longest run of zero segments: where it starts and how long it is.\<close>

definition longest_zeroes :: "16 word list \<Rightarrow> nat \<times> nat" where
  "longest_zeroes gs = snd (fold (\<lambda>i (cur, best).
     if gs ! i = 0 then (let cur = (if snd cur = 0 then (i, 1) else (fst cur, snd cur + 1)) in (cur, if snd best < snd cur then cur else best))
     else ((0, 0), best)) [0..<length gs] ((0, 0), (0, 0)))"

definition to_ipv4_mapped :: "16 word list \<Rightarrow> ip option" where
  "to_ipv4_mapped gs = (if take 6 gs = [0, 0, 0, 0, 0, 0xffff]
     then Some (V4 (of_nat (unat (gs ! 6) div 256)) (of_nat (unat (gs ! 6))) (of_nat (unat (gs ! 7) div 256)) (of_nat (unat (gs ! 7))))
     else None)"

definition show_v4 :: "ip \<Rightarrow> rstr" where
  "show_v4 a = (case a of V4 p q r s \<Rightarrow> join [46] (map (\<lambda>o'. decimal (unat o')) [p, q, r, s]) | V6 _ \<Rightarrow> [])"

definition show_ip :: "ip \<Rightarrow> rstr" where
  "show_ip a = (case a of
     V4 p q r s \<Rightarrow> show_v4 a
   | V6 gs \<Rightarrow> (case to_ipv4_mapped gs of
       Some v4 \<Rightarrow> lit ''::ffff:'' @ show_v4 v4
     | None \<Rightarrow> (let (st, n) = longest_zeroes gs in
         if 1 < n then join_segments (take st gs) @ [58, 58] @ join_segments (drop (st + n) gs) else join_segments gs)))"

text \<open>The order of \<open>IpAddr\<close>: IPv4 first, then by octets or segments.\<close>

fun ip_key :: "ip \<Rightarrow> nat list" where
  "ip_key (V4 p q r s) = [4, unat p, unat q, unat r, unat s]"
| "ip_key (V6 gs) = 6 # map unat gs"

lemma ip_key_inj: "ip_key a = ip_key b \<Longrightarrow> a = b"
proof -
  have "inj (unat :: 16 word \<Rightarrow> nat)" by (auto simp: inj_def word_unat_eq_iff)
  then show "ip_key a = ip_key b \<Longrightarrow> a = b"
    by (cases a; cases b) (auto simp: inj_map_eq_map word_unat_eq_iff)
qed

instantiation ip :: linorder
begin

definition less_eq_ip :: "ip \<Rightarrow> ip \<Rightarrow> bool" where "less_eq_ip a b \<longleftrightarrow> ip_key a \<le> ip_key b"
definition less_ip :: "ip \<Rightarrow> ip \<Rightarrow> bool" where "less_ip a b \<longleftrightarrow> ip_key a < ip_key b"

instance
  by standard (auto simp: less_eq_ip_def less_ip_def intro: ip_key_inj)

end

text \<open>\<open>is_private\<close>, \<open>is_link_local\<close>, \<open>is_loopback\<close> of the standard library, written out.\<close>

definition is_local_v4 :: "8 word \<Rightarrow> 8 word \<Rightarrow> bool" where
  "is_local_v4 p q \<longleftrightarrow> p = 10 \<or> (p = 172 \<and> 16 \<le> q \<and> q \<le> 31) \<or> (p = 192 \<and> q = 168) \<or> (p = 169 \<and> q = 254) \<or> p = 127"

definition is_local_network :: "ip \<Rightarrow> bool" where
  "is_local_network a = (case a of
     V4 p q _ _ \<Rightarrow> is_local_v4 p q
   | V6 gs \<Rightarrow> (case to_ipv4_mapped gs of
       Some (V4 p q _ _) \<Rightarrow> is_local_v4 p q
     | _ \<Rightarrow> gs = [0, 0, 0, 0, 0, 0, 0, 1] \<or> hd gs AND 0xfe00 = 0xfc00 \<or> hd gs AND 0xffc0 = 0xfe80))"

section \<open>The \<open>Host\<close> header\<close>

definition split_once_str :: "rstr \<Rightarrow> rstr \<Rightarrow> (rstr \<times> rstr) option" where
  "split_once_str pat s = map_option (\<lambda>i. (take i s, drop (i + length pat) s)) (str_find pat s)"

definition rsplit_once :: "rchar \<Rightarrow> rstr \<Rightarrow> (rstr \<times> rstr) option" where
  "rsplit_once c s = (if c \<in> set s
     then (let b = after_last (\<lambda>x. x = c) s in Some (take (length s - length b - 1) s, b)) else None)"

definition host_name :: "rstr \<Rightarrow> rstr" where
  "host_name host =
    (let host = trim host in
     case strip_prefix [91] host of
       Some rest \<Rightarrow> takeWhile (\<lambda>c. c \<noteq> 93) rest
     | None \<Rightarrow> (case rsplit_once 58 host of
         Some (name, port) \<Rightarrow> if list_all is_ascii_digit port then name else host
       | None \<Rightarrow> host))"

definition trim_dots :: "rstr \<Rightarrow> rstr" where
  "trim_dots s = trim_end_matches (\<lambda>c. c = 46) s"

definition host_is_ours :: "rstr \<Rightarrow> rstr option \<Rightarrow> rstr option \<Rightarrow> bool" where
  "host_is_ours host own_name extra =
    (let name = to_ascii_lowercase (trim_dots (host_name host)) in
     if name = [] then False
     else if parse_ip name \<noteq> None \<or> name = lit ''localhost'' then True
     else if (case own_name of None \<Rightarrow> False
         | Some o' \<Rightarrow> (let own = to_ascii_lowercase o'; short = takeWhile (\<lambda>c. c \<noteq> 46) own
            in name = own \<or> name = short \<or> name = short @ lit ''.local'')) then True
     else (case extra of None \<Rightarrow> False
         | Some e \<Rightarrow> (let e = trim e; e = (case split_once_str (lit ''://'') e of Some (_, rest) \<Rightarrow> rest | None \<Rightarrow> e)
            in eq_ignore_ascii_case (trim_dots (host_name (takeWhile (\<lambda>c. c \<noteq> 47) e))) name)))"

section \<open>Trusted computers\<close>

definition RESOLVE_EVERY :: nat where "RESOLVE_EVERY = 60 * 1000"

datatype access_mode = Tokens | Trusted | Lan

record owner_access =
  oa_mode :: access_mode
  oa_trusted_hosts :: "rstr list"
  oa_extra_host :: "rstr option"
  oa_trusted_settings :: bool

record trust =
  tr_access :: owner_access
  tr_resolved :: "(rstr \<times> nat \<times> ip list) list"

definition trust_default :: trust where
  "trust_default = \<lparr>tr_access = \<lparr>oa_mode = Tokens, oa_trusted_hosts = [], oa_extra_host = None, oa_trusted_settings = False\<rparr>, tr_resolved = []\<rparr>"

definition set_access :: "owner_access \<Rightarrow> trust \<Rightarrow> trust" where
  "set_access a tr =
    (let tr = (if oa_trusted_hosts (tr_access tr) \<noteq> oa_trusted_hosts a then tr\<lparr>tr_resolved := []\<rparr> else tr) in tr\<lparr>tr_access := a\<rparr>)"

definition addresses :: "nat \<Rightarrow> (rstr \<Rightarrow> ip list option) \<Rightarrow> rstr \<Rightarrow> trust \<Rightarrow> ip list \<times> trust" where
  "addresses t lookup name tr =
    (let name = trim name in
     case parse_ip name of
       Some a \<Rightarrow> ([a], tr)
     | None \<Rightarrow>
        (case (case map_of (tr_resolved tr) name of
                 Some (since, ips) \<Rightarrow> if t - since < RESOLVE_EVERY then Some ips else None | None \<Rightarrow> None) of
           Some ips \<Rightarrow> (ips, tr)
         | None \<Rightarrow>
            (let ips = (case lookup name of Some found \<Rightarrow> remdups_adj (sort found) | None \<Rightarrow> [])
             in (ips, tr\<lparr>tr_resolved := AList.update name (t, ips) (tr_resolved tr)\<rparr>))))"

text \<open>\<open>V6\<close> peers that are IPv4 ones in disguise are taken as those.\<close>

definition canonical :: "ip \<Rightarrow> ip" where
  "canonical a = (case a of V4 _ _ _ _ \<Rightarrow> a | V6 gs \<Rightarrow> (case to_ipv4_mapped gs of Some v \<Rightarrow> v | None \<Rightarrow> a))"

fun any_address :: "nat \<Rightarrow> (rstr \<Rightarrow> ip list option) \<Rightarrow> ip \<Rightarrow> rstr list \<Rightarrow> trust \<Rightarrow> bool \<times> trust" where
  "any_address t lookup peer [] tr = (False, tr)"
| "any_address t lookup peer (h # hs) tr =
    (let (ips, tr) = addresses t lookup h tr in if peer \<in> set ips then (True, tr) else any_address t lookup peer hs tr)"

definition trusts :: "nat \<Rightarrow> (rstr \<Rightarrow> ip list option) \<Rightarrow> ip \<Rightarrow> trust \<Rightarrow> bool \<times> trust" where
  "trusts t lookup peer tr = (case oa_mode (tr_access tr) of
     Tokens \<Rightarrow> (False, tr)
   | Lan \<Rightarrow> (is_local_network (canonical peer), tr)
   | Trusted \<Rightarrow> any_address t lookup (canonical peer) (oa_trusted_hosts (tr_access tr)) tr)"

fun resolve_hosts :: "nat \<Rightarrow> (rstr \<Rightarrow> ip list option) \<Rightarrow> rstr list \<Rightarrow> trust \<Rightarrow> (rstr \<times> rstr list) list \<times> trust" where
  "resolve_hosts t lookup [] tr = ([], tr)"
| "resolve_hosts t lookup (h # hs) tr =
    (let (ips, tr) = addresses t lookup h tr; (rest, tr) = resolve_hosts t lookup hs tr in ((h, map show_ip ips) # rest, tr))"

definition resolve_all :: "nat \<Rightarrow> (rstr \<Rightarrow> ip list option) \<Rightarrow> trust \<Rightarrow> (rstr \<times> rstr list) list \<times> trust" where
  "resolve_all t lookup tr = resolve_hosts t lookup (oa_trusted_hosts (tr_access tr)) tr"

end
