(* ===== verification/Owner_Server.thy ===== *)
theory Owner_Server
  imports Owner_Trust
begin

text \<open>
  The owner's API: \<open>owner/server.rs\<close>, with the byte ranges of \<open>audio_cache/range.rs\<close>, the device commands of
  \<open>owner/commands.rs\<close> and the guest server's \<open>admit\<close> and \<open>index\<close> (\<open>remote/server.rs\<close>).  A handler gives its
  answer, the calls it made to the services behind it in order, and the new state.  The services, the disk, the parser of
  JSON and SHA-256 are arguments.  \<open>authorise_with\<close> is cut in two at its \<open>await\<close>, where other requests may run.
\<close>

section \<open>Wrong tokens\<close>

definition THROTTLE_FAILURES :: nat where "THROTTLE_FAILURES = 10"
definition THROTTLE_WINDOW :: nat where "THROTTLE_WINDOW = 60 * 1000"

text \<open>For each address, when its window began and how many failures it holds.\<close>

type_synonym throttle = "(ip \<times> nat \<times> nat) list"

definition blocked :: "nat \<Rightarrow> ip \<Rightarrow> throttle \<Rightarrow> bool" where
  "blocked t a m = (case map_of m a of
     Some (start, n) \<Rightarrow> THROTTLE_FAILURES \<le> n \<and> t - start < THROTTLE_WINDOW | None \<Rightarrow> False)"

definition throttle_fail :: "nat \<Rightarrow> ip \<Rightarrow> throttle \<Rightarrow> throttle" where
  "throttle_fail t a m =
    (let m = (if 1024 < length m then store_retain (\<lambda>_ (start, _). t - start < THROTTLE_WINDOW) m else m);
         (start, n) = (case map_of m a of Some e \<Rightarrow> e | None \<Rightarrow> (t, 0));
         (start, n) = (if THROTTLE_WINDOW \<le> t - start then (t, 0) else (start, n))
     in AList.update a (start, n + 1) m)"

section \<open>State and answers\<close>

record owner_state =
  os_clients :: clients
  os_codes :: codes
  os_throttle :: throttle
  os_trust :: trust

datatype content = Engine_value rstr | Image_rows "(rstr \<times> rstr) list" | Stored_as rstr | Bytes "nat list" | Page rstr
  | Event_stream | Plain_ok | Health rstr | Empty

datatype response = Refuse nat rstr | Reply nat "(rstr \<times> rstr) list" content

datatype service_call = Dispatched "nat list" | Subscribed | Looked_up "rstr list" | Image_read rstr | Kept_image "nat list"
  | Audio_read rstr

text \<open>What the handlers read of a JSON body: \<open>type\<close> and \<open>code\<close> where they are strings, \<open>urls\<close> where it is an array.\<close>

record json_body =
  jb_type :: "rstr option"
  jb_code :: "rstr option"
  jb_urls :: "rstr option list option"

text \<open>The engine, the image cache and the audio cache; JSON is its text, and \<open>sv_debug\<close> is \<open>{:?}\<close> of a string.  A file's content is \<open>None\<close> when it cannot be read.\<close>

record services =
  sv_debug :: "rstr \<Rightarrow> rstr"
  sv_json :: "nat list \<Rightarrow> json_body option"
  sv_op :: "nat list \<Rightarrow> rstr + rstr"
  sv_lookup :: "rstr list \<Rightarrow> (rstr \<times> rstr) list"
  sv_bytes :: "rstr \<Rightarrow> (rstr \<times> nat list) option"
  sv_store :: "nat list \<Rightarrow> rstr + rstr"
  sv_audio :: "rstr \<Rightarrow> (rstr \<times> nat list option) option"

text \<open>What a request meets: SHA-256, the clock and disk, the lookup of names, and this computer's name.\<close>

record world =
  w_hash :: "rstr \<Rightarrow> rstr"
  w_env :: env
  w_lookup :: "rstr \<Rightarrow> ip list option"
  w_own :: "rstr option"

section \<open>Who is asking\<close>

definition OWNER_COOKIE :: rstr where "OWNER_COOKIE = lit ''haruspex_owner''"

definition cross_site :: "headers \<Rightarrow> bool" where
  "cross_site hs = (case header_str hs ''origin'' of
     None \<Rightarrow> False
   | Some origin \<Rightarrow>
      (let host = (case header_str hs ''host'' of Some h \<Rightarrow> h | None \<Rightarrow> []);
           authority = (case split_once_str (lit ''://'') origin of Some (_, a) \<Rightarrow> a | None \<Rightarrow> origin)
       in \<not> eq_ignore_ascii_case authority host))"

definition trusted_client :: "ip \<Rightarrow> bool \<Rightarrow> owner_client" where
  "trusted_client a settings =
    \<lparr>oc_id = lit ''trusted:'' @ show_ip a, oc_name = show_ip a, oc_scopes = filter (\<lambda>s. settings \<or> s \<noteq> Settings) ALL_SCOPES,
     oc_created_at = 0, oc_last_seen = None\<rparr>"

datatype verdict = Turned_away nat rstr | Let_in owner_client

text \<open>Up to the \<open>await\<close>: a verdict, or whether the header was there when only trust can still let the request in.\<close>

definition no_header :: verdict where
  "no_header = Turned_away 403 (lit ''missing X-Haruspex header'')"

definition offered :: "headers \<Rightarrow> bool \<Rightarrow> verdict + rstr option" where
  "offered hs has_header = (case Option.bind (header_str hs ''authorization'') (strip_prefix (lit ''Bearer '')) of
     Some t \<Rightarrow> Inr (Some t)
   | None \<Rightarrow> (case cookie hs OWNER_COOKIE of
       Some t \<Rightarrow> if has_header then Inr (Some t) else Inl no_header
     | None \<Rightarrow> Inr None))"

definition csrf_header :: "headers \<Rightarrow> bool \<Rightarrow> bool" where
  "csrf_header hs need = (\<not> need \<or> header_str hs ''x-haruspex'' = Some (lit ''1''))"

definition authorise_begin :: "world \<Rightarrow> ip \<Rightarrow> headers \<Rightarrow> bool \<Rightarrow> owner_state \<Rightarrow> (verdict + bool) \<times> owner_state" where
  "authorise_begin w a hs need_header st =
    (if cross_site hs then (Inl (Turned_away 403 (lit ''cross-site requests are refused'')), st)
     else if blocked (now (w_env w)) a (os_throttle st) then (Inl (Turned_away 429 (lit ''too many wrong tokens; wait a minute'')), st)
     else (let has_header = csrf_header hs need_header in
       case offered hs has_header of
         Inl v \<Rightarrow> (Inl v, st)
       | Inr None \<Rightarrow> (Inr has_header, st)
       | Inr (Some t) \<Rightarrow> (case authenticate (w_hash w) (w_env w) t (os_clients st) of
             (Some c, cl) \<Rightarrow> (Inl (Let_in c), st\<lparr>os_clients := cl\<rparr>)
           | (None, cl) \<Rightarrow> (Inr has_header, st\<lparr>os_clients := cl\<rparr>))))"

definition host_header :: "headers \<Rightarrow> rstr" where
  "host_header hs = (case header_str hs ''host'' of Some h \<Rightarrow> h | None \<Rightarrow> [])"

definition unknown_name :: rstr where
  "unknown_name = lit ''this computer isn't known by that name: add it as the link address in Settings '' @ [0x2192] @ lit '' Remote control''"

text \<open>From the \<open>await\<close> on.\<close>

definition authorise_end :: "world \<Rightarrow> ip \<Rightarrow> headers \<Rightarrow> bool \<Rightarrow> owner_state \<Rightarrow> verdict \<times> owner_state" where
  "authorise_end w a hs has_header st =
    (let (trusted, tr) = trusts (now (w_env w)) (w_lookup w) a (os_trust st); st = st\<lparr>os_trust := tr\<rparr> in
     if trusted then
       (if \<not> has_header then (no_header, st)
        else if \<not> host_is_ours (host_header hs) (w_own w) (oa_extra_host (tr_access tr))
        then (Turned_away 403 unknown_name, st)
        else (Let_in (trusted_client a (oa_trusted_settings (tr_access tr))), st))
     else (Turned_away 401 (lit ''a device token is needed''), st\<lparr>os_throttle := throttle_fail (now (w_env w)) a (os_throttle st)\<rparr>))"

definition authorise_with :: "world \<Rightarrow> ip \<Rightarrow> headers \<Rightarrow> bool \<Rightarrow> owner_state \<Rightarrow> verdict \<times> owner_state" where
  "authorise_with w a hs need_header st = (case authorise_begin w a hs need_header st of
     (Inl v, st) \<Rightarrow> (v, st)
   | (Inr has_header, st) \<Rightarrow> authorise_end w a hs has_header st)"

definition authorise :: "world \<Rightarrow> ip \<Rightarrow> headers \<Rightarrow> owner_state \<Rightarrow> verdict \<times> owner_state" where
  "authorise w a hs st = authorise_with w a hs True st"

definition missing :: "owner_client \<Rightarrow> scope \<Rightarrow> response option" where
  "missing c s = (if s \<in> set (oc_scopes c) then None
     else Some (Refuse 403 (lit ''this device may not '' @ (case s of Read \<Rightarrow> lit ''read sessions'' | Drive \<Rightarrow> lit ''drive sessions''
       | Approve \<Rightarrow> lit ''answer prompts'' | Settings \<Rightarrow> lit ''change settings''))))"

section \<open>Handlers\<close>

definition pair_h :: "world \<Rightarrow> services \<Rightarrow> ip \<Rightarrow> headers \<Rightarrow> nat list \<Rightarrow> owner_state \<Rightarrow> response \<times> owner_state" where
  "pair_h w sv a hs body st =
    (if cross_site hs then (Refuse 403 (lit ''cross-site requests are refused''), st)
     else if blocked (now (w_env w)) a (os_throttle st) then (Refuse 429 (lit ''too many wrong codes; wait a minute''), st)
     else (let code = (case Option.bind (sv_json sv body) jb_code of Some c \<Rightarrow> c | None \<Rightarrow> []);
               (found, cs) = redeem (w_env w) code (os_codes st); st = st\<lparr>os_codes := cs\<rparr>
       in case found of
         None \<Rightarrow> (Refuse 401 (lit ''that link has expired or was used already: make a new one in Settings '' @ [0x2192] @ lit '' Remote control''),
                  st\<lparr>os_throttle := throttle_fail (now (w_env w)) a (os_throttle st)\<rparr>)
       | Some tok \<Rightarrow> (Reply 200 [(lit ''set-cookie'', OWNER_COOKIE @ lit ''='' @ tok @
             lit ''; Path=/; HttpOnly; Secure; SameSite=Strict; Max-Age=31536000'')] Plain_ok, st)))"

definition logout_h :: response where
  "logout_h = Reply 200 [(lit ''set-cookie'', OWNER_COOKIE @ lit ''=; Path=/; HttpOnly; Secure; SameSite=Strict; Max-Age=0'')] Plain_ok"

definition engine_status :: "rstr \<Rightarrow> nat" where
  "engine_status e = (if contains (lit ''no answer from the window'') e then 504
     else if contains (lit ''the engine is off'') e then 503 else 409)"

definition op_h :: "world \<Rightarrow> services \<Rightarrow> ip \<Rightarrow> headers \<Rightarrow> nat list \<Rightarrow> owner_state \<Rightarrow> response \<times> service_call list \<times> owner_state" where
  "op_h w sv a hs body st = (case authorise w a hs st of
     (Turned_away s why, st) \<Rightarrow> (Refuse s why, [], st)
   | (Let_in c, st) \<Rightarrow> (case sv_json sv body of
       None \<Rightarrow> (Refuse 400 (lit ''the body is not JSON''), [], st)
     | Some j \<Rightarrow> (let kind = (case jb_type j of Some k \<Rightarrow> k | None \<Rightarrow> []) in
         case required_scope kind of
           None \<Rightarrow> (Refuse 400 (lit ''no operation '' @ sv_debug sv kind), [], st)
         | Some s \<Rightarrow> (case missing c s of
             Some r \<Rightarrow> (r, [], st)
           | None \<Rightarrow> (case sv_op sv body of
               Inr v \<Rightarrow> (Reply 200 [] (Engine_value v), [Dispatched body], st)
             | Inl e \<Rightarrow> (Refuse (engine_status e) e, [Dispatched body], st))))))"

definition events_h :: "world \<Rightarrow> ip \<Rightarrow> headers \<Rightarrow> owner_state \<Rightarrow> response \<times> service_call list \<times> owner_state" where
  "events_h w a hs st = (case authorise w a hs st of
     (Turned_away s why, st) \<Rightarrow> (Refuse s why, [], st)
   | (Let_in c, st) \<Rightarrow> (case missing c Read of
       Some r \<Rightarrow> (r, [], st)
     | None \<Rightarrow> (Reply 200 [(lit ''cache-control'', lit ''no-store'')] Event_stream, [Subscribed], st)))"

definition MAX_IMAGE_LOOKUP :: nat where "MAX_IMAGE_LOOKUP = 500"
definition MAX_UPLOAD_BYTES :: nat where "MAX_UPLOAD_BYTES = 16 * 1024 * 1024"

definition images_h :: "world \<Rightarrow> services \<Rightarrow> ip \<Rightarrow> headers \<Rightarrow> nat list \<Rightarrow> owner_state \<Rightarrow> response \<times> service_call list \<times> owner_state" where
  "images_h w sv a hs body st = (case authorise w a hs st of
     (Turned_away s why, st) \<Rightarrow> (Refuse s why, [], st)
   | (Let_in c, st) \<Rightarrow> (case missing c Read of
       Some r \<Rightarrow> (r, [], st)
     | None \<Rightarrow> (case sv_json sv body of
         None \<Rightarrow> (Refuse 400 (lit ''the body is not JSON''), [], st)
       | Some j \<Rightarrow> (let urls = (case jb_urls j of Some l \<Rightarrow> take MAX_IMAGE_LOOKUP (List.map_filter (\<lambda>u. u) l) | None \<Rightarrow> [])
           in (Reply 200 [] (Image_rows (sv_lookup sv urls)), [Looked_up urls], st)))))"

text \<open>The body of an upload is \<open>None\<close> when reading it fails.\<close>

definition upload_h :: "world \<Rightarrow> services \<Rightarrow> ip \<Rightarrow> headers \<Rightarrow> nat list option \<Rightarrow> owner_state \<Rightarrow> response \<times> service_call list \<times> owner_state" where
  "upload_h w sv a hs body st = (case authorise w a hs st of
     (Turned_away s why, st) \<Rightarrow> (Refuse s why, [], st)
   | (Let_in c, st) \<Rightarrow> (case missing c Drive of
       Some r \<Rightarrow> (r, [], st)
     | None \<Rightarrow> (case (case body of Some b \<Rightarrow> if length b \<le> MAX_UPLOAD_BYTES then Some b else None | None \<Rightarrow> None) of
         None \<Rightarrow> (Refuse 413 (lit ''a picture can be at most 16 MB''), [], st)
       | Some b \<Rightarrow> (case sv_store sv b of
           Inr i \<Rightarrow> (Reply 200 [] (Stored_as i), [Kept_image b], st)
         | Inl why \<Rightarrow> (Refuse 422 why, [Kept_image b], st)))))"

definition is_valid_hash :: "rstr \<Rightarrow> bool" where
  "is_valid_hash h = (utf8_len h = 64 \<and> list_all (\<lambda>b. is_ascii_digit b \<or> (97 \<le> b \<and> b \<le> 102)) (utf8_encode h))"

definition nosniff :: "(rstr \<times> rstr) list" where
  "nosniff = [(lit ''cache-control'', lit ''private, max-age=31536000, immutable''), (lit ''x-content-type-options'', lit ''nosniff'')]"

definition image_h :: "world \<Rightarrow> services \<Rightarrow> ip \<Rightarrow> headers \<Rightarrow> rstr \<Rightarrow> owner_state \<Rightarrow> response \<times> service_call list \<times> owner_state" where
  "image_h w sv a hs h st = (case authorise_with w a hs False st of
     (Turned_away s why, st) \<Rightarrow> (Refuse s why, [], st)
   | (Let_in c, st) \<Rightarrow> (case missing c Read of
       Some r \<Rightarrow> (r, [], st)
     | None \<Rightarrow> if \<not> is_valid_hash h then (Refuse 404 (lit ''no such image''), [], st)
         else (case sv_bytes sv h of
           None \<Rightarrow> (Refuse 404 (lit ''no such image''), [Image_read h], st)
         | Some (mime, b) \<Rightarrow> (Reply 200 ((lit ''content-type'', mime) # nosniff) (Bytes b), [Image_read h], st))))"

section \<open>Byte ranges\<close>

datatype slice = Whole "nat list" | Part "nat list" nat nat nat | Unsatisfiable nat

text \<open>\<open>Inl\<close> is a range that names nothing inside the file, \<open>Inr None\<close> no usable range.\<close>

definition U64 :: nat where "U64 = 2 ^ 64 - 1"

definition range_span :: "rstr \<Rightarrow> rstr \<Rightarrow> nat \<Rightarrow> (unit + (nat \<times> nat) option)" where
  "range_span a b len =
    (if a = [] then
       (if b = [] then Inr None
        else (case parse_uint U64 b of
            None \<Rightarrow> Inr None
          | Some n \<Rightarrow> if n = 0 \<or> len = 0 then Inl () else Inr (Some (len - n, len - 1))))
     else if b = [] then map_sum id (map_option (\<lambda>st. (st, len - 1))) (Inr (parse_uint U64 a))
     else (case (parse_uint U64 a, parse_uint U64 b) of
         (Some st, Some e) \<Rightarrow> if e < st then Inr None else Inr (Some (st, min e (len - 1)))
       | _ \<Rightarrow> Inr None))"

definition parse_range :: "rstr option \<Rightarrow> nat \<Rightarrow> (unit + (nat \<times> nat) option)" where
  "parse_range header len = (case Option.bind header (\<lambda>h. strip_prefix (lit ''bytes='') (trim h)) of
     None \<Rightarrow> Inr None
   | Some spec \<Rightarrow>
      if 44 \<in> set spec then Inr None
      else (case split_once 45 spec of
          None \<Rightarrow> Inr None
        | Some (a, b) \<Rightarrow> (case range_span (trim a) (trim b) len of
            Inl u \<Rightarrow> Inl u
          | Inr None \<Rightarrow> Inr None
          | Inr (Some (s, e)) \<Rightarrow> if len \<le> s then Inl () else Inr (Some (s, e)))))"

definition read_slice :: "nat list \<Rightarrow> rstr option \<Rightarrow> slice" where
  "read_slice file asked = (case parse_range asked (length file) of
     Inl _ \<Rightarrow> Unsatisfiable (length file)
   | Inr None \<Rightarrow> Whole file
   | Inr (Some (s, e)) \<Rightarrow> Part (take (e - s + 1) (drop s file)) s e (length file))"

definition audio_h :: "world \<Rightarrow> services \<Rightarrow> ip \<Rightarrow> headers \<Rightarrow> rstr \<Rightarrow> owner_state \<Rightarrow> response \<times> service_call list \<times> owner_state" where
  "audio_h w sv a hs h st = (case authorise_with w a hs False st of
     (Turned_away s why, st) \<Rightarrow> (Refuse s why, [], st)
   | (Let_in c, st) \<Rightarrow> (case missing c Read of
       Some r \<Rightarrow> (r, [], st)
     | None \<Rightarrow> if \<not> is_valid_hash h then (Refuse 404 (lit ''no such audio''), [], st)
         else (case sv_audio sv h of
           Some (mime, Some file) \<Rightarrow>
             (let common = [(lit ''content-type'', mime), (lit ''accept-ranges'', lit ''bytes'')] @ nosniff;
                  len = decimal (length file)
              in (case read_slice file (header_str hs ''range'') of
                    Whole b \<Rightarrow> Reply 200 common (Bytes b)
                  | Part b s e _ \<Rightarrow> Reply 206 ((lit ''content-range'', lit ''bytes '' @ decimal s @ [45] @ decimal e @ [47] @ len) # common) (Bytes b)
                  | Unsatisfiable _ \<Rightarrow> Reply 416 [(lit ''content-range'', lit ''bytes */'' @ len)] Empty,
                  [Audio_read h], st))
         | _ \<Rightarrow> (Refuse 404 (lit ''no such audio''), [Audio_read h], st))))"

end
