(* ===== verification/Owner_Pages.thy ===== *)
theory Owner_Pages
  imports Owner_Server
begin

text \<open>
  The web client's files (\<open>web\<close> and \<open>safe_relative\<close> of \<open>owner/server.rs\<close>), the guest page's way in (\<open>admit\<close> and
  \<open>index\<close> of \<open>remote/server.rs\<close>), and the device commands of \<open>owner/commands.rs\<close>.  A path is the drive it names, if it
  names one (on Windows), and its parts; the disk is an argument.
\<close>

section \<open>The web client\<close>

record rel_path =
  rp_drive :: "rstr option"
  rp_parts :: "rstr list"

text \<open>\<open>Path::prefix\<close> of one component: a letter and a colon, on Windows.\<close>

definition drive_of :: "bool \<Rightarrow> rstr \<Rightarrow> rstr option" where
  "drive_of windows p = (case p of c # d # _ \<Rightarrow> if windows \<and> is_ascii_alphabetic c \<and> d = 58 then Some [c, d] else None | _ \<Rightarrow> None)"

text \<open>\<open>PathBuf::push\<close> of one component: a component with a drive replaces the path.\<close>

definition push_part :: "bool \<Rightarrow> rstr \<Rightarrow> rel_path \<Rightarrow> rel_path" where
  "push_part windows p r = (case drive_of windows p of
     Some d \<Rightarrow> \<lparr>rp_drive = Some d, rp_parts = (if drop 2 p = [] then [] else [drop 2 p])\<rparr>
   | None \<Rightarrow> r\<lparr>rp_parts := rp_parts r @ [p]\<rparr>)"

datatype component = RootDir | PrefixDir | ParentDir | CurDir | Normal rstr

text \<open>
  \<open>Path::components\<close> of a path without backslashes: a drive and a root only at its start, a leading \<open>.\<close>, and no other
  empty or \<open>.\<close> part.  After a drive the path goes on behind the colon.
\<close>

definition part_of :: "rstr \<Rightarrow> component" where
  "part_of p = (if p = lit ''..'' then ParentDir else Normal p)"

definition components :: "bool \<Rightarrow> rstr \<Rightarrow> component list" where
  "components windows path =
    (let d = drive_of windows path; rest = (if d = None then path else drop 2 path);
         parts = split_char 47 rest;
         front = (if d = None then [] else [PrefixDir]) @ (if prefix [47] rest then [RootDir] else if d = None \<and> hd parts = [46] then [CurDir] else [])
     in front @ map part_of (filter (\<lambda>p. p \<noteq> [] \<and> p \<noteq> [46]) parts))"

fun push_all :: "bool \<Rightarrow> component list \<Rightarrow> rel_path \<Rightarrow> rel_path option" where
  "push_all windows [] r = Some r"
| "push_all windows (Normal p # cs) r = push_all windows cs (push_part windows p r)"
| "push_all windows (CurDir # cs) r = push_all windows cs r"
| "push_all windows (_ # cs) r = None"

definition safe_relative :: "bool \<Rightarrow> rstr \<Rightarrow> rel_path option" where
  "safe_relative windows path =
    (if 92 \<in> set path \<or> 0 \<in> set path then None
     else push_all windows (components windows path) \<lparr>rp_drive = None, rp_parts = []\<rparr>)"

text \<open>\<open>extension\<close> of a file name: what follows the last dot, unless that dot is the first character or there is none.\<close>

definition extension :: "rstr list \<Rightarrow> rstr option" where
  "extension parts = (if parts = [] then None else (case rsplit_once 46 (last parts) of
     Some (stem, e) \<Rightarrow> if stem = [] then None else Some e | None \<Rightarrow> None))"

definition content_type :: "rstr list \<Rightarrow> rstr" where
  "content_type parts = (let e = (case extension parts of Some e \<Rightarrow> e | None \<Rightarrow> []) in
     if e = lit ''html'' then lit ''text/html; charset=utf-8''
     else if e = lit ''js'' \<or> e = lit ''mjs'' then lit ''text/javascript; charset=utf-8''
     else if e = lit ''css'' then lit ''text/css; charset=utf-8''
     else if e = lit ''json'' \<or> e = lit ''webmanifest'' then lit ''application/json''
     else if e = lit ''svg'' then lit ''image/svg+xml'' else if e = lit ''png'' then lit ''image/png''
     else if e = lit ''ico'' then lit ''image/x-icon'' else if e = lit ''woff2'' then lit ''font/woff2''
     else if e = lit ''wasm'' then lit ''application/wasm'' else lit ''application/octet-stream'')"

definition WEB_CSP :: rstr where
  "WEB_CSP = lit ''default-src 'self'; style-src 'self' 'unsafe-inline'; img-src 'self' data:; '' @
     lit ''connect-src 'self'; frame-ancestors 'none'; form-action 'none'; base-uri 'none'' @ [39]"

definition NOT_BUILT :: rstr where
  "NOT_BUILT = lit ''the web client isn't built into this copy of Haruspex''"

text \<open>\<open>root.join(rel)\<close>: a path with a drive stands alone.  A path is where it starts and its parts.\<close>

datatype place = Under_root "rstr list" | On_drive rstr "rstr list"

definition join_root :: "rel_path \<Rightarrow> place" where
  "join_root r = (case rp_drive r of None \<Rightarrow> Under_root (rp_parts r) | Some d \<Rightarrow> On_drive d (rp_parts r))"

definition place_parts :: "place \<Rightarrow> rstr list" where
  "place_parts p = (case p of Under_root ps \<Rightarrow> ps | On_drive _ ps \<Rightarrow> ps)"

text \<open>The disk: whether a place is a file, and its bytes if it can be read.\<close>

record web_disk =
  wd_file :: "place \<Rightarrow> bool"
  wd_read :: "place \<Rightarrow> nat list option"

definition web :: "bool \<Rightarrow> bool \<Rightarrow> web_disk \<Rightarrow> rstr \<Rightarrow> response" where
  "web windows built d path =
    (if \<not> built then Refuse 503 NOT_BUILT
     else (case safe_relative windows path of
       None \<Rightarrow> Refuse 404 (lit ''no such file'')
     | Some rel \<Rightarrow>
        (let candidate = join_root rel; empty = (rel = \<lparr>rp_drive = None, rp_parts = []\<rparr>);
             found = \<not> empty \<and> wd_file d candidate
         in if \<not> found \<and> extension (rp_parts rel) \<noteq> None then Refuse 404 (lit ''no such file'')
            else (let f = (if found then candidate else Under_root [lit ''index.html'']) in
              case wd_read d f of
                None \<Rightarrow> Refuse 503 NOT_BUILT
              | Some b \<Rightarrow> Reply 200 [(lit ''content-type'', content_type (place_parts f)), (lit ''content-security-policy'', WEB_CSP),
                   (lit ''cache-control'', if found then lit ''public, max-age=31536000, immutable'' else lit ''no-cache'')] (Bytes b)))))"

section \<open>Routes\<close>

datatype route = Root | App | App_index | App_file rstr | Health_check | Pair "nat list" | Logout | Operation "nat list" | Events
  | Images "nat list" | Image rstr | Upload "nat list option" | Audio rstr

text \<open>What the server was built with: the program's version, the platform, whether there is a web client, and its disk.\<close>

record site =
  st_version :: rstr
  st_windows :: bool
  st_built :: bool
  st_disk :: web_disk

definition to_app :: response where
  "to_app = Reply 302 [(lit ''location'', lit ''/app/'')] Empty"

definition serve :: "world \<Rightarrow> services \<Rightarrow> site \<Rightarrow> ip \<Rightarrow> headers \<Rightarrow> route \<Rightarrow> owner_state \<Rightarrow> response \<times> service_call list \<times> owner_state" where
  "serve w sv si a hs r st = (case r of
     Root \<Rightarrow> (to_app, [], st)
   | App \<Rightarrow> (to_app, [], st)
   | App_index \<Rightarrow> (web (st_windows si) (st_built si) (st_disk si) [], [], st)
   | App_file p \<Rightarrow> (web (st_windows si) (st_built si) (st_disk si) p, [], st)
   | Health_check \<Rightarrow> (Reply 200 [] (Health (st_version si)), [], st)
   | Pair body \<Rightarrow> (let (r, st) = pair_h w sv a hs body st in (r, [], st))
   | Logout \<Rightarrow> (logout_h, [], st)
   | Operation body \<Rightarrow> op_h w sv a hs body st
   | Events \<Rightarrow> events_h w a hs st
   | Images body \<Rightarrow> images_h w sv a hs body st
   | Image h \<Rightarrow> image_h w sv a hs h st
   | Upload body \<Rightarrow> upload_h w sv a hs body st
   | Audio h \<Rightarrow> audio_h w sv a hs h st)"

section \<open>The guest server\<close>

datatype admission = Link_proof proof_of | Trusted_guest

definition NOT_OUR_NAME :: rstr where
  "NOT_OUR_NAME = lit ''open this page by this computer's address or name, as Settings '' @ [0x2192] @ lit '' Guest chat shows it, or add the name you used as Settings '' @
     [0x2192] @ lit '' Guest chat '' @ [0x2192] @ lit '' Link address''"

text \<open>The guest server's token and trust; the query is that of the request's URI.\<close>

definition admit :: "world \<Rightarrow> (rstr \<Rightarrow> rstr option) \<Rightarrow> rstr \<Rightarrow> ip \<Rightarrow> headers \<Rightarrow> rstr option \<Rightarrow> bool \<Rightarrow> trust \<Rightarrow>
    ((nat \<times> rstr) + admission) \<times> trust" where
  "admit w decode token a hs query allow_link tr = (case check_proof (w_hash w) decode hs query token allow_link of
     Some p \<Rightarrow> (Inr (Link_proof p), tr)
   | None \<Rightarrow>
      (let (trusted, tr) = trusts (now (w_env w)) (w_lookup w) a tr in
       if \<not> trusted then (Inl (401, lit ''not for you''), tr)
       else if cross_site hs \<or> \<not> host_is_ours (host_header hs) (w_own w) (oa_extra_host (tr_access tr))
       then (Inl (403, NOT_OUR_NAME), tr)
       else (Inr Trusted_guest, tr)))"

definition no_store :: "(rstr \<times> rstr)" where
  "no_store = (lit ''cache-control'', lit ''no-store, must-revalidate'')"

text \<open>The two pages are arguments.\<close>

definition guest_index :: "world \<Rightarrow> (rstr \<Rightarrow> rstr option) \<Rightarrow> rstr \<Rightarrow> rstr \<Rightarrow> rstr \<Rightarrow> ip \<Rightarrow> headers \<Rightarrow> rstr option \<Rightarrow> trust \<Rightarrow> response \<times> trust" where
  "guest_index w decode client_page no_token_page token a hs query tr = (case admit w decode token a hs query True tr of
     (Inr (Link_proof p), tr) \<Rightarrow>
       (let set_cookie = (lit ''set-cookie'', guest_cookie (w_hash w) token) in
        (if p = Link then Reply 303 [(lit ''location'', lit ''/''), no_store, set_cookie] Empty
         else Reply 200 [no_store, set_cookie] (Page client_page), tr))
   | (Inr Trusted_guest, tr) \<Rightarrow> (Reply 200 [no_store] (Page client_page), tr)
   | (Inl (s, why), tr) \<Rightarrow> (if s = 401 then Reply 200 [no_store] (Page no_token_page) else Reply s [] (Page why), tr))"

section \<open>Device commands\<close>

text \<open>The three numbers drawn are the token's, the device's and the code's.\<close>

definition create_client :: "world \<Rightarrow> rstr option \<Rightarrow> rstr option \<Rightarrow> rstr option \<Rightarrow> rstr \<Rightarrow> scope list \<Rightarrow> owner_state \<Rightarrow>
    (rstr + owner_client \<times> rstr \<times> rstr) \<times> owner_state" where
  "create_client w r1 r2 r3 name scopes st = (case create (w_hash w) (w_env w) r1 r2 name scopes (os_clients st) of
     (Inl e, cl) \<Rightarrow> (Inl e, st\<lparr>os_clients := cl\<rparr>)
   | (Inr (c, tok), cl) \<Rightarrow> (case issue (w_env w) r3 tok (os_codes st) of
       (Inl e, cs) \<Rightarrow> (Inl e, st\<lparr>os_clients := cl, os_codes := cs\<rparr>)
     | (Inr code, cs) \<Rightarrow> (Inr (c, tok, code), st\<lparr>os_clients := cl, os_codes := cs\<rparr>)))"

definition pair_client :: "world \<Rightarrow> rstr option \<Rightarrow> rstr option \<Rightarrow> rstr \<Rightarrow> owner_state \<Rightarrow> (rstr + owner_client \<times> rstr \<times> rstr) \<times> owner_state" where
  "pair_client w r1 r2 i st = (case rotate_token (w_hash w) (w_env w) r1 i (os_clients st) of
     (Inl e, cl) \<Rightarrow> (Inl e, st\<lparr>os_clients := cl\<rparr>)
   | (Inr (c, tok), cl) \<Rightarrow> (case issue (w_env w) r2 tok (os_codes st) of
       (Inl e, cs) \<Rightarrow> (Inl e, st\<lparr>os_clients := cl, os_codes := cs\<rparr>)
     | (Inr code, cs) \<Rightarrow> (Inr (c, tok, code), st\<lparr>os_clients := cl, os_codes := cs\<rparr>)))"

definition revoke_client :: "world \<Rightarrow> rstr \<Rightarrow> owner_state \<Rightarrow> (rstr + bool) \<times> owner_state" where
  "revoke_client w i st = (let (r, cl) = revoke (w_env w) i (os_clients st) in (r, st\<lparr>os_clients := cl\<rparr>))"

end
