(* ===== verification/Owner_Devices_Props.thy ===== *)
theory Owner_Devices_Props
  imports Owner_Devices "HOL-Library.Code_Target_Nat"
begin

unbundle bit_operations_syntax

text \<open>
  Secrets, devices and pairing codes: the comparison without early exit is equality, a revoked device stays out through
  every later call and restart, except when its removal could not be written, and a pairing code works once and in time.
\<close>

section \<open>Comparing\<close>

definition proper :: "rstr \<Rightarrow> bool" where
  "proper s \<longleftrightarrow> list_all scalar s"

lemma utf8_encode_inj: "proper a \<Longrightarrow> proper b \<Longrightarrow> utf8_encode a = utf8_encode b \<Longrightarrow> a = b"
  unfolding proper_def list_all_iff by (metis from_utf8_encode option.inject)

lemma scalar_small: "scalar c \<Longrightarrow> c < 0x110000"
  by (auto simp: scalar_def)

lemma utf8_char_bytes: "c < 0x110000 \<Longrightarrow> b \<in> set (utf8_encode_char c) \<Longrightarrow> b < 256"
proof -
  assume c: "c < 0x110000" and b: "b \<in> set (utf8_encode_char c)"
  have m: "c mod 64 < 64" "c div 64 mod 64 < 64" "c div 4096 mod 64 < 64" by simp_all
  consider "c < 0x80" | "0x80 \<le> c" "c < 0x800" | "0x800 \<le> c" "c < 0x10000" | "0x10000 \<le> c" by linarith
  then show ?thesis
  proof cases
    case 1
    then show ?thesis using b by (simp add: utf8_encode_char_def)
  next
    case 2
    then have "c div 64 < 32" by (simp add: less_mult_imp_div_less)
    then show ?thesis using 2 b m by (auto simp: utf8_encode_char_def simp del: mod_less_divisor)
  next
    case 3
    then have "c div 4096 < 16" by (simp add: less_mult_imp_div_less)
    then show ?thesis using 3 b m by (auto simp: utf8_encode_char_def simp del: mod_less_divisor)
  next
    case 4
    have "c div 262144 < 5" using c by (simp add: less_mult_imp_div_less)
    then show ?thesis using 4 b m by (auto simp: utf8_encode_char_def simp del: mod_less_divisor)
  qed
qed

lemma utf8_bytes: "proper s \<Longrightarrow> b \<in> set (utf8_encode s) \<Longrightarrow> b < 256"
  unfolding utf8_encode_def proper_def list_all_iff
  using utf8_char_bytes scalar_small by auto

lemma or_zero: "(a :: 8 word) OR b = 0 \<longleftrightarrow> a = 0 \<and> b = 0"
  by (rule or_eq_0_iff)

lemma xor_zero: "(a :: 8 word) XOR b = 0 \<longleftrightarrow> a = b"
  by (metis xor.assoc xor.left_neutral xor.right_neutral xor_self_eq)

lemma fold_or: "fold (\<lambda>(x, y) d. d OR (of_nat x XOR of_nat y)) l (d :: 8 word) = 0 \<longleftrightarrow>
    d = 0 \<and> (\<forall>(x, y)\<in>set l. (of_nat x :: 8 word) = of_nat y)"
  by (induction l arbitrary: d) (auto simp: or_zero xor_zero)

lemma differences_zero:
  assumes "length a = length b" "\<forall>x\<in>set a. x < 256" "\<forall>x\<in>set b. x < 256"
  shows "differences a b = 0 \<longleftrightarrow> a = b"
proof
  assume "differences a b = 0"
  then have same: "\<And>x y. (x, y) \<in> set (zip a b) \<Longrightarrow> (of_nat x :: 8 word) = of_nat y"
    by (auto simp: differences_def fold_or)
  show "a = b"
  proof (rule nth_equalityI [OF assms(1)])
    fix i assume i: "i < length a"
    then have "(a ! i, b ! i) \<in> set (zip a b)" using assms(1) by (auto simp: in_set_zip)
    from same [OF this] have "unat (of_nat (a ! i) :: 8 word) = unat (of_nat (b ! i) :: 8 word)" by simp
    moreover have "a ! i < 256" "b ! i < 256" using assms i by auto
    ultimately show "a ! i = b ! i" by (simp add: unat_of_nat)
  qed
next
  assume "a = b"
  then show "differences a b = 0" by (auto simp: differences_def fold_or in_set_zip)
qed

lemma token_matches_eq: "proper a \<Longrightarrow> proper b \<Longrightarrow> token_matches a b \<longleftrightarrow> a = b \<and> a \<noteq> []"
  using differences_zero [of "utf8_encode a" "utf8_encode b"] utf8_bytes utf8_encode_inj [of a b]
  by (auto simp: token_matches_def Let_def utf8_encode_def)

text \<open>What the callers of the comparison rely on.\<close>

locale secret_check =
  fixes admissible :: "rstr \<Rightarrow> bool" and matches :: "rstr \<Rightarrow> rstr \<Rightarrow> bool"
  assumes matches_eq: "admissible a \<Longrightarrow> admissible b \<Longrightarrow> matches a b \<longleftrightarrow> a = b \<and> a \<noteq> []"
begin

lemma own_secret: "admissible a \<Longrightarrow> a \<noteq> [] \<Longrightarrow> matches a a"
  by (simp add: matches_eq)

lemma other_secret: "admissible a \<Longrightarrow> admissible b \<Longrightarrow> a \<noteq> b \<Longrightarrow> \<not> matches a b"
  by (simp add: matches_eq)

end

interpretation tm: secret_check proper token_matches
  by unfold_locales (rule token_matches_eq)

text \<open>The comparison of secrets, which looks at every byte and folds the differences into one, is equality, and a
  secret that is empty matches nothing.\<close>

theorem comparing_is_equality: "proper a \<Longrightarrow> proper b \<Longrightarrow> token_matches a b \<longleftrightarrow> a = b \<and> a \<noteq> []"
  by (rule token_matches_eq)

lemma comparing_is_equality_witness: "token_matches (lit ''link-token'') (lit ''link-token'') \<and> \<not> token_matches (lit ''abc123'') (lit ''abc12'')"
  using comparing_is_equality [of "lit ''link-token''" "lit ''link-token''"] comparing_is_equality [of "lit ''abc123''" "lit ''abc12''"]
  by (simp add: proper_def lit_def scalar_def)

section \<open>Revoking\<close>

text \<open>Every call on the devices, and a restart of the program, which reads the file again.\<close>

datatype device_op = Create env "rstr option" "rstr option" rstr "scope list" | Rotate env "rstr option" rstr | Revoke env rstr
  | Authenticate env rstr | Flush env | Restart env

definition device_step :: "(rstr \<Rightarrow> rstr) \<Rightarrow> device_op \<Rightarrow> clients \<Rightarrow> clients" where
  "device_step H o' c = (case o' of
     Create ev r1 r2 name scopes \<Rightarrow> snd (create H ev r1 r2 name scopes c)
   | Rotate ev r i \<Rightarrow> snd (rotate_token H ev r i c)
   | Revoke ev i \<Rightarrow> snd (revoke ev i c)
   | Authenticate ev t \<Rightarrow> snd (authenticate H ev t c)
   | Flush ev \<Rightarrow> flush_clients ev c
   | Restart ev \<Rightarrow> (case load_clients ev (case on_disk c of None \<Rightarrow> NoFile | Some ds \<Rightarrow> Holds ds) of Inr c' \<Rightarrow> c' | Inl _ \<Rightarrow> c))"

definition draws :: "rstr \<Rightarrow> device_op \<Rightarrow> bool" where
  "draws i o' = (case o' of Create _ _ r _ _ \<Rightarrow> r = Some i | _ \<Rightarrow> False)"

definition absent :: "rstr \<Rightarrow> stored list \<Rightarrow> bool" where
  "absent i ds \<longleftrightarrow> i \<notin> s_id ` set ds"

definition gone :: "rstr \<Rightarrow> clients \<Rightarrow> bool" where
  "gone i c \<longleftrightarrow> absent i (devices c) \<and> (case on_disk c of None \<Rightarrow> True | Some ds \<Rightarrow> absent i ds)"

lemma absent_simps [simp]: "absent i []" "absent i (ds @ es) \<longleftrightarrow> absent i ds \<and> absent i es"
  "absent i (d # ds) \<longleftrightarrow> s_id d \<noteq> i \<and> absent i ds"
  by (auto simp: absent_def)

lemma absent_update: "absent i ds \<Longrightarrow> k < length ds \<Longrightarrow> s_id d = s_id (ds ! k) \<Longrightarrow> absent i (ds[k := d])"
  by (metis absent_def list.set_map list_update_id map_update)

lemma absent_filter: "absent i ds \<Longrightarrow> absent i (filter p ds)" "absent i (filter (\<lambda>d. s_id d \<noteq> i) ds)"
  by (auto simp: absent_def)

lemma gone_save: "absent i (devices c) \<Longrightarrow> write_error ev = None \<Longrightarrow> gone i (snd (save_clients ev c))"
  by (simp add: gone_def save_clients_def Let_def)

lemma gone_save2: "gone i c \<Longrightarrow> on_disk c' = on_disk c \<Longrightarrow> absent i (devices c') \<Longrightarrow> gone i (snd (save_clients ev c'))"
  by (cases "write_error ev") (simp_all add: gone_def save_clients_def Let_def)

lemma snd_saved [simp]:
  "snd (case save_clients ev x of (Inl e, c') \<Rightarrow> (Inl e, c') | (Inr _, c') \<Rightarrow> (Inr y, c')) = snd (save_clients ev x)"
  by (simp split: prod.splits sum.splits)

lemma devices_save [simp]: "devices (snd (save_clients ev c)) = devices c"
  by (simp add: save_clients_def Let_def split: option.splits)

lemma goneD: "gone i c \<Longrightarrow> absent i (devices c)"
  by (simp add: gone_def)

lemma gone_create: "gone i c \<Longrightarrow> r2 \<noteq> Some i \<Longrightarrow> gone i (snd (create H ev r1 r2 name scopes c))"
  by (auto simp: create_def Let_def goneD split: option.splits intro!: gone_save2 [of i c])

lemma gone_rotate: "gone i c \<Longrightarrow> gone i (snd (rotate_token H ev r j c))"
  by (auto simp: rotate_token_def Let_def goneD split: option.splits dest!: position_SomeD
      intro!: gone_save2 [of i c] absent_update)

lemma gone_revoke: "gone i c \<Longrightarrow> gone i (snd (revoke ev j c))"
proof -
  assume g: "gone i c"
  then have "gone i (c\<lparr>devices := filter (\<lambda>d. s_id d \<noteq> j) (devices c)\<rparr>)" by (simp add: gone_def absent_filter)
  then show ?thesis using g by (auto simp: revoke_def Let_def goneD absent_filter intro!: gone_save2 [of i c])
qed

lemma gone_authenticate: "gone i c \<Longrightarrow> gone i (snd (authenticate H ev t c))"
proof -
  assume g: "gone i c"
  have "absent i ((devices c)[k := (devices c ! k)\<lparr>s_last_seen := x\<rparr>])" if "k < length (devices c)" for k x
    using goneD [OF g] that by (rule absent_update) simp
  then show ?thesis using g
    by (auto simp: authenticate_def Let_def gone_def [of i "c\<lparr>devices := ds, dirty := True\<rparr>" for ds] gone_def [of i c]
        split: option.splits dest!: rposition_SomeD intro!: gone_save2 [OF g])
qed

lemma gone_step: "gone i c \<Longrightarrow> \<not> draws i o' \<Longrightarrow> gone i (device_step H o' c)"
proof (cases o')
  case (Restart ev)
  assume "gone i c"
  then show ?thesis using Restart by (simp add: device_step_def load_clients_def gone_def split: option.splits)
next
  case (Flush ev)
  assume "gone i c"
  then show ?thesis using Flush by (simp add: device_step_def flush_clients_def gone_save2 goneD)
qed (auto simp: device_step_def draws_def intro: gone_create gone_rotate gone_revoke gone_authenticate)

lemma gone_run: "gone i c \<Longrightarrow> list_all (\<lambda>o'. \<not> draws i o') ops \<Longrightarrow> gone i (fold (device_step H) ops c)"
  by (induction ops arbitrary: c) (auto simp: gone_step)

lemma authenticate_SomeD:
  assumes "authenticate H ev t c = (Some oc, c')"
  obtains d where "d \<in> set (devices c)" "token_matches (s_hash d) (H (trim t))" "prefix TOKEN_PREFIX (trim t)"
    "oc_id oc = s_id d" "oc_scopes oc = s_scopes d" "oc_name oc = s_name d"
proof -
  obtain k where k: "rposition (\<lambda>d. token_matches (s_hash d) (H (trim t))) (devices c) = Some k" "prefix TOKEN_PREFIX (trim t)"
    using assms by (auto simp: authenticate_def Let_def split: if_splits option.splits)
  with assms have "oc_id oc = s_id (devices c ! k)" "oc_scopes oc = s_scopes (devices c ! k)" "oc_name oc = s_name (devices c ! k)"
    using rposition_SomeD [OF k(1)] by (auto simp: authenticate_def Let_def public_def)
  then show thesis using k rposition_SomeD [OF k(1)] by (intro that [of "devices c ! k"]) auto
qed

lemma revoke_gone: "revoke ev i c = (Inr True, c') \<Longrightarrow> gone i c'"
proof -
  assume r: "revoke ev i c = (Inr True, c')"
  have "write_error ev = None \<Longrightarrow> gone i (snd (save_clients ev (c\<lparr>devices := filter (\<lambda>d. s_id d \<noteq> i) (devices c)\<rparr>)))"
    by (rule gone_save) (simp add: absent_filter)
  then show ?thesis using r
    by (auto simp: revoke_def Let_def save_clients_def split: if_splits option.splits)
qed

text \<open>C5. A device whose removal succeeded stays out: after any further calls and restarts in which its identifier is not
  drawn again for a new device, no token lets a request in as that device.\<close>

theorem revoked_device_stays_out:
  "revoke ev i c = (Inr True, c') \<Longrightarrow> list_all (\<lambda>o'. \<not> draws i o') ops \<Longrightarrow>
   authenticate H ev' t (fold (device_step H) ops c') = (Some oc, c'') \<Longrightarrow> oc_id oc \<noteq> i"
  using goneD [OF gone_run [OF revoke_gone]] by (force simp: absent_def elim!: authenticate_SomeD)

text \<open>C39. A removal that could not be written is not made up for: the device is out of memory, so removing it again answers
  that there was nothing to remove and writes nothing, and after a restart its token lets it in as before.\<close>

theorem failed_removal_comes_back:
  assumes "d \<in> set (devices c)" "on_disk c = Some (devices c)" "write_error ev = Some e"
    and "prefix TOKEN_PREFIX (trim t)" "rposition (\<lambda>d. token_matches (s_hash d) (H (trim t))) (devices c) = Some k" "devices c ! k = d"
  shows "\<exists>c1 c2. revoke ev (s_id d) c = (Inl e, c1) \<and> revoke ev' (s_id d) c1 = (Inr False, c2) \<and>
    map_option oc_id (fst (authenticate H ev3 t (device_step H (Restart ev2) c2))) = Some (s_id d)"
proof -
  let ?kept = "filter (\<lambda>x. s_id x \<noteq> s_id d) (devices c)"
  have "length ?kept < length (devices c)" by (rule length_filter_less [OF assms(1)]) simp
  then have r: "revoke ev (s_id d) c = (Inl e, c\<lparr>devices := ?kept, last_save := now ev, dirty := False\<rparr>)" (is "_ = (_, ?c1)")
    using assms(3) by (simp add: revoke_def save_clients_def Let_def)
  have r2: "revoke ev' (s_id d) ?c1 = (Inr False, ?c1)"
    by (simp add: revoke_def Let_def)
  have "device_step H (Restart ev2) ?c1 = \<lparr>devices = devices c, last_save = now ev2, dirty = False, on_disk = on_disk c\<rparr>"
    using assms(2) by (simp add: device_step_def load_clients_def)
  then have "map_option oc_id (fst (authenticate H ev3 t (device_step H (Restart ev2) ?c1))) = Some (s_id d)"
    using assms(4-6) by (simp add: authenticate_def Let_def public_def nth_list_update)
  with r r2 show ?thesis by blast
qed

section \<open>Pairing codes\<close>

datatype code_op = Issue env "rstr option" rstr | Redeem env rstr

fun codes_after :: "code_op list \<Rightarrow> codes \<Rightarrow> codes" where
  "codes_after [] cs = cs"
| "codes_after (Issue ev r tok # ops) cs = codes_after ops (snd (issue ev r tok cs))"
| "codes_after (Redeem ev x # ops) cs = codes_after ops (snd (redeem ev x cs))"

text \<open>When a code was redeemed, and for which token.\<close>

fun redemptions :: "rstr \<Rightarrow> code_op list \<Rightarrow> codes \<Rightarrow> (nat \<times> rstr) list" where
  "redemptions code [] cs = []"
| "redemptions code (Issue ev r tok # ops) cs = redemptions code ops (snd (issue ev r tok cs))"
| "redemptions code (Redeem ev x # ops) cs =
    (let (r, cs') = redeem ev x cs in
     (case r of Some tok \<Rightarrow> if trim x = code then [(now ev, tok)] else [] | None \<Rightarrow> []) @ redemptions code ops cs')"

definition issues :: "rstr \<Rightarrow> code_op \<Rightarrow> bool" where
  "issues code o' = (case o' of Issue _ r _ \<Rightarrow> r = Some code | _ \<Rightarrow> False)"

lemma store_ok_issue: "store_ok cs \<Longrightarrow> store_ok (snd (issue ev r tok cs))"
  by (simp add: issue_def store_simps split: option.splits)

lemma store_ok_redeem: "store_ok cs \<Longrightarrow> store_ok (snd (redeem ev x cs))"
  by (simp add: redeem_def store_simps split: option.splits)

lemma map_of_issue: "store_ok cs \<Longrightarrow> r \<noteq> Some code \<Longrightarrow>
    map_of (snd (issue ev r tok cs)) code = map_of cs code \<or> map_of (snd (issue ev r tok cs)) code = None"
  by (auto simp: issue_def update_conv' map_of_retain split: option.splits)

lemma map_of_redeem: "map_of (snd (redeem ev x cs)) code = (if trim x = code then None else map_of cs code)"
  by (auto simp: redeem_def delete_conv' split: option.splits)

lemma no_redemptions:
  "map_of cs code = None \<Longrightarrow> store_ok cs \<Longrightarrow> list_all (\<lambda>o'. \<not> issues code o') ops \<Longrightarrow> redemptions code ops cs = []"
proof (induction code ops cs rule: redemptions.induct)
  case (2 code ev r tok ops cs)
  then show ?case using map_of_issue [of cs r code ev tok] by (auto simp: issues_def store_ok_issue)
next
  case (3 code ev x ops cs)
  obtain r cs' where e: "redeem ev x cs = (r, cs')" by (cases "redeem ev x cs")
  have n: "trim x = code \<Longrightarrow> r = None" using e 3 by (auto simp: redeem_def)
  have "redemptions code ops cs' = []"
    using 3 e map_of_redeem [of ev x cs code] store_ok_redeem [of cs ev x] by auto
  then show ?case using e n by (auto split: option.splits)
qed simp

lemma redemptions_bound:
  "map_of cs code = Some (tok, ex) \<Longrightarrow> store_ok cs \<Longrightarrow> list_all (\<lambda>o'. \<not> issues code o') ops \<Longrightarrow>
   length (redemptions code ops cs) \<le> 1 \<and> (\<forall>(t, y)\<in>set (redemptions code ops cs). y = tok \<and> t < ex)"
proof (induction code ops cs rule: redemptions.induct)
  case (2 code ev r tok' ops cs)
  show ?case
  proof (cases "map_of (snd (issue ev r tok' cs)) code")
    case None
    then show ?thesis using 2 no_redemptions [OF None] by (auto simp: store_ok_issue)
  next
    case (Some y)
    then have "map_of (snd (issue ev r tok' cs)) code = Some (tok, ex)"
      using 2 map_of_issue [of cs r code ev tok'] by (auto simp: issues_def)
    then show ?thesis using 2 by (auto simp: store_ok_issue)
  qed
next
  case (3 code ev x ops cs)
  obtain r cs' where e: "redeem ev x cs = (r, cs')" by (cases "redeem ev x cs")
  have ok: "store_ok cs'" using 3 e store_ok_redeem [of cs ev x] by auto
  show ?case
  proof (cases "trim x = code")
    case True
    then have "map_of cs' code = None" using e map_of_redeem [of ev x cs code] by auto
    then have "redemptions code ops cs' = []" using 3 ok by (intro no_redemptions) auto
    moreover have "r = (if now ev < ex then Some tok else None)" using True e 3 by (auto simp: redeem_def)
    ultimately show ?thesis using e by auto
  next
    case False
    then have "map_of cs' code = Some (tok, ex)" using 3 e map_of_redeem [of ev x cs code] by auto
    then show ?thesis using 3 e ok False by (auto split: option.splits)
  qed
qed simp

text \<open>C35. A pairing code works at most once, within ten minutes of being issued, and gives the token it was issued for,
  whatever codes are issued and redeemed meanwhile, as long as the same code is not drawn again.\<close>

theorem pairing_code_works_once:
  assumes "store_ok cs" "list_all (\<lambda>o'. \<not> issues code o') ops"
  shows "redemptions code ops (snd (issue ev (Some code) tok cs)) = [] \<or>
    (\<exists>t. redemptions code ops (snd (issue ev (Some code) tok cs)) = [(t, tok)] \<and> t < now ev + CODE_LIFETIME)"
proof -
  let ?cs = "snd (issue ev (Some code) tok cs)"
  have m: "map_of ?cs code = Some (tok, now ev + CODE_LIFETIME)" by (simp add: issue_def update_conv')
  have "store_ok ?cs" using assms(1) by (rule store_ok_issue)
  from redemptions_bound [OF m this assms(2)] show ?thesis
    by (cases "redemptions code ops ?cs") auto
qed

definition at_ms :: "nat \<Rightarrow> env" where
  "at_ms t = \<lparr>now = t, wall = 0, write_error = None\<rparr>"

lemma pairing_code_works_once_witness:
  "redemptions (lit ''ab'') [Redeem (at_ms 5) (lit ''cd''), Redeem (at_ms 9) (lit '' ab''), Redeem (at_ms 10) (lit ''ab'')]
     (snd (issue (at_ms 0) (Some (lit ''ab'')) (lit ''hsx_t'') [])) = [(9, lit ''hsx_t'')]"
proof -
  let ?ops = "[Redeem (at_ms 5) (lit ''cd''), Redeem (at_ms 9) (lit '' ab''), Redeem (at_ms 10) (lit ''ab'')]"
  have "redemptions (lit ''ab'') ?ops (snd (issue (at_ms 0) (Some (lit ''ab'')) (lit ''hsx_t'') [])) = [] \<or>
      (\<exists>t. redemptions (lit ''ab'') ?ops (snd (issue (at_ms 0) (Some (lit ''ab'')) (lit ''hsx_t'') [])) = [(t, lit ''hsx_t'')] \<and>
        t < now (at_ms 0) + CODE_LIFETIME)"
    by (rule pairing_code_works_once) (simp_all add: store_ok_def issues_def)
  moreover have "map fst (redemptions (lit ''ab'') ?ops (snd (issue (at_ms 0) (Some (lit ''ab'')) (lit ''hsx_t'') []))) = [9]"
    by code_simp
  ultimately show ?thesis by auto
qed

text \<open>One device and a stand-in for SHA-256.\<close>

definition phone :: stored where
  "phone = \<lparr>s_id = lit ''p1'', s_name = lit ''Phone'', s_scopes = [Read, Drive], s_created_at = 0, s_last_seen = None, s_hash = lit ''x:hsx_p''\<rparr>"

definition laptop :: stored where
  "laptop = \<lparr>s_id = lit ''l1'', s_name = lit ''Laptop'', s_scopes = [Read], s_created_at = 0, s_last_seen = None, s_hash = lit ''x:hsx_l''\<rparr>"

definition two_devices :: clients where
  "two_devices = \<lparr>devices = [phone, laptop], last_save = 0, dirty = False, on_disk = Some [phone, laptop]\<rparr>"

definition tag :: "rstr \<Rightarrow> rstr" where
  "tag t = lit ''x:'' @ t"

lemma revoked_device_stays_out_witness:
  "oc_id (the (fst (authenticate tag (at_ms 9) (lit ''hsx_l'')
     (fold (device_step tag) [Restart (at_ms 5), Authenticate (at_ms 6) (lit ''hsx_p'')]
       (snd (revoke (at_ms 1) (lit ''p1'') two_devices)))))) \<noteq> lit ''p1''"
proof -
  let ?c = "snd (revoke (at_ms 1) (lit ''p1'') two_devices)"
  let ?last = "fold (device_step tag) [Restart (at_ms 5), Authenticate (at_ms 6) (lit ''hsx_p'')] ?c"
  have r: "revoke (at_ms 1) (lit ''p1'') two_devices = (Inr True, ?c)" by code_simp
  have "fst (authenticate tag (at_ms 9) (lit ''hsx_l'') ?last) \<noteq> None" by code_simp
  then obtain oc c2 where a: "authenticate tag (at_ms 9) (lit ''hsx_l'') ?last = (Some oc, c2)"
    by (cases "authenticate tag (at_ms 9) (lit ''hsx_l'') ?last") auto
  have "oc_id oc \<noteq> lit ''p1''"
    by (rule revoked_device_stays_out [OF r _ a]) (simp add: draws_def)
  then show ?thesis using a by simp
qed

lemma failed_removal_comes_back_witness:
  "\<exists>c1 c2. revoke (at_ms 1\<lparr>write_error := Some (lit ''disk full'')\<rparr>) (lit ''p1'') two_devices = (Inl (lit ''disk full''), c1) \<and>
     revoke (at_ms 2) (lit ''p1'') c1 = (Inr False, c2) \<and>
     map_option oc_id (fst (authenticate tag (at_ms 4) (lit ''hsx_p'') (device_step tag (Restart (at_ms 3)) c2))) = Some (lit ''p1'')"
proof -
  have "rposition (\<lambda>d. token_matches (s_hash d) (tag (trim (lit ''hsx_p'')))) (devices two_devices) = Some 0" by code_simp
  then show ?thesis
    using failed_removal_comes_back [of phone two_devices "at_ms 1\<lparr>write_error := Some (lit ''disk full'')\<rparr>" "lit ''disk full''"
        "lit ''hsx_p''" tag 0 "at_ms 2" "at_ms 4" "at_ms 3"]
    by (simp add: two_devices_def phone_def trim_def trim_matches_def trim_end_matches_def trim_start_matches_def lit_def is_whitespace_def
        TOKEN_PREFIX_def)
qed

end
