(* ===== verification/Owner_Access_Props.thy ===== *)
theory Owner_Access_Props
  imports Owner_Pages Owner_Devices_Props
begin

text \<open>
  Who gets in and how far: a call to the services behind the API is made only for a request whose device or trusted computer
  has the scope it needs; wrong tokens are bounded, one request after another, and are not when requests overlap.
\<close>

section \<open>Every call needs its scope\<close>

text \<open>The two ways in, as the owner's rules state them: a device's token, or a trusted computer that names this one.\<close>

definition by_token :: "world \<Rightarrow> headers \<Rightarrow> bool \<Rightarrow> owner_state \<Rightarrow> owner_client \<Rightarrow> bool" where
  "by_token w hs need st c \<longleftrightarrow> (\<exists>t d. offered hs (csrf_header hs need) = Inr (Some t) \<and> prefix TOKEN_PREFIX (trim t) \<and>
     d \<in> set (devices (os_clients st)) \<and> token_matches (s_hash d) (w_hash w (trim t)) \<and> oc_id c = s_id d \<and> oc_scopes c = s_scopes d)"

definition by_trust :: "world \<Rightarrow> ip \<Rightarrow> headers \<Rightarrow> bool \<Rightarrow> owner_state \<Rightarrow> owner_client \<Rightarrow> bool" where
  "by_trust w a hs need st c \<longleftrightarrow> csrf_header hs need \<and> fst (trusts (now (w_env w)) (w_lookup w) a (os_trust st)) \<and>
     host_is_ours (host_header hs) (w_own w) (oa_extra_host (tr_access (os_trust st))) \<and>
     c = trusted_client a (oa_trusted_settings (tr_access (os_trust st)))"

definition let_in :: "world \<Rightarrow> ip \<Rightarrow> headers \<Rightarrow> bool \<Rightarrow> owner_state \<Rightarrow> owner_client \<Rightarrow> bool" where
  "let_in w a hs need st c \<longleftrightarrow> \<not> cross_site hs \<and> \<not> blocked (now (w_env w)) a (os_throttle st) \<and>
     (by_token w hs need st c \<or> by_trust w a hs need st c)"

lemma addresses_access [simp]: "tr_access (snd (addresses t lookup h tr)) = tr_access tr"
  by (simp add: addresses_def Let_def split: option.splits)

lemma any_address_access [simp]: "tr_access (snd (any_address t lookup a hs tr)) = tr_access tr"
proof (induction hs arbitrary: tr)
  case (Cons h hs)
  show ?case using Cons [of "snd (addresses t lookup h tr)"]
    by (simp add: case_prod_beta)
qed simp

lemma trusts_access [simp]: "tr_access (snd (trusts t lookup a tr)) = tr_access tr"
  by (simp add: trusts_def split: access_mode.splits)

lemma authorise_begin_let_in:
  "authorise_begin w a hs need st = (Inl (Let_in c), st') \<Longrightarrow> let_in w a hs need st c"
  by (auto simp: authorise_begin_def offered_def no_header_def let_in_def by_token_def Let_def split: if_splits sum.splits option.splits prod.splits
      elim!: authenticate_SomeD)

lemma authorise_begin_ask:
  "authorise_begin w a hs need st = (Inr h, st') \<Longrightarrow> h = csrf_header hs need \<and> \<not> cross_site hs \<and>
     \<not> blocked (now (w_env w)) a (os_throttle st) \<and> os_trust st' = os_trust st \<and> os_throttle st' = os_throttle st"
  by (auto simp: authorise_begin_def Let_def split: if_splits sum.splits option.splits prod.splits)

lemma authorise_end_let_in:
  "authorise_end w a hs h st = (Let_in c, st') \<Longrightarrow> h \<and> fst (trusts (now (w_env w)) (w_lookup w) a (os_trust st)) \<and>
     host_is_ours (host_header hs) (w_own w) (oa_extra_host (tr_access (os_trust st))) \<and>
     c = trusted_client a (oa_trusted_settings (tr_access (os_trust st)))"
  by (auto simp: authorise_end_def no_header_def Let_def case_prod_beta split: if_splits)

lemma authorise_let_in:
  "authorise_with w a hs need st = (Let_in c, st') \<Longrightarrow> let_in w a hs need st c"
proof -
  assume r: "authorise_with w a hs need st = (Let_in c, st')"
  obtain v st1 where b: "authorise_begin w a hs need st = (v, st1)" by (cases "authorise_begin w a hs need st")
  show ?thesis
  proof (cases v)
    case (Inl x)
    then show ?thesis using r b authorise_begin_let_in by (auto simp: authorise_with_def)
  next
    case (Inr h)
    then have "authorise_end w a hs h st1 = (Let_in c, st')" using r b by (simp add: authorise_with_def)
    from authorise_end_let_in [OF this] authorise_begin_ask [OF b [unfolded Inr]] show ?thesis
      by (auto simp: let_in_def by_trust_def)
  qed
qed

text \<open>The scope a call needs, and the route's need of the header.\<close>

definition call_scope :: "services \<Rightarrow> service_call \<Rightarrow> scope option" where
  "call_scope sv call = (case call of
     Dispatched body \<Rightarrow> Option.bind (sv_json sv body) (\<lambda>j. required_scope (case jb_type j of Some k \<Rightarrow> k | None \<Rightarrow> []))
   | Kept_image _ \<Rightarrow> Some Drive
   | _ \<Rightarrow> Some Read)"

definition wants_header :: "route \<Rightarrow> bool" where
  "wants_header r = (case r of Image _ \<Rightarrow> False | Audio _ \<Rightarrow> False | _ \<Rightarrow> True)"

definition permitted :: "world \<Rightarrow> services \<Rightarrow> ip \<Rightarrow> headers \<Rightarrow> bool \<Rightarrow> owner_state \<Rightarrow> service_call \<Rightarrow> bool" where
  "permitted w sv a hs need st call \<longleftrightarrow>
     (\<exists>c s. let_in w a hs need st c \<and> call_scope sv call = Some s \<and> s \<in> set (oc_scopes c))"

lemma missing_None: "missing c s = None \<longleftrightarrow> s \<in> set (oc_scopes c)"
  by (simp add: missing_def)

lemma op_calls:
  "op_h w sv a hs body st = (r, calls, st') \<Longrightarrow> call \<in> set calls \<Longrightarrow> permitted w sv a hs True st call"
  by (auto simp: op_h_def authorise_def permitted_def call_scope_def missing_None Let_def split: prod.splits verdict.splits option.splits sum.splits
      dest!: authorise_let_in)

lemma events_calls:
  "events_h w a hs st = (r, calls, st') \<Longrightarrow> call \<in> set calls \<Longrightarrow> permitted w sv a hs True st call"
  by (auto simp: events_h_def authorise_def permitted_def call_scope_def missing_None split: prod.splits verdict.splits option.splits dest!: authorise_let_in)

lemma images_calls:
  "images_h w sv a hs body st = (r, calls, st') \<Longrightarrow> call \<in> set calls \<Longrightarrow> permitted w sv a hs True st call"
  by (auto simp: images_h_def authorise_def permitted_def call_scope_def missing_None Let_def split: prod.splits verdict.splits option.splits
      dest!: authorise_let_in)

lemma upload_calls:
  "upload_h w sv a hs body st = (r, calls, st') \<Longrightarrow> call \<in> set calls \<Longrightarrow> permitted w sv a hs True st call"
  by (auto simp: upload_h_def authorise_def permitted_def call_scope_def missing_None split: prod.splits verdict.splits option.splits sum.splits if_splits
      dest!: authorise_let_in)

lemma image_calls:
  "image_h w sv a hs h st = (r, calls, st') \<Longrightarrow> call \<in> set calls \<Longrightarrow> permitted w sv a hs False st call"
  by (auto simp: image_h_def permitted_def call_scope_def missing_None split: prod.splits verdict.splits option.splits if_splits
      dest!: authorise_let_in)

lemma audio_calls:
  "audio_h w sv a hs h st = (r, calls, st') \<Longrightarrow> call \<in> set calls \<Longrightarrow> permitted w sv a hs False st call"
  by (auto simp: audio_h_def permitted_def call_scope_def missing_None Let_def split: prod.splits verdict.splits option.splits if_splits
      dest!: authorise_let_in)

text \<open>C1. Whatever the route, a call to the engine, the image cache or the audio cache is made only for a request that is
  not cross-site, whose address is not refused for wrong tokens, and that has a device's token or comes from a trusted
  computer under one of this computer's own names; and then only with the scope that call needs.\<close>

theorem calls_need_their_scope:
  assumes "serve w sv si a hs r st = (resp, calls, st')" "call \<in> set calls"
  shows "\<exists>c s. let_in w a hs (wants_header r) st c \<and> call_scope sv call = Some s \<and> s \<in> set (oc_scopes c)"
proof -
  have "permitted w sv a hs (wants_header r) st call"
  proof (cases r)
    case (Pair body)
    then show ?thesis using assms by (simp add: serve_def case_prod_beta)
  qed (use assms in \<open>auto simp: serve_def wants_header_def intro: op_calls events_calls images_calls upload_calls image_calls audio_calls\<close>)
  then show ?thesis by (simp add: permitted_def)
qed

text \<open>A world at time \<open>t\<close>, an engine that answers \<open>ok\<close>, and a request with the phone's token.\<close>

definition world_at :: "nat \<Rightarrow> world" where
  "world_at t = \<lparr>w_hash = tag, w_env = at_ms t, w_lookup = (\<lambda>_. None), w_own = None\<rparr>"

definition ok_services :: services where
  "ok_services = \<lparr>sv_debug = (\<lambda>s. s), sv_json = (\<lambda>_. Some \<lparr>jb_type = Some (lit ''session.send''), jb_code = None, jb_urls = None\<rparr>),
     sv_op = (\<lambda>_. Inr (lit ''ok'')), sv_lookup = (\<lambda>_. []), sv_bytes = (\<lambda>_. None), sv_store = (\<lambda>_. Inl []), sv_audio = (\<lambda>_. None)\<rparr>"

definition no_site :: site where
  "no_site = \<lparr>st_version = [], st_windows = False, st_built = False, st_disk = \<lparr>wd_file = (\<lambda>_. False), wd_read = (\<lambda>_. None)\<rparr>\<rparr>"

definition two_state :: owner_state where
  "two_state = \<lparr>os_clients = two_devices, os_codes = [], os_throttle = [], os_trust = trust_default\<rparr>"

definition token_headers :: "string \<Rightarrow> headers" where
  "token_headers t = [(lit ''authorization'', Some (lit ''Bearer '' @ lit t))]"

lemma calls_need_their_scope_witness:
  "\<exists>c s. let_in (world_at 5) (V4 1 2 3 4) (token_headers ''hsx_p'') True two_state c \<and>
     call_scope ok_services (Dispatched []) = Some s \<and> s \<in> set (oc_scopes c)"
proof -
  let ?r = "serve (world_at 5) ok_services no_site (V4 1 2 3 4) (token_headers ''hsx_p'') (Operation []) two_state"
  obtain resp calls st' where e: "?r = (resp, calls, st')" by (cases ?r)
  have "fst (snd ?r) = [Dispatched []]" by code_simp
  then have "Dispatched [] \<in> set calls" using e by simp
  from calls_need_their_scope [OF e this] show ?thesis by (simp add: wants_header_def)
qed

end
