(* ===== verification/Owner_Throttle_Props.thy ===== *)
theory Owner_Throttle_Props
  imports Owner_Access_Props
begin

text \<open>
  The limit on wrong tokens.  Requests served one after another get at most nineteen refusals in any minute from one address:
  a new window may open right after nine failures at the end of the last one; requests that overlap
  at the \<open>await\<close> are not limited at all.
\<close>

section \<open>One after another\<close>

lemma filter_le: "(\<And>t. t \<in> set l \<Longrightarrow> P t \<Longrightarrow> Q t) \<Longrightarrow> length (filter P l) \<le> length (filter Q l)"
  by (induction l) auto

lemma filter_split_le:
  "(\<And>t. t \<in> set l \<Longrightarrow> P t \<Longrightarrow> Q t \<or> R t) \<Longrightarrow> length (filter P l) \<le> length (filter Q l) + length (filter R l)"
  by (induction l) auto

abbreviation W :: nat where "W \<equiv> THROTTLE_WINDOW"

definition entry_ok :: "nat list \<Rightarrow> (nat \<times> nat) option \<Rightarrow> nat \<Rightarrow> bool" where
  "entry_ok hist e x = (case e of
     None \<Rightarrow> (\<forall>t\<in>set hist. t < x) \<and> length (filter (\<lambda>t. x < t + W) hist) \<le> 9
   | Some (s, n) \<Rightarrow> s \<le> x \<and> 0 < n \<and> n \<le> 10 \<and> length (filter (\<lambda>t. s < t) hist) \<le> n - 1 \<and> length (filter (\<lambda>t. s \<le> t) hist) \<le> n \<and> (\<forall>t\<in>set hist. t < s + W \<and> t \<le> x) \<and>
       length (filter (\<lambda>t. t < s \<and> s < t + W) hist) \<le> 9)"

definition within :: "nat \<Rightarrow> nat list \<Rightarrow> nat" where
  "within T hist = length (filter (\<lambda>t. T \<le> t \<and> t < T + W) hist)"

definition limited :: "nat list \<Rightarrow> (nat \<times> nat) option \<Rightarrow> nat \<Rightarrow> bool" where
  "limited hist e x \<longleftrightarrow> entry_ok hist e x \<and> (\<forall>T. within T hist \<le> 19)"

lemma W_pos: "0 < W" by (simp add: THROTTLE_WINDOW_def)

lemma limited_later: "limited hist e x \<Longrightarrow> x \<le> y \<Longrightarrow> limited hist e y"
proof -
  assume l: "limited hist e x" "x \<le> y"
  have "length (filter (\<lambda>t. y < t + W) hist) \<le> length (filter (\<lambda>t. x < t + W) hist)"
    using l(2) by (intro filter_le) auto
  then show ?thesis using l by (fastforce simp: limited_def entry_ok_def split: option.splits)
qed

text \<open>An entry whose window is over may be dropped.\<close>

lemma limited_drop:
  assumes "limited hist (Some (s, n)) x" "W \<le> x - s"
  shows "limited hist None x"
proof -
  have sx: "s + W \<le> x" using assms W_pos by linarith
  have "length (filter (\<lambda>t. x < t + W) hist) \<le> length (filter (\<lambda>t. s < t) hist)"
    using sx by (intro filter_le) auto
  then show ?thesis using assms sx by (fastforce simp: limited_def entry_ok_def)
qed

lemma within_Cons:
  assumes "within T hist \<le> 19" "length (filter (\<lambda>t. x < t + W \<and> T \<le> t) hist) \<le> 18 \<or> \<not> (T \<le> x \<and> x < T + W)" "\<forall>t\<in>set hist. t \<le> x"
  shows "within T (x # hist) \<le> 19"
proof (cases "T \<le> x \<and> x < T + W")
  case True
  then have "length (filter (\<lambda>t. T \<le> t \<and> t < T + W) hist) \<le> length (filter (\<lambda>t. x < t + W \<and> T \<le> t) hist)"
    by (intro filter_le) auto
  then show ?thesis using True assms by (simp add: within_def)
next
  case False
  then have "within T (x # hist) = within T hist" by (auto simp: within_def)
  then show ?thesis using assms by simp
qed

text \<open>A failure with no window open, or the window over.\<close>

lemma limited_new_window:
  assumes "limited hist None x"
  shows "limited (x # hist) (Some (x, 1)) x"
proof -
  have l: "\<forall>t\<in>set hist. t < x" "length (filter (\<lambda>t. x < t + W) hist) \<le> 9" "\<And>T. within T hist \<le> 19"
    using assms by (auto simp: limited_def entry_ok_def)
  have "length (filter (\<lambda>t. x < t + W \<and> T \<le> t) hist) \<le> 18" for T
    using l(2) filter_le [of hist "\<lambda>t. x < t + W \<and> T \<le> t" "\<lambda>t. x < t + W"] by simp
  then have "within T (x # hist) \<le> 19" for T
    using l by (intro within_Cons) auto
  moreover have "filter (\<lambda>t. x \<le> t) hist = []" "filter (\<lambda>t. x < t) hist = []" using l(1) by (force simp: filter_empty_conv)+
  moreover have "length (filter (\<lambda>t. t < x \<and> x < t + W) hist) \<le> 9"
    using l(2) filter_le [of hist "\<lambda>t. t < x \<and> x < t + W" "\<lambda>t. x < t + W"] by simp
  ultimately show ?thesis using l(1) W_pos by (fastforce simp: limited_def entry_ok_def)
qed

text \<open>A failure in the open window, below the limit.\<close>

lemma limited_same_window:
  assumes "limited hist (Some (s, n)) x" "n < 10" "x < s + W"
  shows "limited (x # hist) (Some (s, n + 1)) x"
proof -
  have l: "s \<le> x" "length (filter (\<lambda>t. s \<le> t) hist) \<le> n" "\<forall>t\<in>set hist. t < s + W \<and> t \<le> x"
      "length (filter (\<lambda>t. t < s \<and> s < t + W) hist) \<le> 9" "\<And>T. within T hist \<le> 19"
    using assms by (auto simp: limited_def entry_ok_def)
  have "length (filter (\<lambda>t. x < t + W \<and> T \<le> t) hist) \<le> 18" for T
  proof -
    have "length (filter (\<lambda>t. x < t + W \<and> T \<le> t) hist) \<le>
        length (filter (\<lambda>t. s \<le> t) hist) + length (filter (\<lambda>t. t < s \<and> s < t + W) hist)"
      using l(1) by (intro filter_split_le) auto
    then show ?thesis using l assms(2) by linarith
  qed
  then have "within T (x # hist) \<le> 19" for T using l by (intro within_Cons) auto
  then show ?thesis using l assms by (auto simp: limited_def entry_ok_def)
qed

lemma not_blocked: "\<not> blocked x a m \<Longrightarrow> map_of m a = Some (s, n) \<Longrightarrow> n < 10 \<or> W \<le> x - s"
  by (auto simp: blocked_def THROTTLE_FAILURES_def)

definition tracks :: "ip \<Rightarrow> nat list \<Rightarrow> throttle \<Rightarrow> nat \<Rightarrow> bool" where
  "tracks a hist m x \<longleftrightarrow> store_ok m \<and> limited hist (map_of m a) x"

lemma tracks_retain:
  "tracks a hist m x \<Longrightarrow> tracks a hist (store_retain (\<lambda>_ (start, _). x - start < W) m) x"
  unfolding tracks_def
  by (auto simp: store_simps map_of_retain not_less intro: limited_drop split: option.splits)

lemma tracks_fail:
  assumes "tracks a hist m x" "a' = a \<Longrightarrow> \<not> blocked x a m"
  shows "tracks a (if a' = a then x # hist else hist) (throttle_fail x a' m) x"
proof -
  define m1 where "m1 = (if 1024 < length m then store_retain (\<lambda>_ (start, _). x - start < W) m else m)"
  have t: "tracks a hist m1 x" using assms(1) tracks_retain by (simp add: m1_def)
  have keep: "map_of m1 a = map_of m a \<or> map_of m1 a = None"
    using assms(1) by (auto simp: m1_def tracks_def map_of_retain split: option.splits)
  show ?thesis
  proof (cases "a' = a")
    case False
    then show ?thesis using t
      by (simp add: throttle_fail_def Let_def case_prod_beta m1_def [symmetric] tracks_def update_conv' store_simps)
  next
    case True
    note same = t [unfolded tracks_def]
    show ?thesis
    proof (cases "map_of m1 a")
      case None
      then show ?thesis using True same limited_new_window W_pos
        by (simp add: throttle_fail_def Let_def m1_def [symmetric] tracks_def update_conv' store_simps)
    next
      case (Some e)
      obtain s n where e: "e = (s, n)" by (cases e)
      have nb: "n < 10 \<or> W \<le> x - s" using not_blocked assms(2) True keep Some e by fastforce
      show ?thesis
      proof (cases "W \<le> x - s")
        case over: True
        then show ?thesis using True Some e same limited_new_window [OF limited_drop [of hist s n x]]
          by (simp add: throttle_fail_def Let_def m1_def [symmetric] tracks_def update_conv' store_simps)
      next
        case False
        then show ?thesis using True Some e same limited_same_window nb
          by (simp add: throttle_fail_def Let_def m1_def [symmetric] tracks_def update_conv' store_simps)
      qed
    qed
  qed
qed

text \<open>What the handlers do to the throttle.\<close>

definition same_or_failed :: "nat \<Rightarrow> ip \<Rightarrow> response \<Rightarrow> owner_state \<Rightarrow> owner_state \<Rightarrow> bool" where
  "same_or_failed x a r st st' \<longleftrightarrow>
     ((\<exists>why. r = Refuse 401 why) \<and> \<not> blocked x a (os_throttle st) \<and> os_throttle st' = throttle_fail x a (os_throttle st)) \<or>
     ((\<nexists>why. r = Refuse 401 why) \<and> os_throttle st' = os_throttle st)"

definition v_same_or_failed :: "nat \<Rightarrow> ip \<Rightarrow> verdict \<Rightarrow> owner_state \<Rightarrow> owner_state \<Rightarrow> bool" where
  "v_same_or_failed x a v st st' \<longleftrightarrow>
     ((\<exists>why. v = Turned_away 401 why) \<and> \<not> blocked x a (os_throttle st) \<and> os_throttle st' = throttle_fail x a (os_throttle st)) \<or>
     ((\<nexists>why. v = Turned_away 401 why) \<and> os_throttle st' = os_throttle st)"

lemma authorise_begin_throttle:
  "authorise_begin w a hs need st = (v, st') \<Longrightarrow> os_throttle st' = os_throttle st \<and>
     (case v of Inl v \<Rightarrow> \<nexists>why. v = Turned_away 401 why | Inr _ \<Rightarrow> \<not> blocked (now (w_env w)) a (os_throttle st))"
  by (auto simp: authorise_begin_def offered_def no_header_def Let_def split: if_splits sum.splits option.splits prod.splits)

lemma authorise_end_throttle:
  "authorise_end w a hs h st = (v, st') \<Longrightarrow> \<not> blocked (now (w_env w)) a (os_throttle st) \<Longrightarrow>
     v_same_or_failed (now (w_env w)) a v st st'"
  by (auto simp: authorise_end_def v_same_or_failed_def no_header_def Let_def case_prod_beta split: if_splits)

lemma authorise_throttle:
  "authorise_with w a hs need st = (v, st') \<Longrightarrow> v_same_or_failed (now (w_env w)) a v st st'"
proof -
  assume r: "authorise_with w a hs need st = (v, st')"
  obtain u st1 where b: "authorise_begin w a hs need st = (u, st1)" by (cases "authorise_begin w a hs need st")
  note t = authorise_begin_throttle [OF b]
  show ?thesis
  proof (cases u)
    case (Inl x)
    then show ?thesis using r b t by (auto simp: authorise_with_def v_same_or_failed_def)
  next
    case (Inr h)
    then have "authorise_end w a hs h st1 = (v, st')" using r b by (simp add: authorise_with_def)
    from authorise_end_throttle [OF this] t Inr show ?thesis by (simp add: v_same_or_failed_def)
  qed
qed

lemma missing_403: "missing c s = Some r \<Longrightarrow> \<exists>why. r = Refuse 403 why"
  by (auto simp: missing_def split: if_splits)

lemma engine_not_401 [simp]: "engine_status e \<noteq> 401"
  by (simp add: engine_status_def)

lemma handler_throttle:
  assumes "authorise_with w a hs need st = (v, st1)" "st' = st1"
    "case v of Turned_away s why \<Rightarrow> r = Refuse s why | Let_in _ \<Rightarrow> (\<nexists>why. r = Refuse 401 why)"
  shows "same_or_failed (now (w_env w)) a r st st'"
  using authorise_throttle [OF assms(1)] assms(2,3)
  by (auto simp: v_same_or_failed_def same_or_failed_def split: verdict.splits)

lemma op_throttle: "op_h w sv a hs body st = (r, calls, st') \<Longrightarrow> same_or_failed (now (w_env w)) a r st st'"
proof -
  assume r: "op_h w sv a hs body st = (r, calls, st')"
  obtain v st1 where v: "authorise_with w a hs True st = (v, st1)" by (cases "authorise_with w a hs True st")
  show ?thesis
    by (rule handler_throttle [OF v])
      (use r v in \<open>auto simp: op_h_def authorise_def Let_def split: verdict.splits option.splits sum.splits dest!: missing_403\<close>)
qed

lemma events_throttle: "events_h w a hs st = (r, calls, st') \<Longrightarrow> same_or_failed (now (w_env w)) a r st st'"
proof -
  assume r: "events_h w a hs st = (r, calls, st')"
  obtain v st1 where v: "authorise_with w a hs True st = (v, st1)" by (cases "authorise_with w a hs True st")
  show ?thesis
    by (rule handler_throttle [OF v])
      (use r v in \<open>auto simp: events_h_def authorise_def split: verdict.splits option.splits dest!: missing_403\<close>)
qed

lemma images_throttle: "images_h w sv a hs body st = (r, calls, st') \<Longrightarrow> same_or_failed (now (w_env w)) a r st st'"
proof -
  assume r: "images_h w sv a hs body st = (r, calls, st')"
  obtain v st1 where v: "authorise_with w a hs True st = (v, st1)" by (cases "authorise_with w a hs True st")
  show ?thesis
    by (rule handler_throttle [OF v])
      (use r v in \<open>auto simp: images_h_def authorise_def Let_def split: verdict.splits option.splits dest!: missing_403\<close>)
qed

lemma upload_throttle: "upload_h w sv a hs body st = (r, calls, st') \<Longrightarrow> same_or_failed (now (w_env w)) a r st st'"
proof -
  assume r: "upload_h w sv a hs body st = (r, calls, st')"
  obtain v st1 where v: "authorise_with w a hs True st = (v, st1)" by (cases "authorise_with w a hs True st")
  show ?thesis
    by (rule handler_throttle [OF v])
      (use r v in \<open>auto simp: upload_h_def authorise_def split: verdict.splits option.splits sum.splits dest!: missing_403\<close>)
qed

lemma image_throttle: "image_h w sv a hs h st = (r, calls, st') \<Longrightarrow> same_or_failed (now (w_env w)) a r st st'"
proof -
  assume r: "image_h w sv a hs h st = (r, calls, st')"
  obtain v st1 where v: "authorise_with w a hs False st = (v, st1)" by (cases "authorise_with w a hs False st")
  show ?thesis
    by (rule handler_throttle [OF v])
      (use r v in \<open>auto simp: image_h_def split: verdict.splits option.splits if_splits dest!: missing_403\<close>)
qed

lemma audio_throttle: "audio_h w sv a hs h st = (r, calls, st') \<Longrightarrow> same_or_failed (now (w_env w)) a r st st'"
proof -
  assume r: "audio_h w sv a hs h st = (r, calls, st')"
  obtain v st1 where v: "authorise_with w a hs False st = (v, st1)" by (cases "authorise_with w a hs False st")
  show ?thesis
    by (rule handler_throttle [OF v])
      (use r v in \<open>auto simp: audio_h_def Let_def split: verdict.splits option.splits if_splits slice.splits dest!: missing_403\<close>)
qed

lemma pair_throttle: "pair_h w sv a hs body st = (r, st') \<Longrightarrow> same_or_failed (now (w_env w)) a r st st'"
  by (auto simp: pair_h_def same_or_failed_def Let_def split: if_splits prod.splits option.splits)

lemma web_not_401 [simp]: "web windows built d p \<noteq> Refuse 401 why"
  by (auto simp: web_def Let_def split: option.splits)

lemma serve_throttle:
  assumes "serve w sv si a hs r st = (resp, calls, st')"
  shows "same_or_failed (now (w_env w)) a resp st st'"
proof (cases r)
  case (Pair body)
  then show ?thesis using assms pair_throttle [of w sv a hs body st] by (simp add: serve_def case_prod_beta)
      (metis prod.collapse)
qed (use assms in \<open>auto simp: serve_def same_or_failed_def to_app_def logout_h_def
    dest: op_throttle [unfolded same_or_failed_def] events_throttle [unfolded same_or_failed_def] images_throttle [unfolded same_or_failed_def]
      upload_throttle [unfolded same_or_failed_def] image_throttle [unfolded same_or_failed_def] audio_throttle [unfolded same_or_failed_def]\<close>)

text \<open>A request as it arrives; the clock of its \<open>world\<close> is its time.\<close>

record request =
  rq_world :: world
  rq_from :: ip
  rq_headers :: headers
  rq_route :: route

definition rq_time :: "request \<Rightarrow> nat" where
  "rq_time q = now (w_env (rq_world q))"

definition answer :: "services \<Rightarrow> site \<Rightarrow> request \<Rightarrow> owner_state \<Rightarrow> response \<times> service_call list \<times> owner_state" where
  "answer sv si q st = serve (rq_world q) sv si (rq_from q) (rq_headers q) (rq_route q) st"

text \<open>When the requests of one address were refused for a wrong token, in a run of requests served one after another.\<close>

definition is_401 :: "response \<Rightarrow> bool" where
  "is_401 r = (case r of Refuse s _ \<Rightarrow> s = 401 | Reply _ _ _ \<Rightarrow> False)"

fun wrong_at :: "services \<Rightarrow> site \<Rightarrow> ip \<Rightarrow> request list \<Rightarrow> owner_state \<Rightarrow> nat list" where
  "wrong_at sv si a [] st = []"
| "wrong_at sv si a (q # qs) st =
    (let (r, _, st') = answer sv si q st in
     (if rq_from q = a \<and> is_401 r then [rq_time q] else []) @ wrong_at sv si a qs st')"

lemma tracks_serve:
  assumes "tracks a hist (os_throttle st) x" "x \<le> rq_time q" "answer sv si q st = (r, calls, st')"
  shows "tracks a (if rq_from q = a \<and> is_401 r then rq_time q # hist else hist) (os_throttle st') (rq_time q)"
proof -
  have t: "tracks a hist (os_throttle st) (rq_time q)" using assms(1,2) limited_later by (auto simp: tracks_def)
  have "same_or_failed (rq_time q) (rq_from q) r st st'"
    using serve_throttle assms(3) by (simp add: answer_def rq_time_def)
  then consider (failed) "is_401 r" "\<not> blocked (rq_time q) (rq_from q) (os_throttle st)"
      "os_throttle st' = throttle_fail (rq_time q) (rq_from q) (os_throttle st)"
    | (same) "\<not> is_401 r" "os_throttle st' = os_throttle st"
    unfolding same_or_failed_def is_401_def by (cases r) auto
  then show ?thesis
  proof cases
    case failed
    then show ?thesis using tracks_fail [OF t, of "rq_from q"] by (cases "rq_from q = a") auto
  next
    case same
    then show ?thesis using t by simp
  qed
qed

lemma within_rev: "within T (rev l) = within T l"
  by (simp add: within_def rev_filter [symmetric])

lemma within_append: "within T (l @ l') = within T l + within T l'"
  by (simp add: within_def)

lemma tracks_run:
  "tracks a hist (os_throttle st) x \<Longrightarrow> sorted (x # map rq_time qs) \<Longrightarrow> within T (hist @ wrong_at sv si a qs st) \<le> 19"
proof (induction qs arbitrary: hist st x)
  case Nil
  then show ?case by (simp add: tracks_def limited_def)
next
  case (Cons q qs)
  obtain r calls st' where e: "answer sv si q st = (r, calls, st')" by (cases "answer sv si q st")
  let ?hist = "if rq_from q = a \<and> is_401 r then rq_time q # hist else hist"
  have "within T (?hist @ wrong_at sv si a qs st') \<le> 19"
    using Cons.IH [OF tracks_serve [OF Cons.prems(1) _ e]] Cons.prems(2) by simp
  moreover have "within T (hist @ wrong_at sv si a (q # qs) st) = within T (?hist @ wrong_at sv si a qs st')"
    using e by (auto simp: within_def)
  ultimately show ?case by simp
qed

lemma tracks_fresh: "tracks a [] [] x"
  by (simp add: tracks_def limited_def entry_ok_def within_def store_simps)

text \<open>C23. However many requests arrive, and from wherever, an address that sends them one after another is told at most
  nineteen times in any minute that its token or pairing code is wrong; beyond that it is refused unheard.\<close>

theorem wrong_tokens_are_limited:
  assumes "os_throttle st = []" "sorted (map rq_time qs)"
  shows "length (filter (\<lambda>t. T \<le> t \<and> t < T + THROTTLE_WINDOW) (wrong_at sv si a qs st)) \<le> 19"
proof -
  have "within T ([] @ wrong_at sv si a qs st) \<le> 19"
    using assms by (intro tracks_run [where x = 0]) (auto simp: tracks_fresh)
  then show ?thesis by (simp add: within_def)
qed

text \<open>Twelve wrong tokens, one a second: ten are told so, the others are refused unheard.\<close>

definition guess_at :: "nat \<Rightarrow> request" where
  "guess_at t = \<lparr>rq_world = world_at t, rq_from = V4 1 2 3 4, rq_headers = token_headers ''hsx_x'', rq_route = Events\<rparr>"

lemma wrong_tokens_are_limited_witness:
  "length (filter (\<lambda>t. 1000 \<le> t \<and> t < 1000 + THROTTLE_WINDOW)
     (wrong_at ok_services no_site (V4 1 2 3 4) (map guess_at (map (\<lambda>i. i * 1000) [0..<12])) two_state)) \<le> 19 \<and>
   length (wrong_at ok_services no_site (V4 1 2 3 4) (map guess_at (map (\<lambda>i. i * 1000) [0..<12])) two_state) = 10"
proof
  show "length (filter (\<lambda>t. 1000 \<le> t \<and> t < 1000 + THROTTLE_WINDOW)
      (wrong_at ok_services no_site (V4 1 2 3 4) (map guess_at (map (\<lambda>i. i * 1000) [0..<12])) two_state)) \<le> 19"
    by (rule wrong_tokens_are_limited) (code_simp, code_simp)
  show "length (wrong_at ok_services no_site (V4 1 2 3 4) (map guess_at (map (\<lambda>i. i * 1000) [0..<12])) two_state) = 10"
    by code_simp
qed

section \<open>At once\<close>

text \<open>Requests of one address at one moment: all reach the \<open>await\<close> before any goes on.\<close>

fun begin_all :: "world \<Rightarrow> ip \<Rightarrow> headers list \<Rightarrow> owner_state \<Rightarrow> (verdict + bool) list \<times> owner_state" where
  "begin_all w a [] st = ([], st)"
| "begin_all w a (hs # rs) st =
    (let (v, st) = authorise_begin w a hs True st; (vs, st) = begin_all w a rs st in (v # vs, st))"

fun end_all :: "world \<Rightarrow> ip \<Rightarrow> (headers \<times> (verdict + bool)) list \<Rightarrow> owner_state \<Rightarrow> verdict list \<times> owner_state" where
  "end_all w a [] st = ([], st)"
| "end_all w a ((hs, v) # rs) st =
    (let (u, st) = (case v of Inl u \<Rightarrow> (u, st) | Inr h \<Rightarrow> authorise_end w a hs h st); (us, st) = end_all w a rs st in (u # us, st))"

definition overlapping :: "world \<Rightarrow> ip \<Rightarrow> headers list \<Rightarrow> owner_state \<Rightarrow> verdict list \<times> owner_state" where
  "overlapping w a rs st = (let (vs, st) = begin_all w a rs st in end_all w a (zip rs vs) st)"

definition wrong_token :: "world \<Rightarrow> headers \<Rightarrow> clients \<Rightarrow> bool" where
  "wrong_token w hs c \<longleftrightarrow> \<not> cross_site hs \<and> (case offered hs (csrf_header hs True) of
     Inr (Some t) \<Rightarrow> fst (authenticate (w_hash w) (w_env w) t c) = None | _ \<Rightarrow> False)"

text \<open>The trusted computers are others, found by name; no cached name stands for this address.\<close>

definition others_trusted :: "world \<Rightarrow> ip \<Rightarrow> trust \<Rightarrow> bool" where
  "others_trusted w a tr \<longleftrightarrow> oa_mode (tr_access tr) = Trusted \<and>
     list_all (\<lambda>h. parse_ip (trim h) = None \<and> (case w_lookup w (trim h) of Some l \<Rightarrow> canonical a \<notin> set l | None \<Rightarrow> True))
       (oa_trusted_hosts (tr_access tr)) \<and>
     list_all (\<lambda>(_, _, l). canonical a \<notin> set l) (tr_resolved tr)"

lemma authenticate_None: "fst (authenticate H ev t c) = None \<Longrightarrow> authenticate H ev t c = (None, c)"
  by (simp add: authenticate_def Let_def split: option.splits if_splits)

lemma begin_all_wrong:
  assumes "\<not> blocked (now (w_env w)) a (os_throttle st)" "list_all (\<lambda>hs. wrong_token w hs (os_clients st)) rs"
  shows "begin_all w a rs st = (map (\<lambda>hs. Inr (csrf_header hs True)) rs, st)"
  using assms(2)
proof (induction rs)
  case (Cons hs rs)
  have "wrong_token w hs (os_clients st)" using Cons.prems by simp
  then obtain t where "\<not> cross_site hs" "offered hs (csrf_header hs True) = Inr (Some t)"
      "authenticate (w_hash w) (w_env w) t (os_clients st) = (None, os_clients st)"
    by (auto simp: wrong_token_def authenticate_None split: sum.splits option.splits)
  then have "authorise_begin w a hs True st = (Inr (csrf_header hs True), st)"
    using assms(1) by (simp add: authorise_begin_def Let_def)
  then show ?case using Cons by simp
qed simp

lemma any_address_others:
  assumes "list_all (\<lambda>h. parse_ip (trim h) = None \<and> (case lookup (trim h) of Some l \<Rightarrow> a \<notin> set l | None \<Rightarrow> True)) hs"
    "list_all (\<lambda>(_, _, l). a \<notin> set l) (tr_resolved tr)"
  shows "\<not> fst (any_address t lookup a hs tr) \<and> list_all (\<lambda>(_, _, l). a \<notin> set l) (tr_resolved (snd (any_address t lookup a hs tr)))"
  using assms
proof (induction hs arbitrary: tr)
  case (Cons h hs)
  obtain ips tr1 where e: "addresses t lookup h tr = (ips, tr1)" by (cases "addresses t lookup h tr")
  have clean: "set (AList.update n (t, l) m) \<subseteq> insert (n, t, l) (set m)" for n l and m :: "(rstr \<times> nat \<times> ip list) list"
    by (induction m) auto
  have "a \<notin> set ips \<and> list_all (\<lambda>(_, _, l). a \<notin> set l) (tr_resolved tr1)"
  proof (cases "case map_of (tr_resolved tr) (trim h) of Some (since, ips) \<Rightarrow> if t - since < RESOLVE_EVERY then Some ips else None | None \<Rightarrow> None")
    case (Some l)
    then have "(trim h, fst (the (map_of (tr_resolved tr) (trim h))), l) \<in> set (tr_resolved tr)"
      by (auto split: option.splits if_splits dest: map_of_SomeD)
    then show ?thesis using Some e Cons.prems by (auto simp: addresses_def Let_def list_all_iff)
  next
    case None
    then have "ips = (case lookup (trim h) of Some found \<Rightarrow> remdups_adj (sort found) | None \<Rightarrow> [])"
        "tr_resolved tr1 = AList.update (trim h) (t, ips) (tr_resolved tr)"
      using e Cons.prems by (auto simp: addresses_def Let_def)
    then show ?thesis using Cons.prems clean [of "trim h" ips "tr_resolved tr"]
      by (fastforce simp: list_all_iff split: option.splits)
  qed
  then show ?case using Cons e by simp
qed simp

lemma authorise_end_others:
  assumes "others_trusted w a (os_trust st)"
  shows "\<exists>st'. authorise_end w a hs h st = (Turned_away 401 (lit ''a device token is needed''), st') \<and> others_trusted w a (os_trust st')"
proof -
  obtain b tr where t: "trusts (now (w_env w)) (w_lookup w) a (os_trust st) = (b, tr)"
    by (cases "trusts (now (w_env w)) (w_lookup w) a (os_trust st)")
  have "\<not> b \<and> list_all (\<lambda>(_, _, l). canonical a \<notin> set l) (tr_resolved tr)"
    using any_address_others [where lookup = "w_lookup w" and a = "canonical a" and tr = "os_trust st" and t = "now (w_env w)"] assms t
    by (fastforce simp: others_trusted_def trusts_def)
  moreover have "tr_access tr = tr_access (os_trust st)" using trusts_access t by (metis snd_conv)
  ultimately show ?thesis using assms t by (simp add: authorise_end_def others_trusted_def)
qed

lemma end_all_others:
  "others_trusted w a (os_trust st) \<Longrightarrow>
   fst (end_all w a (map (\<lambda>hs. (hs, Inr (csrf_header hs True))) rs) st) = replicate (length rs) (Turned_away 401 (lit ''a device token is needed''))"
proof (induction rs arbitrary: st)
  case (Cons hs rs)
  obtain st1 where "authorise_end w a hs (csrf_header hs True) st = (Turned_away 401 (lit ''a device token is needed''), st1)"
      "others_trusted w a (os_trust st1)"
    using authorise_end_others [OF Cons.prems] by blast
  then show ?case using Cons.IH [of st1] by (simp add: case_prod_beta)
qed simp

text \<open>C38. The limit does not hold for requests that overlap: while the names of trusted computers are looked up, any number of
  requests of one address can have their tokens compared with the devices' before the first of them counts as a failure, and
  not one is refused unheard.\<close>

theorem overlapping_guesses_unlimited:
  assumes "os_throttle st = []" "others_trusted w a (os_trust st)" "list_all (\<lambda>hs. wrong_token w hs (os_clients st)) guesses"
  shows "fst (overlapping w a guesses st) = replicate (length guesses) (Turned_away 401 (lit ''a device token is needed''))"
proof -
  have b: "begin_all w a guesses st = (map (\<lambda>hs. Inr (csrf_header hs True)) guesses, st)"
    using assms(1,3) by (intro begin_all_wrong) (simp_all add: blocked_def)
  have z: "zip guesses (map (\<lambda>hs. Inr (csrf_header hs True)) guesses) = map (\<lambda>hs. (hs, Inr (csrf_header hs True))) guesses"
    by (induction guesses) auto
  show ?thesis using end_all_others [OF assms(2)] by (simp add: overlapping_def b z)
qed

definition named_state :: owner_state where
  "named_state = two_state\<lparr>os_trust := set_access \<lparr>oa_mode = Trusted, oa_trusted_hosts = [lit ''box.lan''], oa_extra_host = None,
     oa_trusted_settings = False\<rparr> trust_default\<rparr>"

lemma overlapping_guesses_unlimited_witness:
  "fst (overlapping (world_at 0) (V4 1 2 3 4) (replicate 12 (token_headers ''hsx_x'')) named_state)
     = replicate 12 (Turned_away 401 (lit ''a device token is needed''))"
proof -
  have "os_throttle named_state = []" "others_trusted (world_at 0) (V4 1 2 3 4) (os_trust named_state)" by code_simp+
  moreover have "wrong_token (world_at 0) (token_headers ''hsx_x'') (os_clients named_state)" by code_simp
  then have "list_all (\<lambda>hs. wrong_token (world_at 0) hs (os_clients named_state)) (replicate 12 (token_headers ''hsx_x''))"
    by (simp add: list_all_iff)
  ultimately show ?thesis using overlapping_guesses_unlimited [of named_state "world_at 0" "V4 1 2 3 4" "replicate 12 (token_headers ''hsx_x'')"]
    by simp
qed

end
