(* ===== verification/Owner_Pages_Props.thy ===== *)
theory Owner_Pages_Props
  imports Owner_Access_Props
begin

text \<open>
  What the pages give away: the byte ranges of a file, the folder the web client is served from, on Windows also what lies
  beside it, the guest link after it was changed, and the way a browser is paired with a new device.
\<close>

section \<open>Byte ranges\<close>

lemma range_span_bounds:
  "range_span a b n = Inr (Some (s, e)) \<Longrightarrow> s < n \<Longrightarrow> s \<le> e \<and> e < n"
  by (auto simp: range_span_def split: if_splits option.splits)

lemma parse_range_bounds: "parse_range h n = Inr (Some (s, e)) \<Longrightarrow> s \<le> e \<and> e < n"
  by (auto simp: parse_range_def split: if_splits option.splits sum.splits prod.splits dest: range_span_bounds)

text \<open>C37. A part served of a file is not empty, lies inside the file, and is exactly the bytes between the two positions the
  answer names, whatever the \<open>Range\<close> header says.\<close>

theorem parts_are_exact:
  assumes "read_slice file asked = Part b s e n"
  shows "s \<le> e \<and> e < length file \<and> n = length file \<and> length b = e - s + 1 \<and> take s file @ b @ drop (e + 1) file = file"
proof -
  have r: "parse_range asked (length file) = Inr (Some (s, e))" "b = take (e - s + 1) (drop s file)" "n = length file"
    using assms by (auto simp: read_slice_def split: sum.splits option.splits prod.splits)
  note bounds = parse_range_bounds [OF r(1)]
  then have "drop (e + 1) file = drop (e - s + 1) (drop s file)" by (simp add: add.commute)
  then have "take s file @ b @ drop (e + 1) file = file" by (simp add: r(2) del: drop_drop)
  then show ?thesis using bounds r by auto
qed

lemma parts_are_exact_witness:
  "\<exists>b s e n. read_slice [1, 2, 3, 4, 5] (Some (lit ''bytes=-2'')) = Part b s e n \<and> take s [1, 2, 3, 4, 5] @ b @ drop (e + 1) [1, 2, 3, 4, 5] = [1, 2, 3, 4, 5]"
proof -
  have r: "read_slice [1, 2, 3, 4, 5] (Some (lit ''bytes=-2'')) = Part [4, 5] 3 4 5" by code_simp
  from parts_are_exact [OF r] r show ?thesis by blast
qed

section \<open>The web client's folder\<close>

definition plain :: "rstr \<Rightarrow> bool" where
  "plain p \<longleftrightarrow> p \<noteq> [] \<and> p \<noteq> lit ''.'' \<and> p \<noteq> lit ''..'' \<and> 47 \<notin> set p"

lemma components_plain: "Normal p \<in> set (components windows path) \<Longrightarrow> plain p"
  by (auto simp: components_def part_of_def plain_def lit_def Let_def dest!: split_char_mem split: if_splits)

lemma push_all_unix:
  "push_all False cs r = Some r' \<Longrightarrow> (\<And>p. Normal p \<in> set cs \<Longrightarrow> plain p) \<Longrightarrow> list_all plain (rp_parts r) \<Longrightarrow>
     list_all plain (rp_parts r') \<and> rp_drive r' = rp_drive r"
proof (induction False cs r rule: push_all.induct)
  case (2 p cs r)
  then show ?case by (auto simp: push_part_def drive_of_def split: list.splits)
qed auto

lemma safe_relative_unix:
  "safe_relative False path = Some r \<Longrightarrow> list_all plain (rp_parts r) \<and> rp_drive r = None"
  using push_all_unix [of "components False path" "\<lparr>rp_drive = None, rp_parts = []\<rparr>" r] components_plain
  by (auto simp: safe_relative_def split: if_splits)

text \<open>C25. Off Windows the web client's route shows nothing but its folder: two disks that agree on the files below it, reached
  by names alone, give the same answer to every path.\<close>

theorem web_stays_inside:
  assumes "\<And>ps. list_all plain ps \<Longrightarrow> wd_file d (Under_root ps) = wd_file d' (Under_root ps) \<and> wd_read d (Under_root ps) = wd_read d' (Under_root ps)"
  shows "web False built d path = web False built d' path"
proof (cases "safe_relative False path")
  case None
  then show ?thesis by (simp add: web_def)
next
  case (Some r)
  from safe_relative_unix [OF this] have "join_root r = Under_root (rp_parts r)" "list_all plain (rp_parts r)"
    by (auto simp: join_root_def)
  moreover have "plain (lit ''index.html'')" by (simp add: plain_def lit_def)
  ultimately show ?thesis using assms [of "rp_parts r"] assms [of "[lit ''index.html'']"] Some
    by (simp add: web_def Let_def)
qed

lemma web_stays_inside_witness:
  "web False True \<lparr>wd_file = (\<lambda>_. False), wd_read = (\<lambda>p. case p of Under_root _ \<Rightarrow> Some [1] | On_drive _ _ \<Rightarrow> None)\<rparr> (lit ''a/C:/x'')
     = web False True \<lparr>wd_file = (\<lambda>p. case p of Under_root _ \<Rightarrow> False | On_drive _ _ \<Rightarrow> True), wd_read = (\<lambda>_. Some [1])\<rparr> (lit ''a/C:/x'')"
  by (rule web_stays_inside) simp

text \<open>C40. On Windows a drive in the middle of the path replaces what came before it, so the route serves any file of the
  program's current folder on that drive, which lies outside the web client's.\<close>

theorem web_reads_another_drive:
  assumes "is_ascii_alphabetic c" "plain name" "92 \<notin> set name" "0 \<notin> set name"
    and "wd_file d (On_drive [c, 58] [name])" "wd_read d (On_drive [c, 58] [name]) = Some b"
  shows "\<exists>hs. web True True d (lit ''a/'' @ [c, 58] @ name) = Reply 200 hs (Bytes b)"
proof -
  have c: "c \<noteq> 47" "c \<noteq> 92" "c \<noteq> 0" using assms(1) by (auto simp: is_ascii_alphabetic_def)
  have "split_char 47 (lit ''a/'' @ [c, 58] @ name) = [[97], c # 58 # name]"
    using c assms(2) by (simp add: lit_def plain_def split_char_single)
  then have "components True (lit ''a/'' @ [c, 58] @ name) = [Normal [97], Normal (c # 58 # name)]"
    by (simp add: components_def drive_of_def part_of_def lit_def)
  then have "safe_relative True (lit ''a/'' @ [c, 58] @ name) = Some \<lparr>rp_drive = Some [c, 58], rp_parts = [name]\<rparr>"
    using assms c by (simp add: safe_relative_def push_part_def drive_of_def lit_def plain_def)
  then show ?thesis using assms(5,6) by (simp add: web_def join_root_def)
qed

lemma web_reads_another_drive_witness:
  "\<exists>hs. web True True \<lparr>wd_file = (\<lambda>p. p = On_drive (lit ''C:'') [lit ''keys.json'']), wd_read = (\<lambda>_. Some [7])\<rparr> (lit ''a/C:keys.json'') = Reply 200 hs (Bytes [7])"
  using web_reads_another_drive [of 67 "lit ''keys.json''" "\<lparr>wd_file = (\<lambda>p. p = On_drive (lit ''C:'') [lit ''keys.json'']), wd_read = (\<lambda>_. Some [7])\<rparr>" "[7]"]
  by (simp add: is_ascii_alphabetic_def plain_def lit_def)

section \<open>The guest link\<close>



section \<open>Pairing a browser\<close>

definition hex_string :: "rstr \<Rightarrow> bool" where
  "hex_string s \<longleftrightarrow> s \<noteq> [] \<and> list_all (\<lambda>c. is_ascii_digit c \<or> (97 \<le> c \<and> c \<le> 102)) s"

lemma trim_no_space:
  assumes "list_all (\<lambda>c. \<not> is_whitespace c) s"
  shows "trim s = s"
proof -
  have d: "list_all (\<lambda>c. \<not> is_whitespace c) l \<Longrightarrow> dropWhile is_whitespace l = l" for l by (cases l) auto
  have "list_all (\<lambda>c. \<not> is_whitespace c) (rev s)" using assms by (simp add: list_all_iff)
  then show ?thesis using d [OF assms] d [of "rev s"]
    by (simp add: trim_def trim_matches_def trim_end_matches_def trim_start_matches_def)
qed

lemma hex_chars: "hex_string s \<Longrightarrow> c \<in> set s \<Longrightarrow> 48 \<le> c \<and> c \<le> 102 \<and> c \<noteq> 59 \<and> c \<noteq> 61 \<and> \<not> is_whitespace c"
  by (auto simp: hex_string_def list_all_iff is_ascii_digit_def is_whitespace_def)

lemma hex_trim: "hex_string s \<Longrightarrow> trim s = s"
  by (rule trim_no_space) (auto simp: list_all_iff dest: hex_chars)

text \<open>The token in a cookie, with the header the web client adds.\<close>

definition browser_headers :: "rstr \<Rightarrow> headers" where
  "browser_headers tok = [(lit ''cookie'', Some (OWNER_COOKIE @ lit ''='' @ tok)), (lit ''x-haruspex'', Some (lit ''1''))]"

lemma token_clean:
  assumes "hex_string t"
  shows "trim (TOKEN_PREFIX @ t) = TOKEN_PREFIX @ t" "59 \<notin> set (TOKEN_PREFIX @ t)"
proof -
  have "list_all (\<lambda>c. \<not> is_whitespace c) (TOKEN_PREFIX @ t)"
    using hex_chars [OF assms] by (auto simp: list_all_iff TOKEN_PREFIX_def lit_def is_whitespace_def)
  then show "trim (TOKEN_PREFIX @ t) = TOKEN_PREFIX @ t" by (rule trim_no_space)
  show "59 \<notin> set (TOKEN_PREFIX @ t)" using hex_chars [OF assms] by (auto simp: TOKEN_PREFIX_def lit_def)
qed

lemma offered_browser:
  assumes "hex_string t"
  shows "offered (browser_headers (TOKEN_PREFIX @ t)) (csrf_header (browser_headers (TOKEN_PREFIX @ t)) need) = Inr (Some (TOKEN_PREFIX @ t))"
    "\<not> cross_site (browser_headers (TOKEN_PREFIX @ t))"
proof -
  let ?v = "OWNER_COOKIE @ lit ''='' @ TOKEN_PREFIX @ t"
  have "split_char 59 ?v = [?v]"
    using token_clean [OF assms] by (intro split_char_single) (auto simp: OWNER_COOKIE_def lit_def)
  moreover have "split_once 61 ?v = Some (OWNER_COOKIE, TOKEN_PREFIX @ t)"
    by (simp add: split_once_def OWNER_COOKIE_def lit_def)
  moreover have "trim OWNER_COOKIE = OWNER_COOKIE" by code_simp
  ultimately have "cookie (browser_headers (TOKEN_PREFIX @ t)) OWNER_COOKIE = Some (TOKEN_PREFIX @ t)"
    using token_clean [OF assms] by (simp add: cookie_def browser_headers_def map_filter_simps lit_def)
  then show "offered (browser_headers (TOKEN_PREFIX @ t)) (csrf_header (browser_headers (TOKEN_PREFIX @ t)) need) = Inr (Some (TOKEN_PREFIX @ t))"
    by (simp add: offered_def header_str_def browser_headers_def csrf_header_def lit_def)
  show "\<not> cross_site (browser_headers (TOKEN_PREFIX @ t))"
    by (simp add: cross_site_def header_str_def browser_headers_def lit_def)
qed

lemma rposition_last: "p x \<Longrightarrow> rposition p (xs @ [x]) = Some (length xs)"
  by (induction xs) auto

lemma create_SomeD:
  assumes "create H ev r1 r2 name scopes c = (Inr (oc, tok), c')"
  obtains t i d where "r1 = Some t" "tok = TOKEN_PREFIX @ t" "devices c' = devices c @ [d]" "s_hash d = H tok" "oc_id oc = s_id d"
    "oc_scopes oc = s_scopes d"
proof -
  obtain t i where r: "r1 = Some t" "r2 = Some i"
    using assms by (auto simp: create_def Let_def split: if_splits option.splits)
  let ?d = "\<lparr>s_id = i, s_name = trim name, s_scopes = remdups_adj (filter (\<lambda>s. s \<in> set scopes) ALL_SCOPES), s_created_at = wall ev,
    s_last_seen = None, s_hash = H (TOKEN_PREFIX @ t)\<rparr>"
  have "oc = public ?d" "tok = TOKEN_PREFIX @ t" "c' = snd (save_clients ev (c\<lparr>devices := devices c @ [?d]\<rparr>))"
    using assms r by (auto simp: create_def Let_def split: if_splits prod.splits sum.splits)
  then show thesis using r by (intro that [of t ?d]) (simp_all add: public_def)
qed

lemma issue_Some: "\<exists>cs'. issue ev (Some code) tok cs = (Inr code, cs')"
  by (simp add: issue_def)

lemma create_client_SomeD:
  assumes "create_client w r1 r2 (Some code) name scopes st = (Inr (c, tok, code'), st1)"
  shows "\<exists>cl. create (w_hash w) (w_env w) r1 r2 name scopes (os_clients st) = (Inr (c, tok), cl) \<and>
    st1 = st\<lparr>os_clients := cl, os_codes := snd (issue (w_env w) (Some code) tok (os_codes st))\<rparr> \<and> code' = code"
proof -
  obtain r cl where e: "create (w_hash w) (w_env w) r1 r2 name scopes (os_clients st) = (r, cl)"
    by (cases "create (w_hash w) (w_env w) r1 r2 name scopes (os_clients st)")
  then obtain c0 t0 where r: "r = Inr (c0, t0)" using assms by (cases r) (auto simp: create_client_def)
  obtain cs' where i: "issue (w_env w) (Some code) t0 (os_codes st) = (Inr code, cs')" using issue_Some by blast
  show ?thesis using assms e r i by (simp add: create_client_def)
qed

lemma authenticate_new:
  assumes "devices c = ds @ [d]" "s_hash d = H tok" "proper (H tok)" "H tok \<noteq> []" "trim tok = tok" "prefix TOKEN_PREFIX tok"
  shows "\<exists>oc c'. authenticate H ev tok c = (Some oc, c') \<and> oc_id oc = s_id d \<and> oc_scopes oc = s_scopes d"
proof -
  have "rposition (\<lambda>d. token_matches (s_hash d) (H tok)) (devices c) = Some (length ds)"
    using assms(1-4) by (simp add: rposition_last tm.own_secret)
  then show ?thesis using assms by (simp add: authenticate_def Let_def public_def nth_append)
qed


definition code_services :: services where
  "code_services = ok_services\<lparr>sv_json := (\<lambda>b. Some \<lparr>jb_type = None, jb_code = Some b, jb_urls = None\<rparr>)\<rparr>"


end
