(* ===== verification/Spec2Isabelle.thy ===== *)
theory Spec2Isabelle
  imports Inference_Queue_Props Background_Tasks_Props Fuzzy_Edit_Props Session_Claims
    Search_Stats_Props Shell_Integration_Props Terminal_Render_Props Workdir_Files_Props
    Editor_Watches_Props Sheet_Pieces_Props Code_Folders_Props Code_Notices_Props
    Text_Util_Props Vcard_Props Relay_Guarantees Kdenlive_Edit_Props Kdenlive_Playlist_Props
    Owner_Throttle_Props Owner_Pages_Props
begin

text \<open>
  Haruspex is a desktop app for local language models: a Svelte front end in several windows over a
  Rust back end (\<open>src-tauri/src\<close>) that owns the inference slots, the background tasks, the files and
  the terminals of the sessions.  This development models the parts of the back end that keep state
  or decide something, and proves what the rest of the app relies on.

  \<^bold>\<open>Parts and how they interact.\<close>  Every window asks \<open>inference_queue.rs\<close> for a slot before it
  talks to a model; long work (a render, a transcription) is a task of \<open>tasks/mod.rs\<close>, saved by
  \<open>db/tasks.rs\<close>; the tools of a chat edit files through \<open>fs_tools/path.rs\<close> and \<open>fs_tools/fuzzy.rs\<close>,
  and the editor windows of \<open>fs_tools/editor.rs\<close> hear of it; the Shell tab reads its terminal through
  \<open>shell/integration.rs\<close>; searches are counted by \<open>proxy/stats.rs\<close> in memory and \<open>db/stats.rs\<close> on
  disk; \<open>code_tools/claims.rs\<close> keeps a Code session in one window, and \<open>code_tools/folders.rs\<close> lets one
  session at a time write in a folder and tells the others what it changed.  When a window is
  destroyed the queue, the watches, the claims and the leases each drop what it held.  A generated sheet of
  sprites is cut into pieces by \<open>image_gen/split.rs\<close>.  Guests of the remote server reach a window through
  \<open>remote/relay.rs\<close>, which keeps their sessions and turns and sends the progress to their streams.
  The Video tab opens the user's Kdenlive project, and rearranges its main track by replacing stretches of its
  text (\<open>video/kdenlive\<close>).  The owner's own devices drive the app over \<open>owner/server.rs\<close>, with tokens, pairing codes and
  trusted computers; guests come in by a link that \<open>remote/auth.rs\<close> checks.

  \<^bold>\<open>Theories.\<close>
  \<^item> \<open>Prelude\<close>: Rust's \<open>Vec\<close> and \<open>HashMap\<close> operations (a hash map is an association list without
    repeated keys, its order standing for the unspecified one), saturating arithmetic; the collections
    \<open>vec_simps\<close> and \<open>store_simps\<close>.
  \<^item> \<open>Interfaces\<close>: the locales \<open>guarded_system\<close> (a step relation with an inductive invariant),
    \<open>keyed_store\<close> and \<open>bounded_ring\<close>, interpreted where a component provides them.
  \<^item> \<open>Rust_Text\<close>, \<open>Rust_Bytes\<close>: strings as lists of Unicode scalar values, the \<open>str\<close> methods used,
    UTF-8 decoding (strict and lossy, proved inverse to encoding), integer parsing.
  \<^item> \<open>Inference_Queue\<close> and its \<open>_Props\<close>: \<open>inference_queue.rs\<close>.  Records \<open>ticket\<close>, \<open>reservation\<close>,
    \<open>admission\<close>, \<open>inner\<close> are the code's structs; \<open>pump\<close>, \<open>enqueue_with\<close>, \<open>cancel\<close>, \<open>release_with\<close>,
    \<open>heartbeat\<close>, \<open>reclaim\<close>, \<open>sweep_expired_at\<close> its methods.  \<open>queue_step\<close> is one call by any window.
  \<^item> \<open>Background_Tasks\<close> and its \<open>_Props\<close>: \<open>tasks/mod.rs\<close>, \<open>tasks/commands.rs\<close> (\<open>task_update\<close>) and
    \<open>db/tasks.rs\<close>; the registry with its table, and the restart that reads it back.
  \<^item> \<open>Fuzzy_Edit\<close> and its \<open>_Props\<close>: \<open>fs_tools/fuzzy.rs\<close>.
  \<^item> \<open>Session_Claims\<close>: \<open>code_tools/claims.rs\<close>, with what the windows believe beside the table.
  \<^item> \<open>Search_Stats\<close> and its \<open>_Props\<close>: \<open>proxy/stats.rs\<close> and \<open>db/stats.rs\<close>; the trait \<open>StatSink\<close> is the
    locale \<open>stat_sink\<close>, interpreted on the database.
  \<^item> \<open>Shell_Integration\<close>, \<open>Shell_Integration_Props\<close>, \<open>Terminal_Render_Props\<close>: \<open>shell/integration.rs\<close>, the
    marker parser with its rings, and the rendering.
  \<^item> \<open>Workdir_Files\<close> and its \<open>_Props\<close>: \<open>fs_tools/path.rs\<close> off Windows, over a file system with links.
  \<^item> \<open>Editor_Watches\<close> and its \<open>_Props\<close>: \<open>fs_tools/editor.rs\<close>.
  \<^item> \<open>Code_Folders\<close>, \<open>Code_Folders_Props\<close>, \<open>Code_Notices_Props\<close>: \<open>code_tools/folders.rs\<close> and
    \<open>db/code_notices.rs\<close>; folder keys, the writer lease, the notices and their table.
  \<^item> \<open>Sheet_Split\<close>, \<open>Sheet_Islands_Props\<close>, \<open>Sheet_Join_Props\<close>, \<open>Sheet_Pieces_Props\<close>: \<open>image_gen/split.rs\<close>;
    labelling, joining (a union-find with path halving), cropping, lobes, reading order.
  \<^item> \<open>Text_Util\<close> and its \<open>_Props\<close>: \<open>text_util.rs\<close>; cutting at byte counts, redacting secrets, dropping
    queries.
  \<^item> \<open>Vcard\<close> and its \<open>_Props\<close>: \<open>integrations/dav/vcard.rs\<close>; \<open>None\<close> of the outermost option is a panic.
  \<^item> \<open>Relay\<close>, \<open>Relay_Props\<close>, \<open>Relay_Guarantees\<close>: \<open>remote/relay.rs\<close>, the broker between the guests'
    browsers and the webview that runs their turns, and the reader of its channel, \<open>event_stream\<close> of
    \<open>remote/server.rs\<close>; the history of a channel is the list of its events.
  \<^item> \<open>Kdenlive_Xml\<close>, \<open>Kdenlive_Doc\<close>, \<open>Kdenlive_Layout\<close>, \<open>Kdenlive_Edit\<close>: \<open>video/kdenlive/xml.rs\<close> (the span
    index and the replacements), \<open>doc.rs\<close> (what a project says) and \<open>edit.rs\<close> (the layout of the main track,
    then every replacement an edit makes); their properties are in \<open>Kdenlive_Xml_Props\<close> to \<open>Kdenlive_Playlist_Props\<close>,
    evaluated on the projects of \<open>Kdenlive_Demo\<close>.
  \<^item> \<open>Owner_Devices\<close> (\<open>owner/clients.rs\<close>, \<open>owner/pairing.rs\<close>, \<open>remote/auth.rs\<close>), \<open>Owner_Trust\<close> (\<open>owner/trust.rs\<close>, with
    the parser of \<open>IpAddr\<close>), \<open>Owner_Server\<close> and \<open>Owner_Pages\<close> (\<open>owner/server.rs\<close>, \<open>audio_cache/range.rs\<close>, and \<open>admit\<close> and
    \<open>index\<close> of \<open>remote/server.rs\<close>): \<open>serve\<close> is one request on one route, and gives the calls made to the services behind it.
    Their properties are in \<open>Owner_Devices_Props\<close>, \<open>Owner_Access_Props\<close>, \<open>Owner_Throttle_Props\<close> and \<open>Owner_Pages_Props\<close>;
    the locale \<open>secret_check\<close> is what callers rely on when they compare secrets.

  \<^bold>\<open>What the lemmas show.\<close>  Each \<open>_Props\<close> theory has an invariant of its component, the lemma that
  every operation keeps it, its lift to reachable states by \<open>guarded_system\<close>, and the numbered
  properties.  They cover: the queue (unique ids, no stalled lane, order, capacity, background
  priority, cancellation, closing windows, leases); the tasks (table and memory agree, rows round
  trip, ended tasks, notices, restart); edits (one place, ambiguity); the shell (chunks, ring offsets,
  captured commands, contiguous running output, rendering); files (confinement, old-or-new writes,
  windows of text, listings, free names); watches (counts, exact notification, saves); claims and
  handoffs; statistics; folders (one writer, every notice once, what pruning keeps); sheets (islands are
  connected components, groups are clusters, each sprite in one piece); redaction and contact cards (what leaves the process, what is
  read back, what a bad line costs); the relay (limits, what a guest's reader sees, ended turns, the sweep);
  video projects (what an edit does not own survives byte for byte, clips of a playlist never overlap, playlists
  read back, the user's crossfades stay, groups follow their clips); access (every call needs its scope, revoked
  devices stay out, codes work once, wrong tokens are limited one request after another, pages stay in their folder).

  \<^bold>\<open>Bounds and fuel.\<close>  Path walking follows at most 40 links (\<open>MAX_LINKS\<close>, the kernel's limit) and
  then fails, as the kernel does.  The walk over the shell's markers is bounded by their number, which
  suffices since every cycle found uses a marker.  The loops over a stack of pixels and the union-find's
  walk are \<open>partial_function (option)\<close>, where \<open>None\<close> is a loop that does not return; they are proved
  to return.  All other functions terminate by a measure.
  Counters and offsets are naturals where the code's 64 bits cannot be reached; the column of the
  rendering wraps at 64 bits as in a release build; parsed integers are bounded by their width.
  Frames of a timeline are integers; in the Kdenlive theories a string is its UTF-8 bytes, since spans are byte offsets, and
  \<open>None\<close> is the panic of a slice off a character boundary.  Octets and segments of addresses and the folded difference of
  two secrets are words; the count of failures is a natural, as it cannot reach 32 bits in a minute.

  \<^bold>\<open>Parameters.\<close>  Third-party code is an argument: NFKC (\<open>unicode_normalization\<close>), JSON
  (\<open>serde_json\<close>), base64 and percent decoding, local dates (\<open>chrono\<close>), the file watcher (\<open>notify\<close>), the
  success of an SQL statement, \<open>tokio\<close>'s \<open>recv\<close>, \<open>f32\<close> and \<open>f64\<close> arithmetic (records of operations), \<open>quick_xml\<close>'s
  events with their positions and its \<open>escape\<close>; so are SHA-256, the lookup of host names, the clock, random ids, the content hash and what a fallible
  system call answers.

  \<^bold>\<open>Not modelled.\<close>  The servers, sidecars, model downloads and HTTP clients (process and network
  I/O), the generation of documents and media, the Tauri glue, the databases other than the two
  above, the Windows branches of path handling (but for the web client's paths), TLS, the limit on a request's body and
  the header every answer of the owner's server carries; PROJECT.json lists every part with its reason.
\<close>

end
